(* ===== verification/C_Prelude.thy ===== *)
theory C_Prelude
  imports Main
begin

text \<open>
  The part of the C machine that every component of the library uses.

  \<^item> \<open>c_error\<close> and \<open>'a res\<close>: a call either returns a value (\<open>Inr\<close>) or stops the program
    (\<open>Inl\<close>): a failed \<open>assert\<close>, a null or dangling pointer, an access outside an
    allocated block, a read of a byte that was never written, an \<open>int\<close> that leaves its
    32-bit range, a division by zero, a wait that the calling thread alone cannot end, or a loop that exceeds the bound its model carries.
    \<open>rbind\<close> sequences two calls, \<open>c_assert\<close> is the C macro.
  \<^item> \<open>mem\<close>: an allocated block of bytes. A byte is \<open>None\<close> until it is written, as after
    \<open>malloc\<close>. \<open>mem_copy\<close> is \<open>memcpy\<close> into a block, which may copy bytes never
    written, \<open>mem_write\<close> the same for bytes that have a value, \<open>mem_range\<close> takes a range of a
    block, \<open>mem_read\<close> uses the values in a range,
    \<open>c_str\<close> reads a zero terminated string the way \<open>strlen\<close> and \<open>%s\<close> do.
  \<^item> \<open>c_int\<close>: the result of an \<open>int\<close> computation, an error outside 32 bits.

  Allocation is taken to succeed: the sources rarely test for \<open>NULL\<close>.
\<close>

named_theorems res_simps \<open>rules that evaluate results of C calls\<close>
named_theorems mem_simps \<open>rules about blocks of bytes\<close>

section \<open>Results of C calls\<close>

datatype c_error =
    Assert_fail
  | Null_deref
  | Bad_pointer
  | Out_of_bounds
  | Uninit_read
  | Int_overflow
  | Div_by_zero
  | Would_block
  | Out_of_fuel

type_synonym 'a res = "c_error + 'a"

definition rbind :: "'a res \<Rightarrow> ('a \<Rightarrow> 'b res) \<Rightarrow> 'b res" where
  "rbind m f = (case m of Inl e \<Rightarrow> Inl e | Inr x \<Rightarrow> f x)"

definition c_assert :: "bool \<Rightarrow> unit res" where
  "c_assert b = (if b then Inr () else Inl Assert_fail)"

definition INT_MAX :: int where
  "INT_MAX = 2147483647"

definition INT_MIN :: int where
  "INT_MIN = -2147483648"

text \<open>What a 16 bit unsigned variable holds after an assignment.\<close>

definition u16 :: "nat \<Rightarrow> nat" where
  "u16 n = n mod 2 ^ 16"

lemma u16_id [simp]: "n < 65536 \<Longrightarrow> u16 n = n"
  by (simp add: u16_def)

definition c_int :: "int \<Rightarrow> int res" where
  "c_int i = (if INT_MIN \<le> i \<and> i \<le> INT_MAX then Inr i else Inl Int_overflow)"

text \<open>A loop that calls \<open>f\<close> once per element and stops at the first error.\<close>

fun fold_res :: "('a \<Rightarrow> 's \<Rightarrow> 's res) \<Rightarrow> 'a list \<Rightarrow> 's \<Rightarrow> 's res" where
  "fold_res f [] s = Inr s"
| "fold_res f (x # xs) s = rbind (f x s) (fold_res f xs)"

lemma rbind_Inl [simp, res_simps]: "rbind (Inl e) f = Inl e"
  by (simp add: rbind_def)

lemma rbind_Inr [simp, res_simps]: "rbind (Inr x) f = f x"
  by (simp add: rbind_def)

lemma rbind_eq_Inr [res_simps]:
  "rbind m f = Inr y \<longleftrightarrow> (\<exists>x. m = Inr x \<and> f x = Inr y)"
  by (cases m) simp_all

lemma rbind_eq_Inl:
  "rbind m f = Inl e \<longleftrightarrow> m = Inl e \<or> (\<exists>x. m = Inr x \<and> f x = Inl e)"
  by (cases m) simp_all

lemma rbind_assoc: "rbind (rbind m f) g = rbind m (\<lambda>x. rbind (f x) g)"
  by (cases m) simp_all

lemma rbind_unit [simp]: "rbind m Inr = m"
  by (cases m) simp_all

lemma c_assert_True [simp, res_simps]: "c_assert True = Inr ()"
  by (simp add: c_assert_def)

lemma c_assert_False [simp, res_simps]: "c_assert False = Inl Assert_fail"
  by (simp add: c_assert_def)

lemma c_assert_eq_Inr [simp, res_simps]: "c_assert b = Inr u \<longleftrightarrow> b"
  by (simp add: c_assert_def)

lemma c_assert_eq_Inl [simp]: "c_assert b = Inl e \<longleftrightarrow> \<not> b \<and> e = Assert_fail"
  by (auto simp: c_assert_def)

lemma c_int_eq_Inr [simp, res_simps]:
  "c_int i = Inr j \<longleftrightarrow> j = i \<and> INT_MIN \<le> i \<and> i \<le> INT_MAX"
  by (auto simp: c_int_def)

lemma c_int_in_range: "INT_MIN \<le> i \<Longrightarrow> i \<le> INT_MAX \<Longrightarrow> c_int i = Inr i"
  by (simp add: c_int_def)

lemma c_int_nonneg [simp]: "0 \<le> i \<Longrightarrow> i \<le> INT_MAX \<Longrightarrow> c_int i = Inr i"
  by (simp add: c_int_def INT_MIN_def)

lemma fold_res_eta:
  "fold_res f [] = Inr" "fold_res f (x # xs) = (\<lambda>s. rbind (f x s) (fold_res f xs))"
  by (rule ext, simp)+

lemma fold_res_append: "fold_res f (xs @ ys) s = rbind (fold_res f xs s) (fold_res f ys)"
  by (induction xs arbitrary: s) (simp_all add: rbind_def split: sum.split)

lemma fold_res_invariant:
  assumes step: "\<And>x s s'. f x s = Inr s' \<Longrightarrow> P s \<Longrightarrow> P s'"
  shows "fold_res f xs s = Inr s' \<Longrightarrow> P s \<Longrightarrow> P s'"
  by (induction xs arbitrary: s) (auto simp: rbind_eq_Inr dest: step)

lemma in_set_tlD: "x \<in> set (tl xs) \<Longrightarrow> x \<in> set xs"
  by (cases xs) auto

lemma take_add_eq_append:
  "take (length a + length b) xs = a @ b \<longleftrightarrow>
     take (length a) xs = a \<and> take (length b) (drop (length a) xs) = b"
proof
  assume eq: "take (length a + length b) xs = a @ b"
  have "take (length a) xs = take (length a) (take (length a + length b) xs)" by simp
  moreover have "take (length b) (drop (length a) xs) = drop (length a) (take (length a + length b) xs)"
    by (simp add: drop_take)
  ultimately show "take (length a) xs = a \<and> take (length b) (drop (length a) xs) = b"
    by (simp add: eq)
qed (simp add: take_add)

section \<open>Blocks of memory\<close>

type_synonym mem = "char option list"

definition c_malloc :: "nat \<Rightarrow> mem" where
  "c_malloc n = replicate n None"

definition mem_copy :: "mem \<Rightarrow> int \<Rightarrow> mem \<Rightarrow> mem res" where
  "mem_copy m off bs =
     (if 0 \<le> off \<and> off + int (length bs) \<le> int (length m)
      then Inr (take (nat off) m @ bs @ drop (nat off + length bs) m)
      else Inl Out_of_bounds)"

definition mem_write :: "mem \<Rightarrow> int \<Rightarrow> char list \<Rightarrow> mem res" where
  "mem_write m off bs = mem_copy m off (map Some bs)"

definition mem_range :: "mem \<Rightarrow> int \<Rightarrow> int \<Rightarrow> mem res" where
  "mem_range m off len =
     (if 0 \<le> off \<and> 0 \<le> len \<and> off + len \<le> int (length m)
      then Inr (take (nat len) (drop (nat off) m)) else Inl Out_of_bounds)"

definition mem_put :: "mem \<Rightarrow> int \<Rightarrow> char \<Rightarrow> mem res" where
  "mem_put m off c =
     (if 0 \<le> off \<and> off < int (length m) then Inr (m[nat off := Some c])
      else Inl Out_of_bounds)"

definition mem_get :: "mem \<Rightarrow> int \<Rightarrow> char res" where
  "mem_get m off =
     (if 0 \<le> off \<and> off < int (length m)
      then (case m ! nat off of None \<Rightarrow> Inl Uninit_read | Some c \<Rightarrow> Inr c)
      else Inl Out_of_bounds)"

fun all_init :: "mem \<Rightarrow> char list res" where
  "all_init [] = Inr []"
| "all_init (None # m) = Inl Uninit_read"
| "all_init (Some c # m) = rbind (all_init m) (\<lambda>cs. Inr (c # cs))"

definition mem_read :: "mem \<Rightarrow> int \<Rightarrow> int \<Rightarrow> char list res" where
  "mem_read m off len =
     (if 0 \<le> off \<and> 0 \<le> len \<and> off + len \<le> int (length m)
      then all_init (take (nat len) (drop (nat off) m))
      else Inl Out_of_bounds)"

fun c_str :: "mem \<Rightarrow> char list res" where
  "c_str [] = Inl Out_of_bounds"
| "c_str (None # m) = Inl Uninit_read"
| "c_str (Some c # m) =
     (if c = CHR 0x00 then Inr [] else rbind (c_str m) (\<lambda>cs. Inr (c # cs)))"

definition c_str_at :: "mem \<Rightarrow> int \<Rightarrow> char list res" where
  "c_str_at m off =
     (if 0 \<le> off \<and> off \<le> int (length m) then c_str (drop (nat off) m)
      else Inl Out_of_bounds)"

text \<open>A C string literal or a caller supplied C string holds no zero byte.\<close>

definition no_nul :: "char list \<Rightarrow> bool" where
  "no_nul s \<longleftrightarrow> CHR 0x00 \<notin> set s"

lemma length_c_malloc [simp, mem_simps]: "length (c_malloc n) = n"
  by (simp add: c_malloc_def)

lemma all_init_map_Some [simp, mem_simps]: "all_init (map Some cs) = Inr cs"
  by (induction cs) simp_all

lemma all_init_Inr_iff [mem_simps]: "all_init m = Inr cs \<longleftrightarrow> m = map Some cs"
  by (induction m arbitrary: cs rule: all_init.induct) (auto simp: rbind_eq_Inr)

lemma c_str_append_nul [simp, mem_simps]:
  "no_nul s \<Longrightarrow> c_str (map Some s @ Some (CHR 0x00) # m) = Inr s"
  by (induction s) (auto simp: no_nul_def)

lemma c_str_Inr_no_nul: "c_str m = Inr s \<Longrightarrow> no_nul s"
  by (induction m arbitrary: s rule: c_str.induct)
     (auto simp: no_nul_def rbind_eq_Inr split: if_splits)

lemma no_nul_Nil [simp]: "no_nul []"
  by (simp add: no_nul_def)

lemma no_nul_Cons [simp]: "no_nul (c # s) \<longleftrightarrow> c \<noteq> CHR 0x00 \<and> no_nul s"
  by (auto simp: no_nul_def)

lemma no_nul_append [simp]: "no_nul (s @ t) \<longleftrightarrow> no_nul s \<and> no_nul t"
  by (auto simp: no_nul_def)

lemma mem_write_Inr_iff [mem_simps]:
  "mem_write m off bs = Inr m' \<longleftrightarrow>
     0 \<le> off \<and> off + int (length bs) \<le> int (length m) \<and>
     m' = take (nat off) m @ map Some bs @ drop (nat off + length bs) m"
  by (auto simp: mem_write_def mem_copy_def)

lemma mem_copy_Inr_iff [mem_simps]:
  "mem_copy m off bs = Inr m' \<longleftrightarrow>
     0 \<le> off \<and> off + int (length bs) \<le> int (length m) \<and>
     m' = take (nat off) m @ bs @ drop (nat off + length bs) m"
  by (auto simp: mem_copy_def)

lemma mem_copy_length: "mem_copy m off bs = Inr m' \<Longrightarrow> length m' = length m"
  by (auto simp: mem_copy_Inr_iff)

lemma mem_write_length: "mem_write m off bs = Inr m' \<Longrightarrow> length m' = length m"
  by (auto simp: mem_write_Inr_iff)

lemma mem_put_Inr_iff [mem_simps]:
  "mem_put m off c = Inr m' \<longleftrightarrow>
     0 \<le> off \<and> off < int (length m) \<and> m' = m[nat off := Some c]"
  by (auto simp: mem_put_def)

text \<open>A zero byte stored right behind a range terminates it as a C string.\<close>

lemma c_str_at_terminated:
  assumes "0 \<le> off" "take n (drop (nat off) m) = map Some s" "length s = n"
    and "nat off + n < length m" "m ! (nat off + n) = Some (CHR 0x00)" "no_nul s"
  shows "c_str_at m off = Inr s"
proof -
  have "drop (nat off) m = take n (drop (nat off) m) @ drop n (drop (nat off) m)"
    by (rule append_take_drop_id [symmetric])
  also have "drop n (drop (nat off) m) = Some (CHR 0x00) # drop (Suc (nat off + n)) m"
    using assms(4,5) Cons_nth_drop_Suc [of "nat off + n" m] by (simp add: add.commute)
  finally have "drop (nat off) m = map Some s @ Some (CHR 0x00) # drop (Suc (nat off + n)) m"
    using assms(2) by simp
  then show ?thesis
    using assms by (simp add: c_str_at_def)
qed

section \<open>Characters and decimal output\<close>

abbreviation byte :: "char \<Rightarrow> nat" where
  "byte c \<equiv> of_char c"

definition c_toupper :: "char \<Rightarrow> char" where
  "c_toupper c = (if 97 \<le> byte c \<and> byte c \<le> 122 then char_of (byte c - 32) else c)"

definition upper :: "char list \<Rightarrow> char list" where
  "upper s = map c_toupper s"

text \<open>The text \<open>printf\<close> produces for \<open>%d\<close>.\<close>

definition digit_char :: "nat \<Rightarrow> char" where
  "digit_char d = char_of (48 + d)"

fun dec_nat :: "nat \<Rightarrow> char list" where
  "dec_nat n = (if n < 10 then [digit_char n] else dec_nat (n div 10) @ [digit_char (n mod 10)])"

declare dec_nat.simps [simp del]

definition c_dec :: "int \<Rightarrow> char list" where
  "c_dec i = (if i < 0 then CHR ''-'' # dec_nat (nat (- i)) else dec_nat (nat i))"

definition crlf :: "char list" where
  "crlf = [CHR 0x0D, CHR 0x0A]"

text \<open>A string as C stores it.\<close>

definition c_string :: "char list \<Rightarrow> mem" where
  "c_string s = map Some s @ [Some (CHR 0x00)]"

lemma c_str_c_string [simp, mem_simps]: "no_nul s \<Longrightarrow> c_str (c_string s) = Inr s"
  using c_str_append_nul [of s "[]"] by (simp add: c_string_def)

lemma byte_char_of [simp]: "n < 256 \<Longrightarrow> byte (char_of n) = n"
  by simp

lemmas char_eval = c_toupper_def char_of_def bit_0

lemma byte_toupper:
  "byte (c_toupper c) = (if 97 \<le> byte c \<and> byte c \<le> 122 then byte c - 32 else byte c)"
  by (auto simp: c_toupper_def)

lemma c_toupper_nul [simp]: "c_toupper c = CHR 0x00 \<longleftrightarrow> c = CHR 0x00"
proof -
  have "byte (c_toupper c) = byte (CHR 0x00) \<longleftrightarrow> byte c = byte (CHR 0x00)"
    by (simp add: byte_toupper)
  then show ?thesis by (simp only: of_char_eq_iff)
qed

lemma c_toupper_idem [simp]: "c_toupper (c_toupper c) = c_toupper c"
  by (subst c_toupper_def) (auto simp: byte_toupper)

lemma upper_simps [simp]:
  "upper [] = []" "upper (c # s) = c_toupper c # upper s" "upper (s @ t) = upper s @ upper t"
  "length (upper s) = length s" "upper (upper s) = upper s"
  by (simp_all add: upper_def)

lemma no_nul_upper [simp]: "no_nul (upper s) \<longleftrightarrow> no_nul s"
  by (induction s) auto

lemma byte_digit_char: "d < 10 \<Longrightarrow> byte (digit_char d) = 48 + d"
  by (simp add: digit_char_def)

lemma digit_char_nul [simp]: "d < 10 \<Longrightarrow> digit_char d \<noteq> CHR 0x00"
  using byte_digit_char [of d] by (auto simp del: byte_char_of simp flip: of_char_eq_iff [of "digit_char d", where 'a = nat])

lemma no_nul_dec_nat [simp]: "no_nul (dec_nat n)"
proof (induction n rule: dec_nat.induct)
  case (1 n)
  then show ?case by (subst dec_nat.simps) auto
qed

lemma dec_nat_not_Nil [simp]: "dec_nat n \<noteq> []"
  by (subst dec_nat.simps) simp

lemma no_nul_c_dec [simp]: "no_nul (c_dec i)"
  by (simp add: c_dec_def)

lemma c_dec_not_Nil [simp]: "c_dec i \<noteq> []"
  by (simp add: c_dec_def)

lemma crlf_simps [simp]: "no_nul crlf" "length crlf = 2" "crlf \<noteq> []"
  by (simp_all add: crlf_def)

end
