(* ===== verification/C_Ring.thy ===== *)
theory C_Ring
  imports C_Prelude
begin

text \<open>
  Circular buffers, the representation that \<^verbatim>\<open>src/common/queue.c\<close>, \<^verbatim>\<open>functor_list.c\<close> of the run
  loops and the free list of \<^verbatim>\<open>src/runloop/kqueue_runloop/event_table.c\<close> share: \<open>ring_rep buf n f xs\<close> says that the
  first \<open>n\<close> cells of \<open>buf\<close>, read circularly from cell \<open>f\<close>, hold the sequence \<open>xs\<close>.
  The locale \<open>bounded_fifo\<close> is the contract the two queues are shown to meet.
\<close>

section \<open>Circular buffers\<close>

definition ring_rep :: "'a option list \<Rightarrow> nat \<Rightarrow> nat \<Rightarrow> 'a list \<Rightarrow> bool" where
  "ring_rep buf n f xs \<longleftrightarrow>
     f < n \<and> n \<le> length buf \<and> length xs \<le> n \<and>
     (\<forall>i < length xs. buf ! ((f + i) mod n) = Some (xs ! i))"

lemma ring_rep_Nil [simp]: "ring_rep buf n f [] \<longleftrightarrow> f < n \<and> n \<le> length buf"
  by (auto simp: ring_rep_def)

lemma mod_add_cancel:
  fixes i j n f :: nat
  assumes "(f + i) mod n = (f + j) mod n" "i < n" "j < n"
  shows "i = j"
  using assms
proof (induction f)
  case (Suc f)
  then have "Suc (f + i) mod n = Suc (f + j) mod n" by simp
  then have "(f + i) mod n = (f + j) mod n"
    by (simp add: mod_Suc split: if_splits)
  with Suc show ?case by simp
qed simp

lemma ring_put:
  assumes rep: "ring_rep buf n f xs" and "length xs < n"
  shows "ring_rep (buf[(f + length xs) mod n := Some x]) n f (xs @ [x])"
proof -
  from rep have n: "0 < n" "n \<le> length buf" by (auto simp: ring_rep_def)
  have k: "(f + length xs) mod n < length buf"
    using n by (meson mod_less_divisor order_less_le_trans)
  have "buf[(f + length xs) mod n := Some x] ! ((f + i) mod n) = Some ((xs @ [x]) ! i)"
    if "i < length (xs @ [x])" for i
  proof (cases "i = length xs")
    case True
    with k show ?thesis by simp
  next
    case False
    with that have "i < length xs" by simp
    moreover from this have "(f + i) mod n \<noteq> (f + length xs) mod n"
      using mod_add_cancel [of f i n "length xs"] assms(2) by auto
    ultimately show ?thesis using rep by (simp add: ring_rep_def nth_append)
  qed
  with rep assms(2) show ?thesis by (auto simp: ring_rep_def)
qed

lemma ring_get:
  assumes rep: "ring_rep buf n f (x # xs)"
  shows "buf ! f = Some x" "ring_rep buf n ((f + 1) mod n) xs"
proof -
  from rep show "buf ! f = Some x"
    by (auto simp: ring_rep_def dest!: spec [of _ 0])
  have "buf ! (((f + 1) mod n + i) mod n) = Some (xs ! i)" if "i < length xs" for i
  proof -
    have "((f + 1) mod n + i) mod n = (f + Suc i) mod n" by (simp add: mod_add_left_eq)
    with rep that show ?thesis by (auto simp: ring_rep_def dest: spec [of _ "Suc i"])
  qed
  with rep show "ring_rep buf n ((f + 1) mod n) xs"
    by (auto simp: ring_rep_def intro!: mod_less_divisor)
qed

lemma ring_next_eq_first_iff:
  fixes f k n :: nat
  assumes "f < n" "k \<le> n"
  shows "(f + k) mod n = f \<longleftrightarrow> k = 0 \<or> k = n"
  using assms mod_add_cancel [of f k n 0] by (cases "k = n") auto

section \<open>Bounded first in, first out queues\<close>

fun get_n :: "('q \<Rightarrow> ('a \<times> 'q) res) \<Rightarrow> nat \<Rightarrow> 'q \<Rightarrow> ('a list \<times> 'q) res" where
  "get_n get 0 q = Inr ([], q)"
| "get_n get (Suc n) q =
     rbind (get q) (\<lambda>(x, q1). rbind (get_n get n q1) (\<lambda>(xs, q2). Inr (x # xs, q2)))"

locale bounded_fifo =
  fixes invar :: "'q \<Rightarrow> bool"
    and items :: "'q \<Rightarrow> 'a list"
    and capacity :: "'q \<Rightarrow> nat"
    and put :: "'q \<Rightarrow> 'a \<Rightarrow> 'q res"
    and get :: "'q \<Rightarrow> ('a \<times> 'q) res"
    and size :: "'q \<Rightarrow> int"
  assumes put_law:
      "\<lbrakk> invar q; length (items q) < capacity q \<rbrakk> \<Longrightarrow>
       \<exists>q'. put q x = Inr q' \<and> invar q' \<and> items q' = items q @ [x] \<and> capacity q' = capacity q"
    and put_full: "\<lbrakk> invar q; length (items q) = capacity q \<rbrakk> \<Longrightarrow> \<exists>e. put q x = Inl e"
    and get_law:
      "\<lbrakk> invar q; items q = x # xs \<rbrakk> \<Longrightarrow>
       \<exists>q'. get q = Inr (x, q') \<and> invar q' \<and> items q' = xs \<and> capacity q' = capacity q"
    and get_empty: "\<lbrakk> invar q; items q = [] \<rbrakk> \<Longrightarrow> \<exists>e. get q = Inl e"
    and size_law: "invar q \<Longrightarrow> size q = int (length (items q))"
    and bound: "invar q \<Longrightarrow> length (items q) \<le> capacity q"
begin

lemma put_all:
  "\<lbrakk> invar q; length (items q) + length xs \<le> capacity q \<rbrakk> \<Longrightarrow>
   \<exists>q'. fold_res (\<lambda>x q. put q x) xs q = Inr q' \<and> invar q' \<and> items q' = items q @ xs \<and>
        capacity q' = capacity q"
proof (induction xs arbitrary: q)
  case (Cons x xs)
  from put_law [OF Cons.prems(1), of x] Cons.prems(2) obtain q1 where
    "put q x = Inr q1" "invar q1" "items q1 = items q @ [x]" "capacity q1 = capacity q" by auto
  with Cons.IH [of q1] Cons.prems show ?case by auto
qed simp

lemma get_all:
  "invar q \<Longrightarrow> n \<le> length (items q) \<Longrightarrow>
   \<exists>q'. get_n get n q = Inr (take n (items q), q') \<and> invar q' \<and> items q' = drop n (items q) \<and>
        capacity q' = capacity q"
proof (induction n arbitrary: q)
  case (Suc n)
  then obtain x xs where xs: "items q = x # xs" by (cases "items q") auto
  from get_law [OF Suc.prems(1) this] obtain q1 where
    "get q = Inr (x, q1)" "invar q1" "items q1 = xs" "capacity q1 = capacity q" by auto
  with Suc.IH [of q1] Suc.prems xs show ?case by auto
qed simp

text \<open>A batch that fits comes out in the order it went in.\<close>

lemma put_get:
  assumes "invar q" "items q = []" "length xs \<le> capacity q"
  shows "\<exists>q' q''. fold_res (\<lambda>x q. put q x) xs q = Inr q' \<and>
           get_n get (length xs) q' = Inr (xs, q'') \<and>
           invar q'' \<and> items q'' = [] \<and> capacity q'' = capacity q"
proof -
  from put_all [OF assms(1), of xs] assms obtain q' where
    q': "fold_res (\<lambda>x q. put q x) xs q = Inr q'" "invar q'" "items q' = xs"
      "capacity q' = capacity q" by auto
  with get_all [of q' "length xs"] show ?thesis by auto
qed

lemma put_iff:
  assumes "invar q"
  shows "(\<exists>q'. put q x = Inr q') \<longleftrightarrow> size q < int (capacity q)"
proof (cases "length (items q) < capacity q")
  case True
  with assms put_law [of q x] show ?thesis by (auto simp: size_law)
next
  case False
  with assms bound [of q] have "length (items q) = capacity q" by simp
  with assms put_full [of q x] show ?thesis by (auto simp: size_law)
qed

end

end
