(* ===== verification/C_Queue.thy ===== *)
theory C_Queue
  imports C_Ring
begin

text \<open>
  The blocking queue of sockets of \<^verbatim>\<open>src/common/queue.c\<close>, in its compiled configuration
  (\<open>QUEUE_CIRCULAR\<close>, \<open>QUEUE_DYN_CAPACITY\<close>), shared by a listener thread and its workers.

  The record has the fields of \<open>struct Queue_s\<close>; the mutex and the two condition variables are
  part of the system state \<open>qsys\<close>. The \<open>uint32_t\<close> fields are naturals with \<open>mod 2 ^ 32\<close>
  written out. \<open>Queue_add\<close> and \<open>Queue_remove\<close> hold the mutex from their first statement to
  their last, and give it up only inside \<open>pthread_cond_wait\<close>, so one visit of the mutex is one
  step: it ends with the call done (\<open>Some\<close>, with whether the condition variable was
  broadcast) or with the thread waiting (\<open>None\<close>).

  \<open>qstep\<close> interleaves the visits of any number of threads, each with a list of calls still to
  make; a waiting thread may also be woken without cause, as POSIX allows. The invariant of the
  reachable states gives first in, first out delivery and the absence of lost wake-ups.
\<close>

type_synonym SocketFD = int

definition u32 :: "nat \<Rightarrow> nat" where
  "u32 n = n mod 2 ^ 32"

record Queue =
  slots :: "SocketFD option list"
  count_of :: nat
  max_size :: nat
  next_ix :: nat
  first_ix :: nat
  full_flag :: bool

definition q_size :: "Queue \<Rightarrow> nat" where
  "q_size qr =
     (if first_ix qr \<le> next_ix qr then next_ix qr - first_ix qr
      else u32 (u32 (next_ix qr + max_size qr) + 2 ^ 32 - first_ix qr))"

definition is_full :: "Queue \<Rightarrow> bool" where
  "is_full qr \<longleftrightarrow> first_ix qr = next_ix qr \<and> 0 < count_of qr"

definition is_empty :: "Queue \<Rightarrow> bool" where
  "is_empty qr \<longleftrightarrow> first_ix qr = next_ix qr \<and> count_of qr = 0"

text \<open>\<open>% max_size\<close> with \<open>max_size = 0\<close> is not reached: the asserts and the waits come first.\<close>

definition advance_next_pointer :: "Queue \<Rightarrow> Queue res" where
  "advance_next_pointer qr =
     rbind (c_assert (\<not> is_full qr)) (\<lambda>_.
     let qr1 = qr\<lparr>next_ix := u32 (next_ix qr + 1) mod max_size qr\<rparr> in
     Inr (qr1\<lparr>full_flag := is_full qr1\<rparr>))"

definition advance_first_pointer :: "Queue \<Rightarrow> Queue res" where
  "advance_first_pointer qr =
     rbind (c_assert (\<not> is_empty qr)) (\<lambda>_.
     let qr1 = qr\<lparr>first_ix := u32 (first_ix qr + 1) mod max_size qr\<rparr> in
     Inr (qr1\<lparr>full_flag := is_full qr1\<rparr>))"

definition q_full :: "Queue \<Rightarrow> bool \<times> Queue" where
  "q_full qr = (is_full qr, qr\<lparr>full_flag := is_full qr\<rparr>)"

definition Queue_new_with_capacity :: "nat \<Rightarrow> Queue" where
  "Queue_new_with_capacity capacity =
     \<lparr>slots = replicate (u32 capacity) None, count_of = 0, max_size = u32 capacity,
      next_ix = 0, first_ix = 0, full_flag = False\<rparr>"

definition QUEUE_DEFAULT_SIZE :: nat where
  "QUEUE_DEFAULT_SIZE = 10000"

definition Queue_new :: Queue where
  "Queue_new =
     \<lparr>slots = replicate QUEUE_DEFAULT_SIZE None, count_of = 0, max_size = QUEUE_DEFAULT_SIZE,
      next_ix = 0, first_ix = 0, full_flag = False\<rparr>"

definition read_slot :: "Queue \<Rightarrow> nat \<Rightarrow> SocketFD res" where
  "read_slot qr i =
     (if i < length (slots qr) then (case slots qr ! i of None \<Rightarrow> Inl Uninit_read | Some s \<Rightarrow> Inr s)
      else Inl Out_of_bounds)"

definition write_slot :: "Queue \<Rightarrow> nat \<Rightarrow> SocketFD \<Rightarrow> Queue res" where
  "write_slot qr i s =
     (if i < length (slots qr) then Inr (qr\<lparr>slots := (slots qr)[i := Some s]\<rparr>) else Inl Out_of_bounds)"

text \<open>One visit of the mutex by a thread in \<open>Queue_remove\<close> or \<open>Queue_add\<close>.\<close>

definition Queue_remove_visit :: "Queue \<Rightarrow> (SocketFD \<times> bool \<times> Queue) option res" where
  "Queue_remove_visit qr =
     (if is_empty qr then Inr None
      else
        rbind (read_slot qr (first_ix qr)) (\<lambda>r.
        rbind (advance_first_pointer qr) (\<lambda>qr1.
        let qr2 = qr1\<lparr>count_of := u32 (count_of qr1 + 2 ^ 32 - 1)\<rparr> in
        Inr (Some (r, count_of qr2 < max_size qr2, qr2)))))"

definition Queue_add_visit :: "Queue \<Rightarrow> SocketFD \<Rightarrow> (bool \<times> Queue) option res" where
  "Queue_add_visit qr sock =
     (if count_of qr = max_size qr then Inr None
      else
        rbind (write_slot qr (next_ix qr) sock) (\<lambda>qr1.
        rbind (advance_next_pointer qr1) (\<lambda>qr2.
        let qr3 = qr2\<lparr>count_of := u32 (count_of qr2 + 1)\<rparr> in
        Inr (Some (count_of qr3 = 1, qr3)))))"

text \<open>The two calls as a thread that shares the queue with nobody sees them.\<close>

definition Queue_remove :: "Queue \<Rightarrow> (SocketFD \<times> Queue) res" where
  "Queue_remove qr =
     rbind (Queue_remove_visit qr) (\<lambda>v.
       case v of None \<Rightarrow> Inl Would_block | Some (r, _, qr1) \<Rightarrow> Inr (r, qr1))"

definition Queue_add :: "Queue \<Rightarrow> SocketFD \<Rightarrow> Queue res" where
  "Queue_add qr sock =
     rbind (Queue_add_visit qr sock) (\<lambda>v.
       case v of None \<Rightarrow> Inl Would_block | Some (_, qr1) \<Rightarrow> Inr qr1)"

definition Queue_size :: "Queue \<Rightarrow> nat" where
  "Queue_size qr = count_of qr"

definition Queue_capacity :: "Queue \<Rightarrow> nat" where
  "Queue_capacity qr = max_size qr"

section \<open>The sequence a queue holds\<close>

definition queue_rep :: "Queue \<Rightarrow> SocketFD list \<Rightarrow> bool" where
  "queue_rep qr xs \<longleftrightarrow>
     ring_rep (slots qr) (max_size qr) (first_ix qr) xs \<and> length (slots qr) = max_size qr \<and>
     max_size qr < 2 ^ 32 \<and> count_of qr = length xs \<and>
     next_ix qr = (first_ix qr + length xs) mod max_size qr"

definition sockets :: "Queue \<Rightarrow> SocketFD list" where
  "sockets qr = map (\<lambda>i. the (slots qr ! ((first_ix qr + i) mod max_size qr))) [0..<count_of qr]"

definition Queue_ok :: "Queue \<Rightarrow> bool" where
  "Queue_ok qr \<longleftrightarrow> queue_rep qr (sockets qr)"

lemma queue_rep_sockets: "queue_rep qr xs \<Longrightarrow> sockets qr = xs"
  by (auto simp: queue_rep_def ring_rep_def sockets_def intro!: nth_equalityI)

lemma queue_rep_iff: "queue_rep qr xs \<longleftrightarrow> Queue_ok qr \<and> sockets qr = xs"
  using queue_rep_sockets Queue_ok_def by metis

lemma u32_id [simp]: "n < 2 ^ 32 \<Longrightarrow> u32 n = n"
  by (simp add: u32_def)

lemma u32_dec: "0 < n \<Longrightarrow> n < 2 ^ 32 \<Longrightarrow> u32 (n + 2 ^ 32 - 1) = n - 1"
  by (cases n) (simp_all add: u32_def)

lemma queue_rep_new:
  "0 < c \<Longrightarrow> c < 2 ^ 32 \<Longrightarrow> queue_rep (Queue_new_with_capacity c) []"
  by (simp add: queue_rep_def Queue_new_with_capacity_def)

lemma queue_rep_empty: "queue_rep qr xs \<Longrightarrow> is_empty qr \<longleftrightarrow> xs = []"
  by (auto simp: queue_rep_def is_empty_def ring_rep_def)

lemma queue_rep_full: "queue_rep qr xs \<Longrightarrow> is_full qr \<longleftrightarrow> length xs = max_size qr"
  by (auto simp: queue_rep_def is_full_def ring_rep_def ring_next_eq_first_iff
           dest!: sym [of "first_ix qr"])

lemma queue_rep_bound: "queue_rep qr xs \<Longrightarrow> length xs \<le> max_size qr \<and> 0 < max_size qr"
  by (auto simp: queue_rep_def ring_rep_def)

lemma Queue_add_visit_rep:
  assumes rep: "queue_rep qr xs"
  shows "length xs = max_size qr \<Longrightarrow> Queue_add_visit qr s = Inr None"
    and "length xs < max_size qr \<Longrightarrow>
         \<exists>qr'. Queue_add_visit qr s = Inr (Some (xs = [], qr')) \<and> queue_rep qr' (xs @ [s]) \<and>
               max_size qr' = max_size qr"
proof -
  show "length xs = max_size qr \<Longrightarrow> Queue_add_visit qr s = Inr None"
    using rep by (simp add: Queue_add_visit_def queue_rep_def)
next
  assume less: "length xs < max_size qr"
  with rep have nf: "\<not> is_full qr" by (simp add: queue_rep_full)
  have "next_ix qr < max_size qr" "max_size qr < 2 ^ 32" "length (slots qr) = max_size qr"
    using rep less by (auto simp: queue_rep_def intro!: mod_less_divisor)
  then have n: "next_ix qr < length (slots qr)" "u32 (next_ix qr + 1) = next_ix qr + 1" by auto
  have m: "(next_ix qr + 1) mod max_size qr = (first_ix qr + length (xs @ [s])) mod max_size qr"
    using rep by (simp add: queue_rep_def mod_Suc_eq)
  have sz: "u32 (count_of qr + 1) = length (xs @ [s])" "length xs \<noteq> max_size qr" "count_of qr = length xs"
    using rep less by (auto simp: queue_rep_def)
  from rep less ring_put [of "slots qr" "max_size qr" "first_ix qr" xs s]
  have ring: "ring_rep ((slots qr)[next_ix qr := Some s]) (max_size qr) (first_ix qr) (xs @ [s])"
    by (simp add: queue_rep_def)
  show "\<exists>qr'. Queue_add_visit qr s = Inr (Some (xs = [], qr')) \<and> queue_rep qr' (xs @ [s]) \<and>
              max_size qr' = max_size qr"
    using rep less nf n m sz ring
    by (auto simp: Queue_add_visit_def write_slot_def advance_next_pointer_def is_full_def
        queue_rep_def Let_def)
qed

lemma Queue_remove_visit_rep:
  assumes rep: "queue_rep qr xs"
  shows "xs = [] \<Longrightarrow> Queue_remove_visit qr = Inr None"
    and "xs = x # ys \<Longrightarrow>
         \<exists>qr'. Queue_remove_visit qr = Inr (Some (x, True, qr')) \<and> queue_rep qr' ys \<and>
               max_size qr' = max_size qr"
proof -
  show "xs = [] \<Longrightarrow> Queue_remove_visit qr = Inr None"
    using rep by (simp add: Queue_remove_visit_def queue_rep_empty)
next
  assume xs: "xs = x # ys"
  with rep have ne: "\<not> is_empty qr" by (simp add: queue_rep_empty)
  from rep xs ring_get [of "slots qr" "max_size qr" "first_ix qr" x ys]
  have ring: "slots qr ! first_ix qr = Some x"
    "ring_rep (slots qr) (max_size qr) ((first_ix qr + 1) mod max_size qr) ys"
    by (auto simp: queue_rep_def)
  have f: "first_ix qr < length (slots qr)" "u32 (first_ix qr + 1) = first_ix qr + 1"
    using rep by (auto simp: queue_rep_def ring_rep_def)
  have m: "next_ix qr = ((first_ix qr + 1) mod max_size qr + length ys) mod max_size qr"
    using rep xs by (simp add: queue_rep_def mod_add_left_eq)
  have sz: "u32 (count_of qr + 2 ^ 32 - 1) = length ys" "length ys < max_size qr"
    using rep xs u32_dec [of "count_of qr"] queue_rep_bound [OF rep] by (auto simp: queue_rep_def)
  show "\<exists>qr'. Queue_remove_visit qr = Inr (Some (x, True, qr')) \<and> queue_rep qr' ys \<and>
              max_size qr' = max_size qr"
    using rep ne ring f m sz
    by (auto simp: Queue_remove_visit_def read_slot_def advance_first_pointer_def is_empty_def
        queue_rep_def Let_def)
qed

lemma Queue_add_rep:
  assumes "queue_rep qr xs"
  shows "length xs = max_size qr \<Longrightarrow> Queue_add qr s = Inl Would_block"
    and "length xs < max_size qr \<Longrightarrow>
         \<exists>qr'. Queue_add qr s = Inr qr' \<and> queue_rep qr' (xs @ [s]) \<and> max_size qr' = max_size qr"
  using Queue_add_visit_rep [OF assms, of s] by (auto simp: Queue_add_def)

lemma Queue_remove_rep:
  assumes "queue_rep qr xs"
  shows "xs = [] \<Longrightarrow> Queue_remove qr = Inl Would_block"
    and "xs = x # ys \<Longrightarrow>
         \<exists>qr'. Queue_remove qr = Inr (x, qr') \<and> queue_rep qr' ys \<and> max_size qr' = max_size qr"
  using Queue_remove_visit_rep(1) [OF assms] Queue_remove_visit_rep(2) [OF assms, of x ys]
  by (auto simp: Queue_remove_def)

interpretation sq: bounded_fifo Queue_ok sockets Queue_capacity Queue_add Queue_remove
  "\<lambda>qr. int (Queue_size qr)"
proof (unfold_locales, goal_cases)
  case (1 qr x)
  then show ?case
    using Queue_add_rep(2) [of qr "sockets qr" x] by (auto simp: queue_rep_iff Queue_capacity_def)
next
  case (2 qr x)
  then show ?case
    using Queue_add_rep(1) [of qr "sockets qr" x] by (auto simp: queue_rep_iff Queue_capacity_def)
next
  case (3 qr x xs)
  then show ?case
    using Queue_remove_rep(2) [of qr "sockets qr" x xs] by (auto simp: queue_rep_iff Queue_capacity_def)
next
  case (4 qr)
  then show ?case
    using Queue_remove_rep(1) [of qr "sockets qr"] by (auto simp: queue_rep_iff)
next
  case (5 qr)
  then show ?case by (simp add: Queue_ok_def Queue_size_def queue_rep_def)
next
  case (6 qr)
  then show ?case using queue_rep_bound [of qr] by (simp add: Queue_ok_def Queue_capacity_def)
qed

section \<open>Threads that share a queue\<close>

datatype qcall = Call_add SocketFD | Call_remove

datatype thread =
    Ready "qcall list"
  | On_not_empty "qcall list"
  | On_not_full "qcall list"

record qsys =
  queue :: Queue
  threads :: "thread list"
  added :: "SocketFD list"
  removed :: "SocketFD list"

fun wake_not_empty :: "thread \<Rightarrow> thread" where
  "wake_not_empty (On_not_empty cs) = Ready cs"
| "wake_not_empty t = t"

fun wake_not_full :: "thread \<Rightarrow> thread" where
  "wake_not_full (On_not_full cs) = Ready cs"
| "wake_not_full t = t"

text \<open>Thread \<open>i\<close> takes the mutex to make its call, or to test the loop condition again.\<close>

fun visit :: "nat \<Rightarrow> qcall \<Rightarrow> qcall list \<Rightarrow> qsys \<Rightarrow> qsys res" where
  "visit i (Call_add x) cs s =
     rbind (Queue_add_visit (queue s) x) (\<lambda>v. case v of
         None \<Rightarrow> Inr (s\<lparr>threads := (threads s)[i := On_not_full (Call_add x # cs)]\<rparr>)
       | Some (broadcast, q1) \<Rightarrow>
           let ts = (threads s)[i := Ready cs] in
           Inr (s\<lparr>queue := q1, added := added s @ [x],
                  threads := (if broadcast then map wake_not_empty ts else ts)\<rparr>))"
| "visit i Call_remove cs s =
     rbind (Queue_remove_visit (queue s)) (\<lambda>v. case v of
         None \<Rightarrow> Inr (s\<lparr>threads := (threads s)[i := On_not_empty (Call_remove # cs)]\<rparr>)
       | Some (x, broadcast, q1) \<Rightarrow>
           let ts = (threads s)[i := Ready cs] in
           Inr (s\<lparr>queue := q1, removed := removed s @ [x],
                  threads := (if broadcast then map wake_not_full ts else ts)\<rparr>))"

inductive qstep :: "qsys \<Rightarrow> qsys \<Rightarrow> bool" where
  run: "\<lbrakk> i < length (threads s); threads s ! i = Ready (c # cs); visit i c cs s = Inr s' \<rbrakk>
        \<Longrightarrow> qstep s s'"
| spurious: "i < length (threads s) \<Longrightarrow>
     qstep s (s\<lparr>threads := (threads s)[i := wake_not_full (wake_not_empty (threads s ! i))]\<rparr>)"

definition qsys_new :: "nat \<Rightarrow> qcall list list \<Rightarrow> qsys" where
  "qsys_new capacity progs =
     \<lparr>queue = Queue_new_with_capacity capacity, threads = map Ready progs, added = [], removed = []\<rparr>"

inductive qreach :: "nat \<Rightarrow> qcall list list \<Rightarrow> qsys \<Rightarrow> bool" for capacity progs where
  start: "qreach capacity progs (qsys_new capacity progs)"
| step: "qreach capacity progs s \<Longrightarrow> qstep s s' \<Longrightarrow> qreach capacity progs s'"

fun waits_not_empty :: "thread \<Rightarrow> bool" where
  "waits_not_empty (On_not_empty cs) = True"
| "waits_not_empty t = False"

fun waits_not_full :: "thread \<Rightarrow> bool" where
  "waits_not_full (On_not_full cs) = True"
| "waits_not_full t = False"

definition qinv :: "nat \<Rightarrow> qsys \<Rightarrow> bool" where
  "qinv capacity s \<longleftrightarrow>
     (\<exists>xs. queue_rep (queue s) xs \<and> added s = removed s @ xs \<and>
       ((\<exists>t \<in> set (threads s). waits_not_empty t) \<longrightarrow> xs = []) \<and>
       ((\<exists>t \<in> set (threads s). waits_not_full t) \<longrightarrow> length xs = capacity)) \<and>
     max_size (queue s) = capacity"

lemma waits_wake [simp]:
  "\<not> waits_not_empty (wake_not_empty t)" "waits_not_full (wake_not_empty t) = waits_not_full t"
  "\<not> waits_not_full (wake_not_full t)" "waits_not_empty (wake_not_full t) = waits_not_empty t"
  by (cases t; simp)+

lemma in_set_update: "t \<in> set (ts[i := u]) \<Longrightarrow> t = u \<or> t \<in> set ts"
  by (metis insert_iff set_update_subset_insert subsetD)

lemma qinv_new:
  assumes "0 < c" "c < 2 ^ 32"
  shows "qinv c (qsys_new c progs)"
  using queue_rep_new [OF assms] assms
  by (auto simp: qinv_def qsys_new_def Queue_new_with_capacity_def intro!: exI [of _ "[]"])

lemma qinv_visit_add:
  assumes inv: "qinv c s"
  shows "\<exists>s'. visit i (Call_add x) cs s = Inr s' \<and> qinv c s'"
proof -
  from inv obtain xs where rep: "queue_rep (queue s) xs" and log: "added s = removed s @ xs"
    and ne: "(\<exists>t \<in> set (threads s). waits_not_empty t) \<longrightarrow> xs = []"
    and nf: "(\<exists>t \<in> set (threads s). waits_not_full t) \<longrightarrow> length xs = c"
    and c: "max_size (queue s) = c" by (auto simp: qinv_def)
  show ?thesis
  proof (cases "length xs = c")
    case True
    with Queue_add_visit_rep(1) [OF rep] c rep log ne show ?thesis
      by (auto simp: qinv_def intro!: exI [of _ xs] dest!: in_set_update)
  next
    case False
    with queue_rep_bound [OF rep] c have "length xs < max_size (queue s)" by simp
    from Queue_add_visit_rep(2) [OF rep this, of x] obtain q' where
      "Queue_add_visit (queue s) x = Inr (Some (xs = [], q'))" "queue_rep q' (xs @ [x])"
      "max_size q' = max_size (queue s)" by auto
    with False c log ne nf show ?thesis
      by (auto simp: qinv_def Let_def intro!: exI [of _ "xs @ [x]"] dest!: in_set_update)
  qed
qed

lemma qinv_visit_remove:
  assumes inv: "qinv c s"
  shows "\<exists>s'. visit i Call_remove cs s = Inr s' \<and> qinv c s'"
proof -
  from inv obtain xs where rep: "queue_rep (queue s) xs" and log: "added s = removed s @ xs"
    and ne: "(\<exists>t \<in> set (threads s). waits_not_empty t) \<longrightarrow> xs = []"
    and nf: "(\<exists>t \<in> set (threads s). waits_not_full t) \<longrightarrow> length xs = c"
    and c: "max_size (queue s) = c" by (auto simp: qinv_def)
  show ?thesis
  proof (cases xs)
    case Nil
    with Queue_remove_visit_rep(1) [OF rep] rep log nf c show ?thesis
      by (auto simp: qinv_def intro!: exI [of _ "[]"] dest!: in_set_update)
  next
    case (Cons x ys)
    from Queue_remove_visit_rep(2) [OF rep this] obtain q' where
      "Queue_remove_visit (queue s) = Inr (Some (x, True, q'))" "queue_rep q' ys"
      "max_size q' = max_size (queue s)" by auto
    with Cons c log ne nf show ?thesis
      by (auto simp: qinv_def Let_def intro!: exI [of _ ys] dest!: in_set_update)
  qed
qed

lemma qinv_visit: "qinv c s \<Longrightarrow> \<exists>s'. visit i call cs s = Inr s' \<and> qinv c s'"
  by (cases call) (simp_all only: qinv_visit_add qinv_visit_remove)

lemma qinv_spurious:
  assumes "qinv c s" "i < length (threads s)"
  shows "qinv c (s\<lparr>threads := (threads s)[i := wake_not_full (wake_not_empty (threads s ! i))]\<rparr>)"
  using assms by (auto simp: qinv_def dest!: in_set_update)

lemma qinv_step: "qstep s s' \<Longrightarrow> qinv c s \<Longrightarrow> qinv c s'"
proof (induction rule: qstep.induct)
  case (run i s call cs s')
  with qinv_visit [of c s i call cs] show ?case by auto
next
  case (spurious i s)
  then show ?case by (simp add: qinv_spurious)
qed

lemma qreach_inv:
  assumes "0 < c" "c < 2 ^ 32"
  shows "qreach c progs s \<Longrightarrow> qinv c s"
  by (induction rule: qreach.induct) (auto intro: qinv_new [OF assms] qinv_step)

section \<open>Properties\<close>

text \<open>
  A consumer that starts first and waits, and a producer that then adds socket 7 and wakes it.
\<close>

definition demo_progs :: "qcall list list" where
  "demo_progs = [[Call_remove], [Call_add 7]]"

definition demo_waiting :: qsys where
  "demo_waiting = (qsys_new 2 demo_progs)\<lparr>threads := [On_not_empty [Call_remove], Ready [Call_add 7]]\<rparr>"

definition demo_woken :: qsys where
  "demo_woken =
     \<lparr>queue = \<lparr>slots = [Some 7, None], count_of = 1, max_size = 2, next_ix = 1, first_ix = 0,
               full_flag = False\<rparr>,
      threads = [Ready [Call_remove], Ready []], added = [7], removed = []\<rparr>"

lemmas queue_defs =
  Queue_add_visit_def Queue_remove_visit_def is_empty_def is_full_def read_slot_def write_slot_def
  advance_next_pointer_def advance_first_pointer_def u32_def Queue_new_with_capacity_def
  qsys_new_def demo_progs_def demo_waiting_def demo_woken_def

lemma replicate_2: "replicate 2 x = [x, x]"
  by (simp add: numeral_2_eq_2)

lemma demo_waiting_step: "qreach 2 demo_progs demo_waiting"
  by (rule qreach.step [OF qreach.start], rule qstep.run [where i = 0 and c = Call_remove and cs = "[]"])
     (simp_all add: queue_defs)

lemma demo_woken_step: "qreach 2 demo_progs demo_woken"
  by (rule qreach.step [OF demo_waiting_step], rule qstep.run [where i = 1 and c = "Call_add 7" and cs = "[]"])
     (simp_all add: queue_defs replicate_2)

text \<open>
  C4: Whatever the interleaving of the threads that add to and remove from a queue, the sockets
  removed so far followed by those in the queue are the sockets added, in order: none is lost,
  duplicated or reordered, and the queue never holds more than its capacity.
\<close>

theorem queue_delivers_in_order:
  assumes "0 < c" "c < 2 ^ 32" "qreach c progs s"
  shows "added s = removed s @ sockets (queue s) \<and> length (sockets (queue s)) \<le> c"
  using qreach_inv [OF assms] queue_rep_bound queue_rep_sockets by (fastforce simp: qinv_def)

theorem queue_delivers_in_order_witness:
  "added demo_woken = removed demo_woken @ sockets (queue demo_woken) \<and>
   length (sockets (queue demo_woken)) \<le> 2"
  using queue_delivers_in_order [OF _ _ demo_woken_step] by simp

text \<open>
  C17: No wake-up is lost: in every reachable state a thread waits on \<open>not_empty_cv\<close> only while the
  queue is empty and on \<open>not_full_cv\<close> only while it is full, and a thread that takes the mutex
  always completes its visit with no failed assertion and no bad read of the array.
\<close>

theorem queue_no_lost_wakeup:
  assumes "0 < c" "c < 2 ^ 32" "qreach c progs s"
  shows "(\<forall>t \<in> set (threads s). (waits_not_empty t \<longrightarrow> sockets (queue s) = []) \<and>
            (waits_not_full t \<longrightarrow> length (sockets (queue s)) = c)) \<and>
         (\<exists>s'. visit i call cs s = Inr s')"
proof -
  from qreach_inv [OF assms] have inv: "qinv c s" .
  then obtain xs where "queue_rep (queue s) xs"
    and "(\<exists>t \<in> set (threads s). waits_not_empty t) \<longrightarrow> xs = []"
    and "(\<exists>t \<in> set (threads s). waits_not_full t) \<longrightarrow> length xs = c"
    by (auto simp: qinv_def)
  with queue_rep_sockets [of "queue s" xs] qinv_visit [OF inv, of i call cs] show ?thesis
    by auto
qed

theorem queue_no_lost_wakeup_witness:
  "waits_not_empty (threads demo_waiting ! 0) \<and> sockets (queue demo_waiting) = [] \<and>
   (\<exists>s'. visit 1 (Call_add 7) [] demo_waiting = Inr s')"
  using queue_no_lost_wakeup [OF _ _ demo_waiting_step, of 1 "Call_add 7" "[]"]
  by (simp add: demo_waiting_def)

text \<open>
  C18: A queue of positive capacity cannot block its producers and its consumers at once: in every
  reachable state some thread can make its next call, or all threads with calls left wait to
  remove from an empty queue, or all of them wait to add to a full one.
\<close>

theorem queue_never_jams:
  assumes "0 < c" "c < 2 ^ 32" "qreach c progs s"
  shows "(\<exists>i call cs s'. i < length (threads s) \<and> threads s ! i = Ready (call # cs) \<and>
                         visit i call cs s = Inr s' \<and> qstep s s') \<or>
         (\<forall>t \<in> set (threads s). t = Ready [] \<or> waits_not_empty t \<and> sockets (queue s) = []) \<or>
         (\<forall>t \<in> set (threads s). t = Ready [] \<or> waits_not_full t \<and> length (sockets (queue s)) = c)"
proof -
  from qreach_inv [OF assms] have inv: "qinv c s" .
  then obtain xs where xs: "sockets (queue s) = xs"
    and ne: "(\<exists>t \<in> set (threads s). waits_not_empty t) \<longrightarrow> xs = []"
    and nf: "(\<exists>t \<in> set (threads s). waits_not_full t) \<longrightarrow> length xs = c"
    using queue_rep_sockets by (fastforce simp: qinv_def)
  show ?thesis
  proof (cases "\<exists>i call cs. i < length (threads s) \<and> threads s ! i = Ready (call # cs)")
    case True
    then obtain i call cs where i: "i < length (threads s)" "threads s ! i = Ready (call # cs)"
      by blast
    moreover from qinv_visit [OF inv] obtain s' where "visit i call cs s = Inr s'" by blast
    ultimately show ?thesis by (blast intro: qstep.run)
  next
    case False
    then have idle: "t = Ready [] \<or> waits_not_empty t \<or> waits_not_full t" if "t \<in> set (threads s)" for t
      using that by (cases t; metis in_set_conv_nth waits_not_empty.simps(1) waits_not_full.simps(1) list.exhaust)
    with ne nf xs assms(1) show ?thesis by fastforce
  qed
qed

theorem queue_never_jams_witness:
  "\<exists>i call cs s'. i < 2 \<and> threads demo_waiting ! i = Ready (call # cs) \<and>
                  visit i call cs demo_waiting = Inr s' \<and> qstep demo_waiting s'"
proof -
  have "length (threads demo_waiting) = 2" by (simp add: demo_waiting_def)
  moreover have "On_not_empty [Call_remove] \<in> set (threads demo_waiting)"
    "Ready [Call_add 7] \<in> set (threads demo_waiting)" by (simp_all add: demo_waiting_def)
  ultimately show ?thesis
    using queue_never_jams [OF _ _ demo_waiting_step] by fastforce
qed

end
