(* ===== verification/C_Buffer.thy ===== *)
theory C_Buffer
  imports C_Prelude
begin

text \<open>
  The growable buffer of \<^verbatim>\<open>src/common/cbuffer.c\<close>.

  \<open>m_memPtr\<close> is the block of bytes the buffer owns; \<open>m_cPtr\<close> always equals it. Sizes are
  \<open>size_t\<close> and stand for lengths of objects in memory, so they are naturals. The strategy is
  the one instance the file has, \<open>common_strategy\<close>. The checks of the tags, which
  are assertions on fields that only the constructor and the destructor write, are left out: a value
  of the record is a buffer that was constructed and not yet freed.

  \<open>cbuf_holds b s\<close> says that the used part of \<open>b\<close> is the byte string \<open>s\<close>. The main lemma
  determines every outcome of \<open>Cbuffer_append\<close>: it appends and terminates the string, or the
  assertion on the maximal size fails, or the terminator is written one byte behind the
  block, which happens exactly when the new length reaches the new capacity.
\<close>

section \<open>Operations\<close>

definition max_of_two :: "nat \<Rightarrow> nat \<Rightarrow> nat" where
  "max_of_two a b = (if a \<ge> b then a else b)"

definition min_of_two :: "nat \<Rightarrow> nat \<Rightarrow> nat" where
  "min_of_two a b = (if a \<le> b then a else b)"

record BufferStrategy =
  m_min_size :: nat
  m_max_size :: nat

record Cbuffer =
  m_memPtr :: mem
  m_length :: nat
  m_capacity :: nat
  m_size :: nat
  m_strategy :: BufferStrategy

definition BufferStrategy_allocate :: "BufferStrategy \<Rightarrow> nat \<Rightarrow> mem res" where
  "BufferStrategy_allocate bs required_size =
     rbind (c_assert (\<not> required_size > m_max_size bs)) (\<lambda>_.
     Inr (c_malloc (max_of_two required_size (m_min_size bs))))"

definition BufferStrategy_reallocate_size :: "BufferStrategy \<Rightarrow> nat \<Rightarrow> nat \<Rightarrow> nat res" where
  "BufferStrategy_reallocate_size bs current_capacity requested_new_size =
     rbind (c_assert (\<not> requested_new_size > m_max_size bs)) (\<lambda>_.
     Inr (max_of_two requested_new_size (min_of_two (m_max_size bs) (2 * current_capacity))))"

definition c_realloc :: "mem \<Rightarrow> nat \<Rightarrow> mem" where
  "c_realloc m n = take n m @ replicate (n - length m) None"

definition BufferStrategy_reallocate :: "BufferStrategy \<Rightarrow> mem \<Rightarrow> nat \<Rightarrow> mem res" where
  "BufferStrategy_reallocate bs current new_size =
     rbind (c_assert (\<not> new_size > m_max_size bs)) (\<lambda>_. Inr (c_realloc current new_size))"

definition common_strategy :: BufferStrategy where
  "common_strategy = \<lparr>m_min_size = 256, m_max_size = 1024 * 1024\<rparr>"

definition Cbuffer_new :: "Cbuffer res" where
  "Cbuffer_new =
     (let tmp_cap = m_min_size common_strategy in
      rbind (BufferStrategy_allocate common_strategy tmp_cap) (\<lambda>m.
      Inr \<lparr>m_memPtr = m, m_length = 0, m_capacity = tmp_cap, m_size = 0,
           m_strategy = common_strategy\<rparr>))"

definition Cbuffer_data :: "Cbuffer \<Rightarrow> mem" where
  "Cbuffer_data cb = m_memPtr cb"

definition Cbuffer_size :: "Cbuffer \<Rightarrow> nat" where
  "Cbuffer_size cb = m_length cb"

definition Cbuffer_capacity :: "Cbuffer \<Rightarrow> nat" where
  "Cbuffer_capacity cb = m_capacity cb"

text \<open>The pointers the accessors return are offsets into the block.\<close>

definition Cbuffer_next_available :: "Cbuffer \<Rightarrow> int" where
  "Cbuffer_next_available cb = int (m_length cb)"

definition Cbuffer_cstr :: "Cbuffer \<Rightarrow> mem res" where
  "Cbuffer_cstr cb =
     rbind (mem_get (m_memPtr cb) (int (m_size cb))) (\<lambda>c.
     rbind (c_assert (c = CHR 0x00)) (\<lambda>_.
     Inr (m_memPtr cb)))"

definition Cbuffer_toString :: "Cbuffer \<Rightarrow> mem" where
  "Cbuffer_toString cb = m_memPtr cb"

definition Cbuffer_clear :: "Cbuffer \<Rightarrow> Cbuffer res" where
  "Cbuffer_clear cb =
     rbind (mem_put (m_memPtr cb) 0 (CHR 0x00)) (\<lambda>m. Inr (cb\<lparr>m_length := 0, m_memPtr := m\<rparr>))"

definition Cbuffer_append :: "Cbuffer \<Rightarrow> mem \<Rightarrow> Cbuffer res" where
  "Cbuffer_append cb data =
     (let len = length data in
      if len = 0 then Inr cb
      else
        rbind
          (if m_length cb + len \<ge> m_capacity cb then
             rbind (BufferStrategy_reallocate_size (m_strategy cb) (m_capacity cb)
                      (m_length cb + len)) (\<lambda>new_capacity.
             rbind (BufferStrategy_reallocate (m_strategy cb) (m_memPtr cb) new_capacity) (\<lambda>m.
             Inr (cb\<lparr>m_memPtr := m, m_capacity := new_capacity\<rparr>)))
           else Inr cb) (\<lambda>cb1.
        rbind (mem_copy (m_memPtr cb1) (Cbuffer_next_available cb1) data) (\<lambda>m.
        let cb2 = cb1\<lparr>m_memPtr := m, m_length := m_length cb1 + len\<rparr>;
            cb3 = cb2\<lparr>m_size := m_length cb2\<rparr> in
        rbind (mem_put (m_memPtr cb3) (int (m_size cb3)) (CHR 0x00)) (\<lambda>m2.
        Inr (cb3\<lparr>m_memPtr := m2\<rparr>)))))"

text \<open>\<open>strlen\<close> of the C string stored at the start of a block gives the bytes before its zero.\<close>

definition Cbuffer_append_cstr :: "Cbuffer \<Rightarrow> mem \<Rightarrow> Cbuffer res" where
  "Cbuffer_append_cstr cb cstr =
     rbind (c_str cstr) (\<lambda>s. Cbuffer_append cb (map Some s))"

definition Cbuffer_from_cstring :: "mem \<Rightarrow> Cbuffer res" where
  "Cbuffer_from_cstring cstr =
     rbind Cbuffer_new (\<lambda>cb.
     rbind (c_str cstr) (\<lambda>s. Cbuffer_append cb (map Some s)))"

definition Cbuffer_setSize :: "Cbuffer \<Rightarrow> nat \<Rightarrow> Cbuffer" where
  "Cbuffer_setSize cb n = cb\<lparr>m_length := n, m_size := n\<rparr>"

text \<open>Returns the new \<open>dest\<close> and the new \<open>src\<close>.\<close>

definition Cbuffer_move :: "Cbuffer \<Rightarrow> Cbuffer \<Rightarrow> (Cbuffer \<times> Cbuffer) res" where
  "Cbuffer_move dest src =
     rbind (Cbuffer_clear dest) (\<lambda>dest1.
     let tmp = dest1; dest2 = src; src2 = tmp in
     rbind (Cbuffer_clear src2) (\<lambda>src3. Inr (dest2, src3)))"

text \<open>\<open>cPtr\<close> is the address of the block.\<close>

definition Cbuffer_contains_charptr :: "int \<Rightarrow> Cbuffer \<Rightarrow> int \<Rightarrow> bool" where
  "Cbuffer_contains_charptr cPtr cb ptr \<longleftrightarrow>
     (let endPtr = cPtr + int (m_capacity cb); sPtr = cPtr in ptr \<le> endPtr \<and> ptr \<ge> sPtr)"

definition Cbuffer_contains_voidptr :: "int \<Rightarrow> Cbuffer \<Rightarrow> int \<Rightarrow> bool" where
  "Cbuffer_contains_voidptr cPtr cb ptr \<longleftrightarrow> Cbuffer_contains_charptr cPtr cb ptr"

section \<open>What a buffer holds\<close>

definition cbuf_ok :: "Cbuffer \<Rightarrow> bool" where
  "cbuf_ok cb \<longleftrightarrow>
     m_strategy cb = common_strategy \<and> length (m_memPtr cb) = m_capacity cb \<and>
     256 \<le> m_capacity cb \<and> m_capacity cb \<le> 1048576 \<and>
     m_length cb < m_capacity cb \<and> m_size cb < m_capacity cb"

definition cbuf_holds :: "Cbuffer \<Rightarrow> char list \<Rightarrow> bool" where
  "cbuf_holds cb s \<longleftrightarrow>
     cbuf_ok cb \<and> m_length cb = length s \<and> take (length s) (m_memPtr cb) = map Some s"

definition cbuf_terminated :: "Cbuffer \<Rightarrow> bool" where
  "cbuf_terminated cb \<longleftrightarrow>
     m_memPtr cb ! m_length cb = Some (CHR 0x00) \<and> m_memPtr cb ! m_size cb = Some (CHR 0x00)"

text \<open>The bytes of the used part, for buffers that hold a string.\<close>

definition cbuf_bytes :: "Cbuffer \<Rightarrow> char list" where
  "cbuf_bytes cb = map the (take (m_length cb) (m_memPtr cb))"

lemma cbuf_holds_bytes: "cbuf_holds cb s \<Longrightarrow> cbuf_bytes cb = s"
  by (simp add: cbuf_holds_def cbuf_bytes_def comp_def)

lemma Cbuffer_new_holds: "\<exists>cb. Cbuffer_new = Inr cb \<and> cbuf_holds cb []"
  by (simp add: Cbuffer_new_def BufferStrategy_allocate_def common_strategy_def max_of_two_def
      cbuf_holds_def cbuf_ok_def)

lemma Cbuffer_clear_holds:
  assumes "cbuf_ok cb"
  shows "\<exists>cb'. Cbuffer_clear cb = Inr cb' \<and> cbuf_holds cb' [] \<and> m_capacity cb' = m_capacity cb"
  using assms by (auto simp: Cbuffer_clear_def mem_put_def cbuf_holds_def cbuf_ok_def)

lemma Cbuffer_cstr_holds:
  assumes "cbuf_holds cb s" "cbuf_terminated cb" "no_nul s"
  shows "rbind (Cbuffer_cstr cb) c_str = Inr s"
proof -
  from assms have "c_str_at (m_memPtr cb) 0 = Inr s"
    by (intro c_str_at_terminated [where n = "length s"])
       (auto simp: cbuf_holds_def cbuf_ok_def cbuf_terminated_def)
  then have "c_str (m_memPtr cb) = Inr s" by (simp add: c_str_at_def)
  with assms show ?thesis
    by (simp add: Cbuffer_cstr_def mem_get_def cbuf_holds_def cbuf_ok_def cbuf_terminated_def)
qed

section \<open>The outcomes of an append\<close>

text \<open>Copying \<open>data\<close> and a terminator behind the used part of a block that has room for both.\<close>

lemma copy_and_terminate:
  assumes "take (length s) m = map Some s" "length s + length t < length m"
  shows "\<exists>m1. mem_copy m (int (length s)) (map Some t) = Inr m1 \<and>
           mem_put m1 (int (length s + length t)) (CHR 0x00) =
             Inr (map Some (s @ t) @ Some (CHR 0x00) # drop (Suc (length s + length t)) m)"
proof -
  let ?d = "drop (length s + length t) m"
  from assms(2) obtain c d where d: "?d = c # d" by (cases ?d) auto
  then have "drop (Suc (length s + length t)) m = d" by (metis drop_Suc list.sel(3) tl_drop)
  with assms d show ?thesis
    by (auto simp: mem_copy_def mem_put_def list_update_append nth_append)
qed

definition cbuf_limit :: "Cbuffer \<Rightarrow> nat" where
  "cbuf_limit cb = min 1048576 (2 * m_capacity cb)"

lemma Cbuffer_append_fits:
  assumes holds: "cbuf_holds cb s" and t: "t \<noteq> []" and room: "length s + length t < cbuf_limit cb"
  shows "\<exists>cb'. Cbuffer_append cb (map Some t) = Inr cb' \<and> cbuf_holds cb' (s @ t) \<and>
               cbuf_terminated cb' \<and> m_capacity cb \<le> m_capacity cb'"
proof (cases "length s + length t \<ge> m_capacity cb")
  case True
  let ?m = "c_realloc (m_memPtr cb) (cbuf_limit cb)"
  have len: "length ?m = cbuf_limit cb" and pre: "take (length s) ?m = map Some s"
    using holds room True by (auto simp: c_realloc_def cbuf_holds_def cbuf_ok_def cbuf_limit_def)
  from copy_and_terminate [OF pre, of t] len room obtain m1 where
    "mem_copy ?m (int (length s)) (map Some t) = Inr m1"
    "mem_put m1 (int (length s + length t)) (CHR 0x00) =
       Inr (map Some (s @ t) @ Some (CHR 0x00) # drop (Suc (length s + length t)) ?m)"
    by auto
  with holds t room True len show ?thesis
    by (simp add: Cbuffer_append_def Let_def Cbuffer_next_available_def
        BufferStrategy_reallocate_size_def BufferStrategy_reallocate_def max_of_two_def
        min_of_two_def cbuf_holds_def cbuf_ok_def cbuf_terminated_def cbuf_limit_def
        common_strategy_def min_def nth_append split: if_splits)
next
  case False
  then have "length s + length t < length (m_memPtr cb)"
    using holds by (simp add: cbuf_holds_def cbuf_ok_def)
  moreover have "take (length s) (m_memPtr cb) = map Some s"
    using holds by (simp add: cbuf_holds_def)
  ultimately obtain m1 where
    "mem_copy (m_memPtr cb) (int (length s)) (map Some t) = Inr m1"
    "mem_put m1 (int (length s + length t)) (CHR 0x00) =
       Inr (map Some (s @ t) @ Some (CHR 0x00) # drop (Suc (length s + length t)) (m_memPtr cb))"
    using copy_and_terminate by blast
  with holds t False show ?thesis
    by (simp add: Cbuffer_append_def Let_def Cbuffer_next_available_def
        cbuf_holds_def cbuf_ok_def cbuf_terminated_def nth_append)
qed

lemma Cbuffer_append_too_big:
  assumes holds: "cbuf_holds cb s" and big: "1048576 < length s + length t"
  shows "Cbuffer_append cb (map Some t) = Inl Assert_fail"
proof -
  from assms have "t \<noteq> []" "m_capacity cb \<le> length s + length t"
    by (auto simp: cbuf_holds_def cbuf_ok_def)
  with assms show ?thesis
    by (simp add: Cbuffer_append_def Let_def BufferStrategy_reallocate_size_def
        cbuf_holds_def cbuf_ok_def common_strategy_def)
qed

lemma Cbuffer_append_off_the_end:
  assumes holds: "cbuf_holds cb s" and t: "t \<noteq> []"
    and lim: "cbuf_limit cb \<le> length s + length t" "length s + length t \<le> 1048576"
  shows "Cbuffer_append cb (map Some t) = Inl Out_of_bounds"
proof -
  let ?n = "length s + length t"
  let ?m = "c_realloc (m_memPtr cb) ?n"
  have cap: "m_capacity cb \<le> ?n"
    using holds lim by (auto simp: cbuf_holds_def cbuf_ok_def cbuf_limit_def min_def split: if_splits)
  have len: "length ?m = ?n"
    using holds cap by (auto simp: c_realloc_def cbuf_holds_def cbuf_ok_def)
  then obtain m1 where m1: "mem_copy ?m (int (length s)) (map Some t) = Inr m1"
    by (simp add: mem_copy_def)
  with len mem_copy_length have m1_len: "length m1 = ?n" by metis
  have "max_of_two ?n (min_of_two (m_max_size common_strategy) (2 * m_capacity cb)) = ?n"
    using lim by (auto simp: max_of_two_def min_of_two_def cbuf_limit_def common_strategy_def)
  then have "BufferStrategy_reallocate_size (m_strategy cb) (m_capacity cb) ?n = Inr ?n"
    "BufferStrategy_reallocate (m_strategy cb) (m_memPtr cb) ?n = Inr ?m"
    using holds lim by (auto simp: BufferStrategy_reallocate_size_def BufferStrategy_reallocate_def
        cbuf_holds_def cbuf_ok_def common_strategy_def)
  with holds t cap m1 m1_len show ?thesis
    by (simp add: Cbuffer_append_def Let_def Cbuffer_next_available_def mem_put_def cbuf_holds_def)
qed

section \<open>The contract of an append-only byte sink\<close>

text \<open>
  \<open>takes n k\<close>: a sink that holds \<open>n\<close> bytes accepts \<open>k\<close> more. A client that appends a list of
  pieces the sink accepts one after the other ends up with their concatenation.
\<close>

fun all_taken :: "(nat \<Rightarrow> nat \<Rightarrow> bool) \<Rightarrow> nat \<Rightarrow> char list list \<Rightarrow> bool" where
  "all_taken takes n [] = True"
| "all_taken takes n (p # ps) = (takes n (length p) \<and> all_taken takes (n + length p) ps)"

locale byte_sink =
  fixes holds :: "'b \<Rightarrow> char list \<Rightarrow> bool"
    and takes :: "nat \<Rightarrow> nat \<Rightarrow> bool"
    and put :: "'b \<Rightarrow> mem \<Rightarrow> 'b res"
    and new :: "'b res"
  assumes new_law: "\<exists>b. new = Inr b \<and> holds b []"
    and put_law: "\<lbrakk> holds b s; takes (length s) (length t) \<rbrakk> \<Longrightarrow>
       \<exists>b'. put b (map Some t) = Inr b' \<and> holds b' (s @ t)"
begin

lemma put_pieces:
  "\<lbrakk> holds b s; all_taken takes (length s) ps \<rbrakk> \<Longrightarrow>
   \<exists>b'. fold_res (\<lambda>p b. put b (map Some p)) ps b = Inr b' \<and> holds b' (s @ concat ps)"
proof (induction ps arbitrary: b s)
  case (Cons p ps)
  from put_law [of b s p] Cons.prems obtain b1 where
    "put b (map Some p) = Inr b1" "holds b1 (s @ p)" by auto
  with Cons.IH [of b1 "s @ p"] Cons.prems show ?case by auto
qed auto

lemma put_cstr:
  assumes "holds b s" "takes (length s) (length t)" "no_nul t"
  shows "\<exists>b'. rbind (c_str (map Some t @ [Some (CHR 0x00)])) (\<lambda>u. put b (map Some u)) = Inr b' \<and>
              holds b' (s @ t)"
  using put_law [OF assms(1,2)] assms(3) by simp

end

text \<open>
  A piece of at most 255 bytes always fits into a \<open>Cbuffer\<close> below its maximal size, and a
  larger one while the total stays below 512 bytes, the double of the initial capacity.
\<close>

definition cbuf_takes :: "nat \<Rightarrow> nat \<Rightarrow> bool" where
  "cbuf_takes n k \<longleftrightarrow> (k \<le> 255 \<or> n + k < 512) \<and> n + k < 1048576"

interpretation cb: byte_sink cbuf_holds cbuf_takes Cbuffer_append Cbuffer_new
proof (unfold_locales, goal_cases)
  case 1
  show ?case by (rule Cbuffer_new_holds)
next
  case (2 b s t)
  show ?case
  proof (cases "t = []")
    case True
    with 2 show ?thesis by (simp add: Cbuffer_append_def)
  next
    case False
    from 2 have "length s + length t < cbuf_limit b"
      by (auto simp: cbuf_takes_def cbuf_limit_def cbuf_holds_def cbuf_ok_def)
    with Cbuffer_append_fits [OF 2(1) False] show ?thesis by blast
  qed
qed

section \<open>Buffers used as strings\<close>

definition cbuf_text :: "Cbuffer \<Rightarrow> char list \<Rightarrow> bool" where
  "cbuf_text cb s \<longleftrightarrow> cbuf_holds cb s \<and> cbuf_terminated cb"

lemma cbuf_text_clear:
  assumes "cbuf_text cb s"
  shows "\<exists>cb'. Cbuffer_clear cb = Inr cb' \<and> cbuf_text cb' []"
  using assms
  by (auto simp: Cbuffer_clear_def mem_put_def cbuf_text_def cbuf_terminated_def cbuf_holds_def
      cbuf_ok_def nth_list_update)

lemma cbuf_text_new_clear: "\<exists>cb. rbind Cbuffer_new Cbuffer_clear = Inr cb \<and> cbuf_text cb []"
  by (simp add: Cbuffer_new_def BufferStrategy_allocate_def common_strategy_def max_of_two_def
      Cbuffer_clear_def mem_put_def cbuf_text_def cbuf_terminated_def cbuf_holds_def cbuf_ok_def)

lemma cbuf_text_append:
  assumes "cbuf_holds cb s" "cbuf_takes (length s) (length t)" "t \<noteq> [] \<or> cbuf_terminated cb"
  shows "\<exists>cb'. Cbuffer_append cb (map Some t) = Inr cb' \<and> cbuf_text cb' (s @ t)"
proof (cases "t = []")
  case True
  with assms show ?thesis by (simp add: Cbuffer_append_def cbuf_text_def)
next
  case False
  from assms have "length s + length t < cbuf_limit cb"
    by (auto simp: cbuf_takes_def cbuf_limit_def cbuf_holds_def cbuf_ok_def)
  with Cbuffer_append_fits [OF assms(1) False] show ?thesis by (auto simp: cbuf_text_def)
qed

lemma cbuf_text_cstr:
  assumes "cbuf_text cb s" "no_nul s"
  shows "Cbuffer_cstr cb = Inr (Cbuffer_data cb)" "c_str (Cbuffer_data cb) = Inr s"
  using Cbuffer_cstr_holds [of cb s] assms
  by (auto simp: cbuf_text_def Cbuffer_cstr_def Cbuffer_data_def rbind_eq_Inr)

lemma cbuf_text_range:
  "cbuf_holds cb s \<Longrightarrow> mem_range (Cbuffer_data cb) 0 (int (Cbuffer_size cb)) = Inr (map Some s)"
  by (auto simp: cbuf_holds_def cbuf_ok_def mem_range_def Cbuffer_data_def Cbuffer_size_def)

section \<open>Properties\<close>

text \<open>
  The outcome of \<open>Cbuffer_append\<close> on a buffer that holds \<open>s\<close> is determined by the total
  length: below the doubled capacity (at most 1 MB) the string is appended and zero
  terminated; at or above it, the terminator is written one byte behind the reallocated block;
  above 1 MB the assertion of the strategy fails.
\<close>

lemma cbuffer_append_outcome:
  assumes "cbuf_holds cb s" "t \<noteq> []"
  shows "if length s + length t < cbuf_limit cb
         then \<exists>cb'. Cbuffer_append cb (map Some t) = Inr cb' \<and> cbuf_holds cb' (s @ t) \<and>
                    cbuf_terminated cb'
         else Cbuffer_append cb (map Some t) =
                Inl (if length s + length t \<le> 1048576 then Out_of_bounds else Assert_fail)"
  using Cbuffer_append_fits [OF assms] Cbuffer_append_too_big [OF assms(1), of t]
    Cbuffer_append_off_the_end [OF assms]
  by auto

definition cbuf_empty :: Cbuffer where
  "cbuf_empty = \<lparr>m_memPtr = c_malloc 256, m_length = 0, m_capacity = 256, m_size = 0,
                 m_strategy = common_strategy\<rparr>"

lemma cbuf_empty_holds: "cbuf_holds cbuf_empty []"
  by (simp add: cbuf_empty_def cbuf_holds_def cbuf_ok_def)

definition bytes512 :: "char list" where
  "bytes512 = replicate 512 CHR ''a''"

lemma length_bytes512: "length bytes512 = 512"
  by (simp only: bytes512_def length_replicate)

text \<open>
  A text appended piece by piece, each piece of at most 255 bytes (or the total still below
  512 bytes) and the total below 1 MB,
  is what the buffer holds at the end: \<open>Cbuffer_append\<close> from a new buffer never fails and the
  bytes are the concatenation of the pieces.
\<close>

lemma cbuffer_accumulates:
  assumes "all_taken cbuf_takes 0 ps"
  shows "\<exists>cb. rbind Cbuffer_new (fold_res (\<lambda>p cb. Cbuffer_append cb (map Some p)) ps) = Inr cb \<and>
              cbuf_holds cb (concat ps)"
proof -
  from cb.new_law obtain b where b: "Cbuffer_new = Inr b" "cbuf_holds b []" by blast
  with cb.put_pieces [of b "[]" ps] assms show ?thesis unfolding b(1) by simp
qed

text \<open>
  \<open>Cbuffer_move\<close> hands the text of the source to the destination and leaves the source
  empty, whatever the destination held before.
\<close>

lemma cbuffer_move_transfers:
  assumes "cbuf_holds dest d" "cbuf_holds src s"
  shows "\<exists>src'. Cbuffer_move dest src = Inr (src, src') \<and> cbuf_holds src' [] \<and>
                m_capacity src' = m_capacity dest"
proof -
  from assms(1) have "cbuf_ok dest" by (simp add: cbuf_holds_def)
  from Cbuffer_clear_holds [OF this] obtain d1 where
    d1: "Cbuffer_clear dest = Inr d1" "cbuf_holds d1 []" "m_capacity d1 = m_capacity dest" by auto
  then have "cbuf_ok d1" by (simp add: cbuf_holds_def)
  from Cbuffer_clear_holds [OF this] d1 show ?thesis
    by (auto simp: Cbuffer_move_def Let_def)
qed

end
