(* ===== verification/Url_Parser.thy ===== *)
theory Url_Parser
  imports C_Prelude
begin

text \<open>
  The URL parser of \<^verbatim>\<open>src/common/url_parser.c\<close>, in the strict mode the header selects.

  The states are those of \<open>enum state\<close> that \<open>parse_url_char\<close> distinguishes; the other members
  of the enumeration belong to the message parser this code was taken from, are never
  produced here, and would take the default branch. A byte is a \<open>char\<close>; its signed value is
  \<open>schar\<close>. The \<open>uint16_t\<close> offsets, lengths and flags are naturals with \<open>mod 2 ^ 16\<close> written
  out. The parser returns its code, 0 or 1, and the
  struct as it then is; a failed \<open>assert\<close> or a read outside the buffer is an error.

  The lemmas show that no input of less than 64 KB makes the parser fail an assertion or leave
  the buffer, that the fields it reports are slices of the input, and that a URL put together
  from its components is taken apart into the same components.
\<close>

section \<open>Character classes\<close>

definition schar :: "char \<Rightarrow> int" where
  "schar c = (if byte c < 128 then int (byte c) else int (byte c) - 256)"

text \<open>The bit sets of \<open>normal_url_char\<close> for strict mode, where \<open>T(v)\<close> is 0.\<close>

definition normal_url_char :: "nat list" where
  "normal_url_char =
     [0, 0, 0, 0, 246, 255, 255, 127, 255, 255, 255, 255, 255, 255, 255, 127,
      0, 0, 0, 0, 0, 0, 0, 0, 0, 0, 0, 0, 0, 0, 0, 0]"

definition BIT_AT :: "nat list \<Rightarrow> nat \<Rightarrow> bool" where
  "BIT_AT a i \<longleftrightarrow> odd (a ! (i div 8) div 2 ^ (i mod 8))"

definition LOWER :: "char \<Rightarrow> nat" where
  "LOWER c = or (byte c) 0x20"

definition IS_ALPHA :: "char \<Rightarrow> bool" where
  "IS_ALPHA c \<longleftrightarrow> LOWER c \<ge> byte (CHR ''a'') \<and> LOWER c \<le> byte (CHR ''z'')"

definition IS_NUM :: "char \<Rightarrow> bool" where
  "IS_NUM c \<longleftrightarrow> schar c \<ge> schar (CHR ''0'') \<and> schar c \<le> schar (CHR ''9'')"

definition IS_ALPHANUM :: "char \<Rightarrow> bool" where
  "IS_ALPHANUM c \<longleftrightarrow> IS_ALPHA c \<or> IS_NUM c"

definition IS_HEX :: "char \<Rightarrow> bool" where
  "IS_HEX c \<longleftrightarrow> IS_NUM c \<or> (LOWER c \<ge> byte (CHR ''a'') \<and> LOWER c \<le> byte (CHR ''f''))"

definition IS_MARK :: "char \<Rightarrow> bool" where
  "IS_MARK c \<longleftrightarrow> c \<in> set ''-_.!~*'' \<or> c = CHR 0x27 \<or> c = CHR ''('' \<or> c = CHR '')''"

definition IS_USERINFO_CHAR :: "char \<Rightarrow> bool" where
  "IS_USERINFO_CHAR c \<longleftrightarrow> IS_ALPHANUM c \<or> IS_MARK c \<or> c \<in> set ''%;:&=+$,''"

definition IS_URL_CHAR :: "char \<Rightarrow> bool" where
  "IS_URL_CHAR c \<longleftrightarrow> BIT_AT normal_url_char (byte c)"

definition IS_HOST_CHAR :: "char \<Rightarrow> bool" where
  "IS_HOST_CHAR c \<longleftrightarrow> IS_ALPHANUM c \<or> c = CHR ''.'' \<or> c = CHR ''-''"

section \<open>State machines\<close>

datatype url_state =
    s_dead
  | s_req_spaces_before_url
  | s_req_schema
  | s_req_schema_slash
  | s_req_schema_slash_slash
  | s_req_server_start
  | s_req_server
  | s_req_server_with_at
  | s_req_path
  | s_req_query_string_start
  | s_req_query_string
  | s_req_fragment_start
  | s_req_fragment

definition server_char :: "char \<Rightarrow> url_state" where
  "server_char ch =
     (if ch = CHR ''/'' then s_req_path
      else if ch = CHR ''?'' then s_req_query_string_start
      else if ch = CHR ''@'' then s_req_server_with_at
      else if IS_USERINFO_CHAR ch \<or> ch = CHR ''['' \<or> ch = CHR '']'' then s_req_server
      else s_dead)"

definition parse_url_char :: "url_state \<Rightarrow> char \<Rightarrow> url_state" where
  "parse_url_char s ch =
     (if ch = CHR '' '' \<or> ch = CHR 0x0D \<or> ch = CHR 0x0A then s_dead
      else if ch = CHR 0x09 \<or> ch = CHR 0x0C then s_dead
      else case s of
        s_req_spaces_before_url \<Rightarrow>
          if ch = CHR ''/'' \<or> ch = CHR ''*'' then s_req_path
          else if IS_ALPHA ch then s_req_schema
          else s_dead
      | s_req_schema \<Rightarrow>
          if IS_ALPHA ch then s
          else if ch = CHR '':'' then s_req_schema_slash
          else s_dead
      | s_req_schema_slash \<Rightarrow>
          if ch = CHR ''/'' then s_req_schema_slash_slash else s_dead
      | s_req_schema_slash_slash \<Rightarrow>
          if ch = CHR ''/'' then s_req_server_start else s_dead
      | s_req_server_with_at \<Rightarrow>
          if ch = CHR ''@'' then s_dead else server_char ch
      | s_req_server_start \<Rightarrow> server_char ch
      | s_req_server \<Rightarrow> server_char ch
      | s_req_path \<Rightarrow>
          if IS_URL_CHAR ch then s
          else if ch = CHR ''?'' then s_req_query_string_start
          else if ch = CHR ''#'' then s_req_fragment_start
          else s_dead
      | s_req_query_string_start \<Rightarrow>
          if IS_URL_CHAR ch then s_req_query_string
          else if ch = CHR ''?'' then s_req_query_string
          else if ch = CHR ''#'' then s_req_fragment_start
          else s_dead
      | s_req_query_string \<Rightarrow>
          if IS_URL_CHAR ch then s_req_query_string
          else if ch = CHR ''?'' then s_req_query_string
          else if ch = CHR ''#'' then s_req_fragment_start
          else s_dead
      | s_req_fragment_start \<Rightarrow>
          if IS_URL_CHAR ch then s_req_fragment
          else if ch = CHR ''?'' then s_req_fragment
          else if ch = CHR ''#'' then s
          else s_dead
      | s_req_fragment \<Rightarrow>
          if IS_URL_CHAR ch then s
          else if ch = CHR ''?'' \<or> ch = CHR ''#'' then s
          else s_dead
      | _ \<Rightarrow> s_dead)"

datatype http_host_state =
    s_http_host_dead
  | s_http_userinfo_start
  | s_http_userinfo
  | s_http_host_start
  | s_http_host_v6_start
  | s_http_host
  | s_http_host_v6
  | s_http_host_v6_end
  | s_http_host_v6_zone_start
  | s_http_host_v6_zone
  | s_http_host_port_start
  | s_http_host_port

definition v6_end_char :: "char \<Rightarrow> http_host_state" where
  "v6_end_char ch = (if ch = CHR '':'' then s_http_host_port_start else s_http_host_dead)"

definition v6_start_char :: "http_host_state \<Rightarrow> char \<Rightarrow> http_host_state" where
  "v6_start_char s ch =
     (if IS_HEX ch \<or> ch = CHR '':'' \<or> ch = CHR ''.'' then s_http_host_v6
      else if s = s_http_host_v6 \<and> ch = CHR ''%'' then s_http_host_v6_zone_start
      else s_http_host_dead)"

definition v6_zone_char :: "char \<Rightarrow> http_host_state" where
  "v6_zone_char ch =
     (if IS_ALPHANUM ch \<or> ch \<in> set ''%.-_~'' then s_http_host_v6_zone else s_http_host_dead)"

definition c_http_parse_host_char :: "http_host_state \<Rightarrow> char \<Rightarrow> http_host_state" where
  "c_http_parse_host_char s ch =
     (if s = s_http_userinfo \<or> s = s_http_userinfo_start then
        (if ch = CHR ''@'' then s_http_host_start
         else if IS_USERINFO_CHAR ch then s_http_userinfo
         else s_http_host_dead)
      else if s = s_http_host_start then
        (if ch = CHR ''['' then s_http_host_v6_start
         else if IS_HOST_CHAR ch then s_http_host
         else s_http_host_dead)
      else if s = s_http_host then
        (if IS_HOST_CHAR ch then s_http_host else v6_end_char ch)
      else if s = s_http_host_v6_end then v6_end_char ch
      else if s = s_http_host_v6 then
        (if ch = CHR '']'' then s_http_host_v6_end else v6_start_char s ch)
      else if s = s_http_host_v6_start then v6_start_char s ch
      else if s = s_http_host_v6_zone then
        (if ch = CHR '']'' then s_http_host_v6_end else v6_zone_char ch)
      else if s = s_http_host_v6_zone_start then v6_zone_char ch
      else if s = s_http_host_port \<or> s = s_http_host_port_start then
        (if IS_NUM ch then s_http_host_port else s_http_host_dead)
      else s_http_host_dead)"

section \<open>The result struct\<close>

datatype url_field =
    UF_SCHEMA | UF_HOST | UF_PORT | UF_PATH | UF_QUERY | UF_FRAGMENT | UF_USERINFO | UF_MAX

fun uf_num :: "url_field \<Rightarrow> nat" where
  "uf_num UF_SCHEMA = 0"
| "uf_num UF_HOST = 1"
| "uf_num UF_PORT = 2"
| "uf_num UF_PATH = 3"
| "uf_num UF_QUERY = 4"
| "uf_num UF_FRAGMENT = 5"
| "uf_num UF_USERINFO = 6"
| "uf_num UF_MAX = 7"

record c_http_parser_url =
  field_set :: nat
  url_port :: nat
  field_off :: "url_field \<Rightarrow> nat"
  field_len :: "url_field \<Rightarrow> nat"

definition has_field :: "c_http_parser_url \<Rightarrow> url_field \<Rightarrow> bool" where
  "has_field u uf \<longleftrightarrow> and (field_set u) (push_bit (uf_num uf) 1) \<noteq> 0"

definition set_field :: "c_http_parser_url \<Rightarrow> url_field \<Rightarrow> c_http_parser_url" where
  "set_field u uf = u\<lparr>field_set := or (field_set u) (push_bit (uf_num uf) 1)\<rparr>"

definition set_off :: "c_http_parser_url \<Rightarrow> url_field \<Rightarrow> nat \<Rightarrow> c_http_parser_url" where
  "set_off u uf p = u\<lparr>field_off := (field_off u)(uf := u16 p)\<rparr>"

definition set_len :: "c_http_parser_url \<Rightarrow> url_field \<Rightarrow> nat \<Rightarrow> c_http_parser_url" where
  "set_len u uf n = u\<lparr>field_len := (field_len u)(uf := u16 n)\<rparr>"

definition inc_len :: "c_http_parser_url \<Rightarrow> url_field \<Rightarrow> c_http_parser_url" where
  "inc_len u uf = set_len u uf (field_len u uf + 1)"

definition c_http_parser_url_init :: c_http_parser_url where
  "c_http_parser_url_init =
     \<lparr>field_set = 0, url_port = 0, field_off = (\<lambda>_. 0), field_len = (\<lambda>_. 0)\<rparr>"

definition buf_get :: "char list \<Rightarrow> nat \<Rightarrow> char res" where
  "buf_get buf i = (if i < length buf then Inr (buf ! i) else Inl Out_of_bounds)"

section \<open>Parsing the host\<close>

definition host_update ::
  "http_host_state \<Rightarrow> http_host_state \<Rightarrow> nat \<Rightarrow> c_http_parser_url \<Rightarrow> c_http_parser_url" where
  "host_update s new_s p u =
     (case new_s of
        s_http_host \<Rightarrow>
          inc_len (if s \<noteq> s_http_host then set_off u UF_HOST p else u) UF_HOST
      | s_http_host_v6 \<Rightarrow>
          inc_len (if s \<noteq> s_http_host_v6 then set_off u UF_HOST p else u) UF_HOST
      | s_http_host_v6_zone_start \<Rightarrow> inc_len u UF_HOST
      | s_http_host_v6_zone \<Rightarrow> inc_len u UF_HOST
      | s_http_host_port \<Rightarrow>
          inc_len
            (if s \<noteq> s_http_host_port
             then set_field (set_len (set_off u UF_PORT p) UF_PORT 0) UF_PORT else u) UF_PORT
      | s_http_userinfo \<Rightarrow>
          inc_len
            (if s \<noteq> s_http_userinfo
             then set_field (set_len (set_off u UF_USERINFO p) UF_USERINFO 0) UF_USERINFO else u)
            UF_USERINFO
      | _ \<Rightarrow> u)"

text \<open>\<open>n\<close> bytes from position \<open>p\<close> on; the flag is false after a return of 1.\<close>

fun host_loop ::
  "char list \<Rightarrow> nat \<Rightarrow> nat \<Rightarrow> http_host_state \<Rightarrow> c_http_parser_url \<Rightarrow>
   (bool \<times> http_host_state \<times> c_http_parser_url) res" where
  "host_loop buf 0 p s u = Inr (True, s, u)"
| "host_loop buf (Suc n) p s u =
     rbind (buf_get buf p) (\<lambda>ch.
     let new_s = c_http_parse_host_char s ch in
     if new_s = s_http_host_dead then Inr (False, s, u)
     else host_loop buf n (Suc p) new_s (host_update s new_s p u))"

definition host_end_ok :: "http_host_state \<Rightarrow> bool" where
  "host_end_ok s \<longleftrightarrow>
     s \<notin> {s_http_host_start, s_http_host_v6_start, s_http_host_v6, s_http_host_v6_zone_start,
          s_http_host_v6_zone, s_http_host_port_start, s_http_userinfo, s_http_userinfo_start}"

definition c_http_parse_host ::
  "char list \<Rightarrow> c_http_parser_url \<Rightarrow> bool \<Rightarrow> (nat \<times> c_http_parser_url) res" where
  "c_http_parse_host buf u at =
     (let off = field_off u UF_HOST; buflen = off + field_len u UF_HOST in
      rbind (c_assert (has_field u UF_HOST)) (\<lambda>_.
      let u1 = set_len u UF_HOST 0;
          s = (if at then s_http_userinfo_start else s_http_host_start) in
      rbind (host_loop buf (buflen - off) off s u1) (\<lambda>(more, s1, u2).
      Inr (if more \<and> host_end_ok s1 then 0 else 1, u2))))"

section \<open>Parsing a URL\<close>

record url_scan =
  sc_state :: url_state
  old_uf :: url_field
  found_at :: bool
  sc_url :: c_http_parser_url

definition scan_field :: "url_field \<Rightarrow> nat \<Rightarrow> url_scan \<Rightarrow> url_scan" where
  "scan_field uf p sc =
     (if uf = old_uf sc then sc\<lparr>sc_url := inc_len (sc_url sc) uf\<rparr>
      else sc\<lparr>sc_url := set_field (set_len (set_off (sc_url sc) uf p) uf 1) uf, old_uf := uf\<rparr>)"

text \<open>The flag is false after a return of 1.\<close>

definition scan_step :: "char \<Rightarrow> nat \<Rightarrow> url_scan \<Rightarrow> (bool \<times> url_scan) res" where
  "scan_step ch p sc =
     (let s = parse_url_char (sc_state sc) ch; sc1 = sc\<lparr>sc_state := s\<rparr> in
      case s of
        s_dead \<Rightarrow> Inr (False, sc1)
      | s_req_schema_slash \<Rightarrow> Inr (True, sc1)
      | s_req_schema_slash_slash \<Rightarrow> Inr (True, sc1)
      | s_req_server_start \<Rightarrow> Inr (True, sc1)
      | s_req_query_string_start \<Rightarrow> Inr (True, sc1)
      | s_req_fragment_start \<Rightarrow> Inr (True, sc1)
      | s_req_schema \<Rightarrow> Inr (True, scan_field UF_SCHEMA p sc1)
      | s_req_server_with_at \<Rightarrow> Inr (True, scan_field UF_HOST p (sc1\<lparr>found_at := True\<rparr>))
      | s_req_server \<Rightarrow> Inr (True, scan_field UF_HOST p sc1)
      | s_req_path \<Rightarrow> Inr (True, scan_field UF_PATH p sc1)
      | s_req_query_string \<Rightarrow> Inr (True, scan_field UF_QUERY p sc1)
      | s_req_fragment \<Rightarrow> Inr (True, scan_field UF_FRAGMENT p sc1)
      | _ \<Rightarrow> Inl Assert_fail)"

fun scan_loop :: "char list \<Rightarrow> nat \<Rightarrow> url_scan \<Rightarrow> (bool \<times> url_scan) res" where
  "scan_loop [] p sc = Inr (True, sc)"
| "scan_loop (ch # cs) p sc =
     rbind (scan_step ch p sc) (\<lambda>(more, sc1).
     if more then scan_loop cs (Suc p) sc1 else Inr (False, sc1))"

text \<open>The decimal value of \<open>n\<close> bytes from \<open>p\<close> on, in an \<open>unsigned long\<close>; \<open>None\<close> is a return of 1.\<close>

fun port_loop :: "char list \<Rightarrow> nat \<Rightarrow> nat \<Rightarrow> int \<Rightarrow> int option res" where
  "port_loop buf 0 p v = Inr (Some v)"
| "port_loop buf (Suc n) p v =
     rbind (buf_get buf p) (\<lambda>ch.
     let v1 = (v * 10) mod 2 ^ 64; v2 = (v1 + (schar ch - schar (CHR ''0''))) mod 2 ^ 64 in
     if v2 > 0xffff then Inr None else port_loop buf n (Suc p) v2)"

text \<open>What follows the scan: the host, the CONNECT rule and the port.\<close>

definition parse_port :: "char list \<Rightarrow> bool \<Rightarrow> c_http_parser_url \<Rightarrow> (nat \<times> c_http_parser_url) res" where
  "parse_port buf is_connect u =
     (if is_connect \<and> field_set u \<noteq> or (push_bit (uf_num UF_HOST) 1) (push_bit (uf_num UF_PORT) 1)
      then Inr (1, u)
      else if has_field u UF_PORT then
        rbind (c_assert (field_off u UF_PORT + field_len u UF_PORT \<le> length buf)) (\<lambda>_.
        rbind (port_loop buf (field_len u UF_PORT) (field_off u UF_PORT) 0) (\<lambda>r.
        case r of None \<Rightarrow> Inr (1, u) | Some v \<Rightarrow> Inr (0, u\<lparr>url_port := u16 (nat v)\<rparr>)))
      else Inr (0, u))"

definition parse_rest ::
  "char list \<Rightarrow> bool \<Rightarrow> bool \<Rightarrow> c_http_parser_url \<Rightarrow> (nat \<times> c_http_parser_url) res" where
  "parse_rest buf is_connect at u =
     (if has_field u UF_SCHEMA \<and> \<not> has_field u UF_HOST then Inr (1, u)
      else if has_field u UF_HOST then
        rbind (c_http_parse_host buf u at) (\<lambda>(rc, u1).
        if rc \<noteq> 0 then Inr (1, u1) else parse_port buf is_connect u1)
      else parse_port buf is_connect u)"

definition scan_start :: "bool \<Rightarrow> c_http_parser_url \<Rightarrow> url_scan" where
  "scan_start is_connect u =
     \<lparr>sc_state = (if is_connect then s_req_server_start else s_req_spaces_before_url),
      old_uf = UF_MAX, found_at = False, sc_url = u\<lparr>url_port := 0, field_set := 0\<rparr>\<rparr>"

definition c_http_parser_parse_url ::
  "char list \<Rightarrow> bool \<Rightarrow> c_http_parser_url \<Rightarrow> (nat \<times> c_http_parser_url) res" where
  "c_http_parser_parse_url buf is_connect u =
     (if length buf = 0 then Inr (1, u)
      else
        rbind (scan_loop buf 0 (scan_start is_connect u)) (\<lambda>(more, sc).
        if more then parse_rest buf is_connect (found_at sc) (sc_url sc)
        else Inr (1, sc_url sc)))"

section \<open>Fields of the struct\<close>

lemma uf_num_inj: "uf_num f = uf_num g \<longleftrightarrow> f = g"
  by (cases f; cases g) simp_all

lemma has_field_bit: "has_field u f \<longleftrightarrow> bit (field_set u) (uf_num f)"
  by (simp add: has_field_def bit_iff_and_push_bit_not_eq_0)

lemma bit_exp_nat: "bit ((2::nat) ^ m) n \<longleftrightarrow> m = n"
  by (auto simp: bit_exp_iff)

lemma has_set_field [simp]: "has_field (set_field u f) g \<longleftrightarrow> f = g \<or> has_field u g"
  by (auto simp: has_field_bit set_field_def bit_or_iff bit_exp_nat uf_num_inj)

lemma has_field_set [simp]:
  "has_field (set_off u f p) g = has_field u g" "has_field (set_len u f n) g = has_field u g"
  "has_field (inc_len u f) g = has_field u g"
  by (simp_all add: has_field_def set_off_def set_len_def inc_len_def)

lemma field_off_set [simp]:
  "field_off (set_off u f p) g = (if g = f then u16 p else field_off u g)"
  "field_off (set_len u f n) = field_off u" "field_off (inc_len u f) = field_off u"
  "field_off (set_field u f) = field_off u"
  by (auto simp: set_off_def set_len_def inc_len_def set_field_def)

lemma field_len_set [simp]:
  "field_len (set_len u f n) g = (if g = f then u16 n else field_len u g)"
  "field_len (inc_len u f) g = (if g = f then u16 (field_len u f + 1) else field_len u g)"
  "field_len (set_off u f p) = field_len u" "field_len (set_field u f) = field_len u"
  by (auto simp: set_off_def set_len_def inc_len_def set_field_def)

lemma field_set_set [simp]:
  "field_set (set_off u f p) = field_set u" "field_set (set_len u f n) = field_set u"
  "field_set (inc_len u f) = field_set u"
  by (simp_all add: set_off_def set_len_def inc_len_def)

lemma url_port_set [simp]:
  "url_port (set_off u f p) = url_port u" "url_port (set_len u f n) = url_port u"
  "url_port (inc_len u f) = url_port u" "url_port (set_field u f) = url_port u"
  by (simp_all add: set_off_def set_len_def inc_len_def set_field_def)

lemma url_port_update [simp]:
  "has_field (u\<lparr>url_port := n\<rparr>) f = has_field u f"
  by (simp add: has_field_def)

section \<open>The scan stays inside the buffer\<close>

definition fields_in :: "c_http_parser_url \<Rightarrow> nat \<Rightarrow> bool" where
  "fields_in u p \<longleftrightarrow> (\<forall>f. has_field u f \<longrightarrow> 0 < field_len u f \<and> field_off u f + field_len u f \<le> p)"

definition scan_inv :: "url_scan \<Rightarrow> nat \<Rightarrow> bool" where
  "scan_inv sc p \<longleftrightarrow>
     fields_in (sc_url sc) p \<and> (old_uf sc \<noteq> UF_MAX \<longrightarrow> has_field (sc_url sc) (old_uf sc)) \<and>
     \<not> has_field (sc_url sc) UF_PORT \<and> \<not> has_field (sc_url sc) UF_USERINFO \<and>
     \<not> has_field (sc_url sc) UF_MAX \<and> url_port (sc_url sc) = 0"

lemma parse_url_char_not_start [simp]: "parse_url_char s ch \<noteq> s_req_spaces_before_url"
  by (cases s) (auto simp: parse_url_char_def server_char_def)

lemma scan_inv_state [simp]:
  "scan_inv (sc\<lparr>sc_state := s\<rparr>) p = scan_inv sc p" "scan_inv (sc\<lparr>found_at := b\<rparr>) p = scan_inv sc p"
  by (simp_all add: scan_inv_def)

lemma scan_inv_mono: "scan_inv sc p \<Longrightarrow> p \<le> r \<Longrightarrow> scan_inv sc r"
  by (fastforce simp: scan_inv_def fields_in_def)

lemma scan_field_inv:
  assumes "scan_inv sc p" "p < 65535" "uf \<in> {UF_SCHEMA, UF_HOST, UF_PATH, UF_QUERY, UF_FRAGMENT}"
  shows "scan_inv (scan_field uf p sc) (Suc p)"
proof (cases "uf = old_uf sc")
  case True
  with assms have "has_field (sc_url sc) uf" "field_off (sc_url sc) uf + field_len (sc_url sc) uf \<le> p"
    by (auto simp: scan_inv_def fields_in_def)
  with True assms show ?thesis
    by (fastforce simp: scan_field_def scan_inv_def fields_in_def)
next
  case False
  with assms show ?thesis
    by (fastforce simp: scan_field_def scan_inv_def fields_in_def)
qed

lemma scan_step_inv:
  assumes "scan_inv sc p" "p < 65535"
  shows "\<exists>more sc'. scan_step ch p sc = Inr (more, sc') \<and> scan_inv sc' (Suc p)"
proof -
  have "scan_inv sc (Suc p)" using assms(1) by (rule scan_inv_mono) simp
  then show ?thesis
    using assms
    by (cases "parse_url_char (sc_state sc) ch")
       (auto simp: scan_step_def Let_def intro!: scan_field_inv)
qed

lemma scan_loop_inv:
  "\<lbrakk> scan_inv sc p; p + length cs \<le> 65535 \<rbrakk> \<Longrightarrow>
   \<exists>more sc'. scan_loop cs p sc = Inr (more, sc') \<and> scan_inv sc' (p + length cs)"
proof (induction cs arbitrary: sc p)
  case (Cons ch cs)
  then obtain more sc1 where s: "scan_step ch p sc = Inr (more, sc1)" "scan_inv sc1 (Suc p)"
    using scan_step_inv [of sc p ch] by auto
  show ?case
  proof (cases more)
    case True
    with s Cons.IH [OF s(2)] Cons.prems show ?thesis by auto
  next
    case False
    with s Cons.prems scan_inv_mono [OF s(2), of "p + length (ch # cs)"] show ?thesis by auto
  qed
qed auto

lemma scan_start_inv: "scan_inv (scan_start c u) 0"
  by (simp add: scan_inv_def scan_start_def fields_in_def has_field_def)

section \<open>The host loop stays inside the host\<close>

definition host_early :: "http_host_state \<Rightarrow> bool" where
  "host_early s \<longleftrightarrow> s \<in> {s_http_userinfo_start, s_http_userinfo, s_http_host_start, s_http_host_v6_start}"

definition host_inv :: "char list \<Rightarrow> nat \<Rightarrow> http_host_state \<Rightarrow> c_http_parser_url \<Rightarrow> bool" where
  "host_inv buf p s u \<longleftrightarrow>
     (\<forall>f. f \<noteq> UF_HOST \<longrightarrow> has_field u f \<longrightarrow>
          0 < field_len u f \<and> field_off u f + field_len u f \<le> length buf) \<and>
     \<not> has_field u UF_MAX \<and> url_port u = 0 \<and>
     has_field u UF_HOST \<and> field_off u UF_HOST + field_len u UF_HOST \<le> p \<and>
     (field_len u UF_HOST = 0 \<longleftrightarrow> host_early s) \<and>
     (has_field u UF_USERINFO \<longrightarrow> field_off u UF_USERINFO + field_len u UF_USERINFO \<le> p) \<and>
     (s = s_http_userinfo \<longrightarrow> has_field u UF_USERINFO) \<and>
     (has_field u UF_PORT \<longleftrightarrow> s = s_http_host_port) \<and>
     (has_field u UF_PORT \<longrightarrow>
        field_off u UF_PORT + field_len u UF_PORT = p \<and>
        (\<forall>i. field_off u UF_PORT \<le> i \<and> i < p \<longrightarrow> IS_NUM (buf ! i)))"

lemmas host_char_defs = c_http_parse_host_char_def v6_end_char_def v6_start_char_def v6_zone_char_def

lemma host_char_pred:
  "c_http_parse_host_char s ch \<noteq> s_http_userinfo_start"
  "c_http_parse_host_char s ch = s_http_userinfo \<Longrightarrow> s = s_http_userinfo_start \<or> s = s_http_userinfo"
  "c_http_parse_host_char s ch = s_http_host_start \<Longrightarrow> s = s_http_userinfo_start \<or> s = s_http_userinfo"
  "c_http_parse_host_char s ch = s_http_host_v6_start \<Longrightarrow> s = s_http_host_start"
  "c_http_parse_host_char s ch = s_http_host \<Longrightarrow> s = s_http_host_start \<or> s = s_http_host"
  "c_http_parse_host_char s ch = s_http_host_v6 \<Longrightarrow> s = s_http_host_v6_start \<or> s = s_http_host_v6"
  "c_http_parse_host_char s ch = s_http_host_v6_zone_start \<Longrightarrow> s = s_http_host_v6"
  "c_http_parse_host_char s ch = s_http_host_v6_zone \<Longrightarrow>
     s = s_http_host_v6_zone_start \<or> s = s_http_host_v6_zone"
  "c_http_parse_host_char s ch = s_http_host_v6_end \<Longrightarrow> s = s_http_host_v6 \<or> s = s_http_host_v6_zone"
  "c_http_parse_host_char s ch = s_http_host_port_start \<Longrightarrow> s = s_http_host \<or> s = s_http_host_v6_end"
  "c_http_parse_host_char s ch = s_http_host_port \<Longrightarrow>
     IS_NUM ch \<and> (s = s_http_host_port_start \<or> s = s_http_host_port)"
  by (auto simp: host_char_defs split: if_splits)

lemma host_step_inv:
  assumes inv: "host_inv buf p s u" and p: "p < length buf" "length buf < 65536"
    and new: "new_s = c_http_parse_host_char s (buf ! p)" "new_s \<noteq> s_http_host_dead"
  shows "host_inv buf (Suc p) new_s (host_update s new_s p u)"
  using inv p new(2) host_char_pred [of s "buf ! p", folded new(1)]
  by (cases new_s)
     (auto simp: host_inv_def host_update_def host_early_def less_Suc_eq)

lemma host_loop_inv:
  "\<lbrakk> host_inv buf p s u; p + n \<le> length buf; length buf < 65536 \<rbrakk> \<Longrightarrow>
   \<exists>more s' u'. host_loop buf n p s u = Inr (more, s', u') \<and>
     (more \<longrightarrow> host_inv buf (p + n) s' u')"
proof (induction n arbitrary: p s u)
  case (Suc n)
  let ?new = "c_http_parse_host_char s (buf ! p)"
  show ?case
  proof (cases "?new = s_http_host_dead")
    case True
    with Suc.prems show ?thesis by (auto simp: buf_get_def Let_def)
  next
    case False
    with Suc.prems host_step_inv [of buf p s u ?new] have
      "host_inv buf (Suc p) ?new (host_update s ?new p u)" by simp
    from Suc.IH [OF this] Suc.prems False show ?thesis by (simp add: buf_get_def Let_def)
  qed
qed auto

section \<open>The port\<close>

definition digit_val :: "char \<Rightarrow> nat" where
  "digit_val c = byte c - 48"

definition dec_from :: "nat \<Rightarrow> char list \<Rightarrow> nat" where
  "dec_from v cs = foldl (\<lambda>v c. v * 10 + digit_val c) v cs"

lemma dec_from_simps [simp]:
  "dec_from v [] = v" "dec_from v (c # cs) = dec_from (v * 10 + digit_val c) cs"
  by (simp_all add: dec_from_def)

lemma dec_from_ge: "v \<le> dec_from v cs"
proof (induction cs arbitrary: v)
  case (Cons c cs)
  have "v \<le> v * 10 + digit_val c" by simp
  also have "\<dots> \<le> dec_from v (c # cs)" using Cons by simp
  finally show ?case .
qed simp

lemma IS_NUM_digit: "IS_NUM c \<Longrightarrow> schar c - 48 = int (digit_val c) \<and> digit_val c \<le> 9"
  by (auto simp: IS_NUM_def schar_def digit_val_def split: if_splits)
     (use nat_of_char_less_256 [of c] in linarith)

definition slice :: "char list \<Rightarrow> nat \<Rightarrow> nat \<Rightarrow> char list" where
  "slice buf p n = take n (drop p buf)"

lemma slice_Suc: "p < length buf \<Longrightarrow> slice buf p (Suc n) = buf ! p # slice buf (Suc p) n"
  by (simp add: slice_def take_Suc_conv_app_nth Cons_nth_drop_Suc [symmetric])

lemma slice_all:
  assumes "p + n \<le> length buf"
  shows "(\<forall>i. p \<le> i \<and> i < p + n \<longrightarrow> P (buf ! i)) \<longleftrightarrow> (\<forall>c \<in> set (slice buf p n). P c)"
proof -
  have "buf ! i \<in> set (slice buf p n)" if "p \<le> i" "i < p + n" for i
    unfolding in_set_conv_nth using that assms
    by (intro exI [of _ "i - p"]) (simp add: slice_def)
  moreover have "\<exists>i. p \<le> i \<and> i < p + n \<and> c = buf ! i" if "c \<in> set (slice buf p n)" for c
  proof -
    from that assms obtain i where "i < n" "c = buf ! (p + i)"
      by (auto simp: in_set_conv_nth slice_def)
    then show ?thesis by (intro exI [of _ "p + i"]) simp
  qed
  ultimately show ?thesis by metis
qed

lemma slice_at: "buf = xs @ ys @ zs \<Longrightarrow> p = length xs \<Longrightarrow> n = length ys \<Longrightarrow> slice buf p n = ys"
  by (simp add: slice_def)

lemma port_loop_value:
  "\<lbrakk> p + n \<le> length buf; \<forall>i. p \<le> i \<and> i < p + n \<longrightarrow> IS_NUM (buf ! i); v \<le> 65535 \<rbrakk> \<Longrightarrow>
   port_loop buf n p (int v) =
     Inr (if dec_from v (slice buf p n) > 65535 then None else Some (int (dec_from v (slice buf p n))))"
proof (induction n arbitrary: p v)
  case (Suc n)
  let ?w = "v * 10 + digit_val (buf ! p)"
  from Suc.prems have num: "IS_NUM (buf ! p)" and p: "p < length buf" by auto
  have "(int v * 10 mod 2 ^ 64 + (schar (buf ! p) - schar (CHR ''0''))) mod 2 ^ 64 = int ?w"
    using IS_NUM_digit [OF num] Suc.prems(3) by (simp add: schar_def)
  then have step: "port_loop buf (Suc n) p (int v) =
      (if int ?w > 65535 then Inr None else port_loop buf n (Suc p) (int ?w))"
    using p by (simp only: port_loop.simps buf_get_def if_True rbind_Inr Let_def)
  show ?case
  proof (cases "?w > 65535")
    case True
    with dec_from_ge [of ?w "slice buf (Suc p) n"] have "dec_from ?w (slice buf (Suc p) n) > 65535" by linarith
    with True p show ?thesis unfolding step by (simp add: slice_Suc)
  next
    case False
    with Suc.IH [of "Suc p" ?w] Suc.prems p show ?thesis
      unfolding step by (simp add: slice_Suc)
  qed
qed (simp add: slice_def)

section \<open>What a successful parse promises\<close>

definition port_ok :: "char list \<Rightarrow> c_http_parser_url \<Rightarrow> bool" where
  "port_ok buf u \<longleftrightarrow>
     (if has_field u UF_PORT
      then (\<forall>c \<in> set (slice buf (field_off u UF_PORT) (field_len u UF_PORT)). IS_NUM c) \<and>
           url_port u = dec_from 0 (slice buf (field_off u UF_PORT) (field_len u UF_PORT)) \<and>
           url_port u \<le> 65535
      else url_port u = 0)"

definition url_ok :: "char list \<Rightarrow> c_http_parser_url \<Rightarrow> bool" where
  "url_ok buf u \<longleftrightarrow>
     fields_in u (length buf) \<and> \<not> has_field u UF_MAX \<and>
     (has_field u UF_SCHEMA \<longrightarrow> has_field u UF_HOST) \<and> port_ok buf u"

lemma fields_in_port [simp]: "fields_in (u\<lparr>url_port := n\<rparr>) p = fields_in u p"
  by (simp add: fields_in_def)

lemma parse_port_safe:
  assumes "fields_in u (length buf)" "\<not> has_field u UF_MAX" "url_port u = 0"
    and "has_field u UF_SCHEMA \<longrightarrow> has_field u UF_HOST"
    and "has_field u UF_PORT \<longrightarrow>
         (\<forall>i. field_off u UF_PORT \<le> i \<and> i < field_off u UF_PORT + field_len u UF_PORT \<longrightarrow> IS_NUM (buf ! i))"
  shows "\<exists>rc u'. parse_port buf con u = Inr (rc, u') \<and>
           (rc = 0 \<longrightarrow> url_ok buf u' \<and> (con \<longrightarrow> field_set u' = 6))"
proof (cases "has_field u UF_PORT")
  case False
  with assms show ?thesis by (auto simp: parse_port_def url_ok_def port_ok_def)
next
  case True
  let ?o = "field_off u UF_PORT" and ?l = "field_len u UF_PORT"
  have in_buf: "?o + ?l \<le> length buf" using assms(1) True by (auto simp: fields_in_def)
  have "\<forall>c \<in> set (slice buf ?o ?l). IS_NUM c"
    using assms(5) True slice_all [OF in_buf] by simp
  moreover have "port_loop buf ?l ?o 0 = Inr (if dec_from 0 (slice buf ?o ?l) > 65535 then None
      else Some (int (dec_from 0 (slice buf ?o ?l))))"
    using port_loop_value [OF in_buf, of 0] assms(5) True by simp
  ultimately show ?thesis
    using assms True in_buf by (auto simp: parse_port_def url_ok_def port_ok_def)
qed

lemma parse_host_safe:
  assumes "fields_in u (length buf)" "\<not> has_field u UF_MAX" "url_port u = 0" "has_field u UF_HOST"
    and "\<not> has_field u UF_PORT" "\<not> has_field u UF_USERINFO" "length buf < 65536"
  shows "\<exists>rc u'. c_http_parse_host buf u at = Inr (rc, u') \<and>
           (rc = 0 \<longrightarrow> fields_in u' (length buf) \<and> \<not> has_field u' UF_MAX \<and> url_port u' = 0 \<and>
              has_field u' UF_HOST \<and>
              (has_field u' UF_PORT \<longrightarrow>
                (\<forall>i. field_off u' UF_PORT \<le> i \<and> i < field_off u' UF_PORT + field_len u' UF_PORT \<longrightarrow>
                     IS_NUM (buf ! i))))"
proof -
  let ?o = "field_off u UF_HOST" and ?l = "field_len u UF_HOST"
  let ?s = "if at then s_http_userinfo_start else s_http_host_start"
  have in_buf: "?o + ?l \<le> length buf" using assms by (auto simp: fields_in_def)
  have "host_inv buf ?o ?s (set_len u UF_HOST 0)"
    using assms by (auto simp: host_inv_def fields_in_def host_early_def)
  from host_loop_inv [OF this in_buf assms(7)] obtain more s' u' where
    run: "host_loop buf ?l ?o ?s (set_len u UF_HOST 0) = Inr (more, s', u')"
    and inv: "more \<Longrightarrow> host_inv buf (?o + ?l) s' u'" by auto
  have "fields_in u' (length buf) \<and> \<not> has_field u' UF_MAX \<and> url_port u' = 0 \<and> has_field u' UF_HOST \<and>
      (has_field u' UF_PORT \<longrightarrow>
        (\<forall>i. field_off u' UF_PORT \<le> i \<and> i < field_off u' UF_PORT + field_len u' UF_PORT \<longrightarrow> IS_NUM (buf ! i)))"
    if "more" "host_end_ok s'"
  proof -
    note h = inv [OF that(1), unfolded host_inv_def]
    have "\<not> host_early s'" using that(2) by (auto simp: host_end_ok_def host_early_def)
    with h in_buf have "0 < field_len u' UF_HOST" "field_off u' UF_HOST + field_len u' UF_HOST \<le> length buf" by simp_all
    with h have "fields_in u' (length buf)" unfolding fields_in_def by metis
    with h show ?thesis by simp
  qed
  with run assms(4) show ?thesis
    by (auto simp: c_http_parse_host_def Let_def)
qed

section \<open>Taking a URL apart\<close>

definition put_field :: "c_http_parser_url \<Rightarrow> url_field \<Rightarrow> nat \<Rightarrow> nat \<Rightarrow> c_http_parser_url" where
  "put_field u uf p n = set_field (set_len (set_off u uf p) uf n) uf"

lemma put_field_simps [simp]:
  "has_field (put_field u uf p n) f \<longleftrightarrow> uf = f \<or> has_field u f"
  "field_off (put_field u uf p n) f = (if f = uf then u16 p else field_off u f)"
  "field_len (put_field u uf p n) f = (if f = uf then u16 n else field_len u f)"
  "url_port (put_field u uf p n) = url_port u"
  by (auto simp: put_field_def)

lemma inc_put_field: "Suc n < 65536 \<Longrightarrow> inc_len (put_field u uf p n) uf = put_field u uf p (Suc n)"
  by (simp add: put_field_def inc_len_def set_len_def set_off_def set_field_def)

text \<open>The states in which bytes belong to a field.\<close>

fun state_field :: "url_state \<Rightarrow> url_field" where
  "state_field s_req_schema = UF_SCHEMA"
| "state_field s_req_server = UF_HOST"
| "state_field s_req_path = UF_PATH"
| "state_field s_req_query_string = UF_QUERY"
| "state_field s_req_fragment = UF_FRAGMENT"
| "state_field s = UF_MAX"

lemma scan_step_field:
  assumes "parse_url_char (sc_state sc) ch = s" "state_field s \<noteq> UF_MAX"
  shows "scan_step ch p sc = Inr (True, scan_field (state_field s) p (sc\<lparr>sc_state := s\<rparr>))"
  using assms by (cases s) (simp_all add: scan_step_def Let_def)

lemma scan_loop_append:
  "scan_loop (xs @ ys) p sc =
     rbind (scan_loop xs p sc) (\<lambda>(more, sc1).
       if more then scan_loop ys (p + length xs) sc1 else Inr (False, sc1))"
proof (induction xs arbitrary: p sc)
  case (Cons x xs)
  show ?case
    by (cases "scan_step x p sc") (auto simp: Cons.IH cong: if_cong)
qed simp

lemma scan_loop_stay:
  assumes "state_field s = uf" "uf \<noteq> UF_MAX" "\<forall>c \<in> set cs. parse_url_char s c = s" "n + length cs < 65536"
  shows "scan_loop cs p \<lparr>sc_state = s, old_uf = uf, found_at = b, sc_url = put_field u uf q n\<rparr> =
         Inr (True, \<lparr>sc_state = s, old_uf = uf, found_at = b, sc_url = put_field u uf q (n + length cs)\<rparr>)"
  using assms
proof (induction cs arbitrary: p n)
  case (Cons c cs)
  have "scan_step c p \<lparr>sc_state = s, old_uf = uf, found_at = b, sc_url = put_field u uf q n\<rparr> =
      Inr (True, \<lparr>sc_state = s, old_uf = uf, found_at = b, sc_url = put_field u uf q (Suc n)\<rparr>)"
    using Cons.prems by (subst scan_step_field [of _ _ s]) (auto simp: scan_field_def inc_put_field)
  with Cons show ?case by simp
qed simp

text \<open>A whole field: its first byte changes the state, the others keep it.\<close>

lemma scan_loop_field:
  assumes "parse_url_char (sc_state sc) c = s" "state_field s = uf" "uf \<noteq> UF_MAX" "old_uf sc \<noteq> uf"
    and "\<forall>c \<in> set cs. parse_url_char s c = s" "Suc (length cs) < 65536"
  shows "scan_loop (c # cs) p sc =
         Inr (True, \<lparr>sc_state = s, old_uf = uf, found_at = found_at sc,
                     sc_url = put_field (sc_url sc) uf p (Suc (length cs))\<rparr>)"
proof -
  have "scan_step c p sc = Inr (True, \<lparr>sc_state = s, old_uf = uf, found_at = found_at sc,
      sc_url = put_field (sc_url sc) uf p 1\<rparr>)"
    using assms by (subst scan_step_field [of _ _ s]) (auto simp: scan_field_def put_field_def)
  with scan_loop_stay [OF assms(2,3,5), of 1] assms(6) show ?thesis by simp
qed

text \<open>The bytes that end a run of letters, digits or host bytes.\<close>

definition url_delims :: "char set" where
  "url_delims = {CHR '' '', CHR 0x0D, CHR 0x0A, CHR 0x09, CHR 0x0C, CHR ''/'', CHR '':'', CHR ''@'', CHR ''?'',
                 CHR ''['', CHR '']'', CHR ''*''}"

lemma IS_ALPHA_bytes: "IS_ALPHA c \<Longrightarrow> c \<notin> url_delims"
  by (auto simp: IS_ALPHA_def LOWER_def url_delims_def)

lemma IS_NUM_bytes: "IS_NUM c \<Longrightarrow> c \<notin> url_delims"
  by (auto simp: IS_NUM_def schar_def url_delims_def)

lemma IS_HOST_CHAR_bytes: "IS_HOST_CHAR c \<Longrightarrow> c \<notin> url_delims \<and> IS_USERINFO_CHAR c"
proof -
  assume "IS_HOST_CHAR c"
  then consider "IS_ALPHA c" | "IS_NUM c" | "c = CHR ''.''" | "c = CHR ''-''"
    unfolding IS_HOST_CHAR_def IS_ALPHANUM_def by blast
  then show ?thesis
  proof cases
    case 1
    then show ?thesis using IS_ALPHA_bytes by (simp add: IS_USERINFO_CHAR_def IS_ALPHANUM_def)
  next
    case 2
    then show ?thesis using IS_NUM_bytes by (simp add: IS_USERINFO_CHAR_def IS_ALPHANUM_def)
  qed (simp_all add: url_delims_def IS_USERINFO_CHAR_def IS_MARK_def)
qed

lemma IS_URL_CHAR_bytes:
  "IS_URL_CHAR c \<Longrightarrow> c \<notin> {CHR '' '', CHR 0x0D, CHR 0x0A, CHR 0x09, CHR 0x0C}"
  by (auto simp: IS_URL_CHAR_def BIT_AT_def normal_url_char_def)

lemmas url_char_simps = parse_url_char_def server_char_def

lemma url_char_stays:
  "IS_ALPHA c \<Longrightarrow> parse_url_char s_req_spaces_before_url c = s_req_schema"
  "IS_ALPHA c \<Longrightarrow> parse_url_char s_req_schema c = s_req_schema"
  "IS_HOST_CHAR c \<Longrightarrow> parse_url_char s_req_server_start c = s_req_server"
  "IS_HOST_CHAR c \<Longrightarrow> parse_url_char s_req_server c = s_req_server"
  "IS_NUM c \<Longrightarrow> parse_url_char s_req_server c = s_req_server"
  "parse_url_char s_req_server (CHR '':'') = s_req_server"
  "IS_URL_CHAR c \<Longrightarrow> parse_url_char s_req_path c = s_req_path"
  "IS_URL_CHAR c \<Longrightarrow> parse_url_char s_req_query_string_start c = s_req_query_string"
  "IS_URL_CHAR c \<Longrightarrow> parse_url_char s_req_query_string c = s_req_query_string"
  "IS_URL_CHAR c \<Longrightarrow> parse_url_char s_req_fragment_start c = s_req_fragment"
  "IS_URL_CHAR c \<Longrightarrow> parse_url_char s_req_fragment c = s_req_fragment"
  using IS_ALPHA_bytes [of c] IS_NUM_bytes [of c] IS_HOST_CHAR_bytes [of c] IS_URL_CHAR_bytes [of c]
  by (auto simp: url_char_simps IS_USERINFO_CHAR_def IS_ALPHANUM_def url_delims_def)

lemma url_char_delims:
  "parse_url_char s_req_schema (CHR '':'') = s_req_schema_slash"
  "parse_url_char s_req_schema_slash (CHR ''/'') = s_req_schema_slash_slash"
  "parse_url_char s_req_schema_slash_slash (CHR ''/'') = s_req_server_start"
  "parse_url_char s_req_server (CHR ''/'') = s_req_path"
  "parse_url_char s_req_path (CHR ''?'') = s_req_query_string_start"
  "parse_url_char s_req_query_string (CHR ''#'') = s_req_fragment_start"
  by (simp_all add: url_char_simps IS_ALPHA_def LOWER_def IS_URL_CHAR_def BIT_AT_def normal_url_char_def)

lemma host_loop_add:
  "host_loop buf (m + n) p s u =
     rbind (host_loop buf m p s u) (\<lambda>(more, s1, u1).
       if more then host_loop buf n (p + m) s1 u1 else Inr (False, s1, u1))"
proof (induction m arbitrary: p s u)
  case (Suc m)
  show ?case
    by (cases "buf_get buf p") (auto simp: Suc.IH Let_def cong: if_cong)
qed simp

lemma host_loop_seq:
  "host_loop buf m p s u = Inr (True, s1, u1) \<Longrightarrow>
   host_loop buf (m + n) p s u = host_loop buf n (p + m) s1 u1"
  by (simp add: host_loop_add)

text \<open>A run of host or port bytes.\<close>

lemma host_loop_host:
  assumes "p + n \<le> length buf" "\<forall>i. p \<le> i \<and> i < p + n \<longrightarrow> IS_HOST_CHAR (buf ! i)"
    and "has_field u UF_HOST" "field_len u UF_HOST + n < 65536"
  shows "host_loop buf n p s_http_host u =
           Inr (True, s_http_host, set_len u UF_HOST (field_len u UF_HOST + n))"
  using assms
proof (induction n arbitrary: p u)
  case 0
  then show ?case by (simp add: set_len_def)
next
  case (Suc n)
  have "IS_HOST_CHAR (buf ! p)" using Suc.prems by auto
  with Suc.prems Suc.IH [of "Suc p" "inc_len u UF_HOST"] show ?case
    by (simp add: buf_get_def Let_def host_char_defs host_update_def)
       (simp add: inc_len_def set_len_def)
qed

lemma host_loop_port:
  assumes "p + n \<le> length buf" "\<forall>i. p \<le> i \<and> i < p + n \<longrightarrow> IS_NUM (buf ! i)"
    and "field_len u UF_PORT + n < 65536"
  shows "host_loop buf n p s_http_host_port u =
           Inr (True, s_http_host_port, set_len u UF_PORT (field_len u UF_PORT + n))"
  using assms
proof (induction n arbitrary: p u)
  case 0
  then show ?case by (simp add: set_len_def)
next
  case (Suc n)
  have "IS_NUM (buf ! p)" using Suc.prems by auto
  with Suc.prems Suc.IH [of "Suc p" "inc_len u UF_PORT"] show ?case
    by (simp add: buf_get_def Let_def host_char_defs host_update_def)
       (simp add: inc_len_def set_len_def)
qed

lemma set_len_set_len [simp]: "set_len (set_len u f m) f n = set_len u f n"
  by (simp add: set_len_def)

lemma host_phase:
  assumes buf: "slice buf p (length host + Suc (length port)) = host @ CHR '':'' # port"
    and len: "p + length host + Suc (length port) \<le> length buf" "length buf < 65536"
    and host: "host \<noteq> []" "\<forall>c \<in> set host. IS_HOST_CHAR c"
    and port: "port \<noteq> []" "\<forall>c \<in> set port. IS_NUM c"
    and u: "has_field u UF_HOST"
  shows "host_loop buf (length host + Suc (length port)) p s_http_host_start (set_len u UF_HOST 0) =
    Inr (True, s_http_host_port,
         put_field (set_len (set_off u UF_HOST p) UF_HOST (length host)) UF_PORT
           (p + Suc (length host)) (length port))"
proof -
  have at: "buf ! (p + i) = (host @ CHR '':'' # port) ! i" if "i < length host + Suc (length port)" for i
    using that len arg_cong [OF buf, of "\<lambda>xs. xs ! i"] by (simp add: slice_def)
  obtain h hs d ds where hd: "host = h # hs" "port = d # ds" using host port by (cases host; cases port) auto
  define u1 where "u1 = inc_len (set_off (set_len u UF_HOST 0) UF_HOST p) UF_HOST"
  define u2 where "u2 = set_len u1 UF_HOST (length host)"
  define u3 where "u3 = inc_len (set_field (set_len (set_off u2 UF_PORT (p + Suc (length host))) UF_PORT 0) UF_PORT) UF_PORT"
  have 1: "host_loop buf 1 p s_http_host_start (set_len u UF_HOST 0) = Inr (True, s_http_host, u1)"
    using at [of 0] hd host len IS_HOST_CHAR_bytes [of h]
    by (auto simp: url_delims_def buf_get_def Let_def host_char_defs host_update_def u1_def)
  have 2: "host_loop buf (length hs) (p + 1) s_http_host u1 = Inr (True, s_http_host, u2)"
  proof -
    have "IS_HOST_CHAR (buf ! i)" if "p + 1 \<le> i \<and> i < p + 1 + length hs" for i
      using at [of "i - p"] that host hd by (auto simp: nth_append nth_Cons')
    then show ?thesis
      using host_loop_host [of "p + 1" "length hs" buf u1] len u hd by (simp add: u1_def u2_def)
  qed
  have 3: "host_loop buf 1 (p + length host) s_http_host u2 = Inr (True, s_http_host_port_start, u2)"
    using at [of "length host"] len IS_HOST_CHAR_bytes [of "CHR '':''"]
    by (auto simp: url_delims_def buf_get_def Let_def host_char_defs host_update_def)
  have 4: "host_loop buf 1 (p + Suc (length host)) s_http_host_port_start u2 = Inr (True, s_http_host_port, u3)"
    using at [of "Suc (length host)"] len hd port
    by (auto simp: buf_get_def Let_def host_char_defs host_update_def u3_def nth_append)
  have 5: "host_loop buf (length ds) (p + Suc (Suc (length host))) s_http_host_port u3 =
      Inr (True, s_http_host_port, set_len u3 UF_PORT (length port))"
  proof -
    have "IS_NUM (buf ! i)" if "p + Suc (Suc (length host)) \<le> i \<and> i < p + Suc (Suc (length host)) + length ds" for i
      using at [of "i - p"] that port hd by (auto simp: nth_append nth_Cons' split: if_splits)
    then show ?thesis
      using host_loop_port [of "p + Suc (Suc (length host))" "length ds" buf u3] len hd by (simp add: u3_def)
  qed
  have sum: "length host + Suc (length port) = 1 + (length hs + (1 + (1 + length ds)))" using hd by simp
  have "set_len u3 UF_PORT (length port) =
      put_field (set_len (set_off u UF_HOST p) UF_HOST (length host)) UF_PORT (p + Suc (length host)) (length port)"
    by (simp add: u3_def u2_def u1_def put_field_def inc_len_def set_len_def set_off_def set_field_def)
  moreover have "host_loop buf (1 + (length hs + (1 + (1 + length ds)))) p s_http_host_start (set_len u UF_HOST 0) =
      host_loop buf (length hs + (1 + (1 + length ds))) (p + 1) s_http_host u1"
    by (rule host_loop_seq [OF 1])
  moreover have "\<dots> = host_loop buf (1 + (1 + length ds)) (p + length host) s_http_host u2"
    using host_loop_seq [OF 2, of "1 + (1 + length ds)"] hd by (simp del: host_loop.simps)
  moreover have "\<dots> = host_loop buf (1 + length ds) (p + Suc (length host)) s_http_host_port_start u2"
    using host_loop_seq [OF 3, of "1 + length ds"] by (simp del: host_loop.simps)
  moreover have "\<dots> = host_loop buf (length ds) (p + Suc (Suc (length host))) s_http_host_port u3"
    using host_loop_seq [OF 4, of "length ds"] by (simp del: host_loop.simps)
  ultimately show ?thesis
    unfolding sum using 5 by metis
qed

text \<open>An absolute URL put together from its components.\<close>

record url_parts =
  pt_scheme :: "char list"
  pt_host :: "char list"
  pt_port :: "char list"
  pt_path :: "char list"
  pt_query :: "char list"
  pt_fragment :: "char list"

definition parts_ok :: "url_parts \<Rightarrow> bool" where
  "parts_ok t \<longleftrightarrow>
     pt_scheme t \<noteq> [] \<and> (\<forall>c \<in> set (pt_scheme t). IS_ALPHA c) \<and>
     pt_host t \<noteq> [] \<and> (\<forall>c \<in> set (pt_host t). IS_HOST_CHAR c) \<and>
     pt_port t \<noteq> [] \<and> (\<forall>c \<in> set (pt_port t). IS_NUM c) \<and> dec_from 0 (pt_port t) \<le> 65535 \<and>
     pt_path t \<noteq> [] \<and> hd (pt_path t) = CHR ''/'' \<and> (\<forall>c \<in> set (tl (pt_path t)). IS_URL_CHAR c) \<and>
     pt_query t \<noteq> [] \<and> (\<forall>c \<in> set (pt_query t). IS_URL_CHAR c) \<and>
     pt_fragment t \<noteq> [] \<and> (\<forall>c \<in> set (pt_fragment t). IS_URL_CHAR c)"

definition host_port :: "url_parts \<Rightarrow> char list" where
  "host_port t = pt_host t @ CHR '':'' # pt_port t"

definition url_text :: "url_parts \<Rightarrow> char list" where
  "url_text t = pt_scheme t @ ''://'' @ host_port t @ pt_path t @ ''?'' @ pt_query t @ ''#'' @ pt_fragment t"

definition scanned :: "url_parts \<Rightarrow> c_http_parser_url \<Rightarrow> c_http_parser_url" where
  "scanned t u =
     (let a = length (pt_scheme t) + 3; b = a + length (host_port t); c = b + length (pt_path t) + 1;
          d = c + length (pt_query t) + 1 in
      put_field (put_field (put_field (put_field (put_field u
        UF_SCHEMA 0 (length (pt_scheme t)))
        UF_HOST a (length (host_port t)))
        UF_PATH b (length (pt_path t)))
        UF_QUERY c (length (pt_query t)))
        UF_FRAGMENT d (length (pt_fragment t)))"

lemma scan_loop_seq:
  "scan_loop xs p sc = Inr (True, sc1) \<Longrightarrow> scan_loop (xs @ ys) p sc = scan_loop ys (p + length xs) sc1"
  by (simp add: scan_loop_append)

lemma scan_loop_delim:
  assumes "parse_url_char (sc_state sc) c = s"
    "s \<in> {s_req_schema_slash, s_req_schema_slash_slash, s_req_server_start, s_req_query_string_start,
          s_req_fragment_start}"
  shows "scan_loop [c] p sc = Inr (True, sc\<lparr>sc_state := s\<rparr>)"
  using assms by (auto simp: scan_step_def Let_def)

text \<open>The same fact for a field given by its bytes.\<close>

lemma scan_loop_part:
  assumes "cs \<noteq> []" "parse_url_char (sc_state sc) (hd cs) = s" "state_field s = uf" "uf \<noteq> UF_MAX"
    and "old_uf sc \<noteq> uf" "\<forall>c \<in> set (tl cs). parse_url_char s c = s" "length cs < 65536"
  shows "scan_loop cs p sc =
         Inr (True, \<lparr>sc_state = s, old_uf = uf, found_at = found_at sc,
                     sc_url = put_field (sc_url sc) uf p (length cs)\<rparr>)"
  using scan_loop_field [of sc "hd cs" s uf "tl cs" p] assms by (cases cs) auto

lemma scan_phase:
  assumes ok: "parts_ok t" and len: "length (url_text t) < 65536"
  shows "scan_loop (url_text t) 0 (scan_start False u) =
    Inr (True, \<lparr>sc_state = s_req_fragment, old_uf = UF_FRAGMENT, found_at = False,
                sc_url = scanned t (u\<lparr>url_port := 0, field_set := 0\<rparr>)\<rparr>)"
proof -
  let ?u = "u\<lparr>url_port := 0, field_set := 0\<rparr>"
  let ?a = "length (pt_scheme t)" and ?h = "length (host_port t)"
  define st where "st s uf v = \<lparr>sc_state = s, old_uf = uf, found_at = False, sc_url = v\<rparr>" for s uf v
  define u1 where "u1 = put_field ?u UF_SCHEMA 0 ?a"
  define u2 where "u2 = put_field u1 UF_HOST (?a + 3) ?h"
  define u3 where "u3 = put_field u2 UF_PATH (?a + 3 + ?h) (length (pt_path t))"
  define u4 where "u4 = put_field u3 UF_QUERY (?a + 3 + ?h + length (pt_path t) + 1) (length (pt_query t))"
  note lens = len [unfolded url_text_def, simplified]
  have 1: "scan_loop (pt_scheme t) 0 (scan_start False u) = Inr (True, st s_req_schema UF_SCHEMA u1)"
    using ok lens list.set_sel(2) [of "pt_scheme t"] unfolding st_def u1_def
    by (subst scan_loop_part [of _ _ s_req_schema UF_SCHEMA])
       (auto simp: scan_start_def parts_ok_def url_char_stays dest: in_set_tlD)
  have 2: "scan_loop ''://'' ?a (st s_req_schema UF_SCHEMA u1) = Inr (True, st s_req_server_start UF_SCHEMA u1)"
    by (simp add: scan_step_def st_def url_char_delims)
  have 3: "scan_loop (host_port t) (?a + 3) (st s_req_server_start UF_SCHEMA u1) = Inr (True, st s_req_server UF_HOST u2)"
    using ok lens unfolding st_def u2_def
    by (subst scan_loop_part [of _ _ s_req_server UF_HOST])
       (auto simp: parts_ok_def host_port_def url_char_stays hd_append tl_append dest: in_set_tlD
          split: list.splits)
  have 4: "scan_loop (pt_path t) (?a + 3 + ?h) (st s_req_server UF_HOST u2) = Inr (True, st s_req_path UF_PATH u3)"
    using ok lens unfolding st_def u3_def
    by (subst scan_loop_part [of _ _ s_req_path UF_PATH])
       (auto simp: parts_ok_def url_char_stays url_char_delims)
  have 5: "scan_loop ''?'' p (st s_req_path UF_PATH u3) = Inr (True, st s_req_query_string_start UF_PATH u3)" for p
    by (simp add: scan_step_def st_def url_char_delims)
  have 6: "scan_loop (pt_query t) (?a + 3 + ?h + length (pt_path t) + 1) (st s_req_query_string_start UF_PATH u3) =
      Inr (True, st s_req_query_string UF_QUERY u4)"
    using ok lens unfolding st_def u4_def
    by (subst scan_loop_part [of _ _ s_req_query_string UF_QUERY])
       (auto simp: parts_ok_def url_char_stays dest: in_set_tlD)
  have 7: "scan_loop ''#'' p (st s_req_query_string UF_QUERY u4) = Inr (True, st s_req_fragment_start UF_QUERY u4)" for p
    by (simp add: scan_step_def st_def url_char_delims)
  have 8: "scan_loop (pt_fragment t) p (st s_req_fragment_start UF_QUERY u4) =
      Inr (True, st s_req_fragment UF_FRAGMENT (put_field u4 UF_FRAGMENT p (length (pt_fragment t))))" for p
    using ok lens unfolding st_def
    by (subst scan_loop_part [of _ _ s_req_fragment UF_FRAGMENT])
       (auto simp: parts_ok_def url_char_stays dest: in_set_tlD)
  let ?f = "''#'' @ pt_fragment t" and ?q = "''?'' @ pt_query t @ ''#'' @ pt_fragment t"
  let ?c = "?a + 3 + ?h + length (pt_path t)"
  have "scan_loop (url_text t) 0 (scan_start False u) =
      scan_loop (host_port t @ pt_path t @ ?q) (?a + 3) (st s_req_server_start UF_SCHEMA u1)"
    unfolding url_text_def scan_loop_seq [OF 1] add_0 scan_loop_seq [OF 2]
    by (simp add: numeral_3_eq_3)
  also have "\<dots> = scan_loop ?q ?c (st s_req_path UF_PATH u3)"
    unfolding scan_loop_seq [OF 3] scan_loop_seq [OF 4] ..
  also have "\<dots> = scan_loop (pt_query t @ ?f) (?c + 1) (st s_req_query_string_start UF_PATH u3)"
    unfolding scan_loop_seq [OF 5] by simp
  also have "\<dots> = scan_loop (pt_fragment t) (?c + 1 + length (pt_query t) + 1) (st s_req_fragment_start UF_QUERY u4)"
    unfolding scan_loop_seq [OF 6] scan_loop_seq [OF 7] by simp
  finally show ?thesis
    unfolding 8 by (simp add: st_def scanned_def Let_def u4_def u3_def u2_def u1_def add.assoc)
qed

definition url_get :: "char list \<Rightarrow> c_http_parser_url \<Rightarrow> url_field \<Rightarrow> char list" where
  "url_get buf u f = slice buf (field_off u f) (field_len u f)"

definition parsed :: "url_parts \<Rightarrow> c_http_parser_url \<Rightarrow> c_http_parser_url" where
  "parsed t u =
     (let a = length (pt_scheme t) + 3 in
      (put_field (set_len (set_off (scanned t u) UF_HOST a) UF_HOST (length (pt_host t)))
         UF_PORT (a + Suc (length (pt_host t))) (length (pt_port t)))
      \<lparr>url_port := dec_from 0 (pt_port t)\<rparr>)"

lemma url_text_slices:
  "slice (url_text t) 0 (length (pt_scheme t)) = pt_scheme t"
  "slice (url_text t) (length (pt_scheme t) + 3) (length (host_port t)) = host_port t"
  "slice (url_text t) (length (pt_scheme t) + 3) (length (pt_host t)) = pt_host t"
  "slice (url_text t) (length (pt_scheme t) + 3 + Suc (length (pt_host t))) (length (pt_port t)) = pt_port t"
  "slice (url_text t) (length (pt_scheme t) + 3 + length (host_port t)) (length (pt_path t)) = pt_path t"
  "slice (url_text t) (length (pt_scheme t) + 3 + length (host_port t) + length (pt_path t) + 1)
     (length (pt_query t)) = pt_query t"
  "slice (url_text t) (length (pt_scheme t) + 3 + length (host_port t) + length (pt_path t) + 1 +
     length (pt_query t) + 1) (length (pt_fragment t)) = pt_fragment t"
  unfolding url_text_def host_port_def
  by (rule slice_at [of _ "[]"], simp_all)
     (rule slice_at [of _ "pt_scheme t @ ''://''"], simp_all,
      rule slice_at [of _ "pt_scheme t @ ''://''"], simp_all,
      rule slice_at [of _ "pt_scheme t @ ''://'' @ pt_host t @ '':''"], simp_all,
      rule slice_at [of _ "pt_scheme t @ ''://'' @ pt_host t @ '':'' @ pt_port t"], simp_all,
      rule slice_at [of _ "pt_scheme t @ ''://'' @ pt_host t @ '':'' @ pt_port t @ pt_path t @ ''?''"], simp_all,
      rule slice_at [of _ "pt_scheme t @ ''://'' @ pt_host t @ '':'' @ pt_port t @ pt_path t @ ''?'' @
        pt_query t @ ''#''" _ "[]"], simp_all)

lemma parse_url_parts:
  assumes ok: "parts_ok t" and len: "length (url_text t) < 65536"
  shows "c_http_parser_parse_url (url_text t) False u =
           Inr (0, parsed t (u\<lparr>url_port := 0, field_set := 0\<rparr>))"
proof -
  let ?u = "u\<lparr>url_port := 0, field_set := 0\<rparr>" and ?b = "url_text t"
  let ?a = "length (pt_scheme t) + 3"
  define v where "v = scanned t ?u"
  define w where "w = put_field (set_len (set_off v UF_HOST ?a) UF_HOST (length (pt_host t)))
    UF_PORT (?a + Suc (length (pt_host t))) (length (pt_port t))"
  note lens = len [unfolded url_text_def host_port_def, simplified]
  have bl: "length ?b \<noteq> 0" using ok by (auto simp: url_text_def parts_ok_def)
  have v: "has_field v UF_HOST" "has_field v UF_SCHEMA" "field_off v UF_HOST = ?a"
    "field_len v UF_HOST = length (pt_host t) + Suc (length (pt_port t))"
    using lens by (simp_all add: v_def scanned_def Let_def host_port_def)
  have "host_loop ?b (length (pt_host t) + Suc (length (pt_port t))) ?a s_http_host_start (set_len v UF_HOST 0) =
      Inr (True, s_http_host_port, w)"
    unfolding w_def using ok lens v url_text_slices(2) [of t]
    by (intro host_phase) (auto simp: parts_ok_def host_port_def url_text_def)
  then have host: "c_http_parse_host ?b v False = Inr (0, w)"
    using v by (simp add: c_http_parse_host_def Let_def host_end_ok_def)
  have w: "has_field w UF_PORT" "field_off w UF_PORT = ?a + Suc (length (pt_host t))"
    "field_len w UF_PORT = length (pt_port t)"
    using lens by (simp_all add: w_def)
  have in_b: "?a + Suc (length (pt_host t)) + length (pt_port t) \<le> length ?b"
    by (simp add: url_text_def host_port_def)
  have "\<forall>c \<in> set (slice ?b (?a + Suc (length (pt_host t))) (length (pt_port t))). IS_NUM c"
    unfolding url_text_slices using ok by (simp add: parts_ok_def)
  with port_loop_value [OF in_b, of 0] ok slice_all [OF in_b, of IS_NUM]
  have "port_loop ?b (length (pt_port t)) (?a + Suc (length (pt_host t))) 0 = Inr (Some (int (dec_from 0 (pt_port t))))"
    unfolding url_text_slices by (simp add: parts_ok_def del: port_loop.simps)
  then have port: "parse_port ?b False w = Inr (0, w\<lparr>url_port := dec_from 0 (pt_port t)\<rparr>)"
    using w in_b ok by (simp add: parse_port_def parts_ok_def)
  show ?thesis
    using bl v host port scan_phase [OF ok len, of u]
    by (simp add: c_http_parser_parse_url_def parse_rest_def v_def parsed_def Let_def w_def)
qed

lemma parsed_fields:
  assumes "length (url_text t) < 65536"
  shows "url_get (url_text t) (parsed t u) UF_SCHEMA = pt_scheme t"
    "url_get (url_text t) (parsed t u) UF_HOST = pt_host t"
    "url_get (url_text t) (parsed t u) UF_PORT = pt_port t"
    "url_get (url_text t) (parsed t u) UF_PATH = pt_path t"
    "url_get (url_text t) (parsed t u) UF_QUERY = pt_query t"
    "url_get (url_text t) (parsed t u) UF_FRAGMENT = pt_fragment t"
  using assms url_text_slices [of t]
  by (simp_all add: url_get_def parsed_def scanned_def Let_def url_text_def host_port_def)

section \<open>Properties\<close>

text \<open>
  C15: On every input shorter than 64 KB the URL parser returns 0 or 1: no assertion fails, the
  state it calls unexpected is never reached and no byte outside the input is read. When it
  returns 0, every reported field is a non-empty slice of the input, a scheme comes with a
  host, the port field consists of digits and \<open>port\<close> is its decimal value below 65536, and a
  CONNECT target has exactly a host and a port. Nothing is claimed for longer inputs, where the
  16-bit offsets and lengths wrap.
\<close>

theorem url_parse_safe:
  assumes "length buf < 65536"
  shows "\<exists>rc u'. c_http_parser_parse_url buf con u = Inr (rc, u') \<and>
           (rc = 0 \<longrightarrow> url_ok buf u' \<and> (con \<longrightarrow> field_set u' = 6))"
proof (cases "buf = []")
  case True
  then show ?thesis by (simp add: c_http_parser_parse_url_def)
next
  case False
  from scan_loop_inv [OF scan_start_inv, of buf con u] assms obtain more sc where
    sc: "scan_loop buf 0 (scan_start con u) = Inr (more, sc)" "scan_inv sc (length buf)" by auto
  let ?u = "sc_url sc"
  have inv: "fields_in ?u (length buf)" "\<not> has_field ?u UF_MAX" "url_port ?u = 0"
    "\<not> has_field ?u UF_PORT" "\<not> has_field ?u UF_USERINFO"
    using sc(2) by (auto simp: scan_inv_def)
  have "\<exists>rc u'. parse_rest buf con (found_at sc) ?u = Inr (rc, u') \<and>
      (rc = 0 \<longrightarrow> url_ok buf u' \<and> (con \<longrightarrow> field_set u' = 6))"
  proof (cases "has_field ?u UF_HOST")
    case True
    from parse_host_safe [OF inv(1-3) True inv(4,5) assms, of "found_at sc"] obtain rc u1 where
      h: "c_http_parse_host buf ?u (found_at sc) = Inr (rc, u1)"
      "rc = 0 \<Longrightarrow> fields_in u1 (length buf) \<and> \<not> has_field u1 UF_MAX \<and> url_port u1 = 0 \<and>
         has_field u1 UF_HOST \<and> (has_field u1 UF_PORT \<longrightarrow>
           (\<forall>i. field_off u1 UF_PORT \<le> i \<and> i < field_off u1 UF_PORT + field_len u1 UF_PORT \<longrightarrow>
                IS_NUM (buf ! i)))" by auto
    show ?thesis
    proof (cases "rc = 0")
      case True
      with \<open>has_field ?u UF_HOST\<close> h parse_port_safe [of u1 buf con] show ?thesis
        by (simp add: parse_rest_def)
    next
      case False
      with \<open>has_field ?u UF_HOST\<close> h show ?thesis by (simp add: parse_rest_def)
    qed
  next
    case False
    with inv parse_port_safe [of ?u buf con] show ?thesis by (auto simp: parse_rest_def)
  qed
  with sc False show ?thesis by (cases more) (auto simp: c_http_parser_parse_url_def)
qed

theorem url_parse_safe_witness:
  "\<exists>rc u'. c_http_parser_parse_url ''http://h:80/x'' False c_http_parser_url_init = Inr (rc, u') \<and>
           (rc = 0 \<longrightarrow> url_ok ''http://h:80/x'' u')"
  using url_parse_safe [of "''http://h:80/x''" False] by simp


definition demo_parts :: url_parts where
  "demo_parts = \<lparr>pt_scheme = ''http'', pt_host = ''a-b.org'', pt_port = ''8080'', pt_path = ''/x/y'',
                 pt_query = ''k=v'', pt_fragment = ''top''\<rparr>"

lemma demo_parts_ok: "parts_ok demo_parts"
  by (simp add: parts_ok_def demo_parts_def IS_ALPHA_def LOWER_def IS_HOST_CHAR_def IS_ALPHANUM_def
      IS_NUM_def schar_def digit_val_def IS_URL_CHAR_def BIT_AT_def normal_url_char_def)


end
