(* ===== verification/Url.thy ===== *)
theory Url
  imports C_Buffer Url_Parser
begin

text \<open>
  The URL object of \<^verbatim>\<open>src/common/url.c\<close>: \<open>Url_new\<close> parses a C string and copies the
  components into buffers of their own. The return code of the parser is ignored, as in the
  source: after a failure the buffers hold what the parser had recorded by then.
\<close>

record Url_t =
  scheme :: Cbuffer
  host :: Cbuffer
  path :: Cbuffer
  port :: Cbuffer
  fragement :: Cbuffer
  query :: Cbuffer
  user_info :: Cbuffer

text \<open>The pattern \<open>x = Cbuffer_new (); if (len != 0) Cbuffer_append (x, off + url, len)\<close>.\<close>

definition Url_component :: "char list \<Rightarrow> c_http_parser_url \<Rightarrow> url_field \<Rightarrow> Cbuffer res" where
  "Url_component url u f =
     rbind Cbuffer_new (\<lambda>cb.
     if field_len u f \<noteq> 0 then
       rbind (mem_range (map Some url @ [Some (CHR 0x00)]) (int (field_off u f)) (int (field_len u f)))
         (Cbuffer_append cb)
     else Inr cb)"

definition Url_new :: "mem \<Rightarrow> Url_t res" where
  "Url_new url_p =
     rbind (c_str url_p) (\<lambda>url.
     rbind (c_http_parser_parse_url url False c_http_parser_url_init) (\<lambda>(_, u).
     rbind (Url_component url u UF_SCHEMA) (\<lambda>b_scheme.
     rbind (Url_component url u UF_USERINFO) (\<lambda>b_user.
     rbind (Url_component url u UF_HOST) (\<lambda>b_host.
     rbind (Url_component url u UF_PATH) (\<lambda>b_path.
     rbind (Url_component url u UF_PORT) (\<lambda>b_port.
     rbind (Url_component url u UF_FRAGMENT) (\<lambda>b_frag.
     rbind (Url_component url u UF_QUERY) (\<lambda>b_query.
     Inr \<lparr>scheme = b_scheme, host = b_host, path = b_path, port = b_port, fragement = b_frag,
          query = b_query, user_info = b_user\<rparr>)))))))))"

lemma Url_component_holds:
  assumes "field_off u f + field_len u f \<le> length url" "field_len u f < 512"
  shows "\<exists>cb. Url_component url u f = Inr cb \<and> cbuf_holds cb (url_get url u f)"
proof -
  from Cbuffer_new_holds obtain cb where
    cb: "Cbuffer_new = Inr cb" "cbuf_holds cb []" by blast
  from cb(1) have cap: "m_capacity cb = 256"
    by (auto simp: Cbuffer_new_def BufferStrategy_allocate_def common_strategy_def)
  have len: "length (url_get url u f) = field_len u f"
    using assms by (simp add: url_get_def slice_def)
  have "mem_range (map Some url @ [Some (CHR 0x00)]) (int (field_off u f)) (int (field_len u f)) =
      Inr (map Some (url_get url u f))"
    using assms by (simp add: mem_range_def url_get_def slice_def take_map drop_map)
  with Cbuffer_append_fits [OF cb(2), of "url_get url u f"] assms len cap cb(2) show ?thesis
    unfolding Url_component_def cb(1) by (auto simp: cbuf_limit_def url_get_def slice_def)
qed

lemma parsed_bounds:
  assumes "length (url_text t) < 65536"
  shows "field_off (parsed t c_http_parser_url_init) f + field_len (parsed t c_http_parser_url_init) f
           \<le> length (url_text t)"
    "field_len (parsed t c_http_parser_url_init) f =
       (case f of UF_SCHEMA \<Rightarrow> length (pt_scheme t) | UF_HOST \<Rightarrow> length (pt_host t)
        | UF_PORT \<Rightarrow> length (pt_port t) | UF_PATH \<Rightarrow> length (pt_path t)
        | UF_QUERY \<Rightarrow> length (pt_query t) | UF_FRAGMENT \<Rightarrow> length (pt_fragment t) | _ \<Rightarrow> 0)"
  using assms
  by (cases f; simp add: parsed_def scanned_def Let_def url_text_def host_port_def
      c_http_parser_url_init_def)+

definition parts_short :: "url_parts \<Rightarrow> bool" where
  "parts_short t \<longleftrightarrow>
     length (pt_scheme t) < 512 \<and> length (pt_host t) < 512 \<and> length (pt_port t) < 512 \<and>
     length (pt_path t) < 512 \<and> length (pt_query t) < 512 \<and> length (pt_fragment t) < 512"

text \<open>
  \<open>Url_new\<close> on an absolute URL whose components are shorter than 512 bytes each builds an
  object whose buffers hold exactly these components, with an empty user info.
\<close>

lemma url_new_components:
  assumes "parts_ok t" "parts_short t" "no_nul (url_text t)"
  shows "\<exists>o1. Url_new (map Some (url_text t) @ [Some (CHR 0x00)]) = Inr o1 \<and>
           cbuf_holds (scheme o1) (pt_scheme t) \<and> cbuf_holds (host o1) (pt_host t) \<and>
           cbuf_holds (port o1) (pt_port t) \<and> cbuf_holds (path o1) (pt_path t) \<and>
           cbuf_holds (query o1) (pt_query t) \<and> cbuf_holds (fragement o1) (pt_fragment t) \<and>
           cbuf_holds (user_info o1) []"
proof -
  let ?url = "url_text t" and ?u = "parsed t c_http_parser_url_init"
  have len: "length ?url < 65536"
    using assms(2) by (simp add: url_text_def host_port_def parts_short_def)
  have "\<exists>cb. Url_component ?url ?u f = Inr cb \<and> cbuf_holds cb (url_get ?url ?u f)" for f
  proof (rule Url_component_holds)
    show "field_len ?u f < 512"
      using parsed_bounds(2) [OF len, of f] assms(2)
      by (simp add: parts_short_def split: url_field.splits)
  qed (rule parsed_bounds(1) [OF len])
  then obtain B where B: "Url_component ?url ?u f = Inr (B f)" "cbuf_holds (B f) (url_get ?url ?u f)" for f
    by metis
  have init: "c_http_parser_url_init\<lparr>url_port := 0, field_set := 0\<rparr> = c_http_parser_url_init"
    by (simp add: c_http_parser_url_init_def)
  have "url_get ?url ?u UF_USERINFO = []"
    using parsed_bounds(2) [OF len, of UF_USERINFO] by (simp add: url_get_def slice_def)
  with B(2) parsed_fields [OF len, of c_http_parser_url_init] show ?thesis
    using parse_url_parts [OF assms(1) len, of c_http_parser_url_init] assms(3)
    by (simp add: Url_new_def B(1) init) (metis)
qed

end
