(* ===== verification/C_List.thy ===== *)
theory C_List
  imports C_Prelude
begin

text \<open>
  The doubly linked list of \<^verbatim>\<open>src/common/list.c\<close>, with its nodes in an explicit heap.

  A \<open>List\<close> is the C struct (\<open>count\<close>, \<open>head\<close>, \<open>tail\<close>) together with the nodes it has
  allocated: \<open>heap\<close> maps an address to a live node and \<open>fresh\<close> is the next address
  \<open>malloc\<close> hands out. A pointer is an \<open>addr option\<close>, \<open>None\<close> being \<open>NULL\<close>; reading
  through \<open>NULL\<close> or through a freed address is an error. The type of the items is a
  parameter, as \<open>void*\<close> is in the source; the stores of \<open>NULL\<close> into the \<open>item\<close> of a node
  that is freed by the next statement are not modelled.

  \<open>list_rep l ps xs\<close> says that the nodes of \<open>l\<close> are exactly the addresses \<open>ps\<close>, linked in
  both directions in that order, and hold the items \<open>xs\<close>. Every operation is shown to
  act on \<open>xs\<close> as the corresponding operation on lists does, never to touch a dead node and
  never to leak one. The counter is an \<open>int\<close> that the source increments without a check: adding
  to a list of \<open>INT_MAX\<close> items is an overflow. The locale \<open>c_deque\<close> is the interface the other components use.

  A loop of the source that follows \<open>forward\<close> pointers to \<open>NULL\<close> carries the bound
  \<open>Suc (fresh l)\<close>: a list has at most \<open>fresh l\<close> nodes, so the bound is only met on a
  cyclic chain.
\<close>

type_synonym addr = nat

record 'a ListNode =
  forward :: "addr option"
  backward :: "addr option"
  item :: 'a

record 'a List =
  count :: int
  head :: "addr option"
  tail :: "addr option"
  heap :: "addr \<rightharpoonup> 'a ListNode"
  fresh :: addr

section \<open>Operations\<close>

definition deref :: "'a List \<Rightarrow> addr option \<Rightarrow> (addr \<times> 'a ListNode) res" where
  "deref l p =
     (case p of None \<Rightarrow> Inl Null_deref
      | Some a \<Rightarrow> (case heap l a of None \<Rightarrow> Inl Bad_pointer | Some n \<Rightarrow> Inr (a, n)))"

definition set_forward :: "'a List \<Rightarrow> addr option \<Rightarrow> addr option \<Rightarrow> 'a List res" where
  "set_forward l p v =
     rbind (deref l p) (\<lambda>(a, n). Inr (l\<lparr>heap := (heap l)(a \<mapsto> n\<lparr>forward := v\<rparr>)\<rparr>))"

definition set_backward :: "'a List \<Rightarrow> addr option \<Rightarrow> addr option \<Rightarrow> 'a List res" where
  "set_backward l p v =
     rbind (deref l p) (\<lambda>(a, n). Inr (l\<lparr>heap := (heap l)(a \<mapsto> n\<lparr>backward := v\<rparr>)\<rparr>))"

definition set_item :: "'a List \<Rightarrow> addr option \<Rightarrow> 'a \<Rightarrow> 'a List res" where
  "set_item l p v =
     rbind (deref l p) (\<lambda>(a, n). Inr (l\<lparr>heap := (heap l)(a \<mapsto> n\<lparr>item := v\<rparr>)\<rparr>))"

definition ListNode_new ::
  "'a List \<Rightarrow> 'a \<Rightarrow> addr option \<Rightarrow> addr option \<Rightarrow> addr \<times> 'a List" where
  "ListNode_new l content prev nxt =
     (fresh l,
      l\<lparr>heap := (heap l)(fresh l \<mapsto> \<lparr>forward = nxt, backward = prev, item = content\<rparr>),
        fresh := Suc (fresh l)\<rparr>)"

definition ListNode_free :: "'a List \<Rightarrow> addr option \<Rightarrow> 'a List res" where
  "ListNode_free l p =
     rbind (deref l p) (\<lambda>(a, n). Inr (l\<lparr>heap := (heap l)(a := None)\<rparr>))"

definition List_init :: "'a List \<Rightarrow> 'a List" where
  "List_init l = l\<lparr>count := 0, head := None, tail := None\<rparr>"

definition List_new :: "'a List" where
  "List_new = List_init
     \<lparr>count = 0, head = None, tail = None, heap = Map.empty, fresh = 0\<rparr>"

definition List_size :: "'a List \<Rightarrow> int" where
  "List_size l = count l"

definition List_add_front :: "'a List \<Rightarrow> 'a \<Rightarrow> 'a List res" where
  "List_add_front l content =
     (case ListNode_new l content None None of (lnref, l1) \<Rightarrow>
        if count l1 = 0 then
          rbind (c_int (count l1 + 1)) (\<lambda>n.
          Inr (l1\<lparr>head := Some lnref, tail := Some lnref, count := n\<rparr>))
        else
          rbind (set_forward l1 (Some lnref) (head l1)) (\<lambda>l2.
          rbind (set_backward l2 (Some lnref) None) (\<lambda>l3.
          rbind (set_backward l3 (head l3) (Some lnref)) (\<lambda>l4.
          rbind (c_int (count l4 + 1)) (\<lambda>n.
          Inr (l4\<lparr>head := Some lnref, count := n\<rparr>))))))"

definition List_add_back :: "'a List \<Rightarrow> 'a \<Rightarrow> 'a List res" where
  "List_add_back l content =
     (case ListNode_new l content None (head l) of (lnref, l1) \<Rightarrow>
        if count l1 = 0 then
          rbind (c_int (count l1 + 1)) (\<lambda>n.
          Inr (l1\<lparr>tail := Some lnref, head := Some lnref, count := n\<rparr>))
        else
          rbind (set_backward l1 (Some lnref) (tail l1)) (\<lambda>l2.
          rbind (set_forward l2 (Some lnref) None) (\<lambda>l3.
          rbind (set_forward l3 (tail l3) (Some lnref)) (\<lambda>l4.
          rbind (c_int (count l4 + 1)) (\<lambda>n.
          Inr (l4\<lparr>tail := Some lnref, count := n\<rparr>))))))"

definition List_first :: "'a List \<Rightarrow> 'a option res" where
  "List_first l =
     (if head l = None then Inr None
      else rbind (deref l (head l)) (\<lambda>(a, n). Inr (Some (item n))))"

definition List_last :: "'a List \<Rightarrow> 'a option res" where
  "List_last l =
     (if tail l = None then Inr None
      else rbind (deref l (tail l)) (\<lambda>(a, n). Inr (Some (item n))))"

definition List_remove_first :: "'a List \<Rightarrow> ('a option \<times> 'a List) res" where
  "List_remove_first l =
     (if count l = 0 then Inr (None, l)
      else if count l = 1 then
        rbind (deref l (head l)) (\<lambda>(a, n).
        rbind (ListNode_free (l\<lparr>count := count l - 1\<rparr>) (head l)) (\<lambda>l1.
        Inr (Some (item n), l1\<lparr>head := None, tail := None\<rparr>)))
      else
        (let first = head l in
         rbind (deref l first) (\<lambda>(a, n).
         rbind (set_backward (l\<lparr>head := forward n\<rparr>) (forward n) None) (\<lambda>l2.
         rbind (deref l2 first) (\<lambda>(a, n2).
         rbind (set_forward l2 first None) (\<lambda>l3.
         rbind (set_backward l3 first None) (\<lambda>l4.
         rbind (ListNode_free l4 first) (\<lambda>l5.
         Inr (Some (item n2), l5\<lparr>count := count l5 - 1\<rparr>)))))))))"

definition List_remove_last :: "'a List \<Rightarrow> ('a option \<times> 'a List) res" where
  "List_remove_last l =
     (if count l = 0 then Inr (None, l)
      else if count l = 1 then
        rbind (deref l (head l)) (\<lambda>(a, n).
        rbind (ListNode_free (l\<lparr>count := count l - 1\<rparr>) (head l)) (\<lambda>l1.
        Inr (Some (item n), l1\<lparr>head := None, tail := None\<rparr>)))
      else
        (let last = tail l in
         rbind (deref l last) (\<lambda>(a, n).
         rbind (set_forward (l\<lparr>tail := backward n\<rparr>) (backward n) None) (\<lambda>l2.
         rbind (deref l2 last) (\<lambda>(a, n2).
         rbind (set_forward l2 last None) (\<lambda>l3.
         rbind (set_backward l3 last None) (\<lambda>l4.
         rbind (ListNode_free l4 last) (\<lambda>l5.
         Inr (Some (item n2), l5\<lparr>count := count l5 - 1\<rparr>)))))))))"

definition List_iterator :: "'a List \<Rightarrow> addr option" where
  "List_iterator l = head l"

definition List_itr_next :: "'a List \<Rightarrow> addr option \<Rightarrow> addr option res" where
  "List_itr_next l itr =
     rbind (c_assert (itr \<noteq> None)) (\<lambda>_.
     rbind (deref l itr) (\<lambda>(a, n). Inr (forward n)))"

definition List_itr_unpack :: "'a List \<Rightarrow> addr option \<Rightarrow> 'a res" where
  "List_itr_unpack l itr =
     rbind (c_assert (itr \<noteq> None)) (\<lambda>_.
     rbind (deref l itr) (\<lambda>(a, n). Inr (item n)))"

definition List_itr_remove :: "'a List \<Rightarrow> addr option \<Rightarrow> 'a List res" where
  "List_itr_remove l itr =
     rbind (c_assert (itr \<noteq> None)) (\<lambda>_.
     if count l = 0 then Inr l
     else if count l = 1 then
       rbind (c_assert (itr = head l)) (\<lambda>_.
       ListNode_free (l\<lparr>count := 0, head := None, tail := None\<rparr>) itr)
     else
       rbind
         (if head l = itr then
            rbind (deref l itr) (\<lambda>(a, n).
            rbind (set_backward l (forward n) (backward n)) (\<lambda>l1.
            rbind (deref l1 itr) (\<lambda>(a, n1). Inr (l1\<lparr>head := forward n1\<rparr>))))
          else if tail l = itr then
            rbind (deref l itr) (\<lambda>(a, n).
            rbind (set_forward l (backward n) (forward n)) (\<lambda>l1.
            rbind (deref l1 itr) (\<lambda>(a, n1). Inr (l1\<lparr>tail := backward n1\<rparr>))))
          else
            rbind (deref l itr) (\<lambda>(a, n).
            rbind (set_backward l (forward n) (backward n)) (\<lambda>l1.
            rbind (deref l1 itr) (\<lambda>(a, n1).
            set_forward l1 (backward n1) (forward n1)))))
         (\<lambda>l2. ListNode_free (l2\<lparr>count := count l2 - 1\<rparr>) itr))"

fun List_find_loop :: "nat \<Rightarrow> 'a List \<Rightarrow> 'a \<Rightarrow> addr option \<Rightarrow> addr option res" where
  "List_find_loop 0 l needle iter = Inl Out_of_fuel"
| "List_find_loop (Suc k) l needle iter =
     (if iter = None then Inr None
      else rbind (deref l iter) (\<lambda>(a, n).
           if item n = needle then Inr iter
           else List_find_loop k l needle (forward n)))"

definition List_find :: "'a List \<Rightarrow> 'a \<Rightarrow> addr option res" where
  "List_find l needle = List_find_loop (Suc (fresh l)) l needle (head l)"

fun List_deinit_loop ::
  "nat \<Rightarrow> ('a \<Rightarrow> 's \<Rightarrow> 's res) \<Rightarrow> 'a List \<Rightarrow> 's \<Rightarrow> addr option \<Rightarrow> ('a List \<times> 's) res"
where
  "List_deinit_loop 0 item_free l s t = Inl Out_of_fuel"
| "List_deinit_loop (Suc k) item_free l s t =
     (if t = None then Inr (l, s)
      else rbind (deref l t) (\<lambda>(a, n).
           rbind (item_free (item n) s) (\<lambda>s1.
           rbind (ListNode_free l t) (\<lambda>l1.
           List_deinit_loop k item_free l1 s1 (forward n)))))"

definition List_safe_deinit ::
  "'a List \<Rightarrow> ('a \<Rightarrow> 's \<Rightarrow> 's res) option \<Rightarrow> 's \<Rightarrow> ('a List \<times> 's) res" where
  "List_safe_deinit l item_free s =
     (if count l = 0 then Inr (l, s)
      else case item_free of None \<Rightarrow> Inl Assert_fail
        | Some f \<Rightarrow>
            rbind (List_deinit_loop (Suc (fresh l)) f l s (head l)) (\<lambda>(l1, s1).
            Inr (l1\<lparr>count := 0, head := None, tail := None\<rparr>, s1)))"

definition List_free :: "'a List \<Rightarrow> unit res" where
  "List_free l = c_assert (count l = 0)"

definition List_safe_free ::
  "'a List \<Rightarrow> ('a \<Rightarrow> 's \<Rightarrow> 's res) option \<Rightarrow> 's \<Rightarrow> 's res" where
  "List_safe_free l item_free s =
     rbind (List_safe_deinit l item_free s) (\<lambda>(l1, s1).
     rbind (List_free l1) (\<lambda>_. Inr s1))"


section \<open>The list a chain of nodes represents\<close>

definition fst_or :: "addr list \<Rightarrow> addr option \<Rightarrow> addr option" where
  "fst_or ps d = (case ps of [] \<Rightarrow> d | p # _ \<Rightarrow> Some p)"

definition lst_or :: "addr list \<Rightarrow> addr option \<Rightarrow> addr option" where
  "lst_or ps d = (if ps = [] then d else Some (last ps))"

text \<open>
  \<open>dseg h a ps xs b\<close>: the addresses \<open>ps\<close> form a doubly linked segment of the heap \<open>h\<close> that
  holds the items \<open>xs\<close>; the first node points back to \<open>a\<close>, the last one forward to \<open>b\<close>.
\<close>

fun dseg ::
  "(addr \<rightharpoonup> 'a ListNode) \<Rightarrow> addr option \<Rightarrow> addr list \<Rightarrow> 'a list \<Rightarrow> addr option \<Rightarrow> bool"
where
  "dseg h a [] [] b = True"
| "dseg h a (p # ps) (x # xs) b =
     (h p = Some \<lparr>forward = fst_or ps b, backward = a, item = x\<rparr> \<and>
      dseg h (Some p) ps xs b)"
| "dseg h a _ _ b = False"

definition list_rep :: "'a List \<Rightarrow> addr list \<Rightarrow> 'a list \<Rightarrow> bool" where
  "list_rep l ps xs \<longleftrightarrow>
     distinct ps \<and> dom (heap l) = set ps \<and> (\<forall>p \<in> set ps. p < fresh l) \<and>
     count l = int (length ps) \<and> count l \<le> INT_MAX \<and> head l = fst_or ps None \<and> tail l = lst_or ps None \<and>
     dseg (heap l) None ps xs None"

definition List_ok :: "'a List \<Rightarrow> bool" where
  "List_ok l \<longleftrightarrow> (\<exists>ps xs. list_rep l ps xs)"

fun walk :: "(addr \<rightharpoonup> 'a ListNode) \<Rightarrow> nat \<Rightarrow> addr option \<Rightarrow> 'a list" where
  "walk h 0 p = []"
| "walk h (Suc k) p =
     (case p of None \<Rightarrow> []
      | Some a \<Rightarrow> (case h a of None \<Rightarrow> [] | Some n \<Rightarrow> item n # walk h k (forward n)))"

definition contents :: "'a List \<Rightarrow> 'a list" where
  "contents l = walk (heap l) (nat (count l)) (head l)"

subsection \<open>Segments\<close>

lemma fst_or_simps [simp]:
  "fst_or [] d = d" "fst_or (p # ps) d = Some p"
  "fst_or (ps @ qs) d = fst_or ps (fst_or qs d)"
  by (cases ps; simp add: fst_or_def)+

lemma lst_or_simps [simp]:
  "lst_or [] d = d" "lst_or (p # ps) d = lst_or ps (Some p)" "lst_or (ps @ [q]) d = Some q"
  "lst_or (ps @ q # qs) d = lst_or qs (Some q)"
  by (auto simp: lst_or_def)

lemma dseg_length: "dseg h a ps xs b \<Longrightarrow> length ps = length xs"
  by (induction h a ps xs b rule: dseg.induct) auto

lemma dseg_Nil_iff [simp]: "dseg h a [] xs b \<longleftrightarrow> xs = []"
  by (cases xs) auto

lemma dseg_Nil_iff2 [simp]: "dseg h a ps [] b \<longleftrightarrow> ps = []"
  by (cases ps) auto

lemma dseg_Cons_iff:
  "dseg h a (p # ps) xs b \<longleftrightarrow>
     (\<exists>y ys. xs = y # ys \<and> h p = Some \<lparr>forward = fst_or ps b, backward = a, item = y\<rparr> \<and>
             dseg h (Some p) ps ys b)"
  by (cases xs) auto

lemma dseg_append:
  "length ps = length xs \<Longrightarrow>
   dseg h a (ps @ qs) (xs @ ys) b \<longleftrightarrow>
     dseg h a ps xs (fst_or qs b) \<and> dseg h (lst_or ps a) qs ys b"
  by (induction ps xs arbitrary: a rule: list_induct2) auto

lemma dseg_frame [simp]: "p \<notin> set ps \<Longrightarrow> dseg (h(p := v)) a ps xs b = dseg h a ps xs b"
  by (induction h a ps xs b rule: dseg.induct) auto

lemma walk_dseg:
  "dseg h a ps xs None \<Longrightarrow> walk h (length ps) (fst_or ps None) = xs"
proof (induction ps arbitrary: a xs)
  case (Cons p ps)
  then show ?case by (auto simp: dseg_Cons_iff)
qed simp

lemma list_rep_contents [simp]: "list_rep l ps xs \<Longrightarrow> contents l = xs"
  by (auto simp: list_rep_def contents_def dest: walk_dseg)

lemma list_rep_ok [intro]: "list_rep l ps xs \<Longrightarrow> List_ok l"
  by (auto simp: List_ok_def)

lemma List_okE:
  assumes "List_ok l"
  obtains ps where "list_rep l ps (contents l)"
  using assms by (auto simp: List_ok_def) 

lemma list_rep_length: "list_rep l ps xs \<Longrightarrow> length ps = length xs"
  by (auto simp: list_rep_def dest: dseg_length)

lemma list_rep_count: "list_rep l ps xs \<Longrightarrow> count l = int (length xs)"
  by (auto simp: list_rep_def dest: dseg_length)

lemma list_rep_max: "list_rep l ps xs \<Longrightarrow> int (length xs) \<le> INT_MAX"
  by (auto simp: list_rep_def dest: dseg_length)

lemma list_rep_fresh [simp]: "list_rep l ps xs \<Longrightarrow> fresh l \<notin> set ps"
  by (auto simp: list_rep_def)

lemma deref_Some [simp, res_simps]: "heap l a = Some n \<Longrightarrow> deref l (Some a) = Inr (a, n)"
  by (simp add: deref_def)

lemma deref_None [simp, res_simps]: "deref l None = Inl Null_deref"
  by (simp add: deref_def)

lemma list_rep_bound: "list_rep l ps xs \<Longrightarrow> length ps \<le> fresh l"
proof -
  assume "list_rep l ps xs"
  then have "distinct ps" "set ps \<subseteq> {..<fresh l}" by (auto simp: list_rep_def)
  then show ?thesis
    using card_mono [of "{..<fresh l}" "set ps"] by (simp add: distinct_card)
qed

lemma list_rep_Cons:
  assumes "list_rep l ps (x # xs)"
  obtains p qs where "ps = p # qs"
  using assms list_rep_length [OF assms] by (cases ps) auto

lemma list_rep_snoc:
  assumes "list_rep l ps (xs @ [x])"
  obtains qs p where "ps = qs @ [p]" "length qs = length xs"
  using list_rep_length [OF assms] by (cases ps rule: rev_cases) auto

section \<open>Every operation acts on the represented list\<close>

lemma map_singleton_delete [simp]: "dom h = {p} \<Longrightarrow> h(p := None) = (\<lambda>x. None)"
  by (rule ext) auto

lemmas list_rep_unfold = list_rep_def set_forward_def set_backward_def ListNode_free_def

lemma List_new_rep: "list_rep List_new [] []"
  by (simp add: list_rep_def List_new_def List_init_def INT_MAX_def)

lemma List_add_front_rep:
  assumes rep: "list_rep l ps xs" and room: "int (length xs) < INT_MAX"
  shows "\<exists>l'. List_add_front l x = Inr l' \<and> list_rep l' (fresh l # ps) (x # xs)"
proof (cases ps)
  case Nil
  with rep show ?thesis
    by (auto simp: List_add_front_def ListNode_new_def list_rep_def INT_MAX_def)
next
  case (Cons q qs)
  with rep obtain y ys where xs: "xs = y # ys"
    and q: "heap l q = Some \<lparr>forward = fst_or qs None, backward = None, item = y\<rparr>"
    and seg: "dseg (heap l) (Some q) qs ys None"
    by (auto simp: list_rep_def dseg_Cons_iff)
  from rep Cons have "fresh l \<noteq> q" "fresh l \<notin> set qs" "q \<notin> set qs"
    by (auto simp: list_rep_def)
  moreover have "int (length qs) + 2 \<le> INT_MAX" using room Cons list_rep_length [OF rep] by simp
  ultimately show ?thesis
    using rep Cons xs q seg
    by (auto simp: List_add_front_def ListNode_new_def list_rep_unfold less_Suc_eq)
qed

lemma List_add_back_rep:
  assumes rep: "list_rep l ps xs" and room: "int (length xs) < INT_MAX"
  shows "\<exists>l'. List_add_back l x = Inr l' \<and> list_rep l' (ps @ [fresh l]) (xs @ [x])"
proof (cases ps rule: rev_cases)
  case Nil
  with rep show ?thesis
    by (auto simp: List_add_back_def ListNode_new_def list_rep_def INT_MAX_def)
next
  case (snoc qs t)
  with list_rep_length [OF rep] have len: "length (qs @ [t]) = length xs"
    by simp
  then obtain ys y where xs: "xs = ys @ [y]" and len': "length qs = length ys"
    by (cases xs rule: rev_cases) auto
  from rep snoc xs len' have
    t: "heap l t = Some \<lparr>forward = None, backward = lst_or qs None, item = y\<rparr>"
    and seg: "dseg (heap l) None qs ys (Some t)"
    by (auto simp: list_rep_def dseg_append dseg_Cons_iff)
  from rep snoc have "fresh l \<noteq> t" "fresh l \<notin> set qs" "t \<notin> set qs"
    by (auto simp: list_rep_def)
  moreover have "int (length qs) + 2 \<le> INT_MAX" using room snoc list_rep_length [OF rep] by simp
  ultimately show ?thesis
    using rep snoc xs t seg len'
    by (auto simp: List_add_back_def ListNode_new_def list_rep_unfold less_Suc_eq dseg_append)
qed

text \<open>A list of \<open>INT_MAX\<close> items has no room.\<close>

lemma List_add_full:
  assumes rep: "list_rep l ps xs" and full: "int (length xs) = INT_MAX"
  shows "List_add_front l x = Inl Int_overflow" "List_add_back l x = Inl Int_overflow"
proof -
  have n: "count l = INT_MAX" "count l \<noteq> 0" using list_rep_count [OF rep] full by (simp_all add: INT_MAX_def)
  then have "ps \<noteq> []" using rep by (auto simp: list_rep_def)
  then obtain p qs where p: "ps = p # qs" by (cases ps) auto
  obtain rs t where t: "ps = rs @ [t]" using \<open>ps \<noteq> []\<close> by (cases ps rule: rev_cases) auto
  have "heap l p \<noteq> None" "p \<noteq> fresh l" "head l = Some p" using rep p by (auto simp: list_rep_def dom_def)
  moreover have "heap l t \<noteq> None" "t \<noteq> fresh l" "tail l = Some t" using rep t by (auto simp: list_rep_def dom_def)
  ultimately show "List_add_front l x = Inl Int_overflow" "List_add_back l x = Inl Int_overflow"
    using n by (auto simp: List_add_front_def List_add_back_def ListNode_new_def set_forward_def set_backward_def c_int_def)
qed

lemma List_first_rep:
  "list_rep l ps xs \<Longrightarrow> List_first l = Inr (if xs = [] then None else Some (hd xs))"
  by (cases ps) (auto simp: List_first_def list_rep_def dseg_Cons_iff)

lemma List_last_rep:
  assumes rep: "list_rep l ps xs"
  shows "List_last l = Inr (if xs = [] then None else Some (last xs))"
proof (cases xs rule: rev_cases)
  case Nil
  with rep show ?thesis by (auto simp: List_last_def list_rep_def dest: dseg_length)
next
  case (snoc ys y)
  with rep obtain qs t where "ps = qs @ [t]" "length qs = length ys"
    by (auto elim: list_rep_snoc)
  with rep snoc show ?thesis
    by (auto simp: List_last_def list_rep_def dseg_append)
qed

lemma List_remove_first_Nil:
  "list_rep l ps [] \<Longrightarrow> List_remove_first l = Inr (None, l)"
  by (auto simp: List_remove_first_def dest: list_rep_count)

lemma List_remove_first_rep:
  assumes rep: "list_rep l ps (x # xs)"
  shows "\<exists>l'. List_remove_first l = Inr (Some x, l') \<and> list_rep l' (tl ps) xs"
proof -
  from rep obtain p qs where ps: "ps = p # qs" by (rule list_rep_Cons)
  show ?thesis
  proof (cases qs)
    case Nil
    with rep ps show ?thesis
      by (auto simp: List_remove_first_def list_rep_unfold)
  next
    case (Cons q rs)
    with rep ps obtain y ys where
      xs: "xs = y # ys"
      and p: "heap l p = Some \<lparr>forward = Some q, backward = None, item = x\<rparr>"
      and q: "heap l q = Some \<lparr>forward = fst_or rs None, backward = Some p, item = y\<rparr>"
      and seg: "dseg (heap l) (Some q) rs ys None"
      by (auto simp: list_rep_def dseg_Cons_iff)
    from rep ps Cons have "p \<noteq> q" "p \<notin> set rs" "q \<notin> set rs" by (auto simp: list_rep_def)
    with rep ps Cons xs p q seg show ?thesis
      by (auto simp: List_remove_first_def list_rep_unfold)
  qed
qed

lemma List_remove_last_Nil:
  "list_rep l ps [] \<Longrightarrow> List_remove_last l = Inr (None, l)"
  by (auto simp: List_remove_last_def dest: list_rep_count)

lemma List_remove_last_rep:
  assumes rep: "list_rep l ps (xs @ [x])"
  shows "\<exists>l'. List_remove_last l = Inr (Some x, l') \<and> list_rep l' (butlast ps) xs"
proof -
  from rep obtain qs p where ps: "ps = qs @ [p]" and len: "length qs = length xs"
    by (rule list_rep_snoc)
  show ?thesis
  proof (cases qs rule: rev_cases)
    case Nil
    with rep ps len show ?thesis
      by (auto simp: List_remove_last_def list_rep_unfold)
  next
    case (snoc rs q)
    with len obtain ys y where xs: "xs = ys @ [y]" and len': "length rs = length ys"
      by (cases xs rule: rev_cases) auto
    from rep ps snoc xs len' have
      p: "heap l p = Some \<lparr>forward = None, backward = Some q, item = x\<rparr>"
      and q: "heap l q = Some \<lparr>forward = Some p, backward = lst_or rs None, item = y\<rparr>"
      and seg: "dseg (heap l) None rs ys (Some q)"
      by (auto simp: list_rep_def dseg_append)
    from rep ps snoc have "p \<noteq> q" "p \<notin> set rs" "q \<notin> set rs" by (auto simp: list_rep_def)
    with rep ps snoc xs len' p q seg show ?thesis
      by (auto simp: List_remove_last_def list_rep_unfold dseg_append butlast_append)
  qed
qed

subsection \<open>Iterators\<close>

text \<open>An iterator of the source is the address of a node: position \<open>length us\<close> of the chain.\<close>

lemma list_rep_node:
  assumes rep: "list_rep l (us @ p # vs) (ys @ x # zs)" and len: "length us = length ys"
  shows "heap l p = Some \<lparr>forward = fst_or vs None, backward = lst_or us None, item = x\<rparr>"
  using rep len by (auto simp: list_rep_def dseg_append)

lemma List_itr_unpack_rep:
  assumes "list_rep l (us @ p # vs) (ys @ x # zs)" "length us = length ys"
  shows "List_itr_unpack l (Some p) = Inr x"
  using list_rep_node [OF assms] by (simp add: List_itr_unpack_def)

lemma List_itr_next_rep:
  assumes "list_rep l (us @ p # vs) (ys @ x # zs)" "length us = length ys"
  shows "List_itr_next l (Some p) = Inr (fst_or vs None)"
  using list_rep_node [OF assms] by (simp add: List_itr_next_def)

lemma set_item_rep:
  assumes rep: "list_rep l (us @ p # vs) (ys @ x # zs)" and len: "length us = length ys"
  shows "\<exists>l'. set_item l (Some p) y = Inr l' \<and> list_rep l' (us @ p # vs) (ys @ y # zs) \<and>
              fresh l' = fresh l"
proof -
  from rep have "p \<notin> set us" "p \<notin> set vs" by (auto simp: list_rep_def)
  with rep len list_rep_node [OF rep len] show ?thesis
    by (auto simp: list_rep_def set_item_def dseg_append)
qed

lemma itr_remove_only:
  "list_rep l [p] [x] \<Longrightarrow> \<exists>l'. List_itr_remove l (Some p) = Inr l' \<and> list_rep l' [] []"
  by (auto simp: List_itr_remove_def list_rep_unfold)

lemma itr_remove_head:
  assumes rep: "list_rep l (p # q # vs) (x # zs)"
  shows "\<exists>l'. List_itr_remove l (Some p) = Inr l' \<and> list_rep l' (q # vs) zs"
proof -
  from rep obtain y ys where
    zs: "zs = y # ys"
    and p: "heap l p = Some \<lparr>forward = Some q, backward = None, item = x\<rparr>"
    and q: "heap l q = Some \<lparr>forward = fst_or vs None, backward = Some p, item = y\<rparr>"
    and seg: "dseg (heap l) (Some q) vs ys None"
    by (auto simp: list_rep_def dseg_Cons_iff)
  from rep have "p \<noteq> q" "p \<notin> set vs" "q \<notin> set vs" by (auto simp: list_rep_def)
  with rep zs p q seg show ?thesis
    by (auto simp: List_itr_remove_def list_rep_unfold)
qed

lemma itr_remove_tail:
  assumes rep: "list_rep l (us @ [q] @ [p]) (ys @ [y] @ [x])" and len: "length us = length ys"
  shows "\<exists>l'. List_itr_remove l (Some p) = Inr l' \<and> list_rep l' (us @ [q]) (ys @ [y])"
proof -
  from rep len have
    p: "heap l p = Some \<lparr>forward = None, backward = Some q, item = x\<rparr>"
    and q: "heap l q = Some \<lparr>forward = Some p, backward = lst_or us None, item = y\<rparr>"
    and seg: "dseg (heap l) None us ys (Some q)"
    by (auto simp: list_rep_def dseg_append)
  from rep have "p \<noteq> q" "p \<notin> set us" "q \<notin> set us" by (auto simp: list_rep_def)
  moreover from this have "head l \<noteq> Some p" 
    using rep by (cases us) (auto simp: list_rep_def)
  ultimately show ?thesis
    using rep len p q seg
    by (auto simp: List_itr_remove_def list_rep_unfold dseg_append)
qed

lemma itr_remove_middle:
  assumes rep: "list_rep l (us @ [q] @ [p] @ [r] @ vs) (ys @ [y] @ [x] @ [z] @ zs)"
    and len: "length us = length ys"
  shows "\<exists>l'. List_itr_remove l (Some p) = Inr l' \<and>
              list_rep l' (us @ [q] @ [r] @ vs) (ys @ [y] @ [z] @ zs)"
proof -
  from rep len have
    p: "heap l p = Some \<lparr>forward = Some r, backward = Some q, item = x\<rparr>"
    and q: "heap l q = Some \<lparr>forward = Some p, backward = lst_or us None, item = y\<rparr>"
    and r: "heap l r = Some \<lparr>forward = fst_or vs None, backward = Some p, item = z\<rparr>"
    and seg1: "dseg (heap l) None us ys (Some q)"
    and seg2: "dseg (heap l) (Some r) vs zs None"
    by (auto simp: list_rep_def dseg_append)
  from rep have d: "p \<noteq> q" "p \<noteq> r" "q \<noteq> r" "p \<notin> set us" "q \<notin> set us" "r \<notin> set us"
    "p \<notin> set vs" "q \<notin> set vs" "r \<notin> set vs"
    by (auto simp: list_rep_def)
  from rep d have "head l \<noteq> Some p" "tail l \<noteq> Some p"
    by (cases us; auto simp: list_rep_def lst_or_def)+
  with rep len p q r seg1 seg2 d show ?thesis
    by (auto simp: List_itr_remove_def list_rep_unfold dseg_append)
qed

lemma List_itr_remove_rep:
  assumes rep: "list_rep l (us @ p # vs) (ys @ x # zs)" and len: "length us = length ys"
  shows "\<exists>l'. List_itr_remove l (Some p) = Inr l' \<and> list_rep l' (us @ vs) (ys @ zs)"
proof -
  from list_rep_length [OF rep] len have len2: "length vs = length zs" by simp
  show ?thesis
  proof (cases us rule: rev_cases)
    case Nil
    with rep len len2 show ?thesis
      using itr_remove_only [of l p x] itr_remove_head [of l p _ _ x zs] by (cases vs) auto
  next
    case (snoc us' q)
    with len obtain ys' y where ys: "ys = ys' @ [y]" and len': "length us' = length ys'"
      by (cases ys rule: rev_cases) auto
    show ?thesis
    proof (cases vs)
      case Nil
      with rep snoc ys len' len2 show ?thesis
        using itr_remove_tail [of l us' q p ys' y x] by simp
    next
      case (Cons r vs')
      with len2 obtain z zs' where "zs = z # zs'" by (cases zs) auto
      with rep snoc ys len' Cons show ?thesis
        using itr_remove_middle [of l us' q p r vs' ys' y x z zs'] by simp
    qed
  qed
qed

text \<open>The same facts for the node at position \<open>n\<close>.\<close>

lemma list_rep_split:
  assumes rep: "list_rep l ps xs" and "n < length xs"
  shows "list_rep l (take n ps @ ps ! n # drop (Suc n) ps) (take n xs @ xs ! n # drop (Suc n) xs)"
  using assms list_rep_length [OF rep] id_take_nth_drop [of n ps] id_take_nth_drop [of n xs]
  by metis

lemma itr_unpack_nth:
  assumes "list_rep l ps xs" "n < length xs"
  shows "List_itr_unpack l (Some (ps ! n)) = Inr (xs ! n)"
  using List_itr_unpack_rep [OF list_rep_split [OF assms]] assms list_rep_length [OF assms(1)] by simp

lemma set_item_nth:
  assumes "list_rep l ps xs" "n < length xs"
  shows "\<exists>l'. set_item l (Some (ps ! n)) y = Inr l' \<and> list_rep l' ps (xs[n := y])"
proof -
  have n: "n < length ps" using assms list_rep_length [OF assms(1)] by simp
  with set_item_rep [OF list_rep_split [OF assms], of y] assms show ?thesis
    by (auto simp: id_take_nth_drop [OF n, symmetric] upd_conv_take_nth_drop)
qed

lemma itr_remove_nth_rep:
  assumes "list_rep l ps xs" "n < length xs"
  shows "\<exists>l'. List_itr_remove l (Some (ps ! n)) = Inr l' \<and> List_ok l' \<and>
              contents l' = take n xs @ drop (Suc n) xs"
  using List_itr_remove_rep [OF list_rep_split [OF assms]] assms list_rep_length [OF assms(1)]
  by (auto intro: list_rep_ok)

subsection \<open>Loops over the whole chain\<close>

fun index_of :: "'a list \<Rightarrow> 'a \<Rightarrow> nat" where
  "index_of [] y = 0"
| "index_of (x # xs) y = (if x = y then 0 else Suc (index_of xs y))"

lemma index_of_less: "y \<in> set xs \<Longrightarrow> index_of xs y < length xs"
  by (induction xs) auto

lemma index_of_nth: "y \<in> set xs \<Longrightarrow> xs ! index_of xs y = y"
  by (induction xs) auto

lemma index_of_first: "i < index_of xs y \<Longrightarrow> xs ! i \<noteq> y"
  by (induction xs arbitrary: i) (auto simp: nth_Cons' split: if_splits)

lemma List_find_loop_dseg:
  assumes "dseg (heap l) prev ps xs None" "length xs < k"
  shows "List_find_loop k l needle (fst_or ps None) =
           Inr (if needle \<in> set xs then Some (ps ! index_of xs needle) else None)"
  using assms
proof (induction xs arbitrary: ps prev k)
  case Nil
  then show ?case by (cases k) auto
next
  case (Cons x xs)
  then obtain p qs j where "ps = p # qs" "k = Suc j"
    by (cases k; cases ps) auto
  with Cons show ?case by auto
qed

lemma List_find_rep:
  assumes "list_rep l ps xs"
  shows "List_find l needle =
           Inr (if needle \<in> set xs then Some (ps ! index_of xs needle) else None)"
proof -
  from assms list_rep_bound [OF assms] list_rep_length [OF assms]
  have "dseg (heap l) None ps xs None" "length xs < Suc (fresh l)" "head l = fst_or ps None"
    by (auto simp: list_rep_def)
  then show ?thesis
    using List_find_loop_dseg by (metis List_find_def)
qed

lemma List_deinit_loop_dseg:
  assumes "dseg (heap l) prev ps xs None" "distinct ps" "dom (heap l) = set ps" "length xs < k"
  shows "List_deinit_loop k f l s (fst_or ps None) =
           rbind (fold_res f xs s) (\<lambda>s'. Inr (l\<lparr>heap := Map.empty\<rparr>, s'))"
  using assms
proof (induction xs arbitrary: ps prev k l s)
  case Nil
  then have "l\<lparr>heap := Map.empty\<rparr> = l" by (cases l) simp
  with Nil show ?case by (cases k) auto
next
  case (Cons x xs)
  then obtain p qs j where ps: "ps = p # qs" and k: "k = Suc j"
    by (cases k; cases ps) auto
  define l1 where "l1 = l\<lparr>heap := (heap l)(p := None)\<rparr>"
  from Cons.prems ps have p: "heap l p = Some \<lparr>forward = fst_or qs None, backward = prev, item = x\<rparr>"
    and seg: "dseg (heap l1) (Some p) qs xs None" and "distinct qs"
    by (auto simp: l1_def)
  moreover have "dom (heap l1) = set qs" "length xs < j"
    using Cons.prems ps k by (auto simp: l1_def)
  ultimately have IH: "List_deinit_loop j f l1 s' (fst_or qs None) =
      rbind (fold_res f xs s') (\<lambda>s'. Inr (l1\<lparr>heap := Map.empty\<rparr>, s'))" for s'
    using Cons.IH by blast
  have "List_deinit_loop k f l s (fst_or ps None) =
          rbind (f x s) (\<lambda>s1. List_deinit_loop j f l1 s1 (fst_or qs None))"
    using ps k p by (simp add: ListNode_free_def l1_def)
  then show ?case
    by (simp add: IH rbind_assoc) (simp add: l1_def)
qed

lemma List_safe_deinit_rep:
  assumes rep: "list_rep l ps xs" and "xs \<noteq> []"
  shows "List_safe_deinit l (Some f) s =
           rbind (fold_res f xs s)
             (\<lambda>s'. Inr (\<lparr>count = 0, head = None, tail = None, heap = Map.empty, fresh = fresh l\<rparr>, s'))"
proof -
  have "List_deinit_loop (Suc (fresh l)) f l s (fst_or ps None) =
          rbind (fold_res f xs s) (\<lambda>s'. Inr (l\<lparr>heap := Map.empty\<rparr>, s'))"
    using rep list_rep_bound [OF rep] list_rep_length [OF rep]
    by (intro List_deinit_loop_dseg) (auto simp: list_rep_def)
  moreover have "head l = fst_or ps None" "count l \<noteq> 0"
    using rep list_rep_count [OF rep] \<open>xs \<noteq> []\<close> by (auto simp: list_rep_def)
  ultimately show ?thesis
    by (cases l) (simp add: List_safe_deinit_def rbind_assoc del: List_deinit_loop.simps)
qed

lemma List_safe_free_rep:
  assumes rep: "list_rep l ps xs"
  shows "List_safe_free l (Some f) s = fold_res f xs s"
proof (cases "xs = []")
  case True
  with list_rep_count [OF rep] show ?thesis
    by (simp add: List_safe_free_def List_safe_deinit_def List_free_def)
next
  case False
  with List_safe_deinit_rep [OF rep, of f s] show ?thesis
    by (simp add: List_safe_free_def List_free_def rbind_assoc)
qed

text \<open>
  The loop \<open>for (iter = List_iterator (l); iter != NULL; iter = List_itr_next (l, iter))\<close> of the
  clients, whose body \<open>f\<close> works on the item and does not change the list.
\<close>

fun foreach_loop :: "nat \<Rightarrow> 'a List \<Rightarrow> ('a \<Rightarrow> 's \<Rightarrow> 's res) \<Rightarrow> addr option \<Rightarrow> 's \<Rightarrow> 's res" where
  "foreach_loop 0 l f iter s = Inl Out_of_fuel"
| "foreach_loop (Suc k) l f iter s =
     (if iter = None then Inr s
      else
        rbind (List_itr_unpack l iter) (\<lambda>x.
        rbind (f x s) (\<lambda>s1.
        rbind (List_itr_next l iter) (\<lambda>nxt.
        foreach_loop k l f nxt s1))))"

definition list_foreach :: "'a List \<Rightarrow> ('a \<Rightarrow> 's \<Rightarrow> 's res) \<Rightarrow> 's \<Rightarrow> 's res" where
  "list_foreach l f s = foreach_loop (Suc (fresh l)) l f (List_iterator l) s"

lemma foreach_loop_dseg:
  assumes "dseg (heap l) prev ps xs None" "length xs < k"
  shows "foreach_loop k l f (fst_or ps None) s = fold_res f xs s"
  using assms
proof (induction xs arbitrary: ps prev k s)
  case Nil
  then show ?case by (cases k) auto
next
  case (Cons x xs)
  then obtain p qs j where "ps = p # qs" "k = Suc j"
    by (cases k; cases ps) auto
  with Cons show ?case
    by (auto simp: List_itr_unpack_def List_itr_next_def
        intro!: arg_cong [where f = "rbind (f x s)"] ext)
qed

lemma list_foreach_rep:
  assumes "list_rep l ps xs"
  shows "list_foreach l f s = fold_res f xs s"
proof -
  from assms list_rep_bound [OF assms] list_rep_length [OF assms]
  have "dseg (heap l) None ps xs None" "length xs < Suc (fresh l)" "List_iterator l = fst_or ps None"
    by (auto simp: list_rep_def List_iterator_def)
  then show ?thesis
    unfolding list_foreach_def using foreach_loop_dseg by metis
qed

lemma list_foreach_ok: "List_ok l \<Longrightarrow> list_foreach l f s = fold_res f (contents l) s"
  by (metis List_okE list_foreach_rep)

section \<open>The interface of a list\<close>

text \<open>
  What a client of \<^verbatim>\<open>list.h\<close> relies on, over the sequence of items the list holds.
  \<open>drain rm n l\<close> is a client that calls \<open>rm\<close> \<open>n\<close> times and collects what it returns.
\<close>

fun drain :: "('l \<Rightarrow> ('a option \<times> 'l) res) \<Rightarrow> nat \<Rightarrow> 'l \<Rightarrow> ('a option list \<times> 'l) res" where
  "drain rm 0 l = Inr ([], l)"
| "drain rm (Suc n) l =
     rbind (rm l) (\<lambda>(x, l1). rbind (drain rm n l1) (\<lambda>(xs, l2). Inr (x # xs, l2)))"

locale c_deque =
  fixes invar :: "'l \<Rightarrow> bool"
    and items :: "'l \<Rightarrow> 'a list"
    and new :: 'l
    and add_front :: "'l \<Rightarrow> 'a \<Rightarrow> 'l res"
    and add_back :: "'l \<Rightarrow> 'a \<Rightarrow> 'l res"
    and first_item :: "'l \<Rightarrow> 'a option res"
    and last_item :: "'l \<Rightarrow> 'a option res"
    and remove_first :: "'l \<Rightarrow> ('a option \<times> 'l) res"
    and remove_last :: "'l \<Rightarrow> ('a option \<times> 'l) res"
    and size :: "'l \<Rightarrow> int"
  assumes new_law: "invar new" "items new = []"
    and add_front_law:
      "invar l \<Longrightarrow> int (length (items l)) < INT_MAX \<Longrightarrow>
       \<exists>l'. add_front l x = Inr l' \<and> invar l' \<and> items l' = x # items l"
    and add_back_law:
      "invar l \<Longrightarrow> int (length (items l)) < INT_MAX \<Longrightarrow>
       \<exists>l'. add_back l x = Inr l' \<and> invar l' \<and> items l' = items l @ [x]"
    and full_law:
      "invar l \<Longrightarrow> int (length (items l)) \<ge> INT_MAX \<Longrightarrow> add_front l x = Inl Int_overflow \<and> add_back l x = Inl Int_overflow"
    and first_law:
      "invar l \<Longrightarrow> first_item l = Inr (if items l = [] then None else Some (hd (items l)))"
    and last_law:
      "invar l \<Longrightarrow> last_item l = Inr (if items l = [] then None else Some (last (items l)))"
    and remove_first_law:
      "invar l \<Longrightarrow> \<exists>l'. remove_first l =
         Inr (if items l = [] then None else Some (hd (items l)), l') \<and>
         invar l' \<and> items l' = tl (items l)"
    and remove_last_law:
      "invar l \<Longrightarrow> \<exists>l'. remove_last l =
         Inr (if items l = [] then None else Some (last (items l)), l') \<and>
         invar l' \<and> items l' = butlast (items l)"
    and size_law: "invar l \<Longrightarrow> size l = int (length (items l))"
begin

lemma add_all:
  "invar l \<Longrightarrow> int (length (items l) + length xs) \<le> INT_MAX \<Longrightarrow>
   \<exists>l'. fold_res (\<lambda>x l. add_back l x) xs l = Inr l' \<and> invar l' \<and> items l' = items l @ xs"
proof (induction xs arbitrary: l)
  case (Cons x xs)
  from add_back_law [OF Cons.prems(1), of x] Cons.prems(2) obtain l1
    where "add_back l x = Inr l1" "invar l1" "items l1 = items l @ [x]" by auto
  with Cons.IH [of l1] Cons.prems(2) show ?case by auto
qed simp

lemma drain_all:
  "invar l \<Longrightarrow> \<exists>l'. drain remove_first n l =
     Inr (map Some (take n (items l)) @ replicate (n - length (items l)) None, l') \<and>
     invar l' \<and> items l' = drop n (items l)"
proof (induction n arbitrary: l)
  case (Suc n)
  from remove_first_law [OF Suc.prems] obtain l1
    where "remove_first l = Inr (if items l = [] then None else Some (hd (items l)), l1)"
      and "invar l1" "items l1 = tl (items l)" by auto
  with Suc.IH [of l1] show ?case by (cases "items l") auto
qed simp

lemma fifo:
  assumes "invar l" "items l = []" "int (length xs) \<le> INT_MAX"
  shows "\<exists>l' l''. fold_res (\<lambda>x l. add_back l x) xs l = Inr l' \<and>
           drain remove_first (length xs) l' = Inr (map Some xs, l'') \<and>
           invar l'' \<and> items l'' = []"
proof -
  from add_all [OF assms(1), of xs] obtain l' where
    "fold_res (\<lambda>x l. add_back l x) xs l = Inr l'" "invar l'" "items l' = xs"
    using assms(2,3) by auto
  with drain_all [of l' "length xs"] show ?thesis by auto
qed

end

lemma List_ok_new: "List_ok List_new" "contents List_new = []"
  using List_new_rep list_rep_contents by blast+

lemma List_ok_add_front:
  "List_ok l \<Longrightarrow> int (length (contents l)) < INT_MAX \<Longrightarrow>
   \<exists>l'. List_add_front l x = Inr l' \<and> List_ok l' \<and> contents l' = x # contents l"
  by (metis List_okE List_add_front_rep list_rep_contents list_rep_ok)

lemma List_ok_add_back:
  "List_ok l \<Longrightarrow> int (length (contents l)) < INT_MAX \<Longrightarrow>
   \<exists>l'. List_add_back l x = Inr l' \<and> List_ok l' \<and> contents l' = contents l @ [x]"
  by (metis List_okE List_add_back_rep list_rep_contents list_rep_ok)

lemma List_ok_full:
  "List_ok l \<Longrightarrow> int (length (contents l)) \<ge> INT_MAX \<Longrightarrow>
   List_add_front l x = Inl Int_overflow \<and> List_add_back l x = Inl Int_overflow"
  by (metis List_okE List_add_full list_rep_max order_antisym)

lemma List_ok_first:
  "List_ok l \<Longrightarrow> List_first l = Inr (if contents l = [] then None else Some (hd (contents l)))"
  by (metis List_okE List_first_rep)

lemma List_ok_last:
  "List_ok l \<Longrightarrow> List_last l = Inr (if contents l = [] then None else Some (last (contents l)))"
  by (metis List_okE List_last_rep)

lemma List_ok_remove_first:
  assumes "List_ok l"
  shows "\<exists>l'. List_remove_first l =
           Inr (if contents l = [] then None else Some (hd (contents l)), l') \<and>
           List_ok l' \<and> contents l' = tl (contents l)"
proof -
  from assms obtain ps where rep: "list_rep l ps (contents l)" by (rule List_okE)
  show ?thesis
  proof (cases "contents l")
    case Nil
    with rep List_remove_first_Nil [of l ps] assms show ?thesis by auto
  next
    case (Cons x xs)
    with rep List_remove_first_rep [of l ps x xs] show ?thesis
      by (auto intro: list_rep_ok)
  qed
qed

lemma List_ok_remove_last:
  assumes "List_ok l"
  shows "\<exists>l'. List_remove_last l =
           Inr (if contents l = [] then None else Some (last (contents l)), l') \<and>
           List_ok l' \<and> contents l' = butlast (contents l)"
proof -
  from assms obtain ps where rep: "list_rep l ps (contents l)" by (rule List_okE)
  show ?thesis
  proof (cases "contents l" rule: rev_cases)
    case Nil
    with rep List_remove_last_Nil [of l ps] assms show ?thesis by auto
  next
    case (snoc xs x)
    with rep List_remove_last_rep [of l ps xs x] show ?thesis
      by (auto intro: list_rep_ok)
  qed
qed

lemma List_ok_size: "List_ok l \<Longrightarrow> List_size l = int (length (contents l))"
  by (metis List_okE List_size_def list_rep_count)

lemma List_ok_set_last:
  assumes "List_ok l" "contents l = xs @ [x]"
  shows "\<exists>l'. set_item l (tail l) y = Inr l' \<and> List_ok l' \<and> contents l' = xs @ [y]"
proof -
  from assms obtain ps where rep: "list_rep l ps (xs @ [x])" by (metis List_okE)
  then obtain qs p where ps: "ps = qs @ [p]" "length qs = length xs" by (rule list_rep_snoc)
  with rep have "tail l = Some p" by (simp add: list_rep_def)
  with set_item_rep [of l qs p "[]" xs x "[]" y] rep ps show ?thesis
    by (auto intro: list_rep_ok)
qed

interpretation lq: c_deque List_ok contents List_new List_add_front List_add_back
  List_first List_last List_remove_first List_remove_last List_size
  by unfold_locales
     (rule List_ok_new List_ok_add_front List_ok_add_back List_ok_full List_ok_first List_ok_last
        List_ok_remove_first List_ok_remove_last List_ok_size; (assumption+)?)+

section \<open>Properties\<close>

datatype 'a list_call =
    Add_front 'a
  | Add_back 'a
  | Get_first
  | Get_last
  | Remove_first
  | Remove_last
  | Get_size

datatype 'a list_ret = Ret_unit | Ret_item "'a option" | Ret_int int

text \<open>One call on a list of the program, and the same call on the sequence of items.\<close>

fun do_call :: "'a list_call \<Rightarrow> 'a List \<times> 'a list_ret list \<Rightarrow> ('a List \<times> 'a list_ret list) res" where
  "do_call (Add_front x) (l, out) = rbind (List_add_front l x) (\<lambda>l1. Inr (l1, out @ [Ret_unit]))"
| "do_call (Add_back x) (l, out) = rbind (List_add_back l x) (\<lambda>l1. Inr (l1, out @ [Ret_unit]))"
| "do_call Get_first (l, out) = rbind (List_first l) (\<lambda>r. Inr (l, out @ [Ret_item r]))"
| "do_call Get_last (l, out) = rbind (List_last l) (\<lambda>r. Inr (l, out @ [Ret_item r]))"
| "do_call Remove_first (l, out) =
     rbind (List_remove_first l) (\<lambda>(r, l1). Inr (l1, out @ [Ret_item r]))"
| "do_call Remove_last (l, out) =
     rbind (List_remove_last l) (\<lambda>(r, l1). Inr (l1, out @ [Ret_item r]))"
| "do_call Get_size (l, out) = Inr (l, out @ [Ret_int (List_size l)])"

fun spec_call :: "'a list_call \<Rightarrow> 'a list \<Rightarrow> 'a list \<times> 'a list_ret" where
  "spec_call (Add_front x) xs = (x # xs, Ret_unit)"
| "spec_call (Add_back x) xs = (xs @ [x], Ret_unit)"
| "spec_call Get_first xs = (xs, Ret_item (if xs = [] then None else Some (hd xs)))"
| "spec_call Get_last xs = (xs, Ret_item (if xs = [] then None else Some (last xs)))"
| "spec_call Remove_first xs = (tl xs, Ret_item (if xs = [] then None else Some (hd xs)))"
| "spec_call Remove_last xs = (butlast xs, Ret_item (if xs = [] then None else Some (last xs)))"
| "spec_call Get_size xs = (xs, Ret_int (int (length xs)))"

fun spec_calls :: "'a list_call list \<Rightarrow> 'a list \<Rightarrow> 'a list \<times> 'a list_ret list" where
  "spec_calls [] xs = (xs, [])"
| "spec_calls (c # cs) xs =
     (case spec_call c xs of (ys, r) \<Rightarrow> case spec_calls cs ys of (zs, rs) \<Rightarrow> (zs, r # rs))"

text \<open>Calls that never add to a sequence of \<open>INT_MAX\<close> items.\<close>

fun is_add :: "'a list_call \<Rightarrow> bool" where
  "is_add (Add_front x) = True"
| "is_add (Add_back x) = True"
| "is_add c = False"

fun calls_fit :: "'a list_call list \<Rightarrow> 'a list \<Rightarrow> bool" where
  "calls_fit [] xs \<longleftrightarrow> True"
| "calls_fit (c # cs) xs \<longleftrightarrow>
     (is_add c \<longrightarrow> int (length xs) < INT_MAX) \<and> calls_fit cs (fst (spec_call c xs))"

lemma list_call_simulates:
  assumes "List_ok l" "is_add c \<Longrightarrow> int (length (contents l)) < INT_MAX"
  shows "\<exists>l'. do_call c (l, out) = Inr (l', out @ [snd (spec_call c (contents l))]) \<and>
              List_ok l' \<and> contents l' = fst (spec_call c (contents l))"
proof (cases c)
  case (Add_front x)
  then show ?thesis using lq.add_front_law [OF assms(1), of x] assms(2) by auto
next
  case (Add_back x)
  then show ?thesis using lq.add_back_law [OF assms(1), of x] assms(2) by auto
next
  case Remove_first
  then show ?thesis using lq.remove_first_law [OF assms(1)] by auto
next
  case Remove_last
  then show ?thesis using lq.remove_last_law [OF assms(1)] by auto
qed (use assms in \<open>simp_all add: lq.first_law lq.last_law lq.size_law\<close>)

lemma list_call_overflows:
  "List_ok l \<Longrightarrow> is_add c \<Longrightarrow> \<not> int (length (contents l)) < INT_MAX \<Longrightarrow> do_call c (l, out) = Inl Int_overflow"
  using lq.full_law [of l] by (cases c) auto

text \<open>What a run of calls from a list that holds \<open>xs\<close> must end with.\<close>

definition as_specified ::
  "'a list_call list \<Rightarrow> 'a list \<Rightarrow> 'a list_ret list \<Rightarrow> ('a List \<times> 'a list_ret list) res \<Rightarrow> bool" where
  "as_specified cs xs out r =
     (case r of
        Inr (l, out') \<Rightarrow>
          calls_fit cs xs \<and> out' = out @ snd (spec_calls cs xs) \<and> List_ok l \<and> contents l = fst (spec_calls cs xs)
      | Inl e \<Rightarrow> \<not> calls_fit cs xs \<and> e = Int_overflow)"

lemma list_calls_simulate:
  "List_ok l \<Longrightarrow> as_specified cs (contents l) out (fold_res do_call cs (l, out))"
proof (induction cs arbitrary: l out)
  case (Cons c cs)
  show ?case
  proof (cases "is_add c \<and> \<not> int (length (contents l)) < INT_MAX")
    case True
    then show ?thesis using list_call_overflows [OF Cons.prems] by (auto simp: as_specified_def)
  next
    case False
    with list_call_simulates [OF Cons.prems, of c out] obtain l1 where
      l1: "do_call c (l, out) = Inr (l1, out @ [snd (spec_call c (contents l))])"
      "List_ok l1" "contents l1 = fst (spec_call c (contents l))" by blast
    with Cons.IH [of l1 "out @ [snd (spec_call c (contents l))]"] False show ?thesis
      by (auto simp: as_specified_def split: prod.splits sum.splits)
  qed
qed (simp add: as_specified_def)

text \<open>
  C7: Every sequence of calls of \<^verbatim>\<open>list.c\<close> that add to either end, look at or remove either end, or ask
  for the size, on a list that starts as \<open>List_new\<close>, runs without a null or dangling access and returns
  exactly what the same calls return on a sequence of items; the nodes at the end are well linked and hold
  that sequence. The only other outcome is an overflow of the counter, exactly when an item is added to a list
  of \<open>INT_MAX\<close> items.
\<close>

theorem list_refines_sequence:
  "as_specified cs [] [] (fold_res do_call cs (List_new, []))"
  using list_calls_simulate [OF lq.new_law(1), of cs "[]"] by (simp add: lq.new_law)

text \<open>Moving an iterator \<open>n\<close> nodes on from the first one.\<close>

fun itr_at :: "'a List \<Rightarrow> nat \<Rightarrow> addr option res" where
  "itr_at l 0 = Inr (List_iterator l)"
| "itr_at l (Suc n) = rbind (itr_at l n) (List_itr_next l)"

lemma itr_at_rep:
  assumes rep: "list_rep l ps xs"
  shows "n < length xs \<Longrightarrow> itr_at l n = Inr (Some (ps ! n))"
proof (induction n)
  case 0
  with rep show ?case
    by (cases ps) (auto simp: List_iterator_def list_rep_def)
next
  case (Suc n)
  with list_rep_length [OF rep] have n: "Suc n < length ps" "n < length xs" by auto
  have "list_rep l (take n ps @ ps ! n # drop (Suc n) ps) (take n xs @ xs ! n # drop (Suc n) xs)"
    using rep n by (intro list_rep_split)
  from List_itr_next_rep [OF this] n have
    "List_itr_next l (Some (ps ! n)) = Inr (fst_or (drop (Suc n) ps) None)" by simp
  with Suc n show ?case
    by (simp add: Cons_nth_drop_Suc [symmetric])
qed

text \<open>
  On a well formed list, unlinking the node an iterator stands on removes exactly the item
  at that position, whichever of the four cases of \<open>List_itr_remove\<close> applies, and leaves a
  well formed list.
\<close>

lemma itr_remove_nth:
  assumes "List_ok l" "n < length (contents l)"
  shows "\<exists>l'. rbind (itr_at l n) (List_itr_remove l) = Inr l' \<and> List_ok l' \<and>
              contents l' = take n (contents l) @ drop (Suc n) (contents l)"
proof -
  from assms obtain ps where rep: "list_rep l ps (contents l)" by (auto elim: List_okE)
  from itr_remove_nth_rep [OF rep assms(2)] itr_at_rep [OF rep assms(2)] show ?thesis by auto
qed

definition three_items :: "nat List" where
  "three_items = (case fold_res (\<lambda>x l. List_add_back l x) [10, 20, 30] List_new of
     Inr l \<Rightarrow> l | Inl e \<Rightarrow> List_new)"

lemma three_items: "List_ok three_items" "contents three_items = [10, 20, 30]"
  using lq.add_all [OF lq.new_law(1), of "[10, 20, 30::nat]"]
  by (auto simp: three_items_def lq.new_law INT_MAX_def)

text \<open>
  \<open>List_safe_free\<close> on a well formed list calls the given destructor on every item once, in
  list order, and then succeeds; it stops only where the destructor itself stops.
\<close>

lemma safe_free_visits_all:
  assumes "List_ok l"
  shows "List_safe_free l (Some f) s = fold_res f (contents l) s"
  using assms List_safe_free_rep by (metis List_okE)

text \<open>Looking an item up and removing the node that was found takes out its first occurrence.\<close>

lemma index_of_remove1: "y \<in> set xs \<Longrightarrow> take (index_of xs y) xs @ drop (Suc (index_of xs y)) xs = remove1 y xs"
  by (induction xs) auto

lemma find_remove:
  assumes "List_ok l" "y \<in> set (contents l)"
  shows "\<exists>p l'. List_find l y = Inr (Some p) \<and> List_itr_remove l (Some p) = Inr l' \<and> List_ok l' \<and>
    contents l' = remove1 y (contents l)"
proof -
  from assms obtain ps where rep: "list_rep l ps (contents l)" by (auto elim: List_okE)
  from itr_remove_nth_rep [OF rep index_of_less [OF assms(2)]] index_of_remove1 [OF assms(2)] List_find_rep [OF rep, of y] assms(2)
  show ?thesis by auto
qed

end
