(* ===== verification/Io_Buffer.thy ===== *)
theory Io_Buffer
  imports C_Buffer
begin

text \<open>
  The fixed capacity I/O buffer of \<^verbatim>\<open>src/common/iobuffer.c\<close>.

  The record has the fields of \<open>struct IOBuffer_s\<close>. \<open>mem_p\<close> is the block the buffer owns; the
  pointers \<open>char_p\<close> and \<open>buffer_ptr\<close> are offsets into it. The \<open>int\<close> fields are integers, with
  the additions and doublings of the source checked against 32 bits. The data of a buffer is the
  range of \<open>buffer_remaining\<close> bytes from \<open>buffer_ptr\<close>; behind it is the space.

  An allocation with a negative size, converted to a huge \<open>size_t\<close>, returns \<open>NULL\<close>: then
  \<open>IOBuffer_new_with_capacity\<close> frees the struct and still returns its address.

  The format calls of \<open>IOBuffer_sprintf\<close> take the formatted text as an argument.

  The lemmas describe every operation by its effect on the data. \<open>IOBuffer_commit\<close> writes its
  terminating zero at \<open>mem_p + buffer_remaining\<close>, which is the end of the data only while
  \<open>buffer_ptr\<close> is at the start of the block; what happens otherwise is part of the statements.
\<close>

section \<open>Operations\<close>

record IOBuffer =
  mem_p :: mem
  char_p :: int
  allocated_capacity :: int
  buffer_capacity :: int
  buffer_ptr :: int
  buffer_length :: int
  buffer_remaining :: int

definition IOBUFFER_DEFAULT_CAPACITY :: int where
  "IOBUFFER_DEFAULT_CAPACITY = 4 * 1024"

definition eg_alloc :: "int \<Rightarrow> mem option" where
  "eg_alloc n = (if n < 0 then None else Some (c_malloc (nat n)))"

definition IOBuffer_init :: "int \<Rightarrow> IOBuffer option res" where
  "IOBuffer_init capacity =
     rbind (c_int (capacity + 1)) (\<lambda>allocated.
     case eg_alloc allocated of None \<Rightarrow> Inr None
     | Some m \<Rightarrow>
         Inr (Some \<lparr>mem_p = m, char_p = 0, allocated_capacity = allocated,
                    buffer_capacity = capacity, buffer_ptr = 0, buffer_length = capacity,
                    buffer_remaining = 0\<rparr>))"

definition IOBuffer_expand_and_reset :: "IOBuffer \<Rightarrow> int \<Rightarrow> IOBuffer res" where
  "IOBuffer_expand_and_reset iob new_capacity =
     (if new_capacity > buffer_capacity iob then
        rbind (IOBuffer_init new_capacity) (\<lambda>r.
        case r of None \<Rightarrow> Inl Bad_pointer | Some iob1 \<Rightarrow> Inr iob1)
      else Inr iob)"

definition IOBuffer_new_with_capacity :: "int \<Rightarrow> IOBuffer res" where
  "IOBuffer_new_with_capacity capacity =
     rbind (IOBuffer_init capacity) (\<lambda>r.
     case r of None \<Rightarrow> Inl Bad_pointer | Some iob \<Rightarrow> Inr iob)"

definition IOBuffer_new :: "IOBuffer res" where
  "IOBuffer_new = IOBuffer_new_with_capacity IOBUFFER_DEFAULT_CAPACITY"

definition IOBuffer_data :: "IOBuffer \<Rightarrow> int" where
  "IOBuffer_data iob = buffer_ptr iob"

definition IOBuffer_data_len :: "IOBuffer \<Rightarrow> int" where
  "IOBuffer_data_len iob = buffer_remaining iob"

definition IOBuffer_space :: "IOBuffer \<Rightarrow> int" where
  "IOBuffer_space iob = buffer_ptr iob + buffer_remaining iob"

definition IOBuffer_space_len :: "IOBuffer \<Rightarrow> int" where
  "IOBuffer_space_len iob = (0 + buffer_capacity iob) - (buffer_ptr iob + buffer_remaining iob)"

definition IOBuffer_commit :: "IOBuffer \<Rightarrow> int \<Rightarrow> IOBuffer res" where
  "IOBuffer_commit iob bytes_used =
     rbind (c_assert (bytes_used > 0)) (\<lambda>_.
     rbind (c_int (buffer_remaining iob + bytes_used)) (\<lambda>rem.
     rbind (mem_put (mem_p iob) (0 + rem) (CHR 0x00)) (\<lambda>m.
     Inr (iob\<lparr>buffer_remaining := rem, mem_p := m\<rparr>))))"

text \<open>The \<open>len\<close> bytes at \<open>p\<close> are the argument \<open>bs\<close>.\<close>

definition IOBuffer_data_add :: "IOBuffer \<Rightarrow> mem \<Rightarrow> IOBuffer res" where
  "IOBuffer_data_add iob bs =
     (let memp = IOBuffer_space iob; mem_len = IOBuffer_space_len iob in
      rbind (c_assert (mem_len \<ge> int (length bs))) (\<lambda>_.
      rbind (mem_copy (mem_p iob) memp bs) (\<lambda>m.
      IOBuffer_commit (iob\<lparr>mem_p := m\<rparr>) (int (length bs)))))"

definition IOBuffer_from_buf :: "mem \<Rightarrow> IOBuffer res" where
  "IOBuffer_from_buf buf =
     (let cap = int (length buf) in
      rbind (c_int (cap * 2)) (\<lambda>cap2.
      rbind (IOBuffer_new_with_capacity cap2) (\<lambda>this.
      rbind (mem_copy (mem_p this) (IOBuffer_space this) buf) (\<lambda>m.
      IOBuffer_commit (this\<lparr>mem_p := m\<rparr>) cap))))"

definition IOBuffer_from_cbuffer :: "Cbuffer \<Rightarrow> IOBuffer res" where
  "IOBuffer_from_cbuffer cbuf =
     rbind (c_int (int (Cbuffer_size cbuf))) (\<lambda>cap.
     rbind (c_int (cap * 2)) (\<lambda>cap2.
     rbind (IOBuffer_new_with_capacity cap2) (\<lambda>this.
     rbind (mem_range (Cbuffer_data cbuf) 0 cap) (\<lambda>bs.
     rbind (mem_copy (mem_p this) (IOBuffer_space this) bs) (\<lambda>m.
     IOBuffer_commit (this\<lparr>mem_p := m\<rparr>) cap)))))"

definition IOBuffer_from_cstring :: "mem \<Rightarrow> IOBuffer res" where
  "IOBuffer_from_cstring cstr = rbind (c_str cstr) (\<lambda>s. IOBuffer_from_buf (map Some s))"

text \<open>The C string a caller sees at the returned pointer.\<close>

definition IOBuffer_cstr :: "IOBuffer \<Rightarrow> char list res" where
  "IOBuffer_cstr iob = c_str_at (mem_p iob) (buffer_ptr iob)"

definition IOBuffer_dup :: "IOBuffer \<Rightarrow> IOBuffer res" where
  "IOBuffer_dup this =
     rbind (IOBuffer_new_with_capacity (buffer_capacity this)) (\<lambda>new.
     let new1 = new\<lparr>buffer_capacity := buffer_capacity this,
                    allocated_capacity := allocated_capacity this,
                    buffer_remaining := buffer_remaining this\<rparr> in
     rbind (mem_range (mem_p this) 0 (allocated_capacity this)) (\<lambda>bs.
     rbind (mem_copy (mem_p new1) 0 bs) (\<lambda>m.
     Inr (new1\<lparr>mem_p := m, buffer_ptr := 0 + (buffer_ptr this - 0),
               char_p := 0 + (buffer_ptr this - 0)\<rparr>))))"

definition IOBuffer_consolidate_space :: "IOBuffer \<Rightarrow> IOBuffer res" where
  "IOBuffer_consolidate_space this =
     rbind (IOBuffer_new_with_capacity (buffer_capacity this)) (\<lambda>tmp.
     rbind (mem_range (mem_p this) (IOBuffer_data this) (IOBuffer_data_len this)) (\<lambda>bs.
     rbind (IOBuffer_data_add tmp bs) (\<lambda>tmp1.
     Inr (this\<lparr>mem_p := mem_p tmp1, buffer_ptr := buffer_ptr tmp1,
               buffer_remaining := buffer_remaining tmp1,
               buffer_capacity := buffer_capacity tmp1,
               allocated_capacity := allocated_capacity tmp1, char_p := 0\<rparr>))))"

definition IOBuffer_consume :: "IOBuffer \<Rightarrow> int \<Rightarrow> IOBuffer res" where
  "IOBuffer_consume this byte_count =
     (let this1 = this\<lparr>buffer_ptr := buffer_ptr this + byte_count\<rparr> in
      rbind (c_assert (buffer_ptr this1 \<le> 0 + buffer_capacity this1)) (\<lambda>_.
      rbind (c_int (buffer_remaining this1 - byte_count)) (\<lambda>rem.
      rbind (c_assert (rem \<ge> 0)) (\<lambda>_.
      let this2 = this1\<lparr>buffer_remaining := rem\<rparr> in
      Inr (if rem = 0 then this2\<lparr>buffer_ptr := 0\<rparr> else this2)))))"

definition IOBuffer_reset :: "IOBuffer \<Rightarrow> IOBuffer" where
  "IOBuffer_reset this = this\<lparr>buffer_ptr := 0, buffer_remaining := 0\<rparr>"

definition IOBuffer_empty :: "IOBuffer \<Rightarrow> bool" where
  "IOBuffer_empty this \<longleftrightarrow> buffer_remaining this = 0"

text \<open>\<open>strncmp (a, b, n) == 0\<close>: the comparison stops at a zero byte.\<close>

fun strncmp_eq :: "mem \<Rightarrow> mem \<Rightarrow> nat \<Rightarrow> bool res" where
  "strncmp_eq as bs 0 = Inr True"
| "strncmp_eq (Some a # as) (Some b # bs) (Suc n) =
     (if a \<noteq> b then Inr False
      else if a = CHR 0x00 then Inr True
      else strncmp_eq as bs n)"
| "strncmp_eq [] bs (Suc n) = Inl Out_of_bounds"
| "strncmp_eq as [] (Suc n) = Inl Out_of_bounds"
| "strncmp_eq (None # as) (b # bs) (Suc n) = Inl Uninit_read"
| "strncmp_eq (a # as) (None # bs) (Suc n) = Inl Uninit_read"

definition IOBuffer_equal :: "IOBuffer \<Rightarrow> IOBuffer \<Rightarrow> bool res" where
  "IOBuffer_equal a b =
     (let lena = IOBuffer_data_len a; lenb = IOBuffer_data_len b;
          a_p = drop (nat (IOBuffer_data a)) (mem_p a);
          b_p = drop (nat (IOBuffer_data b)) (mem_p b) in
      if lena \<noteq> lenb then Inr False else strncmp_eq a_p b_p (nat lena))"

definition IOBuffer_memptr :: "IOBuffer \<Rightarrow> mem" where
  "IOBuffer_memptr this = mem_p this"

definition IOBuffer_consume_pop_front :: "IOBuffer \<Rightarrow> (char \<times> IOBuffer) res" where
  "IOBuffer_consume_pop_front iob =
     rbind (mem_get (mem_p iob) (IOBuffer_data iob)) (\<lambda>ch.
     rbind (IOBuffer_consume iob 1) (\<lambda>iob1. Inr (ch, iob1)))"

definition IOBuffer_commit_push_back :: "IOBuffer \<Rightarrow> char \<Rightarrow> IOBuffer res" where
  "IOBuffer_commit_push_back iob ch = IOBuffer_data_add iob [Some ch]"

text \<open>\<open>vsnprintf (buf, len, ...)\<close> for the formatted text \<open>out\<close>: at most \<open>len - 1\<close> bytes and a zero.\<close>

definition vsnprintf_at :: "mem \<Rightarrow> int \<Rightarrow> int \<Rightarrow> char list \<Rightarrow> mem res" where
  "vsnprintf_at m off len out =
     (if len = 0 then Inr m
      else mem_write m off (take (nat (len - 1)) out @ [CHR 0x00]))"

text \<open>
  After \<open>IOBuffer_expand_and_reset\<close> has freed the block, \<open>buf\<close> points into freed memory. When
  the block is not replaced, the second \<open>vsnprintf\<close> has the same space as the first.
\<close>

definition IOBuffer_sprintf :: "IOBuffer \<Rightarrow> char list \<Rightarrow> IOBuffer res" where
  "IOBuffer_sprintf iob out =
     (let buf = IOBuffer_space iob; len1 = IOBuffer_space_len iob; nchars1 = int (length out) in
      rbind (vsnprintf_at (mem_p iob) buf len1 out) (\<lambda>m.
      let iob1 = iob\<lparr>mem_p := m\<rparr> in
      if nchars1 > len1 - 1 then
        rbind (c_int (2 * nchars1)) (\<lambda>cap2.
        rbind (IOBuffer_expand_and_reset iob1 cap2) (\<lambda>iob2.
        let len2 = IOBuffer_space_len iob2; nchars2 = nchars1 in
        if cap2 > buffer_capacity iob1 \<and> len2 \<noteq> 0 then Inl Bad_pointer
        else
          rbind (vsnprintf_at (mem_p iob2) buf len2 out) (\<lambda>m2.
          rbind (c_assert (len2 > nchars2)) (\<lambda>_.
          IOBuffer_commit (iob2\<lparr>mem_p := m2\<rparr>) nchars2))))
      else IOBuffer_commit iob1 nchars1))"

section \<open>The data of a buffer\<close>

definition iob_ok :: "IOBuffer \<Rightarrow> bool" where
  "iob_ok b \<longleftrightarrow>
     0 \<le> buffer_capacity b \<and> buffer_capacity b < INT_MAX \<and>
     allocated_capacity b = buffer_capacity b + 1 \<and>
     int (length (mem_p b)) = buffer_capacity b + 1 \<and>
     0 \<le> buffer_ptr b \<and> 0 \<le> buffer_remaining b \<and>
     buffer_ptr b + buffer_remaining b \<le> buffer_capacity b"

definition iob_data :: "IOBuffer \<Rightarrow> mem" where
  "iob_data b = take (nat (buffer_remaining b)) (drop (nat (buffer_ptr b)) (mem_p b))"

text \<open>
  \<open>clobber p d\<close>: the data \<open>d\<close> of a buffer whose \<open>buffer_ptr\<close> is \<open>p\<close>, after a zero byte is
  stored at offset \<open>length d\<close> of the block instead of \<open>p + length d\<close>.
\<close>

definition clobber :: "nat \<Rightarrow> mem \<Rightarrow> mem" where
  "clobber p d = (if p \<le> length d then d[length d - p := Some (CHR 0x00)] else d)"

lemma clobber_0 [simp]: "clobber 0 d = d"
  by (simp add: clobber_def list_update_beyond)

lemma clobber_above [simp]: "length d < p \<Longrightarrow> clobber p d = d"
  by (simp add: clobber_def)

lemma length_clobber [simp]: "length (clobber p d) = length d"
  by (simp add: clobber_def)

lemma length_iob_data: "iob_ok b \<Longrightarrow> int (length (iob_data b)) = buffer_remaining b"
  by (auto simp: iob_ok_def iob_data_def)

lemma iob_range:
  "iob_ok b \<Longrightarrow> mem_range (mem_p b) (IOBuffer_data b) (IOBuffer_data_len b) = Inr (iob_data b)"
  by (simp add: mem_range_def IOBuffer_data_def IOBuffer_data_len_def iob_data_def iob_ok_def)

lemma take_drop_update:
  "take n (drop p (m[n := v])) = (if p \<le> n then (take n (drop p m))[n - p := v] else take n (drop p m))"
  by (auto simp: drop_update_swap take_update_swap)

lemma IOBuffer_commit_ok:
  assumes "iob_ok b" "0 < n" "n \<le> IOBuffer_space_len b"
  shows "IOBuffer_commit b n =
           Inr (b\<lparr>buffer_remaining := buffer_remaining b + n,
                  mem_p := (mem_p b)[nat (buffer_remaining b + n) := Some (CHR 0x00)]\<rparr>)"
  using assms
  by (simp add: IOBuffer_commit_def iob_ok_def IOBuffer_space_len_def mem_put_def)

lemma IOBuffer_commit_zero: "n \<le> 0 \<Longrightarrow> IOBuffer_commit b n = Inl Assert_fail"
  by (simp add: IOBuffer_commit_def)

lemma IOBuffer_data_add_Nil: "iob_ok b \<Longrightarrow> IOBuffer_data_add b [] = Inl Assert_fail"
  by (simp add: IOBuffer_data_add_def IOBuffer_commit_zero iob_ok_def IOBuffer_space_len_def
      IOBuffer_space_def mem_copy_def Let_def)

lemma IOBuffer_data_add_full:
  "int (length bs) > IOBuffer_space_len b \<Longrightarrow> IOBuffer_data_add b bs = Inl Assert_fail"
  by (simp add: IOBuffer_data_add_def Let_def)

lemma IOBuffer_data_add_ok:
  assumes ok: "iob_ok b" and bs: "bs \<noteq> []" "int (length bs) \<le> IOBuffer_space_len b"
  shows "\<exists>b'. IOBuffer_data_add b bs = Inr b' \<and> iob_ok b' \<and>
              iob_data b' = clobber (nat (buffer_ptr b)) (iob_data b @ bs) \<and>
              buffer_ptr b' = buffer_ptr b \<and> buffer_capacity b' = buffer_capacity b \<and>
              mem_p b' ! nat (buffer_remaining b') = Some (CHR 0x00)"
proof -
  define p r where pr: "p = nat (buffer_ptr b)" "r = nat (buffer_remaining b)"
  from ok have i: "buffer_ptr b = int p" "buffer_remaining b = int r"
    by (auto simp: iob_ok_def pr)
  let ?m = "take (p + r) (mem_p b) @ bs @ drop (p + r + length bs) (mem_p b)"
  let ?b = "b\<lparr>mem_p := ?m\<rparr>"
  have room: "p + r + length bs < length (mem_p b)"
    using ok bs by (auto simp: iob_ok_def IOBuffer_space_len_def i)
  have copy: "mem_copy (mem_p b) (IOBuffer_space b) bs = Inr ?m"
    using room by (simp add: mem_copy_def IOBuffer_space_def i nat_add_distrib)
  have ok1: "iob_ok ?b" using ok room by (simp add: iob_ok_def)
  have com: "IOBuffer_commit ?b (int (length bs)) =
      Inr (?b\<lparr>buffer_remaining := int (r + length bs), mem_p := ?m[r + length bs := Some (CHR 0x00)]\<rparr>)"
    using IOBuffer_commit_ok [OF ok1, of "int (length bs)"] bs
    by (simp add: IOBuffer_space_len_def i nat_add_distrib)
  have "take (r + length bs) (drop p ?m) = iob_data b @ bs"
    using room by (simp add: iob_data_def i take_drop add.commute)
  moreover have "length (iob_data b) = r"
    using room by (simp add: iob_data_def i)
  ultimately have "take (r + length bs) (drop p (?m[r + length bs := Some (CHR 0x00)])) =
      clobber p (iob_data b @ bs)"
    unfolding take_drop_update clobber_def by auto
  with ok bs room copy com show ?thesis
    by (simp add: IOBuffer_data_add_def Let_def iob_ok_def iob_data_def IOBuffer_space_len_def i
        nat_add_distrib)
qed

lemma IOBuffer_new_ok:
  assumes "0 \<le> n" "n < INT_MAX"
  shows "\<exists>b. IOBuffer_new_with_capacity n = Inr b \<and> iob_ok b \<and> iob_data b = [] \<and>
             buffer_ptr b = 0 \<and> buffer_remaining b = 0 \<and> buffer_capacity b = n"
  using assms
  by (simp add: IOBuffer_new_with_capacity_def IOBuffer_init_def eg_alloc_def iob_ok_def iob_data_def)

lemma IOBuffer_consume_ok:
  assumes ok: "iob_ok b" and n: "0 \<le> n" "n \<le> INT_MAX"
  shows "n \<le> buffer_remaining b \<Longrightarrow>
         \<exists>b'. IOBuffer_consume b n = Inr b' \<and> iob_ok b' \<and> iob_data b' = drop (nat n) (iob_data b) \<and>
              buffer_capacity b' = buffer_capacity b \<and>
              buffer_ptr b' = (if n = buffer_remaining b then 0 else buffer_ptr b + n)"
    and "n > buffer_remaining b \<Longrightarrow> IOBuffer_consume b n = Inl Assert_fail"
proof -
  assume "n \<le> buffer_remaining b"
  with ok n have c: "IOBuffer_consume b n = Inr (let b2 = b\<lparr>buffer_ptr := buffer_ptr b + n,
      buffer_remaining := buffer_remaining b - n\<rparr>
      in if buffer_remaining b - n = 0 then b2\<lparr>buffer_ptr := 0\<rparr> else b2)"
    by (simp add: IOBuffer_consume_def Let_def iob_ok_def)
  have "take (nat (buffer_remaining b - n)) (drop (nat (buffer_ptr b + n)) (mem_p b)) =
      drop (nat n) (iob_data b)"
    using ok n \<open>n \<le> buffer_remaining b\<close>
    by (simp add: iob_data_def iob_ok_def drop_take nat_diff_distrib nat_add_distrib add.commute)
  moreover have "drop (nat (buffer_remaining b)) (iob_data b) = []"
    using length_iob_data [OF ok] by simp
  ultimately show "\<exists>b'. IOBuffer_consume b n = Inr b' \<and> iob_ok b' \<and> iob_data b' = drop (nat n) (iob_data b) \<and>
              buffer_capacity b' = buffer_capacity b \<and>
              buffer_ptr b' = (if n = buffer_remaining b then 0 else buffer_ptr b + n)"
    using ok n \<open>n \<le> buffer_remaining b\<close> unfolding c
    by (auto simp: Let_def iob_ok_def iob_data_def)
next
  assume "n > buffer_remaining b"
  moreover from ok n have "c_int (buffer_remaining b - n) = Inr (buffer_remaining b - n)"
    by (simp add: iob_ok_def INT_MIN_def INT_MAX_def)
  ultimately show "IOBuffer_consume b n = Inl Assert_fail"
    by (auto simp: IOBuffer_consume_def Let_def c_assert_def c_int_def split: if_splits)
qed

section \<open>Buffers that have not been partly consumed\<close>

text \<open>\<open>iob_holds b s\<close>: the data starts at the start of the block and is the byte string \<open>s\<close>.\<close>

definition iob_holds :: "IOBuffer \<Rightarrow> char list \<Rightarrow> bool" where
  "iob_holds b s \<longleftrightarrow> iob_ok b \<and> buffer_ptr b = 0 \<and> iob_data b = map Some s"

definition iob_terminated :: "IOBuffer \<Rightarrow> bool" where
  "iob_terminated b \<longleftrightarrow> mem_p b ! nat (buffer_remaining b) = Some (CHR 0x00)"

lemma iob_holds_remaining: "iob_holds b s \<Longrightarrow> buffer_remaining b = int (length s)"
  using length_iob_data [of b] by (simp add: iob_holds_def)

lemma iob_holds_space_len:
  "iob_holds b s \<Longrightarrow> IOBuffer_space_len b = buffer_capacity b - int (length s)"
  using iob_holds_remaining [of b s] by (simp add: iob_holds_def IOBuffer_space_len_def)

lemma IOBuffer_data_add_holds:
  assumes "iob_holds b s" "t \<noteq> []" "int (length s + length t) \<le> buffer_capacity b"
  shows "\<exists>b'. IOBuffer_data_add b (map Some t) = Inr b' \<and> iob_holds b' (s @ t) \<and>
              buffer_capacity b' = buffer_capacity b \<and> iob_terminated b'"
  using IOBuffer_data_add_ok [of b "map Some t"] assms iob_holds_space_len [OF assms(1)]
  by (auto simp: iob_holds_def iob_terminated_def)

text \<open>A call of \<open>read\<close> that fills the space of a buffer, and the commit of what it read.\<close>

definition read_into :: "IOBuffer \<Rightarrow> char list \<Rightarrow> IOBuffer res" where
  "read_into iob bs =
     (if int (length bs) \<le> IOBuffer_space_len iob then
        rbind (mem_copy (mem_p iob) (IOBuffer_space iob) (map Some bs)) (\<lambda>m.
        IOBuffer_commit (iob\<lparr>mem_p := m\<rparr>) (int (length bs)))
      else Inl Out_of_bounds)"

lemma read_into_holds:
  assumes "bs \<noteq> []" "int (length bs) \<le> n" "n < INT_MAX"
  shows "\<exists>iob iob1. IOBuffer_new_with_capacity n = Inr iob \<and> read_into iob bs = Inr iob1 \<and> iob_holds iob1 bs"
proof -
  from assms have "0 \<le> n" by linarith
  from IOBuffer_new_ok [OF this assms(3)] obtain iob where
    iob: "IOBuffer_new_with_capacity n = Inr iob" "iob_ok iob" "iob_data iob = []" "buffer_ptr iob = 0"
    "buffer_remaining iob = 0" "buffer_capacity iob = n" by blast
  then have h: "iob_holds iob []" by (simp add: iob_holds_def)
  have len: "int (length bs) \<le> IOBuffer_space_len iob" using iob assms(2) by (simp add: IOBuffer_space_len_def)
  have "read_into iob bs = IOBuffer_data_add iob (map Some bs)"
    using len by (simp add: read_into_def IOBuffer_data_add_def c_assert_def Let_def)
  with IOBuffer_data_add_holds [OF h, of bs] assms iob show ?thesis by auto
qed

lemma IOBuffer_cstr_holds:
  assumes "iob_holds b s" "iob_terminated b" "no_nul s"
  shows "IOBuffer_cstr b = Inr s"
  unfolding IOBuffer_cstr_def
proof (rule c_str_at_terminated)
  show "take (length s) (drop (nat (buffer_ptr b)) (mem_p b)) = map Some s"
    using assms iob_holds_remaining [OF assms(1)] by (auto simp: iob_holds_def iob_data_def)
qed (use assms iob_holds_remaining [OF assms(1)] in
      \<open>auto simp: iob_holds_def iob_ok_def iob_terminated_def\<close>)

lemma IOBuffer_from_buf_holds:
  assumes s: "s \<noteq> []" "2 * int (length s) < INT_MAX"
  shows "\<exists>b. IOBuffer_from_buf (map Some s) = Inr b \<and> iob_holds b s \<and> iob_terminated b \<and>
             buffer_capacity b = 2 * int (length s)"
proof -
  have cap: "0 \<le> int (length s) * 2" "int (length s) * 2 < INT_MAX" using s by auto
  from IOBuffer_new_ok [OF cap] obtain b where
    b: "IOBuffer_new_with_capacity (int (length s) * 2) = Inr b" "iob_holds b []"
      "buffer_capacity b = int (length s) * 2"
    by (auto simp: iob_holds_def)
  from IOBuffer_data_add_holds [OF b(2) s(1)] b(3) obtain b' where
    b': "IOBuffer_data_add b (map Some s) = Inr b'" "iob_holds b' s" "iob_terminated b'"
      "buffer_capacity b' = int (length s) * 2" by auto
  have "IOBuffer_from_buf (map Some s) = IOBuffer_data_add b (map Some s)"
    using b cap iob_holds_space_len [OF b(2)]
    by (simp add: IOBuffer_from_buf_def IOBuffer_data_add_def Let_def)
  with b' show ?thesis by auto
qed

lemma IOBuffer_dup_ok:
  assumes ok: "iob_ok b"
  shows "\<exists>b'. IOBuffer_dup b = Inr b' \<and> iob_ok b' \<and> iob_data b' = iob_data b \<and>
              buffer_ptr b' = buffer_ptr b \<and> buffer_capacity b' = buffer_capacity b \<and>
              mem_p b' = mem_p b"
  using ok
  by (auto simp: IOBuffer_dup_def IOBuffer_new_with_capacity_def IOBuffer_init_def eg_alloc_def
      Let_def mem_range_def mem_copy_def iob_ok_def iob_data_def)

lemma IOBuffer_consolidate_ok:
  assumes ok: "iob_ok b" and ne: "buffer_remaining b > 0"
  shows "\<exists>b'. IOBuffer_consolidate_space b = Inr b' \<and> iob_ok b' \<and> iob_data b' = iob_data b \<and>
              buffer_ptr b' = 0 \<and> buffer_capacity b' = buffer_capacity b \<and>
              IOBuffer_space_len b' = buffer_capacity b - buffer_remaining b"
proof -
  from ok IOBuffer_new_ok [of "buffer_capacity b"] obtain t where
    t: "IOBuffer_new_with_capacity (buffer_capacity b) = Inr t" "iob_ok t" "iob_data t = []"
       "buffer_ptr t = 0" "buffer_remaining t = 0" "buffer_capacity t = buffer_capacity b"
    by (auto simp: iob_ok_def)
  note r = iob_range [OF ok]
  have len: "int (length (iob_data b)) = buffer_remaining b" by (rule length_iob_data [OF ok])
  with ne have "iob_data b \<noteq> []" by auto
  moreover have "int (length (iob_data b)) \<le> IOBuffer_space_len t"
    using t ok len by (simp add: IOBuffer_space_len_def iob_ok_def)
  ultimately obtain t' where t': "IOBuffer_data_add t (iob_data b) = Inr t'" "iob_ok t'"
    "iob_data t' = iob_data b" "buffer_ptr t' = 0" "buffer_capacity t' = buffer_capacity b"
    using IOBuffer_data_add_ok [OF t(2), of "iob_data b"] t by auto
  then have "buffer_remaining t' = buffer_remaining b"
    using length_iob_data [OF t'(2)] len by simp
  with t r t' show ?thesis
    by (simp add: IOBuffer_consolidate_space_def iob_ok_def iob_data_def IOBuffer_space_len_def)
qed

section \<open>Comparison and formatted output\<close>

lemma strncmp_eq_bytes:
  "length s = n \<Longrightarrow> length t = n \<Longrightarrow>
   strncmp_eq (map Some s @ as) (map Some t @ bs) n =
     Inr (takeWhile (\<lambda>c. c \<noteq> CHR 0x00) s = takeWhile (\<lambda>c. c \<noteq> CHR 0x00) t)"
proof (induction s arbitrary: t n)
  case (Cons a s)
  then obtain b u where "t = b # u" "n = Suc (length s)" "length u = length s"
    by (cases t) auto
  with Cons.IH [of "length s" u] show ?case by auto
qed simp

lemma iob_data_split:
  assumes "iob_ok b" "iob_data b = map Some s"
  shows "\<exists>r. drop (nat (buffer_ptr b)) (mem_p b) = map Some s @ r \<and> nat (buffer_remaining b) = length s"
  using assms length_iob_data [OF assms(1)] append_take_drop_id
  by (metis iob_data_def length_map nat_int)

lemma IOBuffer_equal_bytes:
  assumes "iob_ok a" "iob_data a = map Some s" "iob_ok b" "iob_data b = map Some t"
  shows "IOBuffer_equal a b =
           Inr (length s = length t \<and>
                takeWhile (\<lambda>c. c \<noteq> CHR 0x00) s = takeWhile (\<lambda>c. c \<noteq> CHR 0x00) t)"
proof -
  from iob_data_split [OF assms(1,2)] iob_data_split [OF assms(3,4)] obtain ra rb where
    "drop (nat (buffer_ptr a)) (mem_p a) = map Some s @ ra"
    "drop (nat (buffer_ptr b)) (mem_p b) = map Some t @ rb" by auto
  moreover have "buffer_remaining a = int (length s)" "buffer_remaining b = int (length t)"
    using assms length_iob_data [of a] length_iob_data [of b] by auto
  ultimately show ?thesis
    by (simp add: IOBuffer_equal_def Let_def IOBuffer_data_len_def IOBuffer_data_def strncmp_eq_bytes)
qed

lemma IOBuffer_sprintf_fits:
  assumes ok: "iob_ok b" and out: "out \<noteq> []" "int (length out) < IOBuffer_space_len b"
  shows "\<exists>b'. IOBuffer_sprintf b out = Inr b' \<and> iob_ok b' \<and>
              iob_data b' = clobber (nat (buffer_ptr b)) (iob_data b @ map Some out) \<and>
              buffer_ptr b' = buffer_ptr b \<and> buffer_capacity b' = buffer_capacity b"
proof -
  define p r where pr: "p = nat (buffer_ptr b)" "r = nat (buffer_remaining b)"
  from ok have i: "buffer_ptr b = int p" "buffer_remaining b = int r"
    by (auto simp: iob_ok_def pr)
  let ?n = "length out"
  let ?m = "take (p + r) (mem_p b) @ map Some (out @ [CHR 0x00]) @ drop (p + r + Suc ?n) (mem_p b)"
  let ?b = "b\<lparr>mem_p := ?m\<rparr>"
  have room: "p + r + Suc ?n < length (mem_p b)"
    using ok out by (auto simp: iob_ok_def IOBuffer_space_len_def i)
  have "nat (IOBuffer_space_len b - 1) \<ge> ?n" using out by auto
  then have pf: "vsnprintf_at (mem_p b) (IOBuffer_space b) (IOBuffer_space_len b) out = Inr ?m"
    using room out by (simp add: vsnprintf_at_def mem_write_def mem_copy_def IOBuffer_space_def i nat_add_distrib)
  have ok1: "iob_ok ?b" using ok room by (simp add: iob_ok_def)
  have com: "IOBuffer_commit ?b (int ?n) =
      Inr (?b\<lparr>buffer_remaining := int (r + ?n), mem_p := ?m[r + ?n := Some (CHR 0x00)]\<rparr>)"
    using IOBuffer_commit_ok [OF ok1, of "int ?n"] out
    by (simp add: IOBuffer_space_len_def i nat_add_distrib)
  have "take (r + ?n) (drop p ?m) = iob_data b @ map Some out"
    using room by (simp add: iob_data_def i take_drop add.commute)
  moreover have "length (iob_data b) = r"
    using room by (simp add: iob_data_def i)
  ultimately have "take (r + ?n) (drop p (?m[r + ?n := Some (CHR 0x00)])) =
      clobber p (iob_data b @ map Some out)"
    unfolding take_drop_update clobber_def by auto
  with ok out room pf com show ?thesis
    by (simp add: IOBuffer_sprintf_def Let_def iob_ok_def iob_data_def IOBuffer_space_len_def i
        nat_add_distrib)
qed

lemma IOBuffer_sprintf_overflow:
  assumes ok: "iob_ok b" and out: "out = [] \<or> int (length out) \<ge> IOBuffer_space_len b"
  shows "\<exists>e. IOBuffer_sprintf b out = Inl e"
proof (rule ccontr)
  assume "\<nexists>e. IOBuffer_sprintf b out = Inl e"
  then obtain b' where run: "IOBuffer_sprintf b out = Inr b'" by (cases "IOBuffer_sprintf b out") auto
  show False
  proof (cases "int (length out) \<ge> IOBuffer_space_len b")
    case True
    with run show False
      by (auto simp: IOBuffer_sprintf_def Let_def rbind_eq_Inr IOBuffer_expand_and_reset_def
          IOBuffer_space_len_def IOBuffer_init_def IOBuffer_commit_def eg_alloc_def
          split: if_splits option.splits)
  next
    case False
    with out run show False
      by (auto simp: IOBuffer_sprintf_def Let_def rbind_eq_Inr IOBuffer_commit_def)
  qed
qed

section \<open>Properties\<close>

definition iob_abc :: IOBuffer where
  "iob_abc =
     \<lparr>mem_p = map Some ''abc'' @ [Some (CHR 0x00)] @ c_malloc 5, char_p = 0, allocated_capacity = 9,
      buffer_capacity = 8, buffer_ptr = 0, buffer_length = 8, buffer_remaining = 3\<rparr>"

text \<open>The same buffer after its first byte has been consumed.\<close>

definition iob_bc :: IOBuffer where
  "iob_bc = iob_abc\<lparr>buffer_ptr := 1, buffer_remaining := 2\<rparr>"

lemma iob_abc_fields:
  "buffer_ptr iob_abc = 0" "buffer_remaining iob_abc = 3" "buffer_capacity iob_abc = 8"
  "IOBuffer_space_len iob_abc = 5"
  by (simp_all add: iob_abc_def IOBuffer_space_len_def)

lemma iob_bc_fields:
  "buffer_ptr iob_bc = 1" "buffer_remaining iob_bc = 2" "buffer_capacity iob_bc = 8"
  "IOBuffer_space_len iob_bc = 5"
  by (simp_all add: iob_bc_def iob_abc_def IOBuffer_space_len_def)

lemma iob_abc_ok: "iob_ok iob_abc" "iob_data iob_abc = map Some ''abc''"
  by (simp_all add: iob_ok_def iob_data_def iob_abc_def INT_MAX_def)

lemma iob_bc_ok: "iob_ok iob_bc" "iob_data iob_bc = map Some ''bc''"
  by (simp_all add: iob_ok_def iob_data_def iob_bc_def iob_abc_def INT_MAX_def)

text \<open>
  C26: \<open>IOBuffer_data_add\<close> on a well formed buffer fails its assertions exactly when there is
  nothing to add or not enough space. Otherwise the data becomes the old data followed by the
  new bytes, except that a buffer whose \<open>buffer_ptr\<close> has moved on by \<open>p > 0\<close> bytes has byte
  \<open>length - p\<close> of its data overwritten with zero by the misplaced terminator.
\<close>

theorem data_add_outcome:
  assumes "iob_ok b"
  shows "if bs = [] \<or> int (length bs) > IOBuffer_space_len b
         then IOBuffer_data_add b bs = Inl Assert_fail
         else \<exists>b'. IOBuffer_data_add b bs = Inr b' \<and> iob_ok b' \<and>
                   iob_data b' = clobber (nat (buffer_ptr b)) (iob_data b @ bs) \<and>
                   IOBuffer_space_len b' = IOBuffer_space_len b - int (length bs)"
proof (cases "bs = [] \<or> int (length bs) > IOBuffer_space_len b")
  case True
  then show ?thesis
    using IOBuffer_data_add_Nil [OF assms] IOBuffer_data_add_full [of b bs] by auto
next
  case False
  with IOBuffer_data_add_ok [OF assms, of bs] obtain b' where
    b': "IOBuffer_data_add b bs = Inr b'" "iob_ok b'" "buffer_ptr b' = buffer_ptr b"
      "iob_data b' = clobber (nat (buffer_ptr b)) (iob_data b @ bs)"
      "buffer_capacity b' = buffer_capacity b" by auto
  then have "IOBuffer_space_len b' = IOBuffer_space_len b - int (length bs)"
    using length_iob_data [OF b'(2)] length_iob_data [OF assms] by (simp add: IOBuffer_space_len_def)
  with b' False show ?thesis by auto
qed

theorem data_add_outcome_witness:
  "\<exists>b'. IOBuffer_data_add iob_bc (map Some ''xy'') = Inr b' \<and> iob_ok b' \<and>
        iob_data b' = map Some [CHR ''b'', CHR ''c'', CHR ''x'', CHR 0x00]"
  using data_add_outcome [OF iob_bc_ok(1), of "map Some ''xy''"]
  by (auto simp: iob_bc_ok iob_bc_fields clobber_def)

text \<open>
  \<open>IOBuffer_consume\<close> drops exactly the first \<open>n\<close> bytes of the data; asking for more than
  the data holds fails an assertion; consuming all of it makes the whole capacity available
  again.
\<close>

lemma consume_outcome:
  assumes "iob_ok b" "0 \<le> n" "n \<le> INT_MAX"
  shows "if n > buffer_remaining b then IOBuffer_consume b n = Inl Assert_fail
         else \<exists>b'. IOBuffer_consume b n = Inr b' \<and> iob_ok b' \<and>
                   iob_data b' = drop (nat n) (iob_data b) \<and>
                   (n = buffer_remaining b \<longrightarrow> IOBuffer_space_len b' = buffer_capacity b)"
proof (cases "n > buffer_remaining b")
  case True
  then show ?thesis using IOBuffer_consume_ok(2) [OF assms] by simp
next
  case False
  with IOBuffer_consume_ok(1) [OF assms] obtain b' where
    b': "IOBuffer_consume b n = Inr b'" "iob_ok b'" "iob_data b' = drop (nat n) (iob_data b)"
      "buffer_capacity b' = buffer_capacity b"
      "buffer_ptr b' = (if n = buffer_remaining b then 0 else buffer_ptr b + n)" by auto
  moreover have "buffer_remaining b' = buffer_remaining b - n"
    using b' False length_iob_data [OF b'(2)] length_iob_data [OF assms(1)] assms(2) by simp
  ultimately show ?thesis using False by (auto simp: IOBuffer_space_len_def)
qed

text \<open>
  C27: \<open>IOBuffer_sprintf\<close> succeeds exactly when the formatted text is not empty and is shorter
  than the space that is left, and then appends it as \<open>IOBuffer_data_add\<close> does; in every other
  case, also where it means to expand the buffer, the call ends in an error.
\<close>

theorem sprintf_outcome:
  assumes "iob_ok b"
  shows "if out \<noteq> [] \<and> int (length out) < IOBuffer_space_len b
         then \<exists>b'. IOBuffer_sprintf b out = Inr b' \<and> iob_ok b' \<and>
                   iob_data b' = clobber (nat (buffer_ptr b)) (iob_data b @ map Some out)
         else \<exists>e. IOBuffer_sprintf b out = Inl e"
  using IOBuffer_sprintf_fits [OF assms, of out] IOBuffer_sprintf_overflow [OF assms, of out] by auto

theorem sprintf_outcome_witness:
  "(\<exists>b'. IOBuffer_sprintf iob_abc ''1234'' = Inr b' \<and> iob_ok b' \<and>
         iob_data b' = map Some ''abc1234'') \<and>
   (\<exists>e. IOBuffer_sprintf iob_abc ''12345'' = Inl e)"
  using sprintf_outcome [OF iob_abc_ok(1), of "''1234''"] sprintf_outcome [OF iob_abc_ok(1), of "''12345''"]
  by (simp add: iob_abc_ok iob_abc_fields)

text \<open>
  Round trip: a buffer made from a C string gives the same string back through
  \<open>IOBuffer_cstr\<close>, and its data is exactly the bytes of the string.
\<close>

lemma from_cstring_roundtrip:
  assumes "no_nul s" "s \<noteq> []" "2 * int (length s) < INT_MAX"
  shows "\<exists>b. IOBuffer_from_cstring (map Some s @ [Some (CHR 0x00)]) = Inr b \<and>
             IOBuffer_cstr b = Inr s \<and> iob_data b = map Some s \<and>
             IOBuffer_data_len b = int (length s)"
proof -
  from IOBuffer_from_buf_holds [OF assms(2,3)] obtain b where
    b: "IOBuffer_from_buf (map Some s) = Inr b" "iob_holds b s" "iob_terminated b" by auto
  then show ?thesis
    using IOBuffer_cstr_holds [OF b(2,3) assms(1)] iob_holds_remaining [OF b(2)] assms
    by (auto simp: IOBuffer_from_cstring_def iob_holds_def IOBuffer_data_len_def)
qed

text \<open>
  \<open>IOBuffer_equal\<close> on two initialised buffers compares the lengths and the bytes up to the
  first zero byte.
\<close>

lemma equal_compares_to_nul:
  assumes "iob_ok a" "iob_data a = map Some s" "iob_ok b" "iob_data b = map Some t"
  shows "IOBuffer_equal a b =
           Inr (length s = length t \<and>
                takeWhile (\<lambda>c. c \<noteq> CHR 0x00) s = takeWhile (\<lambda>c. c \<noteq> CHR 0x00) t)"
  using assms by (rule IOBuffer_equal_bytes)

text \<open>
  \<open>IOBuffer_consolidate_space\<close> moves the data of a partly consumed buffer to the start of
  the block: the data is unchanged and every byte that is not data is space.
\<close>

lemma consolidate_keeps_data:
  assumes "iob_ok b" "buffer_remaining b > 0"
  shows "\<exists>b'. IOBuffer_consolidate_space b = Inr b' \<and> iob_ok b' \<and> iob_data b' = iob_data b \<and>
              IOBuffer_space_len b' = buffer_capacity b - int (length (iob_data b))"
  using IOBuffer_consolidate_ok [OF assms] length_iob_data [OF assms(1)] by auto

end
