(* ===== verification/Buffer_Chain.thy ===== *)
theory Buffer_Chain
  imports C_List Io_Buffer
begin

text \<open>
  The chain of I/O buffers of \<^verbatim>\<open>src/common/buffer_chain.c\<close>, which holds message bodies and
  serialised messages. Its list is the one of \<^verbatim>\<open>list.c\<close>; a buffer changed through the pointer
  that \<open>List_last\<close> returns is written back to its node with \<open>set_item\<close>. The size is an \<open>int\<close>
  whose sums are checked. \<open>BufferChain_clear\<close> is \<open>assert (false)\<close>.

  \<open>bc_holds c s\<close> says that the buffers of \<open>c\<close>, none of them empty or partly consumed, hold
  the byte string \<open>s\<close> in order and that the recorded size is its length. The two arguments of
  \<open>BufferChain_append_bufferchain\<close> and \<open>BufferChain_steal_bufferchain\<close> are distinct objects.
  The loop of the latter removes a buffer each time, so the length of the chain bounds it.
\<close>

section \<open>Operations\<close>

record BufferChain =
  m_chain :: "IOBuffer List"
  bc_size :: int

definition BufferChain_new :: BufferChain where
  "BufferChain_new = \<lparr>m_chain = List_new, bc_size = 0\<rparr>"

text \<open>\<open>IOBuffer_free\<close> needs a live buffer; the item is dropped with its node.\<close>

fun BufferChain_free_loop :: "nat \<Rightarrow> IOBuffer List \<Rightarrow> addr option \<Rightarrow> IOBuffer List res" where
  "BufferChain_free_loop 0 l iter = Inl Out_of_fuel"
| "BufferChain_free_loop (Suc k) l iter =
     (if iter = None then Inr l
      else
        rbind (List_itr_next l iter) (\<lambda>nxt.
        rbind (List_itr_unpack l iter) (\<lambda>iob.
        rbind (List_itr_remove l iter) (\<lambda>l1.
        BufferChain_free_loop k l1 nxt))))"

definition BufferChain_free :: "BufferChain \<Rightarrow> unit res" where
  "BufferChain_free this =
     rbind (BufferChain_free_loop (Suc (fresh (m_chain this))) (m_chain this)
              (List_iterator (m_chain this))) List_free"

text \<open>The part of \<open>BufferChain_append\<close> from line 49 on: the bytes go into a new buffer.\<close>

definition BufferChain_append_new :: "BufferChain \<Rightarrow> mem \<Rightarrow> BufferChain res" where
  "BufferChain_append_new this buf =
     (let len = int (length buf) in
      rbind (if len > 256 * 4 * 8 then c_int (len + 100) else Inr (256 * 4 * 8)) (\<lambda>required_len.
      rbind (IOBuffer_new_with_capacity required_len) (\<lambda>new_iob.
      rbind (IOBuffer_data_add new_iob buf) (\<lambda>new1.
      rbind (List_add_back (m_chain this) new1) (\<lambda>l1.
      rbind (c_int (bc_size this + len)) (\<lambda>sz.
      Inr \<lparr>m_chain = l1, bc_size = sz\<rparr>))))))"

definition BufferChain_append :: "BufferChain \<Rightarrow> mem \<Rightarrow> BufferChain res" where
  "BufferChain_append this buf =
     (let len = int (length buf) in
      if bc_size this > 0 then
        rbind (List_last (m_chain this)) (\<lambda>r.
        case r of None \<Rightarrow> Inl Null_deref
        | Some last_iob \<Rightarrow>
            if IOBuffer_space_len last_iob \<ge> len then
              rbind (IOBuffer_data_add last_iob buf) (\<lambda>last1.
              rbind (set_item (m_chain this) (tail (m_chain this)) last1) (\<lambda>l1.
              rbind (c_int (bc_size this + len)) (\<lambda>sz.
              Inr \<lparr>m_chain = l1, bc_size = sz\<rparr>)))
            else BufferChain_append_new this buf)
      else BufferChain_append_new this buf)"

definition BufferChain_append_IOBuffer :: "BufferChain \<Rightarrow> IOBuffer \<Rightarrow> BufferChain res" where
  "BufferChain_append_IOBuffer this iobuf =
     rbind (mem_range (mem_p iobuf) (IOBuffer_data iobuf) (IOBuffer_data_len iobuf)) (\<lambda>bs.
     BufferChain_append this bs)"

definition BufferChain_append_cstr :: "BufferChain \<Rightarrow> mem \<Rightarrow> BufferChain res" where
  "BufferChain_append_cstr this cstr =
     rbind (c_str cstr) (\<lambda>s. BufferChain_append this (map Some s))"

definition BufferChain_size :: "BufferChain \<Rightarrow> int" where
  "BufferChain_size this = bc_size this"

definition BufferChain_compact :: "BufferChain \<Rightarrow> IOBuffer res" where
  "BufferChain_compact this =
     rbind (IOBuffer_new_with_capacity (BufferChain_size this)) (\<lambda>iob_final.
     list_foreach (m_chain this)
       (\<lambda>tmp acc.
          rbind (mem_range (mem_p tmp) (IOBuffer_data tmp) (IOBuffer_data_len tmp)) (\<lambda>bs.
          IOBuffer_data_add acc bs))
       iob_final)"

fun eq_cstr_bytes :: "mem \<Rightarrow> mem \<Rightarrow> int \<Rightarrow> (bool \<times> int) res" where
  "eq_cstr_bytes cstr [] cstr_index = Inr (True, cstr_index)"
| "eq_cstr_bytes cstr (d # ds) cstr_index =
     rbind (mem_get cstr cstr_index) (\<lambda>c.
     case d of None \<Rightarrow> Inl Uninit_read
     | Some b \<Rightarrow> if c \<noteq> b then Inr (False, cstr_index)
                else eq_cstr_bytes cstr ds (cstr_index + 1))"

fun eq_cstr_loop :: "nat \<Rightarrow> IOBuffer List \<Rightarrow> mem \<Rightarrow> addr option \<Rightarrow> int \<Rightarrow> bool res" where
  "eq_cstr_loop 0 l cstr iter ix = Inl Out_of_fuel"
| "eq_cstr_loop (Suc k) l cstr iter ix =
     (if iter = None then Inr True
      else
        rbind (List_itr_unpack l iter) (\<lambda>tmp.
        rbind (mem_range (mem_p tmp) (IOBuffer_data tmp) (IOBuffer_data_len tmp)) (\<lambda>data.
        rbind (c_str cstr) (\<lambda>_.
        rbind (eq_cstr_bytes cstr data ix) (\<lambda>(same, ix1).
        if \<not> same then Inr False
        else rbind (List_itr_next l iter) (\<lambda>nxt. eq_cstr_loop k l cstr nxt ix1))))))"

definition BufferChain_eq_cstr :: "BufferChain \<Rightarrow> mem \<Rightarrow> bool res" where
  "BufferChain_eq_cstr this cstr =
     eq_cstr_loop (Suc (fresh (m_chain this))) (m_chain this) cstr (List_iterator (m_chain this)) 0"

definition BufferChain_iterator :: "BufferChain \<Rightarrow> addr option" where
  "BufferChain_iterator this = List_iterator (m_chain this)"

definition BufferChain_iter_next :: "BufferChain \<Rightarrow> addr option \<Rightarrow> addr option res" where
  "BufferChain_iter_next this iter = List_itr_next (m_chain this) iter"

definition BufferChain_unpack_iter :: "BufferChain \<Rightarrow> addr option \<Rightarrow> IOBuffer res" where
  "BufferChain_unpack_iter this iter = List_itr_unpack (m_chain this) iter"

definition BufferChain_remove_iter :: "BufferChain \<Rightarrow> addr option \<Rightarrow> BufferChain res" where
  "BufferChain_remove_iter this iter =
     rbind (List_itr_remove (m_chain this) iter) (\<lambda>l1. Inr (this\<lparr>m_chain := l1\<rparr>))"

definition BufferChain_add_front :: "BufferChain \<Rightarrow> IOBuffer \<Rightarrow> BufferChain res" where
  "BufferChain_add_front this iobuf =
     rbind (List_add_front (m_chain this) iobuf) (\<lambda>l1.
     Inr (this\<lparr>m_chain := l1, bc_size := IOBuffer_data_len iobuf\<rparr>))"

definition BufferChain_add_back :: "BufferChain \<Rightarrow> IOBuffer \<Rightarrow> BufferChain res" where
  "BufferChain_add_back this iobuf =
     rbind (List_add_back (m_chain this) iobuf) (\<lambda>l1.
     rbind (c_int (bc_size this + IOBuffer_data_len iobuf)) (\<lambda>sz.
     Inr (this\<lparr>m_chain := l1, bc_size := sz\<rparr>)))"

definition BufferChain_pop_front :: "BufferChain \<Rightarrow> (IOBuffer option \<times> BufferChain) res" where
  "BufferChain_pop_front this =
     rbind (List_first (m_chain this)) (\<lambda>front.
     case front of None \<Rightarrow> Inr (None, this)
     | Some iob \<Rightarrow>
         rbind (List_remove_first (m_chain this)) (\<lambda>(_, l1).
         rbind (c_int (bc_size this - IOBuffer_data_len iob)) (\<lambda>sz.
         Inr (Some iob, this\<lparr>m_chain := l1, bc_size := sz\<rparr>))))"

definition BufferChain_front :: "BufferChain \<Rightarrow> IOBuffer option res" where
  "BufferChain_front this = List_first (m_chain this)"

definition BufferChain_append_bufferchain :: "BufferChain \<Rightarrow> BufferChain \<Rightarrow> BufferChain res" where
  "BufferChain_append_bufferchain this other =
     list_foreach (m_chain other)
       (\<lambda>iob this. rbind (IOBuffer_dup iob) (\<lambda>iob_dup. BufferChain_add_back this iob_dup)) this"

fun steal_loop ::
  "nat \<Rightarrow> BufferChain \<Rightarrow> BufferChain \<Rightarrow> IOBuffer option \<Rightarrow> (BufferChain \<times> BufferChain) res" where
  "steal_loop 0 this other iob = Inl Out_of_fuel"
| "steal_loop (Suc k) this other iob =
     (case iob of None \<Rightarrow> Inr (this, other)
      | Some b \<Rightarrow>
          rbind (BufferChain_add_back this b) (\<lambda>this1.
          rbind (BufferChain_pop_front other) (\<lambda>(iob1, other1).
          steal_loop k this1 other1 iob1)))"

text \<open>Returns \<open>this\<close> and \<open>other\<close>.\<close>

definition BufferChain_steal_bufferchain ::
  "BufferChain \<Rightarrow> BufferChain \<Rightarrow> (BufferChain \<times> BufferChain) res" where
  "BufferChain_steal_bufferchain this other =
     rbind (BufferChain_pop_front other) (\<lambda>(iob, other1).
     steal_loop (Suc (nat (List_size (m_chain other)))) this other1 iob)"

section \<open>What a chain holds\<close>

definition bc_rep :: "BufferChain \<Rightarrow> char list list \<Rightarrow> bool" where
  "bc_rep c ss \<longleftrightarrow>
     List_ok (m_chain c) \<and> list_all2 iob_holds (contents (m_chain c)) ss \<and> [] \<notin> set ss \<and>
     bc_size c = int (length (concat ss))"

definition bc_holds :: "BufferChain \<Rightarrow> char list \<Rightarrow> bool" where
  "bc_holds c s \<longleftrightarrow> (\<exists>ss. bc_rep c ss \<and> concat ss = s)"

lemma bc_holdsE:
  assumes "bc_holds c s"
  obtains ss where "bc_rep c ss" "concat ss = s"
  using assms by (auto simp: bc_holds_def)

lemma bc_holds_size: "bc_holds c s \<Longrightarrow> bc_size c = int (length s)"
  by (auto simp: bc_holds_def bc_rep_def)

text \<open>No buffer of a chain is empty, so that the counter of the list is bounded by the size.\<close>

lemma length_concat_le: "[] \<notin> set ss \<Longrightarrow> length ss \<le> length (concat ss)"
proof (induction ss)
  case (Cons s ss)
  then have "1 \<le> length s" by (cases s) auto
  with Cons show ?case by auto
qed simp

lemma bc_rep_count: "bc_rep c ss \<Longrightarrow> length (contents (m_chain c)) \<le> length (concat ss)"
  using length_concat_le [of ss] by (auto simp: bc_rep_def dest: list_all2_lengthD)

lemma bc_new: "bc_holds BufferChain_new []"
  by (auto simp: bc_holds_def bc_rep_def BufferChain_new_def lq.new_law intro!: exI [of _ "[]"])

lemma iob_holds_range:
  "iob_holds b s \<Longrightarrow>
   mem_range (mem_p b) (IOBuffer_data b) (IOBuffer_data_len b) = Inr (map Some s)"
  by (simp add: iob_holds_def iob_range)

text \<open>The room the arithmetic on \<open>int\<close> leaves, with a margin for the size of a new buffer.\<close>

definition bc_takes :: "nat \<Rightarrow> nat \<Rightarrow> bool" where
  "bc_takes n k \<longleftrightarrow> 0 < k \<and> n + k \<le> 2147483000"

lemma bc_append_new_buffer:
  assumes rep: "bc_rep c ss" and t: "t \<noteq> []" and sz: "length (concat ss) + length t \<le> 2147483000"
  shows "\<exists>c'. BufferChain_append_new c (map Some t) = Inr c' \<and> bc_rep c' (ss @ [t])"
proof -
  define n where "n = (if int (length t) > 8192 then int (length t) + 100 else 8192)"
  have n: "(if int (length t) > 256 * 4 * 8 then c_int (int (length t) + 100) else Inr (256 * 4 * 8)) = Inr n"
    "0 \<le> n" "n < INT_MAX" "int (length t) \<le> n"
    using sz by (auto simp: n_def INT_MAX_def)
  from IOBuffer_new_ok [OF n(2,3)] obtain b where
    b: "IOBuffer_new_with_capacity n = Inr b" "iob_holds b []" "buffer_capacity b = n"
    by (auto simp: iob_holds_def)
  from IOBuffer_data_add_holds [OF b(2) t] n b obtain b1 where
    b1: "IOBuffer_data_add b (map Some t) = Inr b1" "iob_holds b1 t" by auto
  from lq.add_back_law [of "m_chain c" b1] rep bc_rep_count [OF rep] sz obtain l1 where
    l1: "List_add_back (m_chain c) b1 = Inr l1" "List_ok l1" "contents l1 = contents (m_chain c) @ [b1]"
    by (auto simp: bc_rep_def INT_MAX_def)
  have size: "c_int (bc_size c + int (length t)) = Inr (int (length (concat (ss @ [t]))))"
    using rep sz by (simp add: bc_rep_def INT_MAX_def INT_MIN_def)
  have "BufferChain_append_new c (map Some t) =
      Inr \<lparr>m_chain = l1, bc_size = int (length (concat (ss @ [t])))\<rparr>"
    unfolding BufferChain_append_new_def Let_def length_map n(1) rbind_Inr b(1) b1(1) l1(1) size ..
  moreover have "bc_rep \<lparr>m_chain = l1, bc_size = int (length (concat (ss @ [t])))\<rparr> (ss @ [t])"
    using rep b1 l1 t by (auto simp: bc_rep_def intro: list_all2_appendI)
  ultimately show ?thesis by blast
qed

lemma BufferChain_append_rep:
  assumes rep: "bc_rep c ss" and t: "t \<noteq> []" and sz: "length (concat ss) + length t \<le> 2147483000"
  shows "\<exists>c' ss'. BufferChain_append c (map Some t) = Inr c' \<and> bc_rep c' ss' \<and>
                  concat ss' = concat ss @ t"
proof (cases "concat ss = []")
  case True
  with rep have "bc_size c = 0" by (simp add: bc_rep_def)
  then have "BufferChain_append c (map Some t) = BufferChain_append_new c (map Some t)"
    by (simp add: BufferChain_append_def Let_def)
  with bc_append_new_buffer [OF assms] show ?thesis by force
next
  case False
  then obtain us u where ss: "ss = us @ [u]" by (cases ss rule: rev_cases) auto
  with rep obtain bs b where bs: "contents (m_chain c) = bs @ [b]" "iob_holds b u"
    "list_all2 iob_holds bs us" by (auto simp: bc_rep_def list_all2_append2 list_all2_Cons2)
  from rep False have pos: "bc_size c > 0" by (auto simp: bc_rep_def)
  have last: "List_last (m_chain c) = Inr (Some b)"
    using rep bs lq.last_law [of "m_chain c"] by (simp add: bc_rep_def)
  show ?thesis
  proof (cases "IOBuffer_space_len b \<ge> int (length t)")
    case False
    with pos last have "BufferChain_append c (map Some t) = BufferChain_append_new c (map Some t)"
      by (simp add: BufferChain_append_def Let_def)
    with bc_append_new_buffer [OF assms] show ?thesis by force
  next
    case True
    with IOBuffer_data_add_holds [OF bs(2) t] iob_holds_space_len [OF bs(2)] obtain b1 where
      b1: "IOBuffer_data_add b (map Some t) = Inr b1" "iob_holds b1 (u @ t)" by auto
    from List_ok_set_last [of "m_chain c" bs b b1] rep bs obtain l1 where
      l1: "set_item (m_chain c) (tail (m_chain c)) b1 = Inr l1" "List_ok l1" "contents l1 = bs @ [b1]"
      by (auto simp: bc_rep_def)
    have size: "c_int (bc_size c + int (length t)) = Inr (int (length (concat ss @ t)))"
      using rep sz by (simp add: bc_rep_def INT_MAX_def INT_MIN_def)
    have "BufferChain_append c (map Some t) = Inr \<lparr>m_chain = l1, bc_size = int (length (concat ss @ t))\<rparr>"
      using pos last True b1 l1 size by (simp add: BufferChain_append_def Let_def)
    moreover have "bc_rep \<lparr>m_chain = l1, bc_size = int (length (concat ss @ t))\<rparr> (us @ [u @ t])"
      using rep ss bs b1 l1 t by (auto simp: bc_rep_def intro: list_all2_appendI)
    ultimately show ?thesis using ss by force
  qed
qed

lemma BufferChain_append_holds:
  assumes "bc_holds c s" "bc_takes (length s) (length t)"
  shows "\<exists>c'. BufferChain_append c (map Some t) = Inr c' \<and> bc_holds c' (s @ t)"
proof -
  from assms(1) obtain ss where "bc_rep c ss" "concat ss = s" by (rule bc_holdsE)
  with BufferChain_append_rep [of c ss t] assms(2) show ?thesis
    by (auto simp: bc_takes_def bc_holds_def)
qed

interpretation chain: byte_sink bc_holds bc_takes BufferChain_append "Inr BufferChain_new"
proof (unfold_locales, goal_cases)
  case 1
  show ?case using bc_new by simp
next
  case (2 b s t)
  then show ?case by (rule BufferChain_append_holds)
qed

section \<open>Compaction\<close>

lemma compact_fold:
  assumes "list_all2 iob_holds bs ss" "[] \<notin> set ss" "iob_holds acc s0"
    and "int (length s0 + length (concat ss)) \<le> buffer_capacity acc"
  shows "\<exists>acc'. fold_res (\<lambda>tmp acc.
            rbind (mem_range (mem_p tmp) (IOBuffer_data tmp) (IOBuffer_data_len tmp)) (\<lambda>bs.
            IOBuffer_data_add acc bs)) bs acc = Inr acc' \<and>
          iob_holds acc' (s0 @ concat ss) \<and> buffer_capacity acc' = buffer_capacity acc \<and>
          (iob_terminated acc' \<or> ss = [])"
  using assms
proof (induction bs ss arbitrary: acc s0 rule: list_all2_induct)
  case (Cons b bs u us)
  then have u: "u \<noteq> []" "int (length s0 + length u) \<le> buffer_capacity acc" by auto
  from IOBuffer_data_add_holds [OF Cons.prems(2) u] obtain acc1 where
    a: "IOBuffer_data_add acc (map Some u) = Inr acc1" "iob_holds acc1 (s0 @ u)"
      "buffer_capacity acc1 = buffer_capacity acc" "iob_terminated acc1" by auto
  show ?case
  proof (cases "us = []")
    case True
    with Cons a iob_holds_range [OF Cons.hyps(1)] show ?thesis by auto
  next
    case False
    with Cons.IH [of acc1 "s0 @ u"] Cons.prems a iob_holds_range [OF Cons.hyps(1)] show ?thesis
      by auto
  qed
qed auto

lemma BufferChain_compact_holds:
  assumes "bc_holds c s" "int (length s) < INT_MAX"
  shows "\<exists>b. BufferChain_compact c = Inr b \<and> iob_holds b s \<and> buffer_capacity b = int (length s) \<and>
             (s \<noteq> [] \<longrightarrow> iob_terminated b)"
proof -
  from assms(1) obtain ss where rep: "bc_rep c ss" and s: "concat ss = s" by (rule bc_holdsE)
  from IOBuffer_new_ok [of "int (length s)"] assms(2) obtain b where
    b: "IOBuffer_new_with_capacity (int (length s)) = Inr b" "iob_holds b []"
      "buffer_capacity b = int (length s)" by (auto simp: iob_holds_def)
  from compact_fold [of "contents (m_chain c)" ss b "[]"] rep s b obtain b' where
    b': "fold_res (\<lambda>tmp acc.
            rbind (mem_range (mem_p tmp) (IOBuffer_data tmp) (IOBuffer_data_len tmp)) (\<lambda>bs.
            IOBuffer_data_add acc bs)) (contents (m_chain c)) b = Inr b'"
      "iob_holds b' s" "buffer_capacity b' = int (length s)" "iob_terminated b' \<or> ss = []"
    by (auto simp: bc_rep_def)
  have "BufferChain_size c = int (length s)"
    using bc_holds_size [OF assms(1)] by (simp add: BufferChain_size_def)
  with rep b b' s show ?thesis
    by (auto simp: BufferChain_compact_def list_foreach_ok bc_rep_def)
qed

section \<open>Moving buffers between chains\<close>

lemma BufferChain_add_back_rep:
  assumes rep: "bc_rep c ss" and b: "iob_holds b t" "t \<noteq> []"
    and sz: "int (length (concat ss) + length t) \<le> INT_MAX"
  shows "\<exists>c'. BufferChain_add_back c b = Inr c' \<and> bc_rep c' (ss @ [t])"
proof -
  have "0 < length t" using b(2) by simp
  then have "int (length (contents (m_chain c))) < INT_MAX" using bc_rep_count [OF rep] sz by linarith
  with lq.add_back_law [of "m_chain c" b] rep obtain l1 where
    l1: "List_add_back (m_chain c) b = Inr l1" "List_ok l1" "contents l1 = contents (m_chain c) @ [b]"
    by (auto simp: bc_rep_def)
  have "c_int (bc_size c + IOBuffer_data_len b) = Inr (int (length (concat ss) + length t))"
    using rep sz iob_holds_remaining [OF b(1)] by (simp add: bc_rep_def IOBuffer_data_len_def INT_MIN_def)
  with rep b l1 show ?thesis
    by (auto simp: BufferChain_add_back_def bc_rep_def intro: list_all2_appendI)
qed

lemma BufferChain_pop_front_Nil:
  "bc_rep c [] \<Longrightarrow> BufferChain_pop_front c = Inr (None, c)"
  using lq.first_law [of "m_chain c"] by (auto simp: BufferChain_pop_front_def bc_rep_def)

lemma BufferChain_pop_front_rep:
  assumes rep: "bc_rep c (t # ss)" and sz: "int (length (concat (t # ss))) \<le> INT_MAX"
  shows "\<exists>b c'. BufferChain_pop_front c = Inr (Some b, c') \<and> iob_holds b t \<and> bc_rep c' ss \<and>
                contents (m_chain c') = tl (contents (m_chain c))"
proof -
  from rep obtain b bs where bs: "contents (m_chain c) = b # bs" "iob_holds b t" "list_all2 iob_holds bs ss"
    by (auto simp: bc_rep_def list_all2_Cons2)
  from lq.remove_first_law [of "m_chain c"] rep bs obtain l1 where
    l1: "List_remove_first (m_chain c) = Inr (Some b, l1)" "List_ok l1" "contents l1 = bs"
    by (auto simp: bc_rep_def)
  have f: "List_first (m_chain c) = Inr (Some b)"
    using rep bs lq.first_law [of "m_chain c"] by (simp add: bc_rep_def)
  have "c_int (bc_size c - IOBuffer_data_len b) = Inr (int (length (concat ss)))"
    using rep sz iob_holds_remaining [OF bs(2)] by (simp add: bc_rep_def IOBuffer_data_len_def INT_MIN_def)
  with rep bs l1 f show ?thesis
    by (auto simp: BufferChain_pop_front_def bc_rep_def)
qed

lemma steal_loop_rep:
  assumes "bc_rep this ts" "bc_rep other ss" "iob_holds b u" "u \<noteq> []"
    and "int (length (concat ts) + length u + length (concat ss)) \<le> INT_MAX" "Suc (length ss) < k"
  shows "\<exists>this' other'. steal_loop k this other (Some b) = Inr (this', other') \<and>
           bc_rep this' (ts @ u # ss) \<and> bc_rep other' []"
  using assms
proof (induction ss arbitrary: this ts other b u k)
  case Nil
  then obtain j where k: "k = Suc (Suc j)" by (metis less_imp_Suc_add add_Suc list.size(3))
  from BufferChain_add_back_rep [OF Nil(1,3,4)] Nil(5) obtain c' where
    "BufferChain_add_back this b = Inr c'" "bc_rep c' (ts @ [u])" by auto
  with BufferChain_pop_front_Nil [OF Nil(2)] Nil(2) k show ?case by auto
next
  case (Cons v ss)
  then obtain j where k: "k = Suc j" "Suc (length ss) < j" by (cases k) auto
  from BufferChain_add_back_rep [OF Cons.prems(1,3,4)] Cons.prems(5) obtain c' where
    c': "BufferChain_add_back this b = Inr c'" "bc_rep c' (ts @ [u])" by auto
  from BufferChain_pop_front_rep [OF Cons.prems(2)] Cons.prems(5) obtain b1 o1 where
    o1: "BufferChain_pop_front other = Inr (Some b1, o1)" "iob_holds b1 v" "bc_rep o1 ss" by auto
  have v: "v \<noteq> []" using Cons.prems(2) by (auto simp: bc_rep_def)
  have sz: "int (length (concat (ts @ [u])) + length v + length (concat ss)) \<le> INT_MAX"
    using Cons.prems(5) by simp
  from Cons.IH [OF c'(2) o1(3) o1(2) v sz k(2)] c' o1 k show ?case by auto
qed

lemma BufferChain_steal_rep:
  assumes "bc_rep this ts" "bc_rep other ss"
    and sz: "int (length (concat ts) + length (concat ss)) \<le> INT_MAX"
  shows "\<exists>this' other'. BufferChain_steal_bufferchain this other = Inr (this', other') \<and>
           bc_rep this' (ts @ ss) \<and> bc_rep other' []"
proof (cases ss)
  case Nil
  with assms BufferChain_pop_front_Nil [of other] show ?thesis
    by (auto simp: BufferChain_steal_bufferchain_def)
next
  case (Cons u us)
  with BufferChain_pop_front_rep [of other u us] assms obtain b o1 where
    o1: "BufferChain_pop_front other = Inr (Some b, o1)" "iob_holds b u" "bc_rep o1 us" by auto
  have u: "u \<noteq> []" using assms(2) Cons by (auto simp: bc_rep_def)
  have len: "nat (List_size (m_chain other)) = Suc (length us)"
    using assms(2) Cons by (auto simp: bc_rep_def lq.size_law dest: list_all2_lengthD)
  have "Suc (length us) < Suc (nat (List_size (m_chain other)))" by (simp add: len)
  from steal_loop_rep [OF assms(1) o1(3) o1(2) u _ this] sz Cons o1 show ?thesis
    by (auto simp: BufferChain_steal_bufferchain_def)
qed

lemma append_bufferchain_fold:
  assumes "list_all2 iob_holds bs ss" "bc_rep c ts" "[] \<notin> set ss"
    and "int (length (concat ts) + length (concat ss)) \<le> INT_MAX"
  shows "\<exists>c'. fold_res (\<lambda>iob this. rbind (IOBuffer_dup iob) (\<lambda>d. BufferChain_add_back this d)) bs c =
           Inr c' \<and> bc_rep c' (ts @ ss)"
  using assms
proof (induction bs ss arbitrary: c ts rule: list_all2_induct)
  case (Cons b bs u us)
  from IOBuffer_dup_ok [of b] Cons.hyps(1) obtain d where
    d: "IOBuffer_dup b = Inr d" "iob_holds d u" by (auto simp: iob_holds_def)
  have "u \<noteq> []" "int (length (concat ts) + length u) \<le> INT_MAX" using Cons.prems by auto
  from BufferChain_add_back_rep [OF Cons.prems(1) d(2) this] obtain c1 where
    c1: "BufferChain_add_back c d = Inr c1" "bc_rep c1 (ts @ [u])" by auto
  with d Cons.IH [OF c1(2)] Cons.prems show ?case by auto
qed auto

lemma BufferChain_append_bufferchain_holds:
  assumes "bc_holds this s" "bc_holds other t" "int (length s + length t) \<le> INT_MAX"
  shows "\<exists>c. BufferChain_append_bufferchain this other = Inr c \<and> bc_holds c (s @ t)"
proof -
  from assms obtain ss ts where "bc_rep this ss" "concat ss = s" "bc_rep other ts" "concat ts = t"
    by (auto simp: bc_holds_def)
  with append_bufferchain_fold [of "contents (m_chain other)" ts this ss] assms(3) show ?thesis
    by (fastforce simp: BufferChain_append_bufferchain_def bc_holds_def bc_rep_def list_foreach_ok)
qed

section \<open>Comparison and disposal\<close>

lemma eq_cstr_bytes_rep:
  assumes "i \<le> length t" "no_nul u"
  shows "\<exists>j. eq_cstr_bytes (map Some t @ [Some (CHR 0x00)]) (map Some u) (int i) =
               Inr (take (length u) (drop i t) = u, j) \<and>
             (take (length u) (drop i t) = u \<longrightarrow> j = int (i + length u) \<and> i + length u \<le> length t)"
  using assms
proof (induction u arbitrary: i)
  case (Cons a u)
  have get: "mem_get (map Some t @ [Some (CHR 0x00)]) (int i) =
      Inr (if i < length t then t ! i else CHR 0x00)"
    using Cons.prems by (auto simp: mem_get_def nth_append)
  show ?case
  proof (cases "i < length t \<and> t ! i = a")
    case True
    then have "drop i t = a # drop (Suc i) t" by (metis Cons_nth_drop_Suc)
    with True get Cons.IH [of "Suc i"] Cons.prems show ?thesis by (auto simp: add.commute)
  next
    case False
    then have "take (length (a # u)) (drop i t) \<noteq> a # u"
      by (metis (no_types) Cons_nth_drop_Suc drop_all leI length_Cons list.distinct(1) list.sel(1)
          take_Suc_Cons take_Nil)
    with False get Cons.prems show ?thesis by auto
  qed
qed auto

lemma eq_cstr_loop_dseg:
  assumes "dseg (heap l) prev ps bs None" "list_all2 iob_holds bs ss" "no_nul t" "no_nul (concat ss)"
    and "i \<le> length t" "length bs < k"
  shows "eq_cstr_loop k l (map Some t @ [Some (CHR 0x00)]) (fst_or ps None) (int i) =
           Inr (take (length (concat ss)) (drop i t) = concat ss)"
  using assms
proof (induction bs arbitrary: ps prev ss i k)
  case Nil
  then show ?case by (cases k) auto
next
  case (Cons b bs)
  then obtain p qs j u us where eq: "ps = p # qs" "k = Suc j" "ss = u # us"
    by (cases k; cases ps; cases ss) auto
  from Cons.prems eq have b: "iob_holds b u" "no_nul u" "heap l p = Some \<lparr>forward = fst_or qs None, backward = prev, item = b\<rparr>"
    by auto
  from eq_cstr_bytes_rep [OF Cons.prems(5) b(2)] obtain j' where
    cmp: "eq_cstr_bytes (map Some t @ [Some (CHR 0x00)]) (map Some u) (int i) =
            Inr (take (length u) (drop i t) = u, j')"
      "take (length u) (drop i t) = u \<Longrightarrow> j' = int (i + length u) \<and> i + length u \<le> length t"
    by blast
  have split: "take (length (concat ss)) (drop i t) = concat ss \<longleftrightarrow>
      take (length u) (drop i t) = u \<and> take (length (concat us)) (drop (i + length u) t) = concat us"
    using eq take_add_eq_append [of u "concat us" "drop i t"] by (simp add: add.commute)
  show ?case
    using Cons.prems Cons.IH [of "Some p" qs us "i + length u" j] eq b cmp split iob_holds_range [OF b(1)]
    by (auto simp: List_itr_unpack_def List_itr_next_def)
qed

lemma BufferChain_free_loop_rep:
  "list_rep l ps xs \<Longrightarrow> length xs < k \<Longrightarrow>
   \<exists>l'. BufferChain_free_loop k l (fst_or ps None) = Inr l' \<and> count l' = 0"
proof (induction xs arbitrary: l ps k)
  case Nil
  then show ?case using list_rep_length [OF Nil(1)] list_rep_count [OF Nil(1)] by (cases k) auto
next
  case (Cons x xs)
  then obtain p qs j where eq: "ps = p # qs" "k = Suc j"
    using list_rep_length [OF Cons.prems(1)] by (cases k; cases ps) auto
  with Cons.prems List_itr_remove_rep [of l "[]" p qs "[]" x xs] obtain l1 where
    l1: "List_itr_remove l (Some p) = Inr l1" "list_rep l1 qs xs" by auto
  from Cons.IH [OF l1(2), of j] Cons.prems eq l1
    List_itr_next_rep [of l "[]" p qs "[]" x xs] List_itr_unpack_rep [of l "[]" p qs "[]" x xs]
  show ?case by auto
qed

lemma BufferChain_free_holds:
  assumes "bc_holds c s"
  shows "BufferChain_free c = Inr ()"
proof -
  from assms have "List_ok (m_chain c)" by (auto simp: bc_holds_def bc_rep_def)
  then obtain ps where ps: "list_rep (m_chain c) ps (contents (m_chain c))" by (rule List_okE)
  have it: "List_iterator (m_chain c) = fst_or ps None"
    using ps by (simp add: list_rep_def List_iterator_def)
  have "length (contents (m_chain c)) < Suc (fresh (m_chain c))"
    using list_rep_bound [OF ps] list_rep_length [OF ps] by simp
  from BufferChain_free_loop_rep [OF ps this] obtain l where
    l: "BufferChain_free_loop (Suc (fresh (m_chain c))) (m_chain c) (fst_or ps None) = Inr l" "count l = 0"
    by blast
  show ?thesis
    unfolding BufferChain_free_def it l(1) by (simp add: List_free_def l(2))
qed

section \<open>Properties\<close>

text \<open>
  Text appended to a buffer chain piece by piece, none of the pieces empty and the total
  below 2147483000 bytes, is what the chain holds, and \<open>BufferChain_size\<close> is its length:
  whether a piece fits into the last buffer or needs a new one makes no difference.
\<close>

lemma chain_accumulates:
  assumes "all_taken bc_takes 0 ps"
  shows "\<exists>c. fold_res (\<lambda>p c. BufferChain_append c (map Some p)) ps BufferChain_new = Inr c \<and>
             bc_holds c (concat ps) \<and> BufferChain_size c = int (length (concat ps))"
  using chain.put_pieces [OF bc_new, of ps] assms bc_holds_size by (fastforce simp: BufferChain_size_def)

text \<open>
  \<open>BufferChain_compact\<close> returns one buffer, of exactly the size of the chain, that holds the
  whole text of the chain; as a C string it reads as that text.
\<close>

lemma chain_compact_text:
  assumes "bc_holds c s" "s \<noteq> []" "no_nul s" "int (length s) < INT_MAX"
  shows "\<exists>b. BufferChain_compact c = Inr b \<and> iob_data b = map Some s \<and>
             buffer_capacity b = BufferChain_size c \<and> IOBuffer_cstr b = Inr s"
  using BufferChain_compact_holds [OF assms(1,4)] assms bc_holds_size [OF assms(1)]
  by (auto simp: iob_holds_def BufferChain_size_def intro: IOBuffer_cstr_holds [unfolded iob_holds_def])

text \<open>
  \<open>BufferChain_steal_bufferchain\<close> moves every buffer: afterwards the receiving chain holds
  its own text followed by that of the other chain, and the other chain is empty. The loop ends.
\<close>

lemma chain_steal_moves_all:
  assumes "bc_holds this s" "bc_holds other t" "int (length s + length t) \<le> INT_MAX"
  shows "\<exists>this' other'. BufferChain_steal_bufferchain this other = Inr (this', other') \<and>
           bc_holds this' (s @ t) \<and> bc_holds other' []"
proof -
  from assms obtain ss ts where "bc_rep this ss" "concat ss = s" "bc_rep other ts" "concat ts = t"
    by (auto simp: bc_holds_def)
  with BufferChain_steal_rep [of this ss other ts] assms(3) show ?thesis
    by (fastforce simp: bc_holds_def)
qed

text \<open>
  \<open>BufferChain_eq_cstr\<close> tells whether the text of the chain is a prefix of the C string, not
  whether the two are equal.
\<close>

lemma chain_eq_cstr_prefix:
  assumes "bc_holds c s" "no_nul s" "no_nul t"
  shows "BufferChain_eq_cstr c (map Some t @ [Some (CHR 0x00)]) = Inr (take (length s) t = s)"
proof -
  from assms(1) obtain ss where rep: "bc_rep c ss" and s: "concat ss = s" by (rule bc_holdsE)
  then obtain ps where ps: "list_rep (m_chain c) ps (contents (m_chain c))"
    by (auto simp: bc_rep_def elim: List_okE)
  have "length (contents (m_chain c)) < Suc (fresh (m_chain c))"
    using list_rep_bound [OF ps] list_rep_length [OF ps] by simp
  moreover have "dseg (heap (m_chain c)) None ps (contents (m_chain c)) None"
    "List_iterator (m_chain c) = fst_or ps None"
    using ps by (auto simp: list_rep_def List_iterator_def)
  ultimately show ?thesis
    using eq_cstr_loop_dseg [of "m_chain c" None ps "contents (m_chain c)" ss t 0] rep s assms
    by (simp add: BufferChain_eq_cstr_def bc_rep_def del: eq_cstr_loop.simps)
qed

text \<open>\<open>BufferChain_free\<close> on a well formed chain removes every node and passes all assertions.\<close>

lemma chain_free_succeeds:
  assumes "bc_holds c s"
  shows "BufferChain_free c = Inr ()"
  using assms by (rule BufferChain_free_holds)

end
