(* ===== verification/Kv_Headers.thy ===== *)
theory Kv_Headers
  imports C_List C_Buffer
begin

text \<open>
  Header lines: the key/value pairs of \<^verbatim>\<open>src/http/kvpair.c\<close>, the header list of
  \<^verbatim>\<open>src/http/header_list.c\<close> and \<open>make_upper\<close> of \<^verbatim>\<open>src/common/utils.c\<close>.

  A pair owns two blocks, a label in upper case and a value, both zero terminated. A header list
  is a list of \<^verbatim>\<open>list.c\<close> of pairs; the generated wrappers call the list operations directly.
  A pair that is changed through the pointer a search returns is written back to its node.
  \<open>strcmp\<close> is applied to zero terminated strings only and compares what they hold.

  \<open>hdr_holds l kvs\<close> says that a header list holds the pairs of strings \<open>kvs\<close> in order.
  The locale \<open>header_store\<close> is the contract messages rely on: looking a key up is case
  insensitive and finds the value of the first pair with that key.
\<close>

section \<open>Operations\<close>

record KVPair =
  label_ptr :: mem
  label_len :: nat
  value_ptr :: mem
  value_len :: nat

definition make_upper :: "mem \<Rightarrow> mem res" where
  "make_upper src =
     rbind (c_str src) (\<lambda>s.
     let srclen = length s in
     rbind (mem_write (c_malloc (srclen + 1)) 0 (map c_toupper s)) (\<lambda>dest.
     mem_put dest (int srclen) (CHR 0x00)))"

text \<open>The label and the value are the bytes at the two pointers, as many as the given lengths.\<close>

definition KVPair_new :: "mem \<Rightarrow> mem \<Rightarrow> KVPair res" where
  "KVPair_new lab val =
     (let lablen = length lab; vallen = length val in
      rbind (mem_copy (c_malloc (lablen + 1)) 0 lab) (\<lambda>p.
      rbind (all_init lab) (\<lambda>s.
      rbind (mem_write p 0 (map c_toupper s)) (\<lambda>p1.
      rbind (mem_put p1 (int lablen) (CHR 0x00)) (\<lambda>p2.
      rbind (mem_copy (c_malloc (vallen + 1)) 0 val) (\<lambda>v.
      rbind (mem_put v (int vallen) (CHR 0x00)) (\<lambda>v1.
      Inr \<lparr>label_ptr = p2, label_len = lablen, value_ptr = v1, value_len = vallen\<rparr>)))))))"

definition KVPair_from_cstrs :: "mem \<Rightarrow> mem \<Rightarrow> KVPair res" where
  "KVPair_from_cstrs key val =
     rbind (c_str key) (\<lambda>k. rbind (c_str val) (\<lambda>v. KVPair_new (map Some k) (map Some v)))"

definition KVPair_from_cstrpair :: "mem \<times> mem \<Rightarrow> KVPair res" where
  "KVPair_from_cstrpair cstrp = KVPair_from_cstrs (fst cstrp) (snd cstrp)"

definition KVPair_label :: "KVPair \<Rightarrow> mem" where
  "KVPair_label hl = label_ptr hl"

definition KVPair_value :: "KVPair \<Rightarrow> mem" where
  "KVPair_value hl = value_ptr hl"

definition KVPair_set_value :: "KVPair \<Rightarrow> mem \<Rightarrow> KVPair res" where
  "KVPair_set_value hl val =
     (let vallen = length val in
      rbind (mem_copy (c_malloc (vallen + 1)) 0 val) (\<lambda>v.
      rbind (mem_put v (int vallen) (CHR 0x00)) (\<lambda>v1.
      Inr (hl\<lparr>value_ptr := v1\<rparr>))))"

type_synonym HdrList = "KVPair List"

definition HdrList_new :: HdrList where
  "HdrList_new = List_new"

definition HdrList_safe_free :: "HdrList \<Rightarrow> (KVPair \<Rightarrow> 's \<Rightarrow> 's res) \<Rightarrow> 's \<Rightarrow> 's res" where
  "HdrList_safe_free l kvp_free s = List_safe_free l (Some kvp_free) s"

definition HdrList_size :: "HdrList \<Rightarrow> int" where
  "HdrList_size l = List_size l"

definition HdrList_first :: "HdrList \<Rightarrow> KVPair option res" where
  "HdrList_first l = List_first l"

definition HdrList_last :: "HdrList \<Rightarrow> KVPair option res" where
  "HdrList_last l = List_last l"

definition HdrList_remove_first :: "HdrList \<Rightarrow> (KVPair option \<times> HdrList) res" where
  "HdrList_remove_first l = List_remove_first l"

definition HdrList_remove_last :: "HdrList \<Rightarrow> (KVPair option \<times> HdrList) res" where
  "HdrList_remove_last l = List_remove_last l"

definition HdrList_itr_unpack :: "HdrList \<Rightarrow> addr option \<Rightarrow> KVPair res" where
  "HdrList_itr_unpack l iter = List_itr_unpack l iter"

definition HdrList_iterator :: "HdrList \<Rightarrow> addr option" where
  "HdrList_iterator l = List_iterator l"

definition HdrList_itr_next :: "HdrList \<Rightarrow> addr option \<Rightarrow> addr option res" where
  "HdrList_itr_next l iter = List_itr_next l iter"

definition HdrList_itr_remove :: "HdrList \<Rightarrow> addr option \<Rightarrow> HdrList res" where
  "HdrList_itr_remove l iter = List_itr_remove l iter"

definition HdrList_add_back :: "HdrList \<Rightarrow> KVPair \<Rightarrow> HdrList res" where
  "HdrList_add_back l kv = List_add_back l kv"

definition HdrList_add_front :: "HdrList \<Rightarrow> KVPair \<Rightarrow> HdrList res" where
  "HdrList_add_front l kv = List_add_front l kv"

definition HdrList_add_cstr :: "HdrList \<Rightarrow> mem \<Rightarrow> mem \<Rightarrow> HdrList res" where
  "HdrList_add_cstr this lab val =
     rbind (c_str lab) (\<lambda>k.
     rbind (c_str val) (\<lambda>v.
     rbind (c_int (int (length k))) (\<lambda>_.
     rbind (c_int (int (length v))) (\<lambda>_.
     rbind (KVPair_new (map Some k) (map Some v)) (\<lambda>kv.
     HdrList_add_back this kv)))))"

text \<open>The rows of an array that ends with a \<open>NULL\<close> key.\<close>

definition HdrList_add_arr :: "HdrList \<Rightarrow> (mem \<times> mem) list \<Rightarrow> HdrList res" where
  "HdrList_add_arr this ar = fold_res (\<lambda>(k, v) l. HdrList_add_cstr l k v) ar this"

definition HdrList_from_array :: "(mem \<times> mem) list \<Rightarrow> HdrList res" where
  "HdrList_from_array ar = fold_res (\<lambda>(k, v) l. HdrList_add_cstr l k v) ar HdrList_new"

fun find_iter_loop :: "nat \<Rightarrow> HdrList \<Rightarrow> mem \<Rightarrow> addr option \<Rightarrow> addr option res" where
  "find_iter_loop 0 l fixed_key iter = Inl Out_of_fuel"
| "find_iter_loop (Suc n) l fixed_key iter =
     (if iter = None then Inr None
      else
        rbind (HdrList_itr_unpack l iter) (\<lambda>hlr.
        rbind (c_str (KVPair_label hlr)) (\<lambda>k.
        rbind (c_str fixed_key) (\<lambda>f.
        if k = f then Inr iter
        else rbind (HdrList_itr_next l iter) (find_iter_loop n l fixed_key)))))"

definition HdrList_find_iter :: "HdrList \<Rightarrow> mem \<Rightarrow> addr option res" where
  "HdrList_find_iter l key =
     rbind (make_upper key) (\<lambda>fixed_key.
     find_iter_loop (Suc (fresh l)) l fixed_key (HdrList_iterator l))"

definition HdrList_find :: "HdrList \<Rightarrow> mem \<Rightarrow> KVPair option res" where
  "HdrList_find l key =
     rbind (HdrList_find_iter l key) (\<lambda>iter.
     if iter = None then Inr None
     else rbind (HdrList_itr_unpack l iter) (\<lambda>hlr. Inr (Some hlr)))"

definition HdrList_remove :: "HdrList \<Rightarrow> mem \<Rightarrow> HdrList res" where
  "HdrList_remove l key =
     rbind (HdrList_find_iter l key) (\<lambda>iter.
     if iter = None then Inr l else HdrList_itr_remove l iter)"

definition HdrList_add_cbuf :: "HdrList \<Rightarrow> Cbuffer \<Rightarrow> Cbuffer \<Rightarrow> HdrList res" where
  "HdrList_add_cbuf this key val =
     rbind (c_int (int (Cbuffer_size key))) (\<lambda>lablen.
     rbind (c_int (int (Cbuffer_size val))) (\<lambda>vallen.
     rbind (mem_range (Cbuffer_data key) 0 lablen) (\<lambda>k.
     rbind (mem_range (Cbuffer_data val) 0 vallen) (\<lambda>v.
     rbind (KVPair_new k v) (\<lambda>kv.
     HdrList_add_back this kv)))))"

definition HdrList_add_line :: "HdrList \<Rightarrow> mem \<Rightarrow> mem \<Rightarrow> HdrList res" where
  "HdrList_add_line this lab val =
     rbind (KVPair_new lab val) (\<lambda>kv. HdrList_add_front this kv)"

text \<open>The loop of \<open>HdrList_add_many\<close> has an empty body.\<close>

definition HdrList_add_many :: "HdrList \<Rightarrow> (mem \<times> mem) list \<Rightarrow> HdrList" where
  "HdrList_add_many this pairs = fold (\<lambda>_ l. l) pairs this"

definition HdrList_serialize :: "HdrList \<Rightarrow> Cbuffer res" where
  "HdrList_serialize this =
     rbind Cbuffer_new (\<lambda>cb.
     list_foreach this
       (\<lambda>line cb.
          rbind (Cbuffer_append_cstr cb (KVPair_label line)) (\<lambda>cb1.
          rbind (Cbuffer_append_cstr cb1 (c_string '': '')) (\<lambda>cb2.
          rbind (Cbuffer_append_cstr cb2 (KVPair_value line)) (\<lambda>cb3.
          Cbuffer_append_cstr cb3 (c_string crlf)))))
       cb)"

section \<open>The pairs a list holds\<close>

definition kv_holds :: "KVPair \<Rightarrow> char list \<times> char list \<Rightarrow> bool" where
  "kv_holds p kv \<longleftrightarrow> c_str (label_ptr p) = Inr (fst kv) \<and> c_str (value_ptr p) = Inr (snd kv)"

definition hdr_holds :: "HdrList \<Rightarrow> (char list \<times> char list) list \<Rightarrow> bool" where
  "hdr_holds l kvs \<longleftrightarrow> List_ok l \<and> list_all2 kv_holds (contents l) kvs"

lemma copy_block: "mem_copy (c_malloc (Suc (length bs))) 0 bs = Inr (bs @ [None])"
  by (simp add: mem_copy_def c_malloc_def del: replicate_Suc) simp

lemma overwrite_block: "length cs = length bs \<Longrightarrow> mem_copy (bs @ [x]) 0 cs = Inr (cs @ [x])"
  by (simp add: mem_copy_def)

lemma terminate_block: "n = length bs \<Longrightarrow> mem_put (bs @ [x]) (int n) c = Inr (bs @ [Some c])"
  by (simp add: mem_put_def)

lemma KVPair_new_holds:
  assumes "no_nul k" "no_nul v"
  shows "\<exists>p. KVPair_new (map Some k) (map Some v) = Inr p \<and> kv_holds p (upper k, v)"
proof -
  have "KVPair_new (map Some k) (map Some v) =
      Inr \<lparr>label_ptr = c_string (upper k), label_len = length k,
           value_ptr = c_string v, value_len = length v\<rparr>"
    using copy_block [of "map Some k"] copy_block [of "map Some v"]
    by (simp add: KVPair_new_def Let_def mem_write_def overwrite_block terminate_block
        upper_def c_string_def)
  with assms show ?thesis by (simp add: kv_holds_def)
qed

lemma make_upper_string: "no_nul k \<Longrightarrow> make_upper (c_string k) = Inr (c_string (upper k))"
  using copy_block [of "map (Some \<circ> c_toupper) k"]
  by (simp add: make_upper_def Let_def mem_write_def terminate_block upper_def)
     (simp add: c_string_def)

lemma hdr_new: "hdr_holds HdrList_new []"
  by (simp add: hdr_holds_def HdrList_new_def lq.new_law)

lemma hdr_add_back:
  assumes "hdr_holds l kvs" "kv_holds p kv" "int (length kvs) < INT_MAX"
  shows "\<exists>l'. HdrList_add_back l p = Inr l' \<and> hdr_holds l' (kvs @ [kv])"
  using assms lq.add_back_law [of l p] list_all2_lengthD [of kv_holds "contents l" kvs]
  by (auto simp: hdr_holds_def HdrList_add_back_def intro: list_all2_appendI)

lemma HdrList_add_cstr_holds:
  assumes "hdr_holds l kvs" "no_nul k" "no_nul v"
    and "int (length k) \<le> INT_MAX" "int (length v) \<le> INT_MAX" "int (length kvs) < INT_MAX"
  shows "\<exists>l'. HdrList_add_cstr l (c_string k) (c_string v) = Inr l' \<and> hdr_holds l' (kvs @ [(upper k, v)])"
  using KVPair_new_holds [OF assms(2,3)] hdr_add_back [OF assms(1)] assms(2-)
  by (auto simp: HdrList_add_cstr_def)

lemma HdrList_add_cbuf_holds:
  assumes "hdr_holds l kvs" "cbuf_holds kb k" "cbuf_holds vb v" "no_nul k" "no_nul v"
    and "int (length kvs) < INT_MAX"
  shows "\<exists>l'. HdrList_add_cbuf l kb vb = Inr l' \<and> hdr_holds l' (kvs @ [(upper k, v)])"
proof -
  have "int (Cbuffer_size kb) \<le> INT_MAX" "int (Cbuffer_size vb) \<le> INT_MAX"
    using assms(2,3) by (auto simp: cbuf_holds_def cbuf_ok_def Cbuffer_size_def INT_MAX_def)
  then show ?thesis
    using KVPair_new_holds [OF assms(4,5)] hdr_add_back [OF assms(1)]
      cbuf_text_range [OF assms(2)] cbuf_text_range [OF assms(3)] assms(6)
    by (auto simp: HdrList_add_cbuf_def)
qed

section \<open>Searching\<close>

lemma find_iter_loop_dseg:
  assumes "dseg (heap l) prev ps xs None" "list_all2 kv_holds xs kvs" "no_nul k" "length xs < n"
  shows "find_iter_loop n l (c_string k) (fst_or ps None) =
           Inr (if k \<in> fst ` set kvs then Some (ps ! index_of (map fst kvs) k) else None)"
  using assms
proof (induction xs arbitrary: ps prev kvs n)
  case Nil
  then show ?case by (cases n) auto
next
  case (Cons x xs)
  then obtain p qs m kv kvs' where eq: "ps = p # qs" "n = Suc m" "kvs = kv # kvs'"
    by (cases n; cases ps; cases kvs) auto
  with Cons.prems Cons.IH [of "Some p" qs kvs' m] show ?case
    by (auto simp: HdrList_itr_unpack_def HdrList_itr_next_def List_itr_unpack_def List_itr_next_def
        KVPair_label_def kv_holds_def)
qed

lemma hdr_holdsE:
  assumes "hdr_holds l kvs"
  obtains ps xs where "list_rep l ps xs" "list_all2 kv_holds xs kvs" "length xs = length kvs"
  using assms by (metis List_okE hdr_holds_def list_all2_lengthD)

lemma HdrList_find_iter_rep:
  assumes rep: "list_rep l ps xs" and kvs: "list_all2 kv_holds xs kvs" and k: "no_nul k"
  shows "HdrList_find_iter l (c_string k) =
           Inr (if upper k \<in> fst ` set kvs then Some (ps ! index_of (map fst kvs) (upper k)) else None)"
proof -
  have "length xs < Suc (fresh l)" using list_rep_bound [OF rep] list_rep_length [OF rep] by simp
  moreover have "dseg (heap l) None ps xs None" "HdrList_iterator l = fst_or ps None"
    using rep by (auto simp: list_rep_def HdrList_iterator_def List_iterator_def)
  ultimately show ?thesis
    using find_iter_loop_dseg [of l None ps xs kvs "upper k"] kvs k make_upper_string [OF k]
    by (simp add: HdrList_find_iter_def del: find_iter_loop.simps)
qed

lemma map_of_index:
  "k \<in> fst ` set kvs \<Longrightarrow> map_of kvs k = Some (snd (kvs ! index_of (map fst kvs) k))"
  by (induction kvs) auto

text \<open>What \<open>HdrList_find\<close> finds, as the string the value holds.\<close>

definition hdr_value :: "HdrList \<Rightarrow> mem \<Rightarrow> char list option res" where
  "hdr_value l key =
     rbind (HdrList_find l key) (\<lambda>r.
     case r of None \<Rightarrow> Inr None
     | Some p \<Rightarrow> rbind (c_str (KVPair_value p)) (\<lambda>v. Inr (Some v)))"

lemma hdr_value_holds:
  assumes "hdr_holds l kvs" "no_nul k"
  shows "hdr_value l (c_string k) = Inr (map_of kvs (upper k))"
proof -
  from assms(1) obtain ps xs where rep: "list_rep l ps xs" "list_all2 kv_holds xs kvs"
    "length xs = length kvs" by (rule hdr_holdsE)
  let ?i = "index_of (map fst kvs) (upper k)"
  show ?thesis
  proof (cases "upper k \<in> fst ` set kvs")
    case True
    with index_of_less [of "upper k" "map fst kvs"] rep have i: "?i < length xs" by simp
    with rep have "kv_holds (xs ! ?i) (kvs ! ?i)" by (auto simp: list_all2_conv_all_nth)
    with True i HdrList_find_iter_rep [OF rep(1,2) assms(2)] itr_unpack_nth [OF rep(1) i] map_of_index [OF True]
    show ?thesis
      by (simp add: hdr_value_def HdrList_find_def HdrList_itr_unpack_def KVPair_value_def kv_holds_def)
  next
    case False
    with HdrList_find_iter_rep [OF rep(1,2) assms(2)] map_of_eq_None_iff [of kvs "upper k"] show ?thesis
      by (simp add: hdr_value_def HdrList_find_def)
  qed
qed

fun remove_key :: "('k \<times> 'v) list \<Rightarrow> 'k \<Rightarrow> ('k \<times> 'v) list" where
  "remove_key [] k = []"
| "remove_key (kv # kvs) k = (if fst kv = k then kvs else kv # remove_key kvs k)"

lemma remove_key_index:
  "remove_key kvs k =
     (if k \<in> fst ` set kvs
      then take (index_of (map fst kvs) k) kvs @ drop (Suc (index_of (map fst kvs) k)) kvs else kvs)"
  by (induction kvs) auto

lemma HdrList_remove_holds:
  assumes "hdr_holds l kvs" "no_nul k"
  shows "\<exists>l'. HdrList_remove l (c_string k) = Inr l' \<and> hdr_holds l' (remove_key kvs (upper k))"
proof -
  from assms(1) obtain ps xs where rep: "list_rep l ps xs" "list_all2 kv_holds xs kvs"
    "length xs = length kvs" by (rule hdr_holdsE)
  let ?i = "index_of (map fst kvs) (upper k)"
  show ?thesis
  proof (cases "upper k \<in> fst ` set kvs")
    case True
    with index_of_less [of "upper k" "map fst kvs"] rep have i: "?i < length xs" by simp
    have "list_all2 kv_holds (take ?i xs @ drop (Suc ?i) xs) (take ?i kvs @ drop (Suc ?i) kvs)"
      using rep(2) by (intro list_all2_appendI list_all2_takeI list_all2_dropI)
    with True HdrList_find_iter_rep [OF rep(1,2) assms(2)] itr_remove_nth_rep [OF rep(1) i] show ?thesis
      by (auto simp: HdrList_remove_def HdrList_itr_remove_def hdr_holds_def remove_key_index)
  next
    case False
    with HdrList_find_iter_rep [OF rep(1,2) assms(2)] assms(1) show ?thesis
      by (simp add: HdrList_remove_def remove_key_index)
  qed
qed

section \<open>The contract of a header store\<close>

definition pair_ok :: "char list \<times> char list \<Rightarrow> bool" where
  "pair_ok kv \<longleftrightarrow> no_nul (fst kv) \<and> no_nul (snd kv) \<and>
     int (length (fst kv)) \<le> INT_MAX \<and> int (length (snd kv)) \<le> INT_MAX"

locale header_store =
  fixes holds :: "'l \<Rightarrow> (char list \<times> char list) list \<Rightarrow> bool"
    and new :: 'l
    and add :: "'l \<Rightarrow> mem \<Rightarrow> mem \<Rightarrow> 'l res"
    and get :: "'l \<Rightarrow> mem \<Rightarrow> char list option res"
    and del :: "'l \<Rightarrow> mem \<Rightarrow> 'l res"
  assumes new_law: "holds new []"
    and add_law: "\<lbrakk> holds l kvs; no_nul k; no_nul v; int (length k) \<le> INT_MAX; int (length v) \<le> INT_MAX;
         int (length kvs) < INT_MAX \<rbrakk> \<Longrightarrow>
       \<exists>l'. add l (c_string k) (c_string v) = Inr l' \<and> holds l' (kvs @ [(upper k, v)])"
    and get_law: "\<lbrakk> holds l kvs; no_nul k \<rbrakk> \<Longrightarrow> get l (c_string k) = Inr (map_of kvs (upper k))"
    and del_law: "\<lbrakk> holds l kvs; no_nul k \<rbrakk> \<Longrightarrow>
       \<exists>l'. del l (c_string k) = Inr l' \<and> holds l' (remove_key kvs (upper k))"
begin

lemma add_many:
  "\<lbrakk> holds l kvs; \<forall>kv \<in> set ps. pair_ok kv; int (length kvs + length ps) \<le> INT_MAX \<rbrakk> \<Longrightarrow>
   \<exists>l'. fold_res (\<lambda>(k, v) l. add l k v) (map (\<lambda>(k, v). (c_string k, c_string v)) ps) l = Inr l' \<and>
        holds l' (kvs @ map (\<lambda>(k, v). (upper k, v)) ps)"
proof (induction ps arbitrary: l kvs)
  case (Cons p ps)
  from add_law [OF Cons.prems(1), of "fst p" "snd p"] Cons.prems(2,3) obtain l1 where
    "add l (c_string (fst p)) (c_string (snd p)) = Inr l1" "holds l1 (kvs @ [(upper (fst p), snd p)])"
    by (auto simp: pair_ok_def)
  with Cons.IH [of l1 "kvs @ [(upper (fst p), snd p)]"] Cons.prems show ?case
    by (auto simp: case_prod_beta)
qed simp

lemma get_added:
  assumes "holds l kvs" "pair_ok (k, v)" "no_nul k'" "upper k' = upper k" "int (length kvs) < INT_MAX"
  shows "\<exists>l'. add l (c_string k) (c_string v) = Inr l' \<and>
     get l' (c_string k') = Inr (Some (case map_of kvs (upper k) of None \<Rightarrow> v | Some w \<Rightarrow> w))"
proof -
  from add_law [OF assms(1), of k v] assms(2,5) obtain l' where
    "add l (c_string k) (c_string v) = Inr l'" "holds l' (kvs @ [(upper k, v)])" by (auto simp: pair_ok_def)
  with get_law [of l' "kvs @ [(upper k, v)]" k'] assms(3,4) show ?thesis
    by (auto simp: map_add_def split: option.splits)
qed

end

interpretation hs: header_store hdr_holds HdrList_new HdrList_add_cstr hdr_value HdrList_remove
  by unfold_locales
     (rule hdr_new HdrList_add_cstr_holds hdr_value_holds HdrList_remove_holds; (assumption+)?)+

section \<open>Serialisation\<close>

definition line_pieces :: "char list \<times> char list \<Rightarrow> char list list" where
  "line_pieces kv = [fst kv, '': '', snd kv, crlf]"

definition header_text :: "(char list \<times> char list) list \<Rightarrow> char list" where
  "header_text kvs = concat (map (concat \<circ> line_pieces) kvs)"

lemma all_taken_append [simp]:
  "all_taken takes n (ps @ qs) \<longleftrightarrow> all_taken takes n ps \<and> all_taken takes (n + length (concat ps)) qs"
  by (induction ps arbitrary: n) (auto simp: add.assoc)

lemma append_cstr_pieces:
  assumes "list_all2 (\<lambda>m p. c_str m = Inr p) ms ps" "cbuf_holds cb s" "all_taken cbuf_takes (length s) ps"
  shows "\<exists>cb'. fold_res (\<lambda>m cb. Cbuffer_append_cstr cb m) ms cb = Inr cb' \<and> cbuf_holds cb' (s @ concat ps)"
  using assms
proof (induction ms ps arbitrary: cb s rule: list_all2_induct)
  case (Cons m ms p ps)
  from cb.put_law [of cb s p] Cons.prems obtain cb1 where
    "Cbuffer_append cb (map Some p) = Inr cb1" "cbuf_holds cb1 (s @ p)" by auto
  with Cons.IH [of cb1 "s @ p"] Cons.prems Cons.hyps(1) show ?case
    by (auto simp: Cbuffer_append_cstr_def)
qed auto

lemma serialize_line:
  assumes "cbuf_holds cb s" "all_taken cbuf_takes (length s) (line_pieces kv)" "kv_holds p kv"
  shows "\<exists>cb'. rbind (Cbuffer_append_cstr cb (KVPair_label p)) (\<lambda>cb1.
          rbind (Cbuffer_append_cstr cb1 (c_string '': '')) (\<lambda>cb2.
          rbind (Cbuffer_append_cstr cb2 (KVPair_value p)) (\<lambda>cb3.
          Cbuffer_append_cstr cb3 (c_string crlf)))) = Inr cb' \<and>
        cbuf_holds cb' (s @ concat (line_pieces kv))"
proof -
  have "list_all2 (\<lambda>m p. c_str m = Inr p)
      [KVPair_label p, c_string '': '', KVPair_value p, c_string crlf] (line_pieces kv)"
    using assms(3) by (simp add: line_pieces_def kv_holds_def KVPair_label_def KVPair_value_def)
  from append_cstr_pieces [OF this assms(1,2)] show ?thesis by (simp add: fold_res_eta)
qed

lemma HdrList_serialize_holds:
  assumes "hdr_holds l kvs" "all_taken cbuf_takes 0 (concat (map line_pieces kvs))"
  shows "\<exists>cb. HdrList_serialize l = Inr cb \<and> cbuf_holds cb (header_text kvs)"
proof -
  let ?f = "\<lambda>line cb. rbind (Cbuffer_append_cstr cb (KVPair_label line)) (\<lambda>cb1.
          rbind (Cbuffer_append_cstr cb1 (c_string '': '')) (\<lambda>cb2.
          rbind (Cbuffer_append_cstr cb2 (KVPair_value line)) (\<lambda>cb3.
          Cbuffer_append_cstr cb3 (c_string crlf))))"
  have fold: "\<exists>cb'. fold_res ?f xs cb = Inr cb' \<and> cbuf_holds cb' (s @ header_text kvs)"
    if "list_all2 kv_holds xs kvs" "cbuf_holds cb s"
       "all_taken cbuf_takes (length s) (concat (map line_pieces kvs))" for xs kvs cb s
    using that
  proof (induction xs kvs arbitrary: cb s rule: list_all2_induct)
    case (Cons x xs kv kvs)
    from serialize_line [of cb s kv x] Cons obtain cb1 where
      "?f x cb = Inr cb1" "cbuf_holds cb1 (s @ concat (line_pieces kv))" by auto
    with Cons.IH [of cb1 "s @ concat (line_pieces kv)"] Cons.prems show ?case
      by (auto simp: header_text_def)
  qed (auto simp: header_text_def)
  from Cbuffer_new_holds obtain cb where cb: "Cbuffer_new = Inr cb" "cbuf_holds cb []" by blast
  from fold [of "contents l" kvs cb "[]"] assms cb show ?thesis
    unfolding HdrList_serialize_def cb(1) by (auto simp: hdr_holds_def list_foreach_ok)
qed

section \<open>Properties\<close>

text \<open>
  A header list built from an array of C strings answers a search with the value of the
  first row whose key equals the searched key up to the case of letters, and with \<open>NULL\<close> when
  there is no such row.
\<close>

lemma header_lookup:
  assumes "\<forall>kv \<in> set ps. pair_ok kv" "no_nul key" "int (length ps) \<le> INT_MAX"
  shows "\<exists>l. HdrList_from_array (map (\<lambda>(k, v). (c_string k, c_string v)) ps) = Inr l \<and>
             hdr_value l (c_string key) = Inr (map_of (map (\<lambda>(k, v). (upper k, v)) ps) (upper key))"
  using hs.add_many [OF hs.new_law assms(1)] hs.get_law [OF _ assms(2)] assms(3)
  by (fastforce simp: HdrList_from_array_def)

text \<open>
  \<open>HdrList_remove\<close> removes the first pair whose key matches up to case, keeps all others in
  order, and does nothing when no key matches.
\<close>

lemma header_remove:
  assumes "hdr_holds l kvs" "no_nul key"
  shows "\<exists>l'. HdrList_remove l (c_string key) = Inr l' \<and> hdr_holds l' (remove_key kvs (upper key))"
  using assms by (rule HdrList_remove_holds)

definition demo_hdrs :: HdrList where
  "demo_hdrs = (case HdrList_from_array
       [(c_string ''Host'', c_string ''h''), (c_string ''Accept'', c_string ''x'')] of
     Inr l \<Rightarrow> l | Inl e \<Rightarrow> HdrList_new)"

lemma demo_hdrs: "hdr_holds demo_hdrs [(''HOST'', ''h''), (''ACCEPT'', ''x'')]"
  using hs.add_many [OF hs.new_law, of "[(''Host'', ''h''), (''Accept'', ''x'')]"]
  by (auto simp: demo_hdrs_def HdrList_from_array_def pair_ok_def INT_MAX_def char_eval)

text \<open>
  \<open>HdrList_serialize\<close> writes the lines in list order, each as label, colon, space, value and
  line end, provided no label or value is longer than 255 bytes (or the text so far is below
  512 bytes) and the text stays below 1 MB.
\<close>

lemma header_serialize_text:
  assumes "hdr_holds l kvs" "all_taken cbuf_takes 0 (concat (map line_pieces kvs))"
  shows "\<exists>cb. HdrList_serialize l = Inr cb \<and> cbuf_holds cb (header_text kvs)"
  using assms by (rule HdrList_serialize_holds)

end
