(* ===== verification/Http_Message.thy ===== *)
theory Http_Message
  imports Buffer_Chain Kv_Headers "HOL-Library.AList"
begin

text \<open>
  HTTP messages: \<^verbatim>\<open>src/http_protocol/http_message.c\<close>.

  A field that \<open>http_message_new\<close> leaves without a value is \<open>None\<close> until it is set, and reading
  it then is an error; the buffers \<open>target\<close> and \<open>reason\<close> are \<open>None\<close> once they are freed. The
  table of method names is part of the vendored parser: \<open>method_name\<close> stands for
  \<open>llhttp_method_name\<close>, which returns a C string. What \<open>asprintf\<close> formats with \<open>%s\<close> is read up
  to its terminating zero.

  The main lemmas give the exact text of a serialised message.
\<close>

section \<open>Operations\<close>

record HttpMessage =
  hm_body :: "BufferChain option"
  hm_headers :: HdrList
  major_vers :: int
  minor_vers :: int
  is_request :: "bool option"
  status_code :: "int option"
  reason :: "Cbuffer option"
  hm_method :: "int option"
  target :: "Cbuffer option"

definition read_init :: "'a option \<Rightarrow> 'a res" where
  "read_init x = (case x of None \<Rightarrow> Inl Uninit_read | Some v \<Rightarrow> Inr v)"

definition live :: "'a option \<Rightarrow> 'a res" where
  "live x = (case x of None \<Rightarrow> Inl Bad_pointer | Some v \<Rightarrow> Inr v)"

definition http_message_new :: "HttpMessage res" where
  "http_message_new =
     rbind Cbuffer_new (\<lambda>t.
     rbind Cbuffer_new (\<lambda>r.
     Inr \<lparr>hm_body = None, hm_headers = HdrList_new, major_vers = 1, minor_vers = 1,
          is_request = None, status_code = None, reason = Some r, hm_method = None,
          target = Some t\<rparr>))"

definition http_message_new_request :: "HttpMessage res" where
  "http_message_new_request = rbind http_message_new (\<lambda>m. Inr (m\<lparr>is_request := Some True\<rparr>))"

definition http_message_new_response :: "HttpMessage res" where
  "http_message_new_response = rbind http_message_new (\<lambda>m. Inr (m\<lparr>is_request := Some False\<rparr>))"

text \<open>The pairs and the two buffers must be live; the body is not freed.\<close>

definition http_message_free :: "HttpMessage \<Rightarrow> unit res" where
  "http_message_free p =
     rbind (HdrList_safe_free (hm_headers p) (\<lambda>_ s. Inr s) ()) (\<lambda>_.
     rbind (live (target p)) (\<lambda>_.
     rbind (live (reason p)) (\<lambda>_. Inr ())))"

definition MessageResponse :: "int \<Rightarrow> BufferChain option \<Rightarrow> HttpMessage res" where
  "MessageResponse status body =
     rbind http_message_new (\<lambda>m.
     Inr (m\<lparr>is_request := Some False, status_code := Some status, hm_body := body,
            target := None, reason := None\<rparr>))"

definition first_line :: "(int \<Rightarrow> char list) \<Rightarrow> HttpMessage \<Rightarrow> char list res" where
  "first_line method_name this =
     rbind (read_init (is_request this)) (\<lambda>req.
     if req then
       rbind (read_init (hm_method this)) (\<lambda>me.
       rbind (live (target this)) (\<lambda>t.
       rbind (c_str (Cbuffer_data t)) (\<lambda>s.
       Inr (method_name me @ '' '' @ s @ '' HTTP/'' @ c_dec (major_vers this) @ ''.'' @
            c_dec (minor_vers this) @ crlf))))
     else
       rbind (read_init (status_code this)) (\<lambda>st.
       rbind (live (reason this)) (\<lambda>r.
       rbind (c_str (Cbuffer_data r)) (\<lambda>s.
       Inr (''HTTP/'' @ c_dec (major_vers this) @ ''.'' @ c_dec (minor_vers this) @ ''  '' @
            c_dec st @ '' '' @ s @ crlf)))))"

definition append_header :: "KVPair \<Rightarrow> BufferChain \<Rightarrow> BufferChain res" where
  "append_header line bc =
     rbind (c_str (KVPair_label line)) (\<lambda>k.
     rbind (c_str (KVPair_value line)) (\<lambda>v.
     BufferChain_append_cstr bc (c_string (k @ '': '' @ v @ crlf))))"

text \<open>The part that \<open>http_message_serialize\<close> and \<open>http_message_dump\<close> share.\<close>

definition append_head :: "(int \<Rightarrow> char list) \<Rightarrow> HttpMessage \<Rightarrow> BufferChain res" where
  "append_head method_name this =
     rbind (first_line method_name this) (\<lambda>line.
     rbind (BufferChain_append_cstr BufferChain_new (c_string line)) (\<lambda>bc1.
     rbind (list_foreach (hm_headers this) append_header bc1) (\<lambda>bc2.
     BufferChain_append_cstr bc2 (c_string crlf))))"

definition append_body :: "HttpMessage \<Rightarrow> BufferChain \<Rightarrow> BufferChain res" where
  "append_body this bc =
     (case hm_body this of None \<Rightarrow> Inr bc
      | Some body \<Rightarrow>
          if BufferChain_size body \<noteq> 0 then
            rbind (BufferChain_compact body) (\<lambda>iob_body. BufferChain_add_back bc iob_body)
          else Inr bc)"

definition compact_and_free :: "BufferChain \<Rightarrow> IOBuffer res" where
  "compact_and_free bc =
     rbind (BufferChain_compact bc) (\<lambda>result.
     rbind (BufferChain_free bc) (\<lambda>_. Inr result))"

definition http_message_serialize :: "(int \<Rightarrow> char list) \<Rightarrow> HttpMessage \<Rightarrow> IOBuffer res" where
  "http_message_serialize method_name this =
     rbind (append_head method_name this) (\<lambda>bc1.
     rbind (append_body this bc1) compact_and_free)"

definition body_begin :: "char list" where
  "body_begin = ''body begin ==========================================================='' @ crlf"

definition body_end :: "char list" where
  "body_end = ''body end ==========================================================='' @ crlf"

definition http_message_dump :: "(int \<Rightarrow> char list) \<Rightarrow> HttpMessage \<Rightarrow> IOBuffer res" where
  "http_message_dump method_name this =
     rbind (append_head method_name this) (\<lambda>bc1.
     rbind (BufferChain_append_cstr bc1 (c_string body_begin)) (\<lambda>bc2.
     rbind (append_body this bc2) (\<lambda>bc3.
     rbind (BufferChain_append_cstr bc3 (c_string body_end)) compact_and_free)))"

definition http_message_get_headerlist :: "HttpMessage \<Rightarrow> HdrList" where
  "http_message_get_headerlist this = hm_headers this"

definition http_message_add_header_cstring :: "HttpMessage \<Rightarrow> mem \<Rightarrow> mem \<Rightarrow> HttpMessage res" where
  "http_message_add_header_cstring m lab val =
     rbind (HdrList_add_cstr (http_message_get_headerlist m) lab val) (\<lambda>l. Inr (m\<lparr>hm_headers := l\<rparr>))"

definition http_message_add_header_cbuf :: "HttpMessage \<Rightarrow> Cbuffer \<Rightarrow> Cbuffer \<Rightarrow> HttpMessage res" where
  "http_message_add_header_cbuf this key val =
     rbind (HdrList_add_cbuf (http_message_get_headerlist this) key val) (\<lambda>l.
     Inr (this\<lparr>hm_headers := l\<rparr>))"

definition http_message_get_status :: "HttpMessage \<Rightarrow> int res" where
  "http_message_get_status m = read_init (status_code m)"

definition http_message_set_status :: "HttpMessage \<Rightarrow> int \<Rightarrow> HttpMessage" where
  "http_message_set_status m status = m\<lparr>status_code := Some status\<rparr>"

definition http_message_get_is_request :: "HttpMessage \<Rightarrow> bool res" where
  "http_message_get_is_request this = read_init (is_request this)"

definition http_message_set_is_request :: "HttpMessage \<Rightarrow> bool \<Rightarrow> HttpMessage" where
  "http_message_set_is_request this yn = this\<lparr>is_request := Some yn\<rparr>"

definition http_message_get_minor_version :: "HttpMessage \<Rightarrow> int" where
  "http_message_get_minor_version m = minor_vers m"

definition http_message_set_minor_version :: "HttpMessage \<Rightarrow> int \<Rightarrow> HttpMessage" where
  "http_message_set_minor_version this mv = this\<lparr>minor_vers := mv\<rparr>"

text \<open>The major version is ignored.\<close>

definition http_message_set_version :: "HttpMessage \<Rightarrow> int \<Rightarrow> int \<Rightarrow> HttpMessage" where
  "http_message_set_version this maj mi = this\<lparr>minor_vers := mi\<rparr>"

definition http_message_set_method :: "HttpMessage \<Rightarrow> int \<Rightarrow> HttpMessage" where
  "http_message_set_method m meth = m\<lparr>hm_method := Some meth\<rparr>"

definition http_message_get_method :: "HttpMessage \<Rightarrow> int res" where
  "http_message_get_method m = read_init (hm_method m)"

definition http_message_get_target :: "HttpMessage \<Rightarrow> mem res" where
  "http_message_get_target this = rbind (live (target this)) Cbuffer_cstr"

definition http_message_set_target :: "HttpMessage \<Rightarrow> mem \<Rightarrow> HttpMessage res" where
  "http_message_set_target this cstr =
     rbind (live (target this)) (\<lambda>t.
     rbind (c_assert (Cbuffer_size t = 0)) (\<lambda>_.
     rbind (Cbuffer_append_cstr t cstr) (\<lambda>t1. Inr (this\<lparr>target := Some t1\<rparr>))))"

definition http_message_get_target_cbuffer :: "HttpMessage \<Rightarrow> Cbuffer res" where
  "http_message_get_target_cbuffer this =
     rbind (live (target this)) (\<lambda>t. rbind (Cbuffer_cstr t) Cbuffer_from_cstring)"

definition http_message_set_target_cbuffer :: "HttpMessage \<Rightarrow> Cbuffer \<Rightarrow> HttpMessage res" where
  "http_message_set_target_cbuffer this cb =
     rbind (live (target this)) (\<lambda>t.
     rbind (c_assert (Cbuffer_size t = 0)) (\<lambda>_.
     rbind (Cbuffer_cstr cb) (\<lambda>s.
     rbind (Cbuffer_append_cstr t s) (\<lambda>t1. Inr (this\<lparr>target := Some t1\<rparr>)))))"

definition http_message_set_reason :: "HttpMessage \<Rightarrow> mem \<Rightarrow> HttpMessage res" where
  "http_message_set_reason this cstr =
     rbind (live (reason this)) (\<lambda>r.
     rbind (c_assert (Cbuffer_size r = 0)) (\<lambda>_.
     rbind (Cbuffer_append_cstr r cstr) (\<lambda>r1. Inr (this\<lparr>reason := Some r1\<rparr>))))"

definition http_message_get_reason :: "HttpMessage \<Rightarrow> mem res" where
  "http_message_get_reason this = rbind (live (reason this)) Cbuffer_cstr"

definition http_message_get_reason_cbuffer :: "HttpMessage \<Rightarrow> Cbuffer res" where
  "http_message_get_reason_cbuffer this =
     rbind (live (reason this)) (\<lambda>r. rbind (Cbuffer_cstr r) Cbuffer_from_cstring)"

definition http_message_set_reason_cbuffer :: "HttpMessage \<Rightarrow> Cbuffer \<Rightarrow> HttpMessage res" where
  "http_message_set_reason_cbuffer this cb =
     rbind (live (reason this)) (\<lambda>r.
     rbind (c_assert (Cbuffer_size r = 0)) (\<lambda>_.
     rbind (Cbuffer_cstr cb) (\<lambda>s.
     rbind (Cbuffer_append_cstr r s) (\<lambda>r1. Inr (this\<lparr>reason := Some r1\<rparr>)))))"

text \<open>The pair that \<open>HdrList_find\<close> points at is changed in its node.\<close>

definition http_message_set_content_length :: "HttpMessage \<Rightarrow> int \<Rightarrow> HttpMessage res" where
  "http_message_set_content_length this len =
     rbind (c_assert (len \<ge> 0)) (\<lambda>_.
     let buf = c_dec len; l = hm_headers this in
     rbind (HdrList_find_iter l (c_string ''Content-length'')) (\<lambda>iter.
     if iter \<noteq> None then
       rbind (HdrList_itr_unpack l iter) (\<lambda>kvp.
       rbind (KVPair_set_value kvp (map Some buf)) (\<lambda>kvp1.
       rbind (set_item l iter kvp1) (\<lambda>l1. Inr (this\<lparr>hm_headers := l1\<rparr>))))
     else
       rbind (HdrList_add_cstr l (c_string ''Content-length'') (c_string buf)) (\<lambda>l1.
       Inr (this\<lparr>hm_headers := l1\<rparr>))))"

definition http_message_get_header_value :: "HttpMessage \<Rightarrow> mem \<Rightarrow> mem option res" where
  "http_message_get_header_value m labptr =
     rbind (HdrList_find (http_message_get_headerlist m) labptr) (\<lambda>kvp.
     case kvp of None \<Rightarrow> Inr None | Some p \<Rightarrow> Inr (Some (KVPair_value p)))"

definition HttpMessage_cmp_header :: "HttpMessage \<Rightarrow> mem \<Rightarrow> mem \<Rightarrow> int res" where
  "HttpMessage_cmp_header m key test_value =
     rbind (HdrList_find (http_message_get_headerlist m) key) (\<lambda>kvp.
     case kvp of None \<Rightarrow> Inr (-1)
     | Some p \<Rightarrow>
         rbind (c_str (KVPair_value p)) (\<lambda>v.
         rbind (c_str test_value) (\<lambda>t.
         Inr (if length v \<noteq> length t then 0
              else if \<forall>i \<in> set [0..<length v]. c_toupper (v ! i) = c_toupper (t ! i) then 1 else 0))))"

definition http_message_get_body :: "HttpMessage \<Rightarrow> BufferChain option" where
  "http_message_get_body this = hm_body this"

definition http_message_set_body :: "HttpMessage \<Rightarrow> BufferChain option \<Rightarrow> HttpMessage" where
  "http_message_set_body m bodyp = m\<lparr>hm_body := bodyp\<rparr>"

definition http_message_set_headers_arr :: "HttpMessage \<Rightarrow> (mem \<times> mem) list \<Rightarrow> HttpMessage res" where
  "http_message_set_headers_arr m ar =
     rbind (HdrList_add_arr (hm_headers m) ar) (\<lambda>l. Inr (m\<lparr>hm_headers := l\<rparr>))"

section \<open>The text of a serialised message\<close>

definition body_holds :: "BufferChain option \<Rightarrow> char list \<Rightarrow> bool" where
  "body_holds body b \<longleftrightarrow> (case body of None \<Rightarrow> b = [] | Some c \<Rightarrow> bc_holds c b)"

lemma chain_append_cstr:
  assumes "bc_holds c s" "no_nul t" "t \<noteq> []" "length s + length t \<le> 2147483000"
  shows "\<exists>c'. BufferChain_append_cstr c (c_string t) = Inr c' \<and> bc_holds c' (s @ t)"
  using chain.put_law [OF assms(1), of t] assms(2-)
  by (simp add: BufferChain_append_cstr_def bc_takes_def)

lemma header_text_simps [simp]:
  "header_text [] = []" "header_text (kv # kvs) = fst kv @ '': '' @ snd kv @ crlf @ header_text kvs"
  by (simp_all add: header_text_def line_pieces_def)

lemma append_headers:
  assumes "list_all2 kv_holds xs kvs" "bc_holds bc s" "length s + length (header_text kvs) \<le> 2147483000"
  shows "\<exists>bc'. fold_res append_header xs bc = Inr bc' \<and> bc_holds bc' (s @ header_text kvs)"
  using assms
proof (induction xs kvs arbitrary: bc s rule: list_all2_induct)
  case (Cons x xs kv kvs)
  let ?line = "fst kv @ '': '' @ snd kv @ crlf"
  have "no_nul ?line"
    using Cons.hyps(1) by (auto simp: kv_holds_def dest: c_str_Inr_no_nul)
  with chain_append_cstr [of bc s ?line] Cons.prems obtain bc1 where
    "BufferChain_append_cstr bc (c_string ?line) = Inr bc1" "bc_holds bc1 (s @ ?line)" by auto
  with Cons.IH [of bc1 "s @ ?line"] Cons.prems Cons.hyps(1) show ?case
    by (auto simp: append_header_def kv_holds_def KVPair_label_def KVPair_value_def)
qed auto

lemma append_head_holds:
  assumes line: "first_line nm m = Inr line" "no_nul line" "line \<noteq> []"
    and hdrs: "hdr_holds (hm_headers m) kvs"
    and len: "length line + length (header_text kvs) + 2 \<le> 2147483000"
  shows "\<exists>bc. append_head nm m = Inr bc \<and> bc_holds bc (line @ header_text kvs @ crlf)"
proof -
  from chain_append_cstr [OF bc_new line(2,3)] len obtain bc1 where
    bc1: "BufferChain_append_cstr BufferChain_new (c_string line) = Inr bc1" "bc_holds bc1 line" by auto
  from append_headers [of "contents (hm_headers m)" kvs bc1 line] hdrs bc1 len obtain bc2 where
    bc2: "list_foreach (hm_headers m) append_header bc1 = Inr bc2" "bc_holds bc2 (line @ header_text kvs)"
    by (auto simp: hdr_holds_def list_foreach_ok)
  from chain_append_cstr [OF bc2(2), of crlf] len line bc1 bc2 show ?thesis
    by (simp add: append_head_def)
qed

lemma append_body_holds:
  assumes "bc_holds bc s" "body_holds (hm_body m) b" "length s + length b \<le> 2147483000"
  shows "\<exists>bc'. append_body m bc = Inr bc' \<and> bc_holds bc' (s @ b)"
proof (cases "b = []")
  case True
  with assms show ?thesis
    using bc_holds_size by (auto simp: append_body_def body_holds_def BufferChain_size_def split: option.splits)
next
  case False
  with assms(2) obtain c where c: "hm_body m = Some c" "bc_holds c b"
    by (auto simp: body_holds_def split: option.splits)
  then have sz: "BufferChain_size c \<noteq> 0"
    using bc_holds_size [OF c(2)] False by (simp add: BufferChain_size_def)
  have "int (length b) < INT_MAX" using assms(3) by (simp add: INT_MAX_def)
  from BufferChain_compact_holds [OF c(2) this] obtain iob where
    iob: "BufferChain_compact c = Inr iob" "iob_holds iob b" by auto
  from assms(1) obtain ss where ss: "bc_rep bc ss" "concat ss = s" by (rule bc_holdsE)
  with BufferChain_add_back_rep [OF ss(1) iob(2) False] assms(3) obtain bc' where
    "BufferChain_add_back bc iob = Inr bc'" "bc_rep bc' (ss @ [b])" by (auto simp: INT_MAX_def)
  with c sz iob ss show ?thesis
    by (auto simp: append_body_def bc_holds_def intro!: exI [of _ "ss @ [b]"])
qed

lemma compact_and_free_holds:
  assumes "bc_holds bc s" "length s \<le> 2147483000"
  shows "\<exists>iob. compact_and_free bc = Inr iob \<and> iob_holds iob s"
  using BufferChain_compact_holds [OF assms(1)] BufferChain_free_holds [OF assms(1)] assms(2)
  by (auto simp: compact_and_free_def INT_MAX_def)

lemma http_message_serialize_holds:
  assumes line: "first_line nm m = Inr line" "no_nul line" "line \<noteq> []"
    and parts: "hdr_holds (hm_headers m) kvs" "body_holds (hm_body m) b"
    and len: "length line + length (header_text kvs) + length b + 2 \<le> 2147483000"
  shows "\<exists>iob. http_message_serialize nm m = Inr iob \<and>
               iob_holds iob (line @ header_text kvs @ crlf @ b)"
proof -
  from append_head_holds [OF line parts(1)] len obtain bc1 where
    bc1: "append_head nm m = Inr bc1" "bc_holds bc1 (line @ header_text kvs @ crlf)" by auto
  from append_body_holds [OF bc1(2) parts(2)] len obtain bc2 where
    bc2: "append_body m bc1 = Inr bc2" "bc_holds bc2 (line @ header_text kvs @ crlf @ b)" by auto
  from compact_and_free_holds [OF bc2(2)] len bc1 bc2 show ?thesis
    by (simp add: http_message_serialize_def)
qed

lemma cbuf_holds_c_str:
  assumes "cbuf_holds cb s" "cbuf_terminated cb" "no_nul s"
  shows "c_str (Cbuffer_data cb) = Inr s"
  using Cbuffer_cstr_holds [OF assms] by (auto simp: Cbuffer_cstr_def Cbuffer_data_def rbind_eq_Inr)

definition version_text :: "HttpMessage \<Rightarrow> char list" where
  "version_text m = ''HTTP/'' @ c_dec (major_vers m) @ ''.'' @ c_dec (minor_vers m)"

definition text_cbuf :: "Cbuffer option \<Rightarrow> char list \<Rightarrow> bool" where
  "text_cbuf x s \<longleftrightarrow> (\<exists>cb. x = Some cb \<and> cbuf_holds cb s \<and> cbuf_terminated cb \<and> no_nul s)"

lemma first_line_request:
  assumes "is_request m = Some True" "hm_method m = Some me" "text_cbuf (target m) s"
  shows "first_line nm m = Inr (nm me @ '' '' @ s @ '' '' @ version_text m @ crlf)"
  using assms
  by (auto simp: first_line_def read_init_def live_def text_cbuf_def cbuf_holds_c_str version_text_def)

lemma first_line_response:
  assumes "is_request m = Some False" "status_code m = Some st" "text_cbuf (reason m) s"
  shows "first_line nm m = Inr (version_text m @ ''  '' @ c_dec st @ '' '' @ s @ crlf)"
  using assms
  by (auto simp: first_line_def read_init_def live_def text_cbuf_def cbuf_holds_c_str version_text_def)

section \<open>Header values\<close>

lemma KVPair_set_value_holds:
  assumes "kv_holds p (k, w)" "no_nul v"
  shows "\<exists>p'. KVPair_set_value p (map Some v) = Inr p' \<and> kv_holds p' (k, v)"
  using assms copy_block [of "map Some v"] c_str_c_string [OF assms(2)]
  by (simp add: KVPair_set_value_def Let_def terminate_block kv_holds_def c_string_def)

lemma AList_update_index:
  "AList.update k v kvs =
     (if k \<in> fst ` set kvs then kvs[index_of (map fst kvs) k := (k, v)] else kvs @ [(k, v)])"
  by (induction kvs) auto

lemma set_content_length_holds:
  assumes hdrs: "hdr_holds (hm_headers m) kvs" and room: "int (length kvs) < INT_MAX" and n: "0 \<le> n"
    and len: "int (length (c_dec n)) \<le> INT_MAX"
  shows "\<exists>m'. http_message_set_content_length m n = Inr m' \<and>
              hdr_holds (hm_headers m') (AList.update ''CONTENT-LENGTH'' (c_dec n) kvs)"
proof -
  let ?k = "''Content-length''" and ?u = "''CONTENT-LENGTH''" and ?l = "hm_headers m"
  have k: "upper ?k = ?u" "no_nul ?k" by (simp_all add: char_eval)
  from hdrs obtain ps xs where rep: "list_rep ?l ps xs" "list_all2 kv_holds xs kvs"
    "length xs = length kvs" by (rule hdr_holdsE)
  let ?i = "index_of (map fst kvs) ?u"
  note find = HdrList_find_iter_rep [OF rep(1,2) k(2), unfolded k(1)]
  show ?thesis
  proof (cases "?u \<in> fst ` set kvs")
    case True
    with index_of_less [of ?u "map fst kvs"] rep have i: "?i < length xs" by simp
    have "fst (kvs ! ?i) = ?u" using index_of_nth [of ?u "map fst kvs"] True i rep by simp
    with i rep have "kv_holds (xs ! ?i) (?u, snd (kvs ! ?i))"
      by (metis list_all2_nthD prod.collapse)
    from KVPair_set_value_holds [OF this no_nul_c_dec [of n]] obtain p' where
      p': "KVPair_set_value (xs ! ?i) (map Some (c_dec n)) = Inr p'" "kv_holds p' (?u, c_dec n)" by auto
    from set_item_nth [OF rep(1) i, of p'] obtain l' where
      l': "set_item ?l (Some (ps ! ?i)) p' = Inr l'" "list_rep l' ps (xs[?i := p'])" by auto
    have "hdr_holds l' (kvs[?i := (?u, c_dec n)])"
      using l'(2) rep(2) p'(2) by (auto simp: hdr_holds_def intro: list_all2_update_cong)
    with True find i itr_unpack_nth [OF rep(1) i] p' l' n show ?thesis
      by (auto simp: http_message_set_content_length_def HdrList_itr_unpack_def AList_update_index)
  next
    case False
    with find n HdrList_add_cstr_holds [OF hdrs k(2) no_nul_c_dec, of n] room len k(1) show ?thesis
      by (auto simp: http_message_set_content_length_def AList_update_index INT_MAX_def)
  qed
qed

text \<open>The text a caller reads at what \<open>http_message_get_header_value\<close> returns.\<close>

definition header_cstr :: "HttpMessage \<Rightarrow> char list \<Rightarrow> char list option res" where
  "header_cstr m key =
     rbind (http_message_get_header_value m (c_string key)) (\<lambda>v.
     case v of None \<Rightarrow> Inr None | Some p \<Rightarrow> rbind (c_str p) (\<lambda>s. Inr (Some s)))"

lemma header_cstr_hdr_value: "header_cstr m key = hdr_value (hm_headers m) (c_string key)"
  by (simp add: header_cstr_def hdr_value_def http_message_get_header_value_def
      http_message_get_headerlist_def rbind_def split: sum.splits option.splits)

lemma header_cstr_holds:
  assumes "hdr_holds (hm_headers m) kvs" "no_nul key"
  shows "header_cstr m key = Inr (map_of kvs (upper key))"
  using hs.get_law [OF assms] by (simp add: header_cstr_hdr_value)

lemma dec_nat_length: "length (dec_nat n) \<le> max 1 n"
proof (induction n rule: dec_nat.induct)
  case (1 n)
  then show ?case by (subst dec_nat.simps) (auto simp: max_def split: if_splits)
qed

lemma c_dec_length: "0 \<le> n \<Longrightarrow> n \<le> INT_MAX \<Longrightarrow> int (length (c_dec n)) \<le> INT_MAX"
  using dec_nat_length [of "nat n"] by (auto simp: c_dec_def INT_MAX_def)

lemma c_str_malloc: "0 < n \<Longrightarrow> c_str (c_malloc n) = Inl Uninit_read"
  by (cases n) (simp_all add: c_malloc_def)

definition demo_cbuf :: "char list \<Rightarrow> Cbuffer" where
  "demo_cbuf s = (case Cbuffer_append cbuf_empty (map Some s) of Inr cb \<Rightarrow> cb | Inl e \<Rightarrow> cbuf_empty)"

definition demo_msg :: "bool \<Rightarrow> HttpMessage" where
  "demo_msg req =
     \<lparr>hm_body = None, hm_headers = demo_hdrs, major_vers = 1, minor_vers = 1, is_request = Some req,
      status_code = Some 200, reason = Some (demo_cbuf ''OK''), hm_method = Some 1,
      target = Some (demo_cbuf ''/a'')\<rparr>"

lemma demo_cbuf: "s \<noteq> [] \<Longrightarrow> length s < 512 \<Longrightarrow> no_nul s \<Longrightarrow> text_cbuf (Some (demo_cbuf s)) s"
  using Cbuffer_append_fits [OF cbuf_empty_holds, of s]
  by (auto simp: demo_cbuf_def text_cbuf_def cbuf_limit_def cbuf_empty_def)

lemma demo_version: "version_text (demo_msg req) = ''HTTP/1.1''"
  by (simp add: version_text_def demo_msg_def c_dec_def dec_nat.simps digit_char_def char_eval)

section \<open>Properties\<close>

text \<open>
  C24: Serialising a request whose method, target and headers are set gives the request line, one
  line per header in list order, an empty line and the body, and nothing else.
\<close>

theorem request_text:
  assumes "is_request m = Some True" "hm_method m = Some me" "text_cbuf (target m) s"
    and "no_nul (nm me)" "hdr_holds (hm_headers m) kvs" "body_holds (hm_body m) b"
    and "length (nm me) + length s + length (version_text m) + length (header_text kvs) + length b + 6
           \<le> 2147483000"
  shows "\<exists>iob. http_message_serialize nm m = Inr iob \<and>
    iob_holds iob (nm me @ '' '' @ s @ '' '' @ version_text m @ crlf @ header_text kvs @ crlf @ b)"
proof -
  let ?line = "nm me @ '' '' @ s @ '' '' @ version_text m @ crlf"
  have "no_nul ?line"
    using assms(3,4) by (auto simp: text_cbuf_def version_text_def)
  from http_message_serialize_holds [of nm, OF first_line_request [OF assms(1-3)] this _ assms(5,6)]
  show ?thesis using assms(7) by simp
qed

theorem request_text_witness:
  "\<exists>iob. http_message_serialize (\<lambda>_. ''GET'') (demo_msg True) = Inr iob \<and>
     iob_holds iob (''GET /a HTTP/1.1'' @ crlf @ ''HOST: h'' @ crlf @ ''ACCEPT: x'' @ crlf @ crlf)"
  using request_text [of "demo_msg True" 1 "''/a''" "\<lambda>_. ''GET''"
      "[(''HOST'', ''h''), (''ACCEPT'', ''x'')]" "[]"]
    demo_cbuf [of "''/a''"] demo_hdrs
  by (simp add: demo_version) (simp add: demo_msg_def body_holds_def)

text \<open>
  C25: Serialising a response whose status and reason are set gives the status line, the header
  lines, an empty line and the body; the status line has two spaces after the version.
\<close>

theorem response_text:
  assumes "is_request m = Some False" "status_code m = Some st" "text_cbuf (reason m) s"
    and "hdr_holds (hm_headers m) kvs" "body_holds (hm_body m) b"
    and "length (c_dec st) + length s + length (version_text m) + length (header_text kvs) + length b + 7
           \<le> 2147483000"
  shows "\<exists>iob. http_message_serialize nm m = Inr iob \<and>
    iob_holds iob (version_text m @ ''  '' @ c_dec st @ '' '' @ s @ crlf @ header_text kvs @ crlf @ b)"
proof -
  let ?line = "version_text m @ ''  '' @ c_dec st @ '' '' @ s @ crlf"
  have "no_nul ?line"
    using assms(3) by (auto simp: text_cbuf_def version_text_def)
  from http_message_serialize_holds [of nm, OF first_line_response [OF assms(1-3)] this _ assms(4,5)]
  show ?thesis using assms(6) by simp
qed

theorem response_text_witness:
  "\<exists>iob. http_message_serialize (\<lambda>_. []) (demo_msg False) = Inr iob \<and>
     iob_holds iob (''HTTP/1.1  200 OK'' @ crlf @ ''HOST: h'' @ crlf @ ''ACCEPT: x'' @ crlf @ crlf)"
  using response_text [of "demo_msg False" 200 "''OK''" "[(''HOST'', ''h''), (''ACCEPT'', ''x'')]" "[]"
      "\<lambda>_. []"]
    demo_cbuf [of "''OK''"] demo_hdrs
  by (simp add: demo_version)
     (simp add: demo_msg_def body_holds_def c_dec_def dec_nat.simps digit_char_def char_eval)

text \<open>
  A response whose reason was never set cannot be serialised: the buffer that
  \<open>http_message_new\<close> gives it has no byte written to it, and formatting it with \<open>%s\<close> reads it.
\<close>

lemma response_without_reason:
  "\<exists>m. http_message_new_response = Inr m \<and>
       http_message_serialize nm (http_message_set_status m st) = Inl Uninit_read"
proof -
  obtain cb where cb: "Cbuffer_new = Inr cb" "c_str (Cbuffer_data cb) = Inl Uninit_read"
    by (auto simp: Cbuffer_new_def BufferStrategy_allocate_def common_strategy_def max_of_two_def
        Cbuffer_data_def c_str_malloc)
  then show ?thesis
    unfolding http_message_new_response_def http_message_new_def cb(1)
    by (simp add: http_message_set_status_def http_message_serialize_def append_head_def first_line_def
        read_init_def live_def)
qed

text \<open>
  After \<open>http_message_set_content_length\<close> the message answers for Content-Length, in any case
  of letters, with the decimal text of the length, and for every other key as before: an existing
  header is overwritten in place and a missing one added.
\<close>

lemma content_length_set:
  assumes "hdr_holds (hm_headers m) kvs" "int (length kvs) < INT_MAX" "0 \<le> n" "n \<le> INT_MAX"
    "no_nul key"
  shows "\<exists>m'. http_message_set_content_length m n = Inr m' \<and>
    header_cstr m' key = Inr (((map_of kvs)(''CONTENT-LENGTH'' \<mapsto> c_dec n)) (upper key))"
  using set_content_length_holds [OF assms(1,2,3)] header_cstr_holds [OF _ assms(5)]
    c_dec_length [OF assms(3,4)]
  by (fastforce simp: update_conv')

end
