(* ===== verification/Http_Parser.thy ===== *)
theory Http_Parser
  imports Http_Message "HOL-Library.Word"
begin

text \<open>
  The HTTP message parser: \<^verbatim>\<open>src/http_protocol/http_message_parser.c\<close>, the callbacks through
  which the vendored state machine \<open>llhttp\<close> builds messages.

  \<open>llhttp\<close> itself is a parameter, the record \<open>llhttp\<close>: feeding it bytes gives the callbacks it
  makes, in order, the error number it returns and its next state. A callback is a value of
  \<open>ll_event\<close>, with the bytes it is given and the fields of the \<open>llhttp_t\<close> it reads. Every callback
  of this program returns 0, so none of them stops \<open>llhttp\<close>. The function called for a complete
  message is the parameter \<open>handler\<close>, which acts on a state of its own.
\<close>

section \<open>Operations\<close>

datatype ll_event =
    On_message_begin
  | On_url "char list"
  | On_status int "char list"
  | On_method "char list"
  | On_version "char list"
  | On_header_field "char list"
  | On_header_value "char list"
  | On_chunk_extension_name "char list"
  | On_chunk_extension_value "char list"
  | On_headers_complete int int int
  | On_body "char list"
  | On_message_complete
  | On_url_complete
  | On_status_complete
  | On_method_complete
  | On_version_complete
  | On_header_field_complete
  | On_header_value_complete
  | On_chunk_extension_name_complete
  | On_chunk_extension_value_complete
  | On_chunk_header
  | On_chunk_complete
  | On_reset

record 'l llhttp =
  ll_init :: 'l
  ll_execute :: "'l \<Rightarrow> char list \<Rightarrow> ll_event list \<times> int \<times> 'l"
  ll_finish :: "'l \<Rightarrow> ll_event list \<times> int \<times> 'l"
  ll_needs_eof :: "'l \<Rightarrow> bool"
  ll_get_errno :: "'l \<Rightarrow> int"
  ll_get_error_pos :: "'l \<Rightarrow> int"

definition HPE_OK :: int where "HPE_OK = 0"

definition kHEADER_STATE_NOTHING :: int where "kHEADER_STATE_NOTHING = 10"

definition kHEADER_STATE_FIELD :: int where "kHEADER_STATE_FIELD = 11"

definition kHEADER_STATE_VALUE :: int where "kHEADER_STATE_VALUE = 12"

record 'l HttpMessageParser =
  m_started :: bool
  m_llhttp_ptr :: 'l
  current_message_ptr :: "HttpMessage option"
  m_header_state :: int
  m_url_buf :: Cbuffer
  m_status_buf :: Cbuffer
  m_name_buf :: Cbuffer
  m_value_buf :: Cbuffer

record http_parser_error =
  m_name :: "char list"
  m_description :: "char list"
  m_err_number :: int

definition HttpParser_initialize :: "'l llhttp \<Rightarrow> 'l HttpMessageParser \<Rightarrow> 'l HttpMessageParser res" where
  "HttpParser_initialize ll this =
     rbind http_message_new (\<lambda>_.
     rbind (Cbuffer_clear (m_status_buf this)) (\<lambda>sb.
     rbind (Cbuffer_clear (m_url_buf this)) (\<lambda>ub.
     rbind (Cbuffer_clear (m_name_buf this)) (\<lambda>nb.
     rbind (Cbuffer_clear (m_value_buf this)) (\<lambda>vb.
     Inr \<lparr>m_started = False, m_llhttp_ptr = ll_init ll, current_message_ptr = None,
          m_header_state = kHEADER_STATE_NOTHING, m_url_buf = ub, m_status_buf = sb,
          m_name_buf = nb, m_value_buf = vb\<rparr>)))))"

definition http_message_parser_new :: "'l llhttp \<Rightarrow> 'l HttpMessageParser res" where
  "http_message_parser_new ll =
     rbind Cbuffer_new (\<lambda>sb.
     rbind Cbuffer_new (\<lambda>ub.
     rbind Cbuffer_new (\<lambda>nb.
     rbind Cbuffer_new (\<lambda>vb.
     HttpParser_initialize ll
       \<lparr>m_started = False, m_llhttp_ptr = ll_init ll, current_message_ptr = None,
        m_header_state = kHEADER_STATE_NOTHING, m_url_buf = ub, m_status_buf = sb,
        m_name_buf = nb, m_value_buf = vb\<rparr>))))"

definition HttpParser_reset :: "'l HttpMessageParser \<Rightarrow> 'l HttpMessageParser" where
  "HttpParser_reset msg = msg"

definition current :: "'l HttpMessageParser \<Rightarrow> HttpMessage res" where
  "current this = (case current_message_ptr this of None \<Rightarrow> Inl Null_deref | Some m \<Rightarrow> Inr m)"

definition message_begin_cb :: "'l HttpMessageParser \<Rightarrow> 'l HttpMessageParser res" where
  "message_begin_cb this =
     rbind (case current_message_ptr this of
              Some m \<Rightarrow> rbind (http_message_free m) (\<lambda>_. http_message_new)
            | None \<Rightarrow> http_message_new) (\<lambda>m.
     rbind (Cbuffer_clear (m_status_buf this)) (\<lambda>sb.
     rbind (Cbuffer_clear (m_url_buf this)) (\<lambda>ub.
     rbind (Cbuffer_clear (m_name_buf this)) (\<lambda>nb.
     rbind (Cbuffer_clear (m_value_buf this)) (\<lambda>vb.
     Inr (this\<lparr>current_message_ptr := Some m, m_status_buf := sb, m_url_buf := ub,
               m_name_buf := nb, m_value_buf := vb\<rparr>))))))"

definition url_data_cb :: "char list \<Rightarrow> 'l HttpMessageParser \<Rightarrow> 'l HttpMessageParser res" where
  "url_data_cb at this =
     rbind (current this) (\<lambda>m.
     rbind (Cbuffer_append (m_url_buf this) (map Some at)) (\<lambda>ub.
     Inr (this\<lparr>current_message_ptr := Some (http_message_set_is_request m True), m_url_buf := ub\<rparr>)))"

definition status_data_cb :: "int \<Rightarrow> char list \<Rightarrow> 'l HttpMessageParser \<Rightarrow> 'l HttpMessageParser res" where
  "status_data_cb code at this =
     rbind (current this) (\<lambda>m.
     let m1 = http_message_set_status (http_message_set_is_request m False) code in
     rbind (Cbuffer_append (m_status_buf this) (map Some at)) (\<lambda>sb.
     rbind (http_message_set_reason_cbuffer m1 sb) (\<lambda>m2.
     Inr (this\<lparr>current_message_ptr := Some m2, m_status_buf := sb\<rparr>))))"

definition add_header :: "'l HttpMessageParser \<Rightarrow> 'l HttpMessageParser res" where
  "add_header this =
     rbind (current this) (\<lambda>m.
     rbind (http_message_add_header_cbuf m (m_name_buf this) (m_value_buf this)) (\<lambda>m1.
     rbind (Cbuffer_clear (m_name_buf this)) (\<lambda>nb.
     rbind (Cbuffer_clear (m_value_buf this)) (\<lambda>vb.
     Inr (this\<lparr>current_message_ptr := Some m1, m_name_buf := nb, m_value_buf := vb\<rparr>)))))"

definition append_name :: "char list \<Rightarrow> 'l HttpMessageParser \<Rightarrow> 'l HttpMessageParser res" where
  "append_name at this =
     rbind (Cbuffer_append (m_name_buf this) (map Some at)) (\<lambda>nb. Inr (this\<lparr>m_name_buf := nb\<rparr>))"

definition append_value :: "char list \<Rightarrow> 'l HttpMessageParser \<Rightarrow> 'l HttpMessageParser res" where
  "append_value at this =
     rbind (Cbuffer_append (m_value_buf this) (map Some at)) (\<lambda>vb. Inr (this\<lparr>m_value_buf := vb\<rparr>))"

definition header_field_data_cb :: "char list \<Rightarrow> 'l HttpMessageParser \<Rightarrow> 'l HttpMessageParser res" where
  "header_field_data_cb at this =
     (let state = m_header_state this in
      rbind
        (if state = 0 \<or> state = kHEADER_STATE_NOTHING \<or> state = kHEADER_STATE_VALUE then
           rbind (if Cbuffer_size (m_name_buf this) \<noteq> 0 then add_header this else Inr this) (append_name at)
         else if state = kHEADER_STATE_FIELD then append_name at this
         else Inl Assert_fail) (\<lambda>this1.
      Inr (this1\<lparr>m_header_state := kHEADER_STATE_FIELD\<rparr>)))"

definition header_value_data_cb :: "char list \<Rightarrow> 'l HttpMessageParser \<Rightarrow> 'l HttpMessageParser res" where
  "header_value_data_cb at this =
     (let state = m_header_state this in
      rbind
        (if state = kHEADER_STATE_FIELD then
           rbind (Cbuffer_clear (m_value_buf this)) (\<lambda>vb. append_value at (this\<lparr>m_value_buf := vb\<rparr>))
         else if state = kHEADER_STATE_VALUE then append_value at this
         else Inl Assert_fail) (\<lambda>this1.
      Inr (this1\<lparr>m_header_state := kHEADER_STATE_VALUE\<rparr>)))"

definition headers_complete_cb ::
  "int \<Rightarrow> int \<Rightarrow> int \<Rightarrow> 'l HttpMessageParser \<Rightarrow> 'l HttpMessageParser res" where
  "headers_complete_cb maj mi meth this =
     rbind (if Cbuffer_size (m_name_buf this) \<noteq> 0 then add_header this else Inr this) (\<lambda>this1.
     rbind (current this1) (\<lambda>m.
     let m1 = http_message_set_version m maj mi in
     rbind (if Cbuffer_size (m_url_buf this1) = 0 then Inr m1
            else http_message_set_target_cbuffer (http_message_set_method m1 meth) (m_url_buf this1)) (\<lambda>m2.
     Inr (this1\<lparr>current_message_ptr := Some m2\<rparr>))))"

definition body_data_cb :: "char list \<Rightarrow> 'l HttpMessageParser \<Rightarrow> 'l HttpMessageParser res" where
  "body_data_cb at this =
     rbind (current this) (\<lambda>m.
     let chain = (case http_message_get_body m of None \<Rightarrow> BufferChain_new | Some c \<Rightarrow> c) in
     rbind (BufferChain_append chain (map Some at)) (\<lambda>chain1.
     Inr (this\<lparr>current_message_ptr := Some (http_message_set_body m (Some chain1))\<rparr>)))"

definition message_complete_cb ::
  "(HttpMessage \<Rightarrow> 's \<Rightarrow> 's res) \<Rightarrow> 'l HttpMessageParser \<Rightarrow> 's \<Rightarrow> ('l HttpMessageParser \<times> 's) res" where
  "message_complete_cb handler this s =
     rbind (current this) (\<lambda>tmp.
     rbind http_message_new (\<lambda>m.
     rbind (handler tmp s) (\<lambda>s1. Inr (this\<lparr>current_message_ptr := Some m\<rparr>, s1))))"

text \<open>The settings table: which callback each event calls.\<close>

fun data_cb :: "ll_event \<Rightarrow> 'l HttpMessageParser \<Rightarrow> 'l HttpMessageParser res" where
  "data_cb On_message_begin this = message_begin_cb this"
| "data_cb (On_url at) this = url_data_cb at this"
| "data_cb (On_status code at) this = status_data_cb code at this"
| "data_cb (On_header_field at) this = header_field_data_cb at this"
| "data_cb (On_header_value at) this = header_value_data_cb at this"
| "data_cb (On_headers_complete maj mi meth) this = headers_complete_cb maj mi meth this"
| "data_cb (On_body at) this = body_data_cb at this"
| "data_cb _ this = Inr this"

definition llhttp_cb ::
  "(HttpMessage \<Rightarrow> 's \<Rightarrow> 's res) \<Rightarrow> ll_event \<Rightarrow> 'l HttpMessageParser \<times> 's \<Rightarrow> ('l HttpMessageParser \<times> 's) res"
  where
  "llhttp_cb handler e ps =
     (if e = On_message_complete then message_complete_cb handler (fst ps) (snd ps)
      else rbind (data_cb e (fst ps)) (\<lambda>p. Inr (p, snd ps)))"

definition run_llhttp ::
  "(HttpMessage \<Rightarrow> 's \<Rightarrow> 's res) \<Rightarrow> ll_event list \<times> int \<times> 'l \<Rightarrow> 'l HttpMessageParser \<Rightarrow> 's \<Rightarrow>
   (int \<times> 'l HttpMessageParser \<times> 's) res" where
  "run_llhttp handler r this s =
     (case r of (es, err, l) \<Rightarrow>
        rbind (fold_res (llhttp_cb handler) es (this, s)) (\<lambda>(this1, s1).
        Inr (err, this1\<lparr>m_llhttp_ptr := l\<rparr>, s1)))"

definition http_message_parser_consume ::
  "'l llhttp \<Rightarrow> (HttpMessage \<Rightarrow> 's \<Rightarrow> 's res) \<Rightarrow> 'l HttpMessageParser \<Rightarrow> char list \<Rightarrow> 's \<Rightarrow>
   (int \<times> 'l HttpMessageParser \<times> 's) res" where
  "http_message_parser_consume ll handler parser buffer s =
     (let l = m_llhttp_ptr parser in
      run_llhttp handler
        (if buffer = [] \<and> ll_needs_eof ll l then ll_finish ll l else ll_execute ll l buffer) parser s)"

definition http_message_parser_consume_buffer ::
  "'l llhttp \<Rightarrow> (HttpMessage \<Rightarrow> 's \<Rightarrow> 's res) \<Rightarrow> 'l HttpMessageParser \<Rightarrow> IOBuffer \<Rightarrow> 's \<Rightarrow>
   (int \<times> 'l HttpMessageParser \<times> IOBuffer \<times> 's) res" where
  "http_message_parser_consume_buffer ll handler parser iob s =
     rbind (mem_read (mem_p iob) (IOBuffer_data iob) (IOBuffer_data_len iob)) (\<lambda>buffer.
     rbind (http_message_parser_consume ll handler parser buffer s) (\<lambda>(err, parser1, s1).
     if err = HPE_OK then
       rbind (IOBuffer_consume iob (int (length buffer))) (\<lambda>iob1. Inr (err, parser1, iob1, s1))
     else Inr (err, parser1, iob, s1)))"

definition http_message_parser_consume_eof ::
  "'l llhttp \<Rightarrow> (HttpMessage \<Rightarrow> 's \<Rightarrow> 's res) \<Rightarrow> 'l HttpMessageParser \<Rightarrow> 's \<Rightarrow>
   (int \<times> 'l HttpMessageParser \<times> 's) res" where
  "http_message_parser_consume_eof ll handler parser s =
     (if ll_needs_eof ll (m_llhttp_ptr parser) then
        run_llhttp handler (ll_finish ll (m_llhttp_ptr parser)) parser s
      else Inr (HPE_OK, parser, s))"

definition http_message_parser_get_errno :: "'l llhttp \<Rightarrow> 'l HttpMessageParser \<Rightarrow> int" where
  "http_message_parser_get_errno ll parser = ll_get_errno ll (m_llhttp_ptr parser)"

definition http_message_parser_last_byte_parsed :: "'l llhttp \<Rightarrow> 'l HttpMessageParser \<Rightarrow> int" where
  "http_message_parser_last_byte_parsed ll parser = ll_get_error_pos ll (m_llhttp_ptr parser)"

definition http_message_parser_get_error ::
  "'l llhttp \<Rightarrow> (int \<Rightarrow> char list) \<Rightarrow> 'l HttpMessageParser \<Rightarrow> http_parser_error" where
  "http_message_parser_get_error ll errno_name parser =
     (let x = ll_get_errno ll (m_llhttp_ptr parser) in
      \<lparr>m_name = errno_name x, m_description = errno_name x, m_err_number = x\<rparr>)"

text \<open>The two addresses are subtracted as \<open>unsigned long\<close> and the difference is cast to \<open>int\<close>.\<close>

definition Parser_append_bytes ::
  "'l llhttp \<Rightarrow> (HttpMessage \<Rightarrow> 's \<Rightarrow> 's res) \<Rightarrow> 'l HttpMessageParser \<Rightarrow> int \<Rightarrow> char list \<Rightarrow> 's \<Rightarrow>
   (int \<times> 'l HttpMessageParser \<times> 's) res" where
  "Parser_append_bytes ll handler this addr buffer s =
     rbind (run_llhttp handler (ll_execute ll (m_llhttp_ptr this) buffer) this s) (\<lambda>(_, this1, s1).
     Inr (sint (word_of_int (ll_get_error_pos ll (m_llhttp_ptr this1) - addr) :: 32 word), this1, s1))"

end
