(* ===== verification/Http_Parser_Spec.thy ===== *)
theory Http_Parser_Spec
  imports Http_Parser
begin

text \<open>
  What the parser of \<open>Http_Parser\<close> builds. An abstract parser works on strings; a simulation shows
  that the callbacks implement it, and the runs of the abstract parser on the callbacks of whole
  messages show that each message is delivered as it was sent, however it was cut into pieces.
\<close>

section \<open>The abstract parser\<close>

text \<open>
  The same machine over strings. \<open>None\<close> stands for a callback that fails: an assertion, a piece
  that a buffer cannot take, a zero byte in a text that is copied as a C string, or a header more than
  the counter of the header list can count.
\<close>

record amsg =
  a_request :: "bool option"
  a_status :: "int option"
  a_reason :: "char list"
  a_method :: "int option"
  a_target :: "char list"
  a_minor :: int
  a_headers :: "(char list \<times> char list) list"
  a_body :: "char list option"

record aparser =
  a_msg :: "amsg option"
  a_hstate :: int
  a_url :: "char list"
  a_stat :: "char list"
  a_name :: "char list"
  a_value :: "char list"

definition new_amsg :: amsg where
  "new_amsg = \<lparr>a_request = None, a_status = None, a_reason = [], a_method = None, a_target = [],
               a_minor = 1, a_headers = [], a_body = None\<rparr>"

definition ap_fits :: "char list \<Rightarrow> char list \<Rightarrow> bool" where
  "ap_fits s t \<longleftrightarrow> cbuf_takes (length s) (length t)"

definition ap_flush :: "aparser \<Rightarrow> aparser option" where
  "ap_flush a =
     (if a_name a = [] then Some a
      else case a_msg a of None \<Rightarrow> None
      | Some m \<Rightarrow>
          if no_nul (a_name a) \<and> no_nul (a_value a) \<and> int (length (a_headers m)) < INT_MAX then
            Some (a\<lparr>a_msg := Some (m\<lparr>a_headers := a_headers m @ [(upper (a_name a), a_value a)]\<rparr>),
                    a_name := [], a_value := []\<rparr>)
          else None)"

definition ap_name :: "char list \<Rightarrow> aparser \<Rightarrow> aparser option" where
  "ap_name t a =
     (if ap_fits (a_name a) t then Some (a\<lparr>a_name := a_name a @ t, a_hstate := 11\<rparr>) else None)"

definition ap_value :: "char list \<Rightarrow> aparser \<Rightarrow> aparser option" where
  "ap_value t a =
     (if ap_fits (a_value a) t then Some (a\<lparr>a_value := a_value a @ t, a_hstate := 12\<rparr>) else None)"

definition ap_target :: "int \<Rightarrow> aparser \<Rightarrow> amsg \<Rightarrow> amsg option" where
  "ap_target meth a m =
     (if a_url a = [] then Some m
      else if a_target m = [] \<and> no_nul (a_url a) \<and> ap_fits [] (a_url a) then
        Some (m\<lparr>a_method := Some meth, a_target := a_url a\<rparr>)
      else None)"

fun ap_step :: "ll_event \<Rightarrow> aparser \<Rightarrow> aparser option" where
  "ap_step On_message_begin a =
     Some (a\<lparr>a_msg := Some new_amsg, a_stat := [], a_url := [], a_name := [], a_value := []\<rparr>)"
| "ap_step (On_url t) a =
     (case a_msg a of None \<Rightarrow> None
      | Some m \<Rightarrow>
          if ap_fits (a_url a) t
          then Some (a\<lparr>a_msg := Some (m\<lparr>a_request := Some True\<rparr>), a_url := a_url a @ t\<rparr>) else None)"
| "ap_step (On_status code t) a =
     (case a_msg a of None \<Rightarrow> None
      | Some m \<Rightarrow>
          if ap_fits (a_stat a) t \<and> a_reason m = [] \<and> no_nul (a_stat a @ t) \<and> ap_fits [] (a_stat a @ t)
          then Some (a\<lparr>a_msg := Some (m\<lparr>a_request := Some False, a_status := Some code,
                                         a_reason := a_stat a @ t\<rparr>), a_stat := a_stat a @ t\<rparr>)
          else None)"
| "ap_step (On_header_field t) a =
     (if a_hstate a \<in> {0, 10, 12} then Option.bind (ap_flush a) (ap_name t)
      else if a_hstate a = 11 then ap_name t a else None)"
| "ap_step (On_header_value t) a =
     (if a_hstate a = 11 then ap_value t (a\<lparr>a_value := []\<rparr>)
      else if a_hstate a = 12 then ap_value t a else None)"
| "ap_step (On_headers_complete maj mi meth) a =
     Option.bind (ap_flush a) (\<lambda>a1.
     Option.bind (a_msg a1) (\<lambda>m.
     Option.bind (ap_target meth a1 (m\<lparr>a_minor := mi\<rparr>)) (\<lambda>m1. Some (a1\<lparr>a_msg := Some m1\<rparr>))))"
| "ap_step (On_body t) a =
     (case a_msg a of None \<Rightarrow> None
      | Some m \<Rightarrow>
          let b = (case a_body m of None \<Rightarrow> [] | Some b \<Rightarrow> b) in
          if bc_takes (length b) (length t)
          then Some (a\<lparr>a_msg := Some (m\<lparr>a_body := Some (b @ t)\<rparr>)\<rparr>) else None)"
| "ap_step _ a = Some a"

fun ap_run :: "ll_event list \<Rightarrow> aparser \<Rightarrow> (amsg list \<times> aparser) option" where
  "ap_run [] a = Some ([], a)"
| "ap_run (e # es) a =
     (if e = On_message_complete then
        Option.bind (a_msg a) (\<lambda>m.
        Option.bind (ap_run es (a\<lparr>a_msg := Some new_amsg\<rparr>)) (\<lambda>(out, a'). Some (m # out, a')))
      else Option.bind (ap_step e a) (ap_run es))"

section \<open>The callbacks implement the abstract parser\<close>

definition str_rep :: "Cbuffer option \<Rightarrow> char list \<Rightarrow> bool" where
  "str_rep x s \<longleftrightarrow> (\<exists>cb. x = Some cb \<and> cbuf_holds cb s \<and> (s \<noteq> [] \<longrightarrow> cbuf_terminated cb))"

definition msg_rep :: "HttpMessage \<Rightarrow> amsg \<Rightarrow> bool" where
  "msg_rep m am \<longleftrightarrow>
     is_request m = a_request am \<and> status_code m = a_status am \<and> hm_method m = a_method am \<and>
     major_vers m = 1 \<and> minor_vers m = a_minor am \<and> hdr_holds (hm_headers m) (a_headers am) \<and>
     str_rep (target m) (a_target am) \<and> str_rep (reason m) (a_reason am) \<and>
     rel_option bc_holds (hm_body m) (a_body am)"

definition parser_rep :: "'l HttpMessageParser \<Rightarrow> aparser \<Rightarrow> bool" where
  "parser_rep p a \<longleftrightarrow>
     rel_option msg_rep (current_message_ptr p) (a_msg a) \<and> m_header_state p = a_hstate a \<and>
     cbuf_text (m_url_buf p) (a_url a) \<and> cbuf_text (m_status_buf p) (a_stat a) \<and>
     cbuf_text (m_name_buf p) (a_name a) \<and> cbuf_text (m_value_buf p) (a_value a)"

lemmas hstate_defs = kHEADER_STATE_NOTHING_def kHEADER_STATE_FIELD_def kHEADER_STATE_VALUE_def

lemma http_message_new_rep: "\<exists>m. http_message_new = Inr m \<and> msg_rep m new_amsg"
proof -
  from Cbuffer_new_holds obtain cb where cb: "Cbuffer_new = Inr cb" "cbuf_holds cb []" by blast
  then show ?thesis
    unfolding http_message_new_def cb(1) by (simp add: msg_rep_def new_amsg_def str_rep_def hdr_new)
qed

lemma fold_res_skip: "fold_res (\<lambda>_ s. Inr s) xs s = Inr s"
  by (induction xs) auto

lemma http_message_free_rep:
  assumes "msg_rep m am"
  shows "http_message_free m = Inr ()"
proof -
  from assms have "hdr_holds (hm_headers m) (a_headers am)" by (simp add: msg_rep_def)
  then obtain ps xs where "list_rep (hm_headers m) ps xs" by (rule hdr_holdsE)
  with assms show ?thesis
    by (auto simp: msg_rep_def str_rep_def http_message_free_def live_def HdrList_safe_free_def
        List_safe_free_rep fold_res_skip)
qed

lemma cbuf_text_size: "cbuf_text cb s \<Longrightarrow> Cbuffer_size cb = length s"
  by (simp add: cbuf_text_def cbuf_holds_def Cbuffer_size_def)

lemma str_rep_append_cstr:
  assumes "str_rep x []" "no_nul t" "ap_fits [] t" "cbuf_text sb t"
  shows "\<exists>cb cb'. x = Some cb \<and> Cbuffer_size cb = 0 \<and> Cbuffer_append_cstr cb (Cbuffer_data sb) = Inr cb' \<and>
                  str_rep (Some cb') t"
proof -
  from assms(1) obtain cb where cb: "x = Some cb" "cbuf_holds cb []" by (auto simp: str_rep_def)
  from cb.put_law [OF cb(2), of t] cbuf_text_append [OF cb(2), of t] assms(3) obtain cb' where
    "Cbuffer_append cb (map Some t) = Inr cb'" "cbuf_holds cb' t" "t \<noteq> [] \<longrightarrow> cbuf_terminated cb'"
    by (auto simp: ap_fits_def cbuf_text_def)
  with cb cbuf_text_cstr(2) [OF assms(4,2)] show ?thesis
    by (auto simp: str_rep_def Cbuffer_append_cstr_def Cbuffer_size_def cbuf_holds_def)
qed

lemma current_rep:
  assumes "parser_rep p a" "a_msg a = Some am"
  shows "\<exists>m. current p = Inr m \<and> msg_rep m am"
  using assms by (auto simp: parser_rep_def current_def option_rel_Some2)

lemma add_header_rep:
  assumes rep: "parser_rep p a" and flush: "ap_flush a = Some a1"
  shows "\<exists>p1. (if Cbuffer_size (m_name_buf p) \<noteq> 0 then add_header p else Inr p) = Inr p1 \<and> parser_rep p1 a1"
proof (cases "a_name a = []")
  case True
  with assms show ?thesis by (auto simp: ap_flush_def parser_rep_def cbuf_text_size)
next
  case False
  with flush obtain am where am: "a_msg a = Some am" "no_nul (a_name a)" "no_nul (a_value a)"
      "int (length (a_headers am)) < INT_MAX"
    and a1: "a1 = a\<lparr>a_msg := Some (am\<lparr>a_headers := a_headers am @ [(upper (a_name a), a_value a)]\<rparr>),
                    a_name := [], a_value := []\<rparr>"
    by (auto simp: ap_flush_def split: option.splits if_splits)
  from current_rep [OF rep am(1)] obtain m where m: "current p = Inr m" "msg_rep m am" by blast
  from rep have bufs: "cbuf_text (m_name_buf p) (a_name a)" "cbuf_text (m_value_buf p) (a_value a)"
    by (simp_all add: parser_rep_def)
  from HdrList_add_cbuf_holds [of "hm_headers m" "a_headers am" "m_name_buf p" "a_name a" "m_value_buf p"
      "a_value a"] m bufs am obtain l where
    l: "HdrList_add_cbuf (hm_headers m) (m_name_buf p) (m_value_buf p) = Inr l"
       "hdr_holds l (a_headers am @ [(upper (a_name a), a_value a)])"
    by (auto simp: msg_rep_def cbuf_text_def)
  from cbuf_text_clear [OF bufs(1)] cbuf_text_clear [OF bufs(2)] obtain nb vb where
    "Cbuffer_clear (m_name_buf p) = Inr nb" "cbuf_text nb []"
    "Cbuffer_clear (m_value_buf p) = Inr vb" "cbuf_text vb []" by blast
  with l m rep False bufs show ?thesis
    by (auto simp: add_header_def http_message_add_header_cbuf_def http_message_get_headerlist_def
        parser_rep_def msg_rep_def cbuf_text_size a1)
qed

lemma append_name_rep:
  assumes "parser_rep p a" "ap_name t a = Some a1"
  shows "\<exists>p1. append_name t p = Inr p1 \<and> parser_rep (p1\<lparr>m_header_state := kHEADER_STATE_FIELD\<rparr>) a1"
  using assms cbuf_text_append [of "m_name_buf p" "a_name a" t]
  by (auto simp: ap_name_def append_name_def parser_rep_def ap_fits_def cbuf_text_def hstate_defs
      split: if_splits)

lemma append_value_rep:
  assumes "parser_rep p a" "ap_value t a = Some a1"
  shows "\<exists>p1. append_value t p = Inr p1 \<and> parser_rep (p1\<lparr>m_header_state := kHEADER_STATE_VALUE\<rparr>) a1"
  using assms cbuf_text_append [of "m_value_buf p" "a_value a" t]
  by (auto simp: ap_value_def append_value_def parser_rep_def ap_fits_def cbuf_text_def hstate_defs
      split: if_splits)

lemma message_begin_sim:
  assumes "parser_rep p a" "ap_step On_message_begin a = Some a1"
  shows "\<exists>p1. message_begin_cb p = Inr p1 \<and> parser_rep p1 a1"
proof -
  from http_message_new_rep obtain m where m: "http_message_new = Inr m" "msg_rep m new_amsg" by blast
  have "(case current_message_ptr p of Some m \<Rightarrow> rbind (http_message_free m) (\<lambda>_. http_message_new)
         | None \<Rightarrow> http_message_new) = Inr m"
    unfolding m(1) using assms(1) http_message_free_rep
    by (auto simp: parser_rep_def option_rel_Some1 split: option.splits)
  moreover from assms(1) obtain sb ub nb vb where
    "Cbuffer_clear (m_status_buf p) = Inr sb" "cbuf_text sb []"
    "Cbuffer_clear (m_url_buf p) = Inr ub" "cbuf_text ub []"
    "Cbuffer_clear (m_name_buf p) = Inr nb" "cbuf_text nb []"
    "Cbuffer_clear (m_value_buf p) = Inr vb" "cbuf_text vb []"
    unfolding parser_rep_def by (metis cbuf_text_clear)
  ultimately show ?thesis
    using assms m(2) by (auto simp: message_begin_cb_def parser_rep_def)
qed

lemma url_data_sim:
  assumes "parser_rep p a" "ap_step (On_url t) a = Some a1"
  shows "\<exists>p1. url_data_cb t p = Inr p1 \<and> parser_rep p1 a1"
proof -
  from assms(2) obtain am where am: "a_msg a = Some am" "ap_fits (a_url a) t"
    and a1: "a1 = a\<lparr>a_msg := Some (am\<lparr>a_request := Some True\<rparr>), a_url := a_url a @ t\<rparr>"
    by (auto split: option.splits if_splits)
  from current_rep [OF assms(1) am(1)] obtain m where m: "current p = Inr m" "msg_rep m am" by blast
  from cbuf_text_append [of "m_url_buf p" "a_url a" t] am(2) assms(1) obtain ub where
    "Cbuffer_append (m_url_buf p) (map Some t) = Inr ub" "cbuf_text ub (a_url a @ t)"
    by (auto simp: parser_rep_def cbuf_text_def ap_fits_def)
  with m assms(1) show ?thesis
    by (auto simp: url_data_cb_def parser_rep_def msg_rep_def http_message_set_is_request_def a1)
qed

lemma status_data_sim:
  assumes "parser_rep p a" "ap_step (On_status code t) a = Some a1"
  shows "\<exists>p1. status_data_cb code t p = Inr p1 \<and> parser_rep p1 a1"
proof -
  let ?s = "a_stat a @ t"
  from assms(2) obtain am where am: "a_msg a = Some am" "ap_fits (a_stat a) t" "a_reason am = []"
      "no_nul ?s" "ap_fits [] ?s"
    and a1: "a1 = a\<lparr>a_msg := Some (am\<lparr>a_request := Some False, a_status := Some code, a_reason := ?s\<rparr>),
                    a_stat := ?s\<rparr>"
    by (auto split: option.splits if_splits)
  from current_rep [OF assms(1) am(1)] obtain m where m: "current p = Inr m" "msg_rep m am" by blast
  from cbuf_text_append [of "m_status_buf p" "a_stat a" t] am(2) assms(1) obtain sb where
    sb: "Cbuffer_append (m_status_buf p) (map Some t) = Inr sb" "cbuf_text sb ?s"
    by (auto simp: parser_rep_def cbuf_text_def ap_fits_def)
  from str_rep_append_cstr [OF _ am(4,5) sb(2), of "reason m"] m(2) am(3) obtain r r1 where
    "reason m = Some r" "Cbuffer_size r = 0" "Cbuffer_append_cstr r (Cbuffer_data sb) = Inr r1"
    "str_rep (Some r1) ?s" by (auto simp: msg_rep_def)
  with m sb cbuf_text_cstr(1) [OF sb(2) am(4)] assms(1) show ?thesis
    by (auto simp: status_data_cb_def parser_rep_def msg_rep_def http_message_set_is_request_def
        http_message_set_status_def http_message_set_reason_cbuffer_def live_def a1 c_assert_def)
qed

lemma header_field_sim:
  assumes "parser_rep p a" "ap_step (On_header_field t) a = Some a1"
  shows "\<exists>p1. header_field_data_cb t p = Inr p1 \<and> parser_rep p1 a1"
proof (cases "a_hstate a = 11")
  case True
  with assms append_name_rep [OF assms(1), of t a1] show ?thesis
    by (auto simp: header_field_data_cb_def hstate_defs parser_rep_def)
next
  case False
  with assms(2) obtain a2 where a2: "ap_flush a = Some a2" "ap_name t a2 = Some a1"
    and st: "a_hstate a \<in> {0, 10, 12}"
    by (auto split: if_splits Option.bind_splits)
  from add_header_rep [OF assms(1) a2(1)] obtain p2 where
    p2: "(if Cbuffer_size (m_name_buf p) \<noteq> 0 then add_header p else Inr p) = Inr p2" "parser_rep p2 a2"
    by blast
  from assms(1) have "m_header_state p = a_hstate a" by (simp add: parser_rep_def)
  with st append_name_rep [OF p2(2) a2(2)] p2(1) show ?thesis
    by (auto simp: header_field_data_cb_def hstate_defs simp del: if_split_asm)
qed

lemma header_value_sim:
  assumes "parser_rep p a" "ap_step (On_header_value t) a = Some a1"
  shows "\<exists>p1. header_value_data_cb t p = Inr p1 \<and> parser_rep p1 a1"
proof (cases "a_hstate a = 11")
  case True
  from assms(1) have vb: "cbuf_text (m_value_buf p) (a_value a)" by (simp add: parser_rep_def)
  from cbuf_text_clear [OF vb] obtain vb1 where
    vb1: "Cbuffer_clear (m_value_buf p) = Inr vb1" "cbuf_text vb1 []" by blast
  with assms(1) have "parser_rep (p\<lparr>m_value_buf := vb1\<rparr>) (a\<lparr>a_value := []\<rparr>)"
    by (simp add: parser_rep_def)
  from append_value_rep [OF this, of t a1] True assms vb1 show ?thesis
    by (auto simp: header_value_data_cb_def hstate_defs parser_rep_def)
next
  case False
  with assms append_value_rep [OF assms(1), of t a1] show ?thesis
    by (auto simp: header_value_data_cb_def hstate_defs parser_rep_def split: if_splits)
qed

lemma set_target_rep:
  assumes "parser_rep p a" "msg_rep m am" "ap_target meth a am = Some am1"
  shows "\<exists>m1. (if Cbuffer_size (m_url_buf p) = 0 then Inr m
               else http_message_set_target_cbuffer (http_message_set_method m meth) (m_url_buf p)) = Inr m1 \<and>
              msg_rep m1 am1"
proof (cases "a_url a = []")
  case True
  with assms show ?thesis by (auto simp: ap_target_def parser_rep_def cbuf_text_size)
next
  case False
  from assms(1) have ub: "cbuf_text (m_url_buf p) (a_url a)" by (simp add: parser_rep_def)
  from False assms(3) have t: "a_target am = []" "no_nul (a_url a)" "ap_fits [] (a_url a)"
    and am1: "am1 = am\<lparr>a_method := Some meth, a_target := a_url a\<rparr>"
    by (auto simp: ap_target_def split: if_splits)
  from str_rep_append_cstr [OF _ t(2,3) ub, of "target m"] assms(2) t(1) obtain r r1 where
    "target m = Some r" "Cbuffer_size r = 0" "Cbuffer_append_cstr r (Cbuffer_data (m_url_buf p)) = Inr r1"
    "str_rep (Some r1) (a_url a)" by (auto simp: msg_rep_def)
  with False assms(2) ub cbuf_text_cstr(1) [OF ub t(2)] cbuf_text_size [OF ub] show ?thesis
    by (auto simp: http_message_set_target_cbuffer_def http_message_set_method_def msg_rep_def live_def
        am1 c_assert_def)
qed

lemma headers_complete_sim:
  assumes "parser_rep p a" "ap_step (On_headers_complete maj mi meth) a = Some a1"
  shows "\<exists>p1. headers_complete_cb maj mi meth p = Inr p1 \<and> parser_rep p1 a1"
proof -
  from assms(2) obtain a2 am am1 where a2: "ap_flush a = Some a2" "a_msg a2 = Some am"
      "ap_target meth a2 (am\<lparr>a_minor := mi\<rparr>) = Some am1" and a1: "a1 = a2\<lparr>a_msg := Some am1\<rparr>"
    by (auto split: Option.bind_splits)
  from add_header_rep [OF assms(1) a2(1)] obtain p2 where
    p2: "(if Cbuffer_size (m_name_buf p) \<noteq> 0 then add_header p else Inr p) = Inr p2" "parser_rep p2 a2"
    by blast
  from current_rep [OF p2(2) a2(2)] obtain m where m: "current p2 = Inr m" "msg_rep m am" by blast
  then have "msg_rep (http_message_set_version m maj mi) (am\<lparr>a_minor := mi\<rparr>)"
    by (simp add: msg_rep_def http_message_set_version_def)
  from set_target_rep [OF p2(2) this a2(3)] p2 m(1) show ?thesis
    by (auto simp: headers_complete_cb_def parser_rep_def a1 simp del: if_split_asm)
qed

lemma body_data_sim:
  assumes "parser_rep p a" "ap_step (On_body t) a = Some a1"
  shows "\<exists>p1. body_data_cb t p = Inr p1 \<and> parser_rep p1 a1"
proof -
  from assms(2) obtain am where am: "a_msg a = Some am" by (auto split: option.splits)
  let ?b = "case a_body am of None \<Rightarrow> [] | Some b \<Rightarrow> b"
  from am assms(2) have takes: "bc_takes (length ?b) (length t)"
    and a1: "a1 = a\<lparr>a_msg := Some (am\<lparr>a_body := Some (?b @ t)\<rparr>)\<rparr>"
    by (auto simp: Let_def split: if_splits)
  from current_rep [OF assms(1) am(1)] obtain m where m: "current p = Inr m" "msg_rep m am" by blast
  let ?c = "case http_message_get_body m of None \<Rightarrow> BufferChain_new | Some c \<Rightarrow> c"
  have "bc_holds ?c ?b"
    using m(2) bc_new by (cases "a_body am") (auto simp: msg_rep_def http_message_get_body_def option_rel_Some2)
  from chain.put_law [OF this takes] m assms(1) show ?thesis
    by (auto simp: body_data_cb_def parser_rep_def msg_rep_def http_message_set_body_def a1)
qed

lemma data_cb_sim:
  assumes "parser_rep p a" "ap_step e a = Some a1" "e \<noteq> On_message_complete"
  shows "\<exists>p1. data_cb e p = Inr p1 \<and> parser_rep p1 a1"
  using assms message_begin_sim url_data_sim status_data_sim header_field_sim header_value_sim
    headers_complete_sim body_data_sim
  by (cases e) (simp_all only: data_cb.simps, simp_all)

lemma message_complete_sim:
  assumes "parser_rep p a" "a_msg a = Some am"
  shows "\<exists>p1 m. msg_rep m am \<and> parser_rep p1 (a\<lparr>a_msg := Some new_amsg\<rparr>) \<and>
                (\<forall>(h :: HttpMessage \<Rightarrow> 's \<Rightarrow> 's res) s. message_complete_cb h p s = rbind (h m s) (\<lambda>s1. Inr (p1, s1)))"
proof -
  from current_rep [OF assms] obtain m where m: "current p = Inr m" "msg_rep m am" by blast
  from http_message_new_rep obtain m0 where m0: "http_message_new = Inr m0" "msg_rep m0 new_amsg" by blast
  have "parser_rep (p\<lparr>current_message_ptr := Some m0\<rparr>) (a\<lparr>a_msg := Some new_amsg\<rparr>)"
    using assms(1) m0(2) by (simp add: parser_rep_def)
  then show ?thesis
    using m unfolding message_complete_cb_def m0(1) by auto
qed

lemma llhttp_cb_simps:
  "llhttp_cb h On_message_complete (p, s) = message_complete_cb h p s"
  "e \<noteq> On_message_complete \<Longrightarrow> llhttp_cb h e (p, s) = rbind (data_cb e p) (\<lambda>p1. Inr (p1, s))"
  by (simp_all add: llhttp_cb_def)

lemma ap_run_sim:
  assumes "parser_rep p a" "ap_run es a = Some (out, a1)"
  shows "\<exists>ms p1. list_all2 msg_rep ms out \<and> parser_rep p1 a1 \<and>
           (\<forall>(h :: HttpMessage \<Rightarrow> 's \<Rightarrow> 's res) s. fold_res (llhttp_cb h) es (p, s) = rbind (fold_res h ms s) (\<lambda>s1. Inr (p1, s1)))"
  using assms
proof (induction es arbitrary: p a out)
  case (Cons e es)
  show ?case
  proof (cases "e = On_message_complete")
    case True
    with Cons.prems(2) obtain am out' where am: "a_msg a = Some am" "out = am # out'"
      "ap_run es (a\<lparr>a_msg := Some new_amsg\<rparr>) = Some (out', a1)"
      by (auto split: Option.bind_splits)
    from message_complete_sim [OF Cons.prems(1) am(1)] obtain p2 m where
      m: "msg_rep m am" "parser_rep p2 (a\<lparr>a_msg := Some new_amsg\<rparr>)"
      "\<And>(h :: HttpMessage \<Rightarrow> 's \<Rightarrow> 's res) s. message_complete_cb h p s = rbind (h m s) (\<lambda>s1. Inr (p2, s1))" by blast
    from Cons.IH [OF m(2) am(3)] obtain ms p1 where
      ms: "list_all2 msg_rep ms out'" "parser_rep p1 a1"
      "\<And>(h :: HttpMessage \<Rightarrow> 's \<Rightarrow> 's res) s. fold_res (llhttp_cb h) es (p2, s) = rbind (fold_res h ms s) (\<lambda>s1. Inr (p1, s1))" by blast
    show ?thesis
      using ms m True am
      by (intro exI [of _ "m # ms"] exI [of _ p1]) (simp add: llhttp_cb_simps rbind_assoc)
  next
    case False
    with Cons.prems(2) obtain a2 where a2: "ap_step e a = Some a2" "ap_run es a2 = Some (out, a1)"
      by (auto split: Option.bind_splits)
    from data_cb_sim [OF Cons.prems(1) a2(1) False] obtain p2 where
      p2: "data_cb e p = Inr p2" "parser_rep p2 a2" by blast
    from Cons.IH [OF p2(2) a2(2)] p2(1) False show ?thesis by (simp add: llhttp_cb_simps)
  qed
qed auto

section \<open>Messages on the wire\<close>

text \<open>
  The callbacks \<open>llhttp\<close> makes for one message, with every text cut into arbitrary pieces: the
  start line (the reason comes in one piece), per header one or more pieces of its name and one
  or more of its value, and the body. Between them there may be any callbacks that do nothing.
\<close>

datatype start_line =
    Req int "char list list"
  | Resp int "char list"

record wire =
  w_start :: start_line
  w_major :: int
  w_minor :: int
  w_headers :: "(char list list \<times> char list list) list"
  w_body :: "char list list"

fun start_events :: "start_line \<Rightarrow> ll_event list" where
  "start_events (Req meth us) = map On_url us"
| "start_events (Resp code r) = [On_status code r]"

fun start_method :: "start_line \<Rightarrow> int" where
  "start_method (Req meth us) = meth"
| "start_method (Resp code r) = 0"

definition header_events :: "char list list \<times> char list list \<Rightarrow> ll_event list" where
  "header_events h = map On_header_field (fst h) @ map On_header_value (snd h)"

definition wire_events :: "wire \<Rightarrow> ll_event list" where
  "wire_events w =
     On_message_begin # start_events (w_start w) @ concat (map header_events (w_headers w)) @
     On_headers_complete (w_major w) (w_minor w) (start_method (w_start w)) #
     map On_body (w_body w) @ [On_message_complete]"

fun start_msg :: "start_line \<Rightarrow> amsg \<Rightarrow> amsg" where
  "start_msg (Req meth us) m =
     m\<lparr>a_request := Some True, a_method := Some meth, a_target := concat us\<rparr>"
| "start_msg (Resp code r) m = m\<lparr>a_request := Some False, a_status := Some code, a_reason := r\<rparr>"

definition header_pair :: "char list list \<times> char list list \<Rightarrow> char list \<times> char list" where
  "header_pair h = (upper (concat (fst h)), concat (snd h))"

definition wire_msg :: "wire \<Rightarrow> amsg" where
  "wire_msg w =
     (start_msg (w_start w) new_amsg)
       \<lparr>a_minor := w_minor w, a_headers := map header_pair (w_headers w),
        a_body := if w_body w = [] then None else Some (concat (w_body w))\<rparr>"

fun start_ok :: "start_line \<Rightarrow> bool" where
  "start_ok (Req meth us) \<longleftrightarrow> concat us \<noteq> [] \<and> no_nul (concat us) \<and> length (concat us) < 512"
| "start_ok (Resp code r) \<longleftrightarrow> no_nul r \<and> length r < 512"

definition header_ok :: "char list list \<times> char list list \<Rightarrow> bool" where
  "header_ok h \<longleftrightarrow>
     concat (fst h) \<noteq> [] \<and> snd h \<noteq> [] \<and> no_nul (concat (fst h)) \<and> no_nul (concat (snd h)) \<and>
     all_taken cbuf_takes 0 (fst h) \<and> all_taken cbuf_takes 0 (snd h)"

definition wire_ok :: "wire \<Rightarrow> bool" where
  "wire_ok w \<longleftrightarrow>
     start_ok (w_start w) \<and> list_all header_ok (w_headers w) \<and> int (length (w_headers w)) \<le> INT_MAX \<and>
     all_taken bc_takes 0 (w_body w)"

fun quiet :: "ll_event \<Rightarrow> bool" where
  "quiet On_message_begin = False"
| "quiet (On_url t) = False"
| "quiet (On_status c t) = False"
| "quiet (On_header_field t) = False"
| "quiet (On_header_value t) = False"
| "quiet (On_headers_complete x y z) = False"
| "quiet (On_body t) = False"
| "quiet On_message_complete = False"
| "quiet _ = True"

lemma ap_run_quiet: "ap_run (filter (Not \<circ> quiet) es) a = ap_run es a"
proof (induction es arbitrary: a)
  case (Cons e es)
  have "quiet e \<Longrightarrow> ap_step e a = Some a \<and> e \<noteq> On_message_complete" by (cases e) auto
  with Cons show ?case by (auto split: Option.bind_splits)
qed simp

lemma ap_run_append:
  "ap_run (xs @ ys) a =
     Option.bind (ap_run xs a) (\<lambda>(o1, a1). Option.bind (ap_run ys a1) (\<lambda>(o2, a2). Some (o1 @ o2, a2)))"
  by (induction xs arbitrary: a) (auto split: Option.bind_splits)

lemma ap_run_seq:
  "ap_run xs a = Some (o1, a1) \<Longrightarrow> ap_run ys a1 = Some (o2, a2) \<Longrightarrow> ap_run (xs @ ys) a = Some (o1 @ o2, a2)"
  by (simp add: ap_run_append)

lemma all_taken_short: "n + length (concat us) < 512 \<Longrightarrow> all_taken cbuf_takes n us"
  by (induction us arbitrary: n) (auto simp: cbuf_takes_def)

lemma ap_run_url:
  assumes "a_msg a = Some m" "us \<noteq> []" "all_taken cbuf_takes (length (a_url a)) us"
  shows "ap_run (map On_url us) a =
           Some ([], a\<lparr>a_msg := Some (m\<lparr>a_request := Some True\<rparr>), a_url := a_url a @ concat us\<rparr>)"
  using assms
proof (induction us arbitrary: a m)
  case (Cons u us)
  then show ?case by (cases "us = []") (auto simp: ap_fits_def)
qed simp

lemma ap_run_name:
  assumes "a_hstate a = 11" "all_taken cbuf_takes (length (a_name a)) ns"
  shows "ap_run (map On_header_field ns) a = Some ([], a\<lparr>a_name := a_name a @ concat ns\<rparr>)"
  using assms
proof (induction ns arbitrary: a)
  case (Cons n ns)
  with Cons.IH [of "a\<lparr>a_name := a_name a @ n\<rparr>"] show ?case by (simp add: ap_name_def ap_fits_def)
qed simp

lemma ap_run_value:
  assumes "a_hstate a = 12" "all_taken cbuf_takes (length (a_value a)) vs"
  shows "ap_run (map On_header_value vs) a = Some ([], a\<lparr>a_value := a_value a @ concat vs\<rparr>)"
  using assms
proof (induction vs arbitrary: a)
  case (Cons n ns)
  with Cons.IH [of "a\<lparr>a_value := a_value a @ n\<rparr>"] show ?case by (simp add: ap_value_def ap_fits_def)
qed simp

lemma ap_run_header:
  assumes "a_hstate a \<in> {10, 12}" "ap_flush a = Some a1" "header_ok h" "a_name a1 = []"
  shows "ap_run (header_events h) a =
     Some ([], a1\<lparr>a_name := concat (fst h), a_value := concat (snd h), a_hstate := 12\<rparr>)"
proof -
  obtain n ns v vs where h: "h = (n # ns, v # vs)"
    using assms(3) by (cases h; cases "fst h"; cases "snd h") (auto simp: header_ok_def)
  with assms have step1: "ap_step (On_header_field n) a = Some (a1\<lparr>a_name := n, a_hstate := 11\<rparr>)"
    by (auto simp: ap_name_def ap_fits_def header_ok_def)
  have "ap_run (map On_header_field (n # ns)) a = Some ([], a1\<lparr>a_name := n @ concat ns, a_hstate := 11\<rparr>)"
    using step1 ap_run_name [of "a1\<lparr>a_name := n, a_hstate := 11\<rparr>" ns] assms(3) h
    by (simp add: header_ok_def del: ap_step.simps)
  moreover have "ap_run (map On_header_value (v # vs)) (a1\<lparr>a_name := n @ concat ns, a_hstate := 11\<rparr>) =
      Some ([], a1\<lparr>a_name := n @ concat ns, a_value := v @ concat vs, a_hstate := 12\<rparr>)"
    using ap_run_value [of "a1\<lparr>a_name := n @ concat ns, a_value := v, a_hstate := 12\<rparr>" vs] assms(3) h
    by (simp add: ap_value_def ap_fits_def header_ok_def)
  ultimately have "ap_run (map On_header_field (n # ns) @ map On_header_value (v # vs)) a =
      Some ([], a1\<lparr>a_name := n @ concat ns, a_value := v @ concat vs, a_hstate := 12\<rparr>)"
    using ap_run_seq by fastforce
  then show ?thesis by (simp add: header_events_def h del: ap_run.simps)
qed

text \<open>
  Between headers the last one is still in the buffers: \<open>pending a m u\<close> says that with it added
  the message is \<open>m\<close>, and that the buffer of the target holds \<open>u\<close>.
\<close>

definition pending :: "aparser \<Rightarrow> amsg \<Rightarrow> char list \<Rightarrow> bool" where
  "pending a m u \<longleftrightarrow>
     a_hstate a \<in> {10, 12} \<and>
     (\<exists>a1. ap_flush a = Some a1 \<and> a_msg a1 = Some m \<and> a_url a1 = u \<and> a_name a1 = [])"

lemma ap_run_headers:
  assumes "pending a m u" "list_all header_ok hs" "int (length (a_headers m) + length hs) \<le> INT_MAX"
  shows "\<exists>a1. ap_run (concat (map header_events hs)) a = Some ([], a1) \<and>
              pending a1 (m\<lparr>a_headers := a_headers m @ map header_pair hs\<rparr>) u"
  using assms
proof (induction hs arbitrary: a m)
  case (Cons h hs)
  from Cons.prems(1) obtain a1 where a1: "a_hstate a \<in> {10, 12}" "ap_flush a = Some a1" "a_msg a1 = Some m"
    "a_url a1 = u" "a_name a1 = []" by (auto simp: pending_def)
  let ?a2 = "a1\<lparr>a_name := concat (fst h), a_value := concat (snd h), a_hstate := 12\<rparr>"
  from Cons.prems(2) have h: "header_ok h" by simp
  then have "pending ?a2 (m\<lparr>a_headers := a_headers m @ [header_pair h]\<rparr>) u"
    using a1 Cons.prems(3) by (auto simp: pending_def ap_flush_def header_ok_def header_pair_def)
  from Cons.IH [OF this] Cons.prems(2,3) obtain a3 where
    a3: "ap_run (concat (map header_events hs)) ?a2 = Some ([], a3)"
    "pending a3 (m\<lparr>a_headers := a_headers m @ map header_pair (h # hs)\<rparr>) u" by auto
  from ap_run_seq [OF ap_run_header [OF a1(1,2) h a1(5)] a3(1)] a3(2) show ?case by auto
qed auto

lemma ap_run_body:
  assumes "a_msg a = Some m" "all_taken bc_takes (length (case a_body m of None \<Rightarrow> [] | Some b \<Rightarrow> b)) bs"
  shows "ap_run (map On_body bs) a = Some ([], a\<lparr>a_msg := Some (m\<lparr>a_body :=
     if bs = [] then a_body m else Some ((case a_body m of None \<Rightarrow> [] | Some b \<Rightarrow> b) @ concat bs)\<rparr>)\<rparr>)"
  using assms
proof (induction bs arbitrary: a m)
  case (Cons b bs)
  let ?b = "(case a_body m of None \<Rightarrow> [] | Some b \<Rightarrow> b) @ b"
  from Cons.prems Cons.IH [of "a\<lparr>a_msg := Some (m\<lparr>a_body := Some ?b\<rparr>)\<rparr>" "m\<lparr>a_body := Some ?b\<rparr>"]
  show ?case by (simp add: Let_def)
qed simp

fun start_target :: "start_line \<Rightarrow> char list" where
  "start_target (Req meth us) = concat us"
| "start_target (Resp code r) = []"

fun start_half :: "start_line \<Rightarrow> amsg" where
  "start_half (Req meth us) = new_amsg\<lparr>a_request := Some True\<rparr>"
| "start_half (Resp code r) = new_amsg\<lparr>a_request := Some False, a_status := Some code, a_reason := r\<rparr>"

lemma ap_run_start:
  assumes "a_hstate a \<in> {10, 12}" "start_ok st"
  shows "\<exists>a1. ap_run (On_message_begin # start_events st) a = Some ([], a1) \<and>
              pending a1 (start_half st) (start_target st)"
proof (cases st)
  case (Req meth us)
  let ?a = "a\<lparr>a_msg := Some new_amsg, a_stat := [], a_url := [], a_name := [], a_value := []\<rparr>"
  have "us \<noteq> []" using Req assms(2) by auto
  with ap_run_url [of ?a new_amsg us] all_taken_short [of 0 us] Req assms show ?thesis by (simp add: pending_def ap_flush_def)
next
  case (Resp code r)
  with assms show ?thesis
    by (simp add: pending_def ap_flush_def new_amsg_def ap_fits_def cbuf_takes_def)
qed

lemma ap_run_complete:
  assumes "pending a (start_half st\<lparr>a_headers := hs\<rparr>) (start_target st)" "start_ok st"
  shows "\<exists>a1. ap_step (On_headers_complete maj mi (start_method st)) a = Some a1 \<and>
              a_hstate a1 \<in> {10, 12} \<and>
              a_msg a1 = Some ((start_msg st new_amsg)\<lparr>a_minor := mi, a_headers := hs\<rparr>)"
proof -
  from assms(1) obtain a1 where a1: "ap_flush a = Some a1" "a_hstate a1 \<in> {10, 12}"
    "a_msg a1 = Some (start_half st\<lparr>a_headers := hs\<rparr>)" "a_url a1 = start_target st"
    by (auto simp: pending_def ap_flush_def split: if_splits option.splits)
  with assms(2) show ?thesis
    by (cases st) (auto simp: ap_target_def new_amsg_def ap_fits_def cbuf_takes_def)
qed

lemma ap_run_wire:
  assumes "a_hstate a \<in> {10, 12}" "wire_ok w"
  shows "\<exists>a1. ap_run (wire_events w) a = Some ([wire_msg w], a1) \<and> a_hstate a1 \<in> {10, 12}"
proof -
  let ?st = "w_start w"
  from assms(2) have ok: "start_ok ?st" "list_all header_ok (w_headers w)" "all_taken bc_takes 0 (w_body w)"
    "int (length (w_headers w)) \<le> INT_MAX"
    by (simp_all add: wire_ok_def)
  from ap_run_start [OF assms(1) ok(1)] obtain a1 where
    a1: "ap_run (On_message_begin # start_events ?st) a = Some ([], a1)"
    "pending a1 (start_half ?st) (start_target ?st)" by blast
  have "a_headers (start_half ?st) = []" by (cases ?st) (simp_all add: new_amsg_def)
  with ap_run_headers [OF a1(2) ok(2)] ok(4) obtain a2 where
    a2: "ap_run (concat (map header_events (w_headers w))) a1 = Some ([], a2)"
    "pending a2 (start_half ?st\<lparr>a_headers := map header_pair (w_headers w)\<rparr>) (start_target ?st)"
    by (cases ?st) (auto simp: new_amsg_def)
  let ?m = "(start_msg ?st new_amsg)\<lparr>a_minor := w_minor w, a_headers := map header_pair (w_headers w)\<rparr>"
  from ap_run_complete [OF a2(2) ok(1)] obtain a3 where
    a3: "ap_step (On_headers_complete (w_major w) (w_minor w) (start_method ?st)) a2 = Some a3"
    "a_hstate a3 \<in> {10, 12}" "a_msg a3 = Some ?m" by blast
  have "a_body ?m = None" by (cases ?st) (simp_all add: new_amsg_def)
  with ap_run_body [OF a3(3), of "w_body w"] ok(3)
  have a4: "ap_run (map On_body (w_body w)) a3 = Some ([], a3\<lparr>a_msg := Some (wire_msg w)\<rparr>)"
    by (simp add: wire_msg_def)
  have "ap_run (On_headers_complete (w_major w) (w_minor w) (start_method ?st) #
      map On_body (w_body w) @ [On_message_complete]) a2 = Some ([wire_msg w], a3\<lparr>a_msg := Some new_amsg\<rparr>)"
    using a3(1) ap_run_seq [OF a4, of "[On_message_complete]"] by (simp del: ap_step.simps)
  from ap_run_seq [OF a1(1) ap_run_seq [OF a2(1) this]] a3(2) show ?thesis
    by (simp add: wire_events_def del: ap_run.simps)
qed

lemma ap_run_wires:
  assumes "a_hstate a \<in> {10, 12}" "list_all wire_ok ws"
  shows "\<exists>a1. ap_run (concat (map wire_events ws)) a = Some (map wire_msg ws, a1) \<and> a_hstate a1 \<in> {10, 12}"
  using assms
proof (induction ws arbitrary: a)
  case (Cons w ws)
  then obtain a1 where a1: "ap_run (wire_events w) a = Some ([wire_msg w], a1)" "a_hstate a1 \<in> {10, 12}"
    using ap_run_wire by fastforce
  with Cons obtain a2 where "ap_run (concat (map wire_events ws)) a1 = Some (map wire_msg ws, a2)"
    "a_hstate a2 \<in> {10, 12}" by fastforce
  with ap_run_seq [OF a1(1) this(1)] show ?case by auto
qed simp

section \<open>Feeding a parser\<close>

definition start_aparser :: aparser where
  "start_aparser = \<lparr>a_msg = None, a_hstate = 10, a_url = [], a_stat = [], a_name = [], a_value = []\<rparr>"

lemma http_message_parser_new_rep:
  "\<exists>p. http_message_parser_new ll = Inr p \<and> parser_rep p start_aparser \<and> m_llhttp_ptr p = ll_init ll"
proof -
  from cbuf_text_new_clear obtain cb where "rbind Cbuffer_new Cbuffer_clear = Inr cb" and t: "cbuf_text cb []"
    by blast
  then obtain b where b: "Cbuffer_new = Inr b" "Cbuffer_clear b = Inr cb" by (auto simp: rbind_eq_Inr)
  from http_message_new_rep obtain m where m: "http_message_new = Inr m" by blast
  show ?thesis
    unfolding http_message_parser_new_def HttpParser_initialize_def b(1) m
    using b(2) t by (simp add: parser_rep_def start_aparser_def hstate_defs)
qed

text \<open>The callbacks that \<open>llhttp\<close> makes over a sequence of buffers.\<close>

fun ll_trace :: "'l llhttp \<Rightarrow> 'l \<Rightarrow> char list list \<Rightarrow> ll_event list" where
  "ll_trace ll l [] = []"
| "ll_trace ll l (c # cs) =
     (case (if c = [] \<and> ll_needs_eof ll l then ll_finish ll l else ll_execute ll l c) of
        (es, err, l1) \<Rightarrow> es @ ll_trace ll l1 cs)"

definition feed ::
  "'l llhttp \<Rightarrow> (HttpMessage \<Rightarrow> 's \<Rightarrow> 's res) \<Rightarrow> char list \<Rightarrow> 'l HttpMessageParser \<times> 's \<Rightarrow>
   ('l HttpMessageParser \<times> 's) res" where
  "feed ll h c ps =
     rbind (http_message_parser_consume ll h (fst ps) c (snd ps)) (\<lambda>(err, p, s). Inr (p, s))"

lemma feed_sim:
  assumes "parser_rep p a" "m_llhttp_ptr p = l" "ap_run (ll_trace ll l cs) a = Some (out, a1)"
  shows "\<exists>ms p1. list_all2 msg_rep ms out \<and> parser_rep p1 a1 \<and>
           (\<forall>(h :: HttpMessage \<Rightarrow> 's \<Rightarrow> 's res) s.
              fold_res (feed ll h) cs (p, s) = rbind (fold_res h ms s) (\<lambda>s1. Inr (p1, s1)))"
  using assms
proof (induction cs arbitrary: p a l out)
  case (Cons c cs)
  obtain es err l1 where r:
    "(if c = [] \<and> ll_needs_eof ll l then ll_finish ll l else ll_execute ll l c) = (es, err, l1)"
    by (metis prod_cases3)
  with Cons.prems(3) obtain o1 a2 o2 where a2: "ap_run es a = Some (o1, a2)"
    "ap_run (ll_trace ll l1 cs) a2 = Some (o2, a1)" "out = o1 @ o2"
    by (auto simp: ap_run_append split: Option.bind_splits)
  from ap_run_sim [OF Cons.prems(1) a2(1)] obtain ms1 p1 where
    ms1: "list_all2 msg_rep ms1 o1" "parser_rep p1 a2"
    "\<And>(h :: HttpMessage \<Rightarrow> 's \<Rightarrow> 's res) s.
       fold_res (llhttp_cb h) es (p, s) = rbind (fold_res h ms1 s) (\<lambda>s1. Inr (p1, s1))" by blast
  from ms1(2) have "parser_rep (p1\<lparr>m_llhttp_ptr := l1\<rparr>) a2" by (simp add: parser_rep_def)
  from Cons.IH [OF this _ a2(2)] obtain ms2 p2 where
    ms2: "list_all2 msg_rep ms2 o2" "parser_rep p2 a1"
    "\<And>(h :: HttpMessage \<Rightarrow> 's \<Rightarrow> 's res) s.
       fold_res (feed ll h) cs (p1\<lparr>m_llhttp_ptr := l1\<rparr>, s) = rbind (fold_res h ms2 s) (\<lambda>s1. Inr (p2, s1))"
    by auto
  have "feed ll h c (p, s) = rbind (fold_res h ms1 s) (\<lambda>s1. Inr (p1\<lparr>m_llhttp_ptr := l1\<rparr>, s1))"
    for h :: "HttpMessage \<Rightarrow> 's \<Rightarrow> 's res" and s
    using Cons.prems(2) r
    by (simp add: feed_def http_message_parser_consume_def run_llhttp_def ms1(3) rbind_assoc)
  then show ?case
    using ms1(1) ms2 a2(3)
    by (intro exI [of _ "ms1 @ ms2"] exI [of _ p2])
       (simp add: list_all2_appendI fold_res_append rbind_assoc)
qed auto

lemma parsed_messages:
  assumes "list_all wire_ok ws"
    and "filter (Not \<circ> quiet) (ll_trace ll (ll_init ll) cs) = concat (map wire_events ws)"
  shows "\<exists>p0 p1 ms. http_message_parser_new ll = Inr p0 \<and> list_all2 msg_rep ms (map wire_msg ws) \<and>
           (\<forall>(h :: HttpMessage \<Rightarrow> 's \<Rightarrow> 's res) s.
              fold_res (feed ll h) cs (p0, s) = rbind (fold_res h ms s) (\<lambda>s1. Inr (p1, s1)))"
proof -
  from http_message_parser_new_rep [of ll] obtain p0 where
    p0: "http_message_parser_new ll = Inr p0" "parser_rep p0 start_aparser" "m_llhttp_ptr p0 = ll_init ll"
    by blast
  have "a_hstate start_aparser \<in> {10, 12}" by (simp add: start_aparser_def)
  from ap_run_wires [OF this assms(1)] obtain a1 where
    "ap_run (ll_trace ll (ll_init ll) cs) start_aparser = Some (map wire_msg ws, a1)"
    using ap_run_quiet assms(2) by metis
  from feed_sim [OF p0(2,3) this, where 's = 's] p0(1) show ?thesis by blast
qed

text \<open>One buffer: the result of \<open>llhttp\<close> decides the messages, the error and the state.\<close>

definition ll_step :: "'l llhttp \<Rightarrow> 'l \<Rightarrow> char list \<Rightarrow> ll_event list \<times> int \<times> 'l" where
  "ll_step ll l c = (if c = [] \<and> ll_needs_eof ll l then ll_finish ll l else ll_execute ll l c)"

lemma consume_sim:
  assumes "parser_rep p a" "ll_step ll (m_llhttp_ptr p) c = (es, err, l1)" "ap_run es a = Some (out, a1)"
  shows "\<exists>ms p1. list_all2 msg_rep ms out \<and> parser_rep p1 a1 \<and> m_llhttp_ptr p1 = l1 \<and>
           (\<forall>(h :: HttpMessage \<Rightarrow> 's \<Rightarrow> 's res) s.
              http_message_parser_consume ll h p c s = rbind (fold_res h ms s) (\<lambda>s1. Inr (err, p1, s1)))"
proof -
  from ap_run_sim [OF assms(1,3)] obtain ms p1 where
    ms: "list_all2 msg_rep ms out" "parser_rep p1 a1"
    "\<And>(h :: HttpMessage \<Rightarrow> 's \<Rightarrow> 's res) s.
       fold_res (llhttp_cb h) es (p, s) = rbind (fold_res h ms s) (\<lambda>s1. Inr (p1, s1))" by blast
  from ms(2) have "parser_rep (p1\<lparr>m_llhttp_ptr := l1\<rparr>) a1" by (simp add: parser_rep_def)
  moreover have "http_message_parser_consume ll h p c s =
      rbind (fold_res h ms s) (\<lambda>s1. Inr (err, p1\<lparr>m_llhttp_ptr := l1\<rparr>, s1))"
    for h :: "HttpMessage \<Rightarrow> 's \<Rightarrow> 's res" and s
    using assms(2)
    by (simp add: ll_step_def http_message_parser_consume_def run_llhttp_def ms(3) rbind_assoc)
  ultimately show ?thesis using ms(1) by (intro exI [of _ ms] exI [of _ "p1\<lparr>m_llhttp_ptr := l1\<rparr>"]) simp
qed

lemma consume_buffer_holds:
  assumes "iob_holds iob c"
  shows "\<exists>iob1. http_message_parser_consume_buffer ll h p iob s =
      rbind (http_message_parser_consume ll h p c s) (\<lambda>(err, p1, s1).
        Inr (err, p1, if err = HPE_OK then iob1 else iob, s1)) \<and> IOBuffer_data_len iob1 = 0"
proof -
  have ok: "iob_ok iob" "iob_data iob = map Some c" using assms by (simp_all add: iob_holds_def)
  have len: "int (length c) = buffer_remaining iob" using length_iob_data [OF ok(1)] ok(2) by simp
  have "mem_read (mem_p iob) (IOBuffer_data iob) (IOBuffer_data_len iob) = Inr c"
    using iob_range [OF ok(1)] ok(2) by (auto simp: mem_read_def mem_range_def split: if_splits)
  moreover have "int (length c) \<le> INT_MAX" using ok(1) len by (simp add: iob_ok_def)
  with IOBuffer_consume_ok(1) [OF ok(1), of "int (length c)"] len obtain iob1 where
    "IOBuffer_consume iob (int (length c)) = Inr iob1" "iob_ok iob1" "iob_data iob1 = []" using ok(2) by auto
  moreover from this have "IOBuffer_data_len iob1 = 0"
    using length_iob_data [of iob1] by (simp add: IOBuffer_data_len_def)
  ultimately show ?thesis
    by (intro exI [of _ iob1]) (auto simp: http_message_parser_consume_buffer_def rbind_def split: sum.splits)
qed

section \<open>Properties\<close>

text \<open>
  C3: The callbacks implement the abstract parser: whatever sequence of callbacks the abstract
  parser accepts, the parser makes without an error, ends in a state that represents the abstract
  one, and passes to the message handler exactly the messages the abstract parser puts out.
\<close>

theorem callbacks_refine:
  assumes "parser_rep p a" "ap_run es a = Some (out, a1)"
  shows "\<exists>ms p1. list_all2 msg_rep ms out \<and> parser_rep p1 a1 \<and>
           (\<forall>h s. fold_res (llhttp_cb h) es (p, s) = rbind (fold_res h ms s) (\<lambda>s1. Inr (p1, s1)))"
  using assms by (rule ap_run_sim)

text \<open>A state machine with two transitions, as a concrete instance of \<open>llhttp\<close>.\<close>

definition demo_ll :: "nat llhttp" where
  "demo_ll =
     \<lparr>ll_init = 0,
      ll_execute = (\<lambda>l c.
        (if l = 0 then [On_message_begin, On_method c, On_url ''/a'', On_url ''b'', On_url_complete,
                        On_header_field ''Ho'']
         else [On_header_field ''st'', On_header_value ''h'', On_header_value_complete,
               On_headers_complete 1 1 1, On_body ''xyz'', On_message_complete], 0, Suc l)),
      ll_finish = (\<lambda>l. ([], 0, l)), ll_needs_eof = (\<lambda>l. False), ll_get_errno = (\<lambda>l. 0),
      ll_get_error_pos = (\<lambda>l. 0)\<rparr>"

theorem callbacks_refine_witness:
  "\<exists>p. http_message_parser_new demo_ll = Inr p \<and>
    (\<exists>ms p1. list_all2 msg_rep ms [new_amsg\<lparr>a_request := Some True\<rparr>] \<and>
       parser_rep p1 (start_aparser\<lparr>a_msg := Some new_amsg, a_url := ''/a''\<rparr>) \<and>
       (\<forall>(h :: HttpMessage \<Rightarrow> unit \<Rightarrow> unit res) s.
          fold_res (llhttp_cb h) [On_message_begin, On_url ''/a'', On_message_complete] (p, s) =
          rbind (fold_res h ms s) (\<lambda>s1. Inr (p1, s1))))"
proof -
  from http_message_parser_new_rep [of demo_ll] obtain p where
    p: "http_message_parser_new demo_ll = Inr p" "parser_rep p start_aparser" by blast
  from callbacks_refine [OF p(2), where es = "[On_message_begin, On_url ''/a'', On_message_complete]"
      and 'b = unit] p(1)
  show ?thesis
    by (simp add: ap_fits_def cbuf_takes_def start_aparser_def del: fold_res.simps)
qed

text \<open>
  C13: A new parser fed with any buffers for which \<open>llhttp\<close> reports the messages \<open>ws\<close>, cut into
  pieces, calls the message handler once per message, in order, with a message whose start line,
  version, headers, and body are those of \<open>ws\<close>, each the concatenation of its pieces. The messages are
  those of \<open>wire_ok\<close>. A target, a header or a body may come in any number of pieces, but the reason
  phrase of a response comes in one. A target has between 1 and 511 bytes and a reason phrase fewer
  than 512. A key is not empty, and a value comes in at least one piece. A piece of a key or a value
  has at most 255 bytes unless the text has fewer than 512 with it, and the text has fewer than 2^20.
  The pieces of a body are not empty and have at most 2147483000 bytes together. No text but the body
  has a zero byte, and a message has at most \<open>INT_MAX\<close> headers.
\<close>

theorem parser_delivers:
  assumes "list_all wire_ok ws"
    and "filter (Not \<circ> quiet) (ll_trace ll (ll_init ll) cs) = concat (map wire_events ws)"
  shows "\<exists>p0 p1 ms. http_message_parser_new ll = Inr p0 \<and> list_all2 msg_rep ms (map wire_msg ws) \<and>
           (\<forall>(h :: HttpMessage \<Rightarrow> 's \<Rightarrow> 's res) s.
              fold_res (feed ll h) cs (p0, s) = rbind (fold_res h ms s) (\<lambda>s1. Inr (p1, s1)))"
  using assms by (rule parsed_messages)

definition demo_wire :: wire where
  "demo_wire = \<lparr>w_start = Req 1 [''/a'', ''b''], w_major = 1, w_minor = 1,
                w_headers = [([''Ho'', ''st''], [''h''])], w_body = [''xyz'']\<rparr>"

theorem parser_delivers_witness:
  "\<exists>p0 p1 ms. http_message_parser_new demo_ll = Inr p0 \<and> list_all2 msg_rep ms [wire_msg demo_wire] \<and>
     (\<forall>(h :: HttpMessage \<Rightarrow> unit \<Rightarrow> unit res) s.
        fold_res (feed demo_ll h) [''x'', ''y''] (p0, s) = rbind (fold_res h ms s) (\<lambda>s1. Inr (p1, s1)))"
  using parser_delivers [of "[demo_wire]" demo_ll "[''x'', ''y'']", where 's = unit]
  by (simp add: demo_ll_def demo_wire_def wire_ok_def INT_MAX_def header_ok_def bc_takes_def cbuf_takes_def
      wire_events_def header_events_def del: fold_res.simps)

lemma status_data_again:
  assumes "parser_rep p a" "a_msg a = Some am" "a_reason am \<noteq> []" "ap_fits (a_stat a) t"
  shows "status_data_cb code t p = Inl Assert_fail"
proof -
  from current_rep [OF assms(1,2)] obtain m where m: "current p = Inr m" "msg_rep m am" by blast
  from cbuf_text_append [of "m_status_buf p" "a_stat a" t] assms(1,4) obtain sb where
    "Cbuffer_append (m_status_buf p) (map Some t) = Inr sb"
    by (auto simp: parser_rep_def cbuf_text_def ap_fits_def)
  moreover from m(2) assms(3) obtain r where "reason m = Some r" "Cbuffer_size r \<noteq> 0"
    by (auto simp: msg_rep_def str_rep_def Cbuffer_size_def cbuf_holds_def)
  ultimately show ?thesis
    using m(1) by (simp add: status_data_cb_def http_message_set_is_request_def
        http_message_set_status_def http_message_set_reason_cbuffer_def live_def c_assert_def)
qed

text \<open>
  A reason phrase that arrives in two pieces aborts the process: the second callback finds
  the reason already set and fails an assertion.
\<close>

lemma split_reason_aborts:
  assumes "r1 \<noteq> []" "no_nul r1" "length (r1 @ r2) < 512"
  shows "\<exists>p. http_message_parser_new ll = Inr p \<and>
     fold_res data_cb [On_message_begin, On_status code r1, On_status code r2] p = Inl Assert_fail"
proof -
  from http_message_parser_new_rep [of ll] obtain p where
    p: "http_message_parser_new ll = Inr p" "parser_rep p start_aparser" by blast
  let ?a = "start_aparser\<lparr>a_msg := Some (new_amsg\<lparr>a_request := Some False, a_status := Some code,
              a_reason := r1\<rparr>), a_stat := r1\<rparr>"
  from message_begin_sim [OF p(2)] obtain p1 where
    p1: "message_begin_cb p = Inr p1" "parser_rep p1 (start_aparser\<lparr>a_msg := Some new_amsg\<rparr>)"
    by (auto simp: start_aparser_def)
  from status_data_sim [OF p1(2), of code r1 ?a] assms obtain p2 where
    "status_data_cb code r1 p1 = Inr p2" "parser_rep p2 ?a"
    by (auto simp: start_aparser_def new_amsg_def ap_fits_def cbuf_takes_def)
  with status_data_again [of p2 ?a _ r2 code] assms p(1) p1(1) show ?thesis
    by (auto simp: ap_fits_def cbuf_takes_def)
qed

lemma url_data_keeps_target:
  assumes "url_data_cb t p = Inr p1" "rbind (current p) (\<lambda>m. Inr (target m)) = Inr x"
  shows "rbind (current p1) (\<lambda>m. Inr (target m)) = Inr x"
  using assms by (auto simp: url_data_cb_def rbind_eq_Inr current_def http_message_set_is_request_def)

lemma url_pieces:
  assumes "parser_rep p a" "a_msg a \<noteq> None" "all_taken cbuf_takes (length (a_url a)) us"
    "rbind (current p) (\<lambda>m. Inr (target m)) = Inr x"
  shows "\<exists>p1 a1. fold_res data_cb (map On_url us) p = Inr p1 \<and> parser_rep p1 a1 \<and>
           a_url a1 = a_url a @ concat us \<and> a_name a1 = a_name a \<and>
           rbind (current p1) (\<lambda>m. Inr (target m)) = Inr x"
  using assms
proof (induction us arbitrary: p a)
  case (Cons u us)
  then obtain a2 where a2: "ap_step (On_url u) a = Some a2" "a_msg a2 \<noteq> None" "a_url a2 = a_url a @ u"
    "a_name a2 = a_name a" by (auto simp: ap_fits_def)
  from url_data_sim [OF Cons.prems(1) a2(1)] obtain p2 where
    p2: "url_data_cb u p = Inr p2" "parser_rep p2 a2" by blast
  from Cons.IH [OF p2(2) a2(2)] url_data_keeps_target [OF p2(1) Cons.prems(4)] Cons.prems(3) a2 p2(1)
  show ?case by auto
qed auto

lemma message_begin_target:
  assumes "message_begin_cb p = Inr p1" "current_message_ptr p = None" "Cbuffer_new = Inr cb"
  shows "rbind (current p1) (\<lambda>m. Inr (target m)) = Inr (Some cb)"
  using assms(1,2) unfolding message_begin_cb_def http_message_new_def assms(3)
  by (auto simp: rbind_eq_Inr current_def)

text \<open>
  A request target of 512 bytes or more (up to 1 MB), however it was cut into pieces, makes
  the parser write behind the block of the message's target buffer when the headers are complete.
\<close>

lemma long_target_overflows:
  assumes "all_taken cbuf_takes 0 us" "512 \<le> length (concat us)" "no_nul (concat us)"
  shows "\<exists>p. http_message_parser_new ll = Inr p \<and>
     fold_res data_cb (On_message_begin # map On_url us @ [On_headers_complete maj mi meth]) p =
       Inl Out_of_bounds"
proof -
  from http_message_parser_new_rep [of ll] obtain p where
    p: "http_message_parser_new ll = Inr p" "parser_rep p start_aparser" by blast
  then have none: "current_message_ptr p = None" by (simp add: parser_rep_def start_aparser_def)
  let ?a = "start_aparser\<lparr>a_msg := Some new_amsg\<rparr>"
  from message_begin_sim [OF p(2)] obtain p1 where p1: "message_begin_cb p = Inr p1" "parser_rep p1 ?a"
    by (auto simp: start_aparser_def)
  have cb: "Cbuffer_new = Inr cbuf_empty"
    by (simp add: Cbuffer_new_def BufferStrategy_allocate_def common_strategy_def max_of_two_def cbuf_empty_def)
  from url_pieces [OF p1(2), of us] message_begin_target [OF p1(1) none cb] assms(1) obtain p2 a2 where
    p2: "fold_res data_cb (map On_url us) p1 = Inr p2" "parser_rep p2 a2" "a_url a2 = concat us" "a_name a2 = []"
      "rbind (current p2) (\<lambda>m. Inr (target m)) = Inr (Some cbuf_empty)"
    by (auto simp: start_aparser_def)
  from p2(5) obtain m where m: "current p2 = Inr m" "target m = Some cbuf_empty" by (auto simp: rbind_eq_Inr)
  from p2(2-4) have bufs: "cbuf_text (m_url_buf p2) (concat us)" "Cbuffer_size (m_name_buf p2) = 0"
    by (auto simp: parser_rep_def cbuf_text_size)
  have "length (concat us) \<le> 1048576"
    using bufs(1) by (simp add: cbuf_text_def cbuf_holds_def cbuf_ok_def)
  then have "Cbuffer_append cbuf_empty (map Some (concat us)) = Inl Out_of_bounds"
    using assms(2)
    by (intro Cbuffer_append_off_the_end [OF cbuf_empty_holds])
       (auto simp: cbuf_limit_def cbuf_empty_def simp del: concat_eq_Nil_conv)
  moreover have "Cbuffer_size (m_url_buf p2) \<noteq> 0" "Cbuffer_size cbuf_empty = 0"
    using cbuf_text_size [OF bufs(1)] assms(2) by (linarith, simp add: Cbuffer_size_def cbuf_empty_def)
  ultimately have "headers_complete_cb maj mi meth p2 = Inl Out_of_bounds"
    using m bufs(2) cbuf_text_cstr [OF bufs(1) assms(3)]
    by (simp add: headers_complete_cb_def http_message_set_version_def http_message_set_method_def
        http_message_set_target_cbuffer_def live_def c_assert_def Cbuffer_append_cstr_def Let_def)
  with p(1) p1(1) p2(1) show ?thesis by (simp add: fold_res_append)
qed

definition demo_piece :: "char list" where
  "demo_piece = replicate 255 CHR ''a''"

lemma demo_piece [simp]: "length demo_piece = 255" "no_nul demo_piece"
  by (simp_all only: demo_piece_def no_nul_def) (auto simp: in_set_replicate)

end
