(* ===== verification/Http_Sync_Socket.thy ===== *)
theory Http_Sync_Socket
  imports Http_Parser_Spec
begin

text \<open>
  Synchronous sockets: \<^verbatim>\<open>src/http_protocol/http_sync_socket.c\<close>, which reads and writes whole
  messages on a blocking descriptor.

  What the calls of \<open>read\<close> return is an argument: one byte string per call, the empty one for the
  end of the stream or an error. A call beyond the last one never returns, which is the error
  \<open>Would_block\<close>. Connecting is left to the operating system.
\<close>

section \<open>Operations\<close>

text \<open>The descriptor is not set by \<open>init\<close>.\<close>

record 'l HttpSyncSocket =
  ss_sock :: "int option"
  ss_parser :: "'l HttpMessageParser"
  ss_input :: "HttpMessage List"
  ss_output :: "HttpMessage List"

definition on_new_message :: "HttpMessage \<Rightarrow> HttpMessage List \<Rightarrow> HttpMessage List res" where
  "on_new_message msg lst = List_add_back lst msg"

definition http_syncsocket_init :: "'l llhttp \<Rightarrow> 'l HttpSyncSocket res" where
  "http_syncsocket_init ll =
     rbind (http_message_parser_new ll) (\<lambda>p.
     Inr \<lparr>ss_sock = None, ss_parser = p, ss_input = List_new, ss_output = List_new\<rparr>)"

definition http_syncsocket_new :: "'l llhttp \<Rightarrow> 'l HttpSyncSocket res" where
  "http_syncsocket_new ll = http_syncsocket_init ll"

definition http_syncsocket_new_from_fd :: "'l llhttp \<Rightarrow> int \<Rightarrow> 'l HttpSyncSocket res" where
  "http_syncsocket_new_from_fd ll fd =
     rbind (http_syncsocket_init ll) (\<lambda>this. Inr (this\<lparr>ss_sock := Some fd\<rparr>))"

text \<open>\<open>bytes_written\<close> and \<open>errno\<close> are what \<open>write\<close> leaves.\<close>

definition http_syncsocket_write_message ::
  "(int \<Rightarrow> char list) \<Rightarrow> HttpMessage \<Rightarrow> int \<Rightarrow> int \<Rightarrow> int res" where
  "http_syncsocket_write_message method_name msg bytes_written errno =
     rbind (http_message_serialize method_name msg) (\<lambda>outbuf.
     let out_len = IOBuffer_data_len outbuf in
     rbind (c_assert (out_len > 0)) (\<lambda>_.
     if bytes_written \<noteq> out_len \<and> bytes_written > 0 then Inl Assert_fail
     else if bytes_written \<noteq> out_len \<and> bytes_written = 0 then Inr (-1)
     else Inr errno))"

fun http_syncsocket_read_message ::
  "'l llhttp \<Rightarrow> 'l HttpSyncSocket \<Rightarrow> char list list \<Rightarrow>
   (int \<times> HttpMessage option \<times> 'l HttpSyncSocket \<times> char list list) res" where
  "http_syncsocket_read_message ll this reads =
     (if List_size (ss_input this) > 0 then
        rbind (List_remove_first (ss_input this)) (\<lambda>(m, lst).
        Inr (0, m, this\<lparr>ss_input := lst\<rparr>, reads))
      else
        rbind (IOBuffer_new_with_capacity 20000) (\<lambda>iob.
        case reads of
          [] \<Rightarrow> Inl Would_block
        | bs # reads1 \<Rightarrow>
            if bs \<noteq> [] then
              rbind (read_into iob bs) (\<lambda>iob1.
              rbind (http_message_parser_consume_buffer ll on_new_message (ss_parser this) iob1 (ss_input this))
                (\<lambda>(rc, p, iob2, lst).
              let this1 = this\<lparr>ss_parser := p, ss_input := lst\<rparr> in
              if rc \<noteq> 0 then Inr (-1, None, this1, reads1)
              else http_syncsocket_read_message ll this1 reads1))
            else Inr (-1, None, this, reads1)))"

declare http_syncsocket_read_message.simps [simp del]

section \<open>Reading messages\<close>

text \<open>The messages that a parser will complete over a sequence of buffers, without an error.\<close>

fun supplies :: "'l llhttp \<Rightarrow> 'l HttpMessageParser \<Rightarrow> char list list \<Rightarrow> HttpMessage list \<Rightarrow> bool" where
  "supplies ll p [] ms \<longleftrightarrow> ms = []"
| "supplies ll p (c # cs) ms \<longleftrightarrow>
     (\<exists>ms1 ms2 p1. ms = ms1 @ ms2 \<and>
        (\<forall>(h :: HttpMessage \<Rightarrow> HttpMessage List \<Rightarrow> HttpMessage List res) s.
           http_message_parser_consume ll h p c s = rbind (fold_res h ms1 s) (\<lambda>s1. Inr (HPE_OK, p1, s1))) \<and>
        supplies ll p1 cs ms2)"

fun ll_clean :: "'l llhttp \<Rightarrow> 'l \<Rightarrow> char list list \<Rightarrow> bool" where
  "ll_clean ll l [] \<longleftrightarrow> True"
| "ll_clean ll l (c # cs) \<longleftrightarrow> (case ll_step ll l c of (es, err, l1) \<Rightarrow> err = HPE_OK \<and> ll_clean ll l1 cs)"

lemma supplies_ex:
  assumes "parser_rep p a" "ap_run (ll_trace ll (m_llhttp_ptr p) cs) a = Some (out, a1)"
    "ll_clean ll (m_llhttp_ptr p) cs"
  shows "\<exists>ms. supplies ll p cs ms \<and> list_all2 msg_rep ms out"
  using assms
proof (induction cs arbitrary: p a out)
  case (Cons c cs)
  obtain es err l1 where r: "ll_step ll (m_llhttp_ptr p) c = (es, err, l1)" by (metis prod_cases3)
  then have t: "ll_trace ll (m_llhttp_ptr p) (c # cs) = es @ ll_trace ll l1 cs" by (auto simp: ll_step_def)
  from Cons.prems(2) obtain o1 a2 o2 where a2: "ap_run es a = Some (o1, a2)"
    "ap_run (ll_trace ll l1 cs) a2 = Some (o2, a1)" "out = o1 @ o2"
    unfolding t by (auto simp: ap_run_append split: Option.bind_splits)
  from consume_sim [OF Cons.prems(1) r a2(1), where 's = "HttpMessage List"] obtain ms1 p1 where
    ms1: "list_all2 msg_rep ms1 o1" "parser_rep p1 a2" "m_llhttp_ptr p1 = l1"
    "\<forall>(h :: HttpMessage \<Rightarrow> HttpMessage List \<Rightarrow> HttpMessage List res) s.
       http_message_parser_consume ll h p c s = rbind (fold_res h ms1 s) (\<lambda>s1. Inr (err, p1, s1))"
    by (elim exE conjE)
  from Cons.prems(3) r have e: "err = HPE_OK" "ll_clean ll l1 cs" by auto
  from Cons.IH [OF ms1(2), of o2] a2(2) e(2) ms1(3) obtain ms2 where
    "supplies ll p1 cs ms2" "list_all2 msg_rep ms2 o2" by auto
  with ms1(1,4) e(1) a2(3) show ?case
    by (intro exI [of _ "ms1 @ ms2"]) (auto intro: list_all2_appendI)
qed auto

lemma read_message_supplies:
  assumes "List_ok (ss_input this)" "supplies ll (ss_parser this) cs ms"
    "contents (ss_input this) @ ms = m # rest" "list_all (\<lambda>c. c \<noteq> [] \<and> length c \<le> 20000) cs"
    "int (Suc (length rest)) \<le> INT_MAX"
  shows "\<exists>this' cs' ms'. http_syncsocket_read_message ll this cs = Inr (0, Some m, this', cs') \<and>
     List_ok (ss_input this') \<and> supplies ll (ss_parser this') cs' ms' \<and>
     contents (ss_input this') @ ms' = rest \<and> list_all (\<lambda>c. c \<noteq> [] \<and> length c \<le> 20000) cs'"
  using assms
proof (induction cs arbitrary: this ms)
  case Nil
  then have c: "contents (ss_input this) = m # rest" by simp
  from lq.remove_first_law [OF Nil(1)] c lq.size_law [OF Nil(1)] Nil show ?case
    by (auto simp: http_syncsocket_read_message.simps)
next
  case (Cons c cs)
  show ?case
  proof (cases "contents (ss_input this)")
    case (Cons x xs)
    with lq.remove_first_law [OF Cons.prems(1)] obtain l' where
      l': "List_remove_first (ss_input this) = Inr (Some x, l')" "List_ok l'" "contents l' = xs" by auto
    then have "http_syncsocket_read_message ll this (c # cs) = Inr (0, Some m, this\<lparr>ss_input := l'\<rparr>, c # cs)"
      using Cons lq.size_law [OF Cons.prems(1)] Cons.prems(3)
      by (subst http_syncsocket_read_message.simps) simp
    with l' Cons Cons.prems(2-4) show ?thesis
      by (intro exI [of _ "this\<lparr>ss_input := l'\<rparr>"] exI [of _ "c # cs"] exI [of _ ms])
        (simp del: supplies.simps)
  next
    case Nil
    from Cons.prems(2) obtain ms1 ms2 p1 where ms: "ms = ms1 @ ms2" "supplies ll p1 cs ms2"
      "\<And>(h :: HttpMessage \<Rightarrow> HttpMessage List \<Rightarrow> HttpMessage List res) s.
         http_message_parser_consume ll h (ss_parser this) c s =
         rbind (fold_res h ms1 s) (\<lambda>s1. Inr (HPE_OK, p1, s1))" by auto
    from Cons.prems(4) read_into_holds [of c 20000] obtain iob iob1 where
      iob: "IOBuffer_new_with_capacity 20000 = Inr iob" "read_into iob c = Inr iob1" "iob_holds iob1 c"
      by (auto simp: INT_MAX_def)
    have "int (length ms1) \<le> INT_MAX"
      using arg_cong [OF Cons.prems(3), of length] Cons.prems(5) ms(1) Nil by simp
    with lq.add_all [OF Cons.prems(1), of ms1] Nil obtain lst where
      lst: "fold_res on_new_message ms1 (ss_input this) = Inr lst" "List_ok lst" "contents lst = ms1"
      by (auto simp: on_new_message_def [abs_def])
    from consume_buffer_holds [OF iob(3), of ll on_new_message "ss_parser this" "ss_input this"] obtain iob2 where
      "http_message_parser_consume_buffer ll on_new_message (ss_parser this) iob1 (ss_input this) =
       Inr (HPE_OK, p1, iob2, lst)" by (auto simp: ms(3) lst(1))
    then have "http_syncsocket_read_message ll this (c # cs) =
        http_syncsocket_read_message ll (this\<lparr>ss_parser := p1, ss_input := lst\<rparr>) cs"
      using Cons.prems(4) iob(1,2) Nil lq.size_law [OF Cons.prems(1)]
      by (subst http_syncsocket_read_message.simps) (simp add: HPE_OK_def)
    with Cons.IH [of "this\<lparr>ss_parser := p1, ss_input := lst\<rparr>" ms2] lst ms Nil Cons.prems(3-5) show ?thesis
      by auto
  qed
qed

fun read_messages ::
  "nat \<Rightarrow> 'l llhttp \<Rightarrow> 'l HttpSyncSocket \<times> char list list \<Rightarrow> (int \<times> HttpMessage option) list res" where
  "read_messages 0 ll st = Inr []"
| "read_messages (Suc n) ll st =
     rbind (http_syncsocket_read_message ll (fst st) (snd st)) (\<lambda>(rc, m, st1).
     rbind (read_messages n ll st1) (\<lambda>ms. Inr ((rc, m) # ms)))"

lemma read_messages_supplies:
  assumes "List_ok (ss_input this)" "supplies ll (ss_parser this) cs ms"
    "list_all (\<lambda>c. c \<noteq> [] \<and> length c \<le> 20000) cs"
    "int (length (contents (ss_input this) @ ms)) \<le> INT_MAX"
  shows "read_messages (length (contents (ss_input this) @ ms)) ll (this, cs) =
     Inr (map (\<lambda>m. (0, Some m)) (contents (ss_input this) @ ms))"
  using assms
proof (induction "contents (ss_input this) @ ms" arbitrary: this cs ms)
  case Nil
  then show ?case by (metis list.map(1) list.size(3) read_messages.simps(1))
next
  case (Cons m rest)
  have l: "int (Suc (length rest)) \<le> INT_MAX" using Cons.prems(4) unfolding Cons.hyps(2) [symmetric] by simp
  from read_message_supplies [OF Cons.prems(1,2) Cons.hyps(2) [symmetric] Cons.prems(3) l] obtain this' cs' ms' where
    r: "http_syncsocket_read_message ll this cs = Inr (0, Some m, this', cs')" "List_ok (ss_input this')"
    "supplies ll (ss_parser this') cs' ms'" "contents (ss_input this') @ ms' = rest"
    "list_all (\<lambda>c. c \<noteq> [] \<and> length c \<le> 20000) cs'" by blast
  from Cons.hyps(1) [OF r(4) [symmetric] r(2,3,5)] l r(1,4) show ?case
    unfolding Cons.hyps(2) [symmetric] by simp
qed

text \<open>
  C34: A new synchronous socket, read once per message, returns the messages of the stream in
  order, each with status 0, for every way the stream is cut into reads of at most 20000 bytes, as
  long as \<open>llhttp\<close> reports no error and the stream has at most \<open>INT_MAX\<close> messages. The messages are
  those of \<open>wire_ok\<close>: \<open>llhttp\<close> reports the reason phrase of a response in one piece, targets and
  reason phrases have fewer than 512 bytes, no text has a zero byte, and there are at most \<open>INT_MAX\<close>
  headers; a header of a message has a key and fits its buffers.
\<close>

theorem syncsocket_reads_in_order:
  assumes "list_all wire_ok ws" "int (length ws) \<le> INT_MAX" "list_all (\<lambda>c. c \<noteq> [] \<and> length c \<le> 20000) cs"
    and "ll_clean ll (ll_init ll) cs"
    and "filter (Not \<circ> quiet) (ll_trace ll (ll_init ll) cs) = concat (map wire_events ws)"
  shows "\<exists>this ms. http_syncsocket_new_from_fd ll fd = Inr this \<and> list_all2 msg_rep ms (map wire_msg ws) \<and>
     read_messages (length ws) ll (this, cs) = Inr (map (\<lambda>m. (0, Some m)) ms)"
proof -
  from http_message_parser_new_rep [of ll] obtain p0 where
    p0: "http_message_parser_new ll = Inr p0" "parser_rep p0 start_aparser" "m_llhttp_ptr p0 = ll_init ll"
    by blast
  have "a_hstate start_aparser \<in> {10, 12}" by (simp add: start_aparser_def)
  from ap_run_wires [OF this assms(1)] obtain a1 where
    "ap_run (ll_trace ll (ll_init ll) cs) start_aparser = Some (map wire_msg ws, a1)"
    using ap_run_quiet assms(5) by metis
  with supplies_ex [OF p0(2), of ll cs "map wire_msg ws" a1] p0(3) assms(4) obtain ms where
    ms: "supplies ll p0 cs ms" "list_all2 msg_rep ms (map wire_msg ws)" by auto
  let ?sk = "\<lparr>ss_sock = Some fd, ss_parser = p0, ss_input = List_new, ss_output = List_new\<rparr>"
  have "http_syncsocket_new_from_fd ll fd = Inr ?sk"
    by (simp add: http_syncsocket_new_from_fd_def http_syncsocket_init_def p0(1))
  moreover have "length ms = length ws" using list_all2_lengthD [OF ms(2)] by simp
  ultimately show ?thesis
    using read_messages_supplies [of ?sk ll cs ms] ms assms(2,3)
    by (intro exI [of _ ?sk] exI [of _ ms]) (simp add: lq.new_law)
qed

theorem syncsocket_reads_in_order_witness:
  "\<exists>this ms. http_syncsocket_new_from_fd demo_ll 7 = Inr this \<and> list_all2 msg_rep ms [wire_msg demo_wire] \<and>
     read_messages 1 demo_ll (this, [''x'', ''y'']) = Inr (map (\<lambda>m. (0, Some m)) ms)"
  using syncsocket_reads_in_order [of "[demo_wire]" "[''x'', ''y'']" demo_ll 7]
  by (simp add: demo_ll_def demo_wire_def wire_ok_def INT_MAX_def header_ok_def bc_takes_def cbuf_takes_def
      wire_events_def header_events_def ll_step_def HPE_OK_def)

text \<open>A complete write returns the stale error number, not zero.\<close>

lemma write_message_status:
  assumes "http_message_serialize nm m = Inr iob" "0 < IOBuffer_data_len iob"
  shows "http_syncsocket_write_message nm m (IOBuffer_data_len iob) errno = Inr errno"
    and "http_syncsocket_write_message nm m 0 errno = Inr (-1)"
    and "0 < k \<Longrightarrow> k < IOBuffer_data_len iob \<Longrightarrow> http_syncsocket_write_message nm m k errno = Inl Assert_fail"
  using assms by (simp_all add: http_syncsocket_write_message_def Let_def c_assert_def)

end
