(* ===== verification/Functor_List.thy ===== *)
theory Functor_List
  imports C_Ring
begin

text \<open>
  Functors and the list of ready functors: \<^verbatim>\<open>src/runloop/epoll_runloop/functor.c\<close> and
  \<^verbatim>\<open>functor_list.c\<close>.

  A functor is a function pointer and an argument; both may be \<open>NULL\<close>. The list is a ring over
  a block of \<open>capacity + 1\<close> cells that \<open>malloc\<close> leaves uninitialised. Reading an uninitialised
  cell or a cell outside the block is an error. The capacity is bounded by an assertion, so that
  the index arithmetic stays in the range of \<open>int\<close>.
\<close>

section \<open>Operations\<close>

record ('c, 'a) Functor =
  fn :: "'c option"
  fn_arg :: "'a option"

definition Functor_new :: "'c option \<Rightarrow> 'a option \<Rightarrow> ('c, 'a) Functor" where
  "Functor_new f a = \<lparr>fn = f, fn_arg = a\<rparr>"

definition Functor_init :: "('c, 'a) Functor \<Rightarrow> 'c option \<Rightarrow> 'a option \<Rightarrow> ('c, 'a) Functor" where
  "Functor_init this f a = this\<lparr>fn := f, fn_arg := a\<rparr>"

definition Functor_is_empty :: "('c, 'a) Functor \<Rightarrow> bool" where
  "Functor_is_empty this \<longleftrightarrow> fn this = None \<and> fn_arg this = None"

text \<open>Calling through a \<open>NULL\<close> function pointer is an error; \<open>call\<close> says what a function does.\<close>

definition Functor_call ::
  "('c \<Rightarrow> 'a option \<Rightarrow> 's \<Rightarrow> 's res) \<Rightarrow> ('c, 'a) Functor \<Rightarrow> 's \<Rightarrow> 's res" where
  "Functor_call call this s =
     (case fn this of None \<Rightarrow> Inl Null_deref | Some f \<Rightarrow> call f (fn_arg this) s)"

record 'f FunctorList =
  fl_capacity :: int
  fl_head :: int
  tail_plus :: int
  fl_cells :: "'f option list"

definition runloop_MAX_FDS :: int where "runloop_MAX_FDS = 1024"

definition runloop_READY_LIST_MAX :: int where "runloop_READY_LIST_MAX = 2 * runloop_MAX_FDS"

text \<open>The remainder operator of C truncates towards zero.\<close>

definition c_rem :: "int \<Rightarrow> int \<Rightarrow> int res" where
  "c_rem a b = (if b = 0 then Inl Div_by_zero else Inr (sgn a * (\<bar>a\<bar> mod \<bar>b\<bar>)))"

definition set_functor_entry :: "'f FunctorList \<Rightarrow> int \<Rightarrow> 'f \<Rightarrow> 'f FunctorList res" where
  "set_functor_entry lst i func =
     (if 0 \<le> i \<and> nat i < length (fl_cells lst)
      then Inr (lst\<lparr>fl_cells := (fl_cells lst)[nat i := Some func]\<rparr>) else Inl Out_of_bounds)"

definition get_functor_entry :: "'f FunctorList \<Rightarrow> int \<Rightarrow> 'f res" where
  "get_functor_entry lst i =
     (if 0 \<le> i \<and> nat i < length (fl_cells lst)
      then (case fl_cells lst ! nat i of None \<Rightarrow> Inl Uninit_read | Some f \<Rightarrow> Inr f)
      else Inl Out_of_bounds)"

definition functor_list_new :: "int \<Rightarrow> 'f FunctorList res" where
  "functor_list_new cap =
     rbind (c_assert (cap \<le> runloop_READY_LIST_MAX)) (\<lambda>_.
     Inr \<lparr>fl_capacity = cap, fl_head = 0, tail_plus = 0, fl_cells = replicate (nat (cap + 1)) None\<rparr>)"

definition functor_list_add :: "'f FunctorList \<Rightarrow> 'f \<Rightarrow> 'f FunctorList res" where
  "functor_list_add lst func =
     rbind (c_rem (fl_head lst + 1) (fl_capacity lst)) (\<lambda>tmp.
     rbind (c_assert (tmp \<noteq> tail_plus lst)) (\<lambda>_.
     set_functor_entry (lst\<lparr>fl_head := tmp\<rparr>) tmp func))"

definition functor_list_size :: "'f FunctorList \<Rightarrow> int res" where
  "functor_list_size lst = c_rem (fl_head lst + fl_capacity lst - tail_plus lst) (fl_capacity lst)"

definition functor_list_remove :: "'f FunctorList \<Rightarrow> ('f \<times> 'f FunctorList) res" where
  "functor_list_remove lst =
     rbind (functor_list_size lst) (\<lambda>n.
     rbind (c_assert (n \<noteq> 0)) (\<lambda>_.
     rbind (c_rem (tail_plus lst + 1) (fl_capacity lst)) (\<lambda>tmpix.
     rbind (get_functor_entry lst tmpix) (\<lambda>f.
     Inr (f, lst\<lparr>tail_plus := tmpix\<rparr>)))))"

section \<open>A bounded queue\<close>

text \<open>
  The cell at \<open>tail_plus\<close> is never used, so a list of capacity \<open>n\<close> holds at most \<open>n - 1\<close>
  functors: those in the \<open>n\<close> first cells, read circularly from the one after \<open>tail_plus\<close>.
\<close>

definition fl_rep :: "'f FunctorList \<Rightarrow> 'f list \<Rightarrow> bool" where
  "fl_rep lst xs \<longleftrightarrow>
     (\<exists>n t. fl_capacity lst = int n \<and> tail_plus lst = int t \<and> t < n \<and> n \<le> 2048 \<and>
        length (fl_cells lst) = n + 1 \<and> length xs < n \<and>
        fl_head lst = int ((t + length xs) mod n) \<and> ring_rep (fl_cells lst) n ((t + 1) mod n) xs)"

definition fl_len :: "'f FunctorList \<Rightarrow> nat" where
  "fl_len lst = nat ((fl_head lst + fl_capacity lst - tail_plus lst) mod fl_capacity lst)"

definition fl_items :: "'f FunctorList \<Rightarrow> 'f list" where
  "fl_items lst =
     map (\<lambda>i. the (fl_cells lst ! nat ((tail_plus lst + 1 + int i) mod fl_capacity lst))) [0..<fl_len lst]"

definition fl_ok :: "'f FunctorList \<Rightarrow> bool" where
  "fl_ok lst \<longleftrightarrow> fl_rep lst (fl_items lst)"

definition fl_room :: "'f FunctorList \<Rightarrow> nat" where
  "fl_room lst = nat (fl_capacity lst - 1)"

lemma c_rem_int: "0 < n \<Longrightarrow> c_rem (int a) (int n) = Inr (int (a mod n))"
  by (cases "a = 0") (auto simp: c_rem_def zmod_int)

lemma ring_distance:
  fixes t k n :: nat
  assumes "t < n" "k < n"
  shows "((t + k) mod n + n - t) mod n = k"
proof (cases "t + k < n")
  case False
  then have "(t + k) mod n = t + k - n" using assms by (simp add: mod_if)
  with False assms show ?thesis by simp
qed (use assms in simp)

lemma fl_rep_len:
  assumes "fl_rep lst xs"
  shows "fl_len lst = length xs" "functor_list_size lst = Inr (int (length xs))"
proof -
  from assms obtain n t where n: "fl_capacity lst = int n" "tail_plus lst = int t" "t < n" "length xs < n"
    "fl_head lst = int ((t + length xs) mod n)" by (auto simp: fl_rep_def)
  then have d: "fl_head lst + fl_capacity lst - tail_plus lst = int ((t + length xs) mod n + n - t)"
    by (simp add: of_nat_diff)
  show "fl_len lst = length xs"
    unfolding fl_len_def d unfolding n(1) using ring_distance [OF n(3,4)]
    by (simp only: zmod_int [symmetric] nat_int)
  show "functor_list_size lst = Inr (int (length xs))"
    unfolding functor_list_size_def d unfolding n(1)
    using c_rem_int [of n "(t + length xs) mod n + n - t"] n(3) unfolding ring_distance [OF n(3,4)] by simp
qed

lemma fl_rep_items:
  assumes "fl_rep lst xs"
  shows "fl_items lst = xs"
proof (rule nth_equalityI)
  show "length (fl_items lst) = length xs" by (simp add: fl_items_def fl_rep_len [OF assms])
  fix i
  assume i: "i < length (fl_items lst)"
  then have i: "i < length xs" by (simp add: fl_items_def fl_rep_len [OF assms])
  from assms obtain n t where n: "fl_capacity lst = int n" "tail_plus lst = int t" "t < n"
    "ring_rep (fl_cells lst) n ((t + 1) mod n) xs" by (auto simp: fl_rep_def)
  have "nat ((tail_plus lst + 1 + int i) mod fl_capacity lst) = ((t + 1) mod n + i) mod n"
  proof -
    have "tail_plus lst + 1 + int i = int (t + 1 + i)" by (simp add: n(2))
    then have "(tail_plus lst + 1 + int i) mod fl_capacity lst = int ((t + 1 + i) mod n)"
      by (simp only: n(1) zmod_int)
    then show ?thesis by (simp add: mod_simps)
  qed
  with n(4) i show "fl_items lst ! i = xs ! i"
    by (simp add: fl_items_def fl_rep_len [OF assms] ring_rep_def)
qed

lemma fl_rep_iff: "fl_rep lst xs \<longleftrightarrow> fl_ok lst \<and> fl_items lst = xs"
  using fl_rep_items by (auto simp: fl_ok_def)

lemma functor_list_new_rep:
  assumes "0 < cap" "cap \<le> 2048"
  shows "\<exists>lst. functor_list_new cap = Inr lst \<and> fl_rep lst [] \<and> fl_room lst = nat (cap - 1)"
proof -
  obtain n where "cap = int n" "0 < n" using assms(1) by (metis zero_less_imp_eq_int)
  with assms show ?thesis
    by (auto simp: functor_list_new_def runloop_READY_LIST_MAX_def runloop_MAX_FDS_def c_assert_def fl_rep_def
        fl_room_def nat_add_distrib intro!: exI [of _ n])
qed

lemma functor_list_add_rep:
  assumes "fl_rep lst xs"
  shows "length xs < fl_room lst \<Longrightarrow>
           \<exists>lst'. functor_list_add lst x = Inr lst' \<and> fl_rep lst' (xs @ [x]) \<and> fl_room lst' = fl_room lst"
    and "length xs = fl_room lst \<Longrightarrow> functor_list_add lst x = Inl Assert_fail"
proof -
  from assms obtain n t where n: "fl_capacity lst = int n" "tail_plus lst = int t" "t < n" "n \<le> 2048"
      "length (fl_cells lst) = n + 1" "length xs < n" "fl_head lst = int ((t + length xs) mod n)"
    and ring: "ring_rep (fl_cells lst) n ((t + 1) mod n) xs" by (auto simp: fl_rep_def)
  have room: "fl_room lst = n - 1" by (simp add: fl_room_def n(1))
  let ?h = "(t + length xs + 1) mod n"
  have h: "c_rem (fl_head lst + 1) (fl_capacity lst) = Inr (int ?h)"
    using c_rem_int [of n "(t + length xs) mod n + 1"] n(1,3,7) by (simp add: mod_Suc_eq add.commute)
  have hn: "?h < n" using n(3) by simp
  have eq: "?h = t \<longleftrightarrow> length xs + 1 = n"
    using ring_next_eq_first_iff [of t n "length xs + 1"] n(3,6) by auto
  have idx: "((t + 1) mod n + length xs) mod n = ?h" by (simp add: mod_simps)
  {
    assume "length xs < fl_room lst"
    then have lt: "length xs + 1 < n" using room by simp
    have "ring_rep ((fl_cells lst)[?h := Some x]) n ((t + 1) mod n) (xs @ [x])"
      using ring_put [OF ring, of x] lt idx by simp
    with n h hn eq lt room show
      "\<exists>lst'. functor_list_add lst x = Inr lst' \<and> fl_rep lst' (xs @ [x]) \<and> fl_room lst' = fl_room lst"
      by (auto simp: functor_list_add_def set_functor_entry_def c_assert_def fl_rep_def fl_room_def
          less_Suc_eq)
  next
    assume "length xs = fl_room lst"
    with room n(6) have "length xs + 1 = n" by simp
    with h eq n(2) show "functor_list_add lst x = Inl Assert_fail"
      by (simp add: functor_list_add_def c_assert_def)
  }
qed

lemma functor_list_remove_rep:
  assumes "fl_rep lst xs"
  shows "xs = [] \<Longrightarrow> functor_list_remove lst = Inl Assert_fail"
    and "xs = y # ys \<Longrightarrow>
           \<exists>lst'. functor_list_remove lst = Inr (y, lst') \<and> fl_rep lst' ys \<and> fl_room lst' = fl_room lst"
proof -
  show "functor_list_remove lst = Inl Assert_fail" if "xs = []"
    using fl_rep_len(2) [OF assms] that by (simp add: functor_list_remove_def c_assert_def)
next
  assume xs: "xs = y # ys"
  from assms obtain n t where n: "fl_capacity lst = int n" "tail_plus lst = int t" "t < n" "n \<le> 2048"
      "length (fl_cells lst) = n + 1" "length xs < n" "fl_head lst = int ((t + length xs) mod n)"
    and ring: "ring_rep (fl_cells lst) n ((t + 1) mod n) (y # ys)" by (auto simp: fl_rep_def xs)
  let ?t = "(t + 1) mod n"
  have t: "c_rem (tail_plus lst + 1) (fl_capacity lst) = Inr (int ?t)" "?t < n"
    using c_rem_int [of n "t + 1"] n(1-3) by (simp_all add: add.commute)
  have get: "get_functor_entry lst (int ?t) = Inr y"
    using ring_get(1) [OF ring] t(2) n(5) by (simp add: get_functor_entry_def)
  have "fl_rep (lst\<lparr>tail_plus := int ?t\<rparr>) ys"
    unfolding fl_rep_def using ring_get(2) [OF ring] n t(2) xs
    by (intro exI [of _ n] exI [of _ ?t]) (simp add: mod_simps)
  with get t(1) fl_rep_len(2) [OF assms] xs show
    "\<exists>lst'. functor_list_remove lst = Inr (y, lst') \<and> fl_rep lst' ys \<and> fl_room lst' = fl_room lst"
    by (auto simp: functor_list_remove_def c_assert_def fl_room_def)
qed

interpretation fl: bounded_fifo fl_ok fl_items fl_room functor_list_add functor_list_remove
  "\<lambda>lst. int (fl_len lst)"
proof (unfold_locales, goal_cases)
  case (1 lst x)
  then show ?case using functor_list_add_rep(1) [of lst "fl_items lst" x] by (auto simp: fl_rep_iff)
next
  case (2 lst x)
  then show ?case using functor_list_add_rep(2) [of lst "fl_items lst" x] by (auto simp: fl_rep_iff)
next
  case (3 lst x xs)
  then show ?case using functor_list_remove_rep(2) [of lst "fl_items lst" x xs] by (auto simp: fl_rep_iff)
next
  case (4 lst)
  then show ?case using functor_list_remove_rep(1) [of lst "fl_items lst"] by (auto simp: fl_rep_iff)
next
  case (5 lst)
  then show ?case by (simp add: fl_items_def)
next
  case (6 lst)
  then show ?case by (auto simp: fl_ok_def fl_rep_def fl_room_def)
qed

end
