(* ===== verification/Fd_Table.thy ===== *)
theory Fd_Table
  imports Functor_List "HOL-Library.Word"
begin

text \<open>
  The table of watchers by file descriptor: \<^verbatim>\<open>src/runloop/epoll_runloop/fdtable.c\<close>, and the
  bitmap of \<^verbatim>\<open>fd_map.c\<close>.

  The table is an array of watcher pointers, \<open>None\<close> for \<open>NULL\<close>, with a 64 bit counter. The code
  does not test descriptors against the size of the array; an access outside it is an error here.
  The locale \<open>fd_registry\<close> is what the run loop relies on: the table is a finite map.
\<close>

section \<open>Operations\<close>

record 'w FdTable =
  fd_count :: "64 word"
  fd_entries :: "'w option list"

definition runloop_FDTABLE_MAX :: nat where "runloop_FDTABLE_MAX = nat runloop_MAX_FDS"

definition FdTable_init :: "'w FdTable" where
  "FdTable_init = \<lparr>fd_count = 0, fd_entries = map (\<lambda>i. None) [0..<runloop_FDTABLE_MAX]\<rparr>"

definition FdTable_new :: "'w FdTable" where
  "FdTable_new = FdTable_init"

definition fd_entry :: "'w FdTable \<Rightarrow> int \<Rightarrow> 'w option res" where
  "fd_entry this fd =
     (if 0 \<le> fd \<and> nat fd < length (fd_entries this) then Inr (fd_entries this ! nat fd) else Inl Out_of_bounds)"

definition FdTable_insert :: "'w FdTable \<Rightarrow> 'w \<Rightarrow> int \<Rightarrow> 'w FdTable res" where
  "FdTable_insert this watcher fd =
     rbind (fd_entry this fd) (\<lambda>e.
     rbind (c_assert (e = None)) (\<lambda>_.
     Inr (this\<lparr>fd_entries := (fd_entries this)[nat fd := Some watcher], fd_count := fd_count this + 1\<rparr>)))"

definition FdTable_remove :: "'w FdTable \<Rightarrow> int \<Rightarrow> 'w FdTable res" where
  "FdTable_remove athis fd =
     rbind (fd_entry athis fd) (\<lambda>e.
     rbind (c_assert (e \<noteq> None)) (\<lambda>_.
     Inr (athis\<lparr>fd_entries := (fd_entries athis)[nat fd := None], fd_count := fd_count athis - 1\<rparr>)))"

definition FdTable_free :: "'w FdTable \<Rightarrow> 'w FdTable res" where
  "FdTable_free this =
     fold_res (\<lambda>i t. rbind (fd_entry t (int i)) (\<lambda>e. if e \<noteq> None then FdTable_remove t (int i) else Inr t))
       [0..<runloop_FDTABLE_MAX] this"

definition FdTable_lookup :: "'w FdTable \<Rightarrow> int \<Rightarrow> 'w res" where
  "FdTable_lookup this fd =
     rbind (fd_entry this fd) (\<lambda>e. case e of None \<Rightarrow> Inl Assert_fail | Some w \<Rightarrow> Inr w)"

text \<open>The loops of the two iterators: the first used entry from \<open>i\<close> on, or -1.\<close>

definition next_entry :: "'w FdTable \<Rightarrow> nat \<Rightarrow> int" where
  "next_entry this i =
     (case List.find (\<lambda>j. fd_entries this ! j \<noteq> None) [i..<runloop_FDTABLE_MAX] of
        None \<Rightarrow> -1 | Some j \<Rightarrow> int j)"

definition FdTable_iterator :: "'w FdTable \<Rightarrow> int" where
  "FdTable_iterator this = next_entry this 0"

definition FdTable_next_iterator :: "'w FdTable \<Rightarrow> int \<Rightarrow> int res" where
  "FdTable_next_iterator this iter =
     rbind (c_assert (iter + 1 < int runloop_FDTABLE_MAX)) (\<lambda>_. Inr (next_entry this (nat (iter + 1))))"

definition FdTable_size :: "'w FdTable \<Rightarrow> 64 word" where
  "FdTable_size this = fd_count this"

definition fd_map_init :: "bool list" where
  "fd_map_init = map (\<lambda>i. False) [0..<nat runloop_MAX_FDS]"

definition fd_map_at :: "bool list \<Rightarrow> int \<Rightarrow> bool res" where
  "fd_map_at fd_map j =
     rbind (c_assert (j \<ge> 0 \<and> j < runloop_MAX_FDS)) (\<lambda>_. Inr (fd_map ! nat j))"

definition fd_map_set :: "bool list \<Rightarrow> int \<Rightarrow> (bool \<times> bool list) res" where
  "fd_map_set fd_map j =
     rbind (c_assert (j \<ge> 0 \<and> j < runloop_MAX_FDS)) (\<lambda>_. Inr (True, fd_map[nat j := True]))"

section \<open>The table as a finite map\<close>

locale fd_registry =
  fixes invar :: "'t \<Rightarrow> bool"
    and valid :: "int \<Rightarrow> bool"
    and watcher :: "'t \<Rightarrow> int \<Rightarrow> 'w option"
    and insert :: "'t \<Rightarrow> 'w \<Rightarrow> int \<Rightarrow> 't res"
    and remove :: "'t \<Rightarrow> int \<Rightarrow> 't res"
    and lookup :: "'t \<Rightarrow> int \<Rightarrow> 'w res"
    and size :: "'t \<Rightarrow> nat"
  assumes watcher_valid: "invar t \<Longrightarrow> watcher t fd \<noteq> None \<Longrightarrow> valid fd"
    and insert_law: "\<lbrakk> invar t; valid fd; watcher t fd = None \<rbrakk> \<Longrightarrow>
       \<exists>t'. insert t w fd = Inr t' \<and> invar t' \<and> watcher t' = (watcher t)(fd \<mapsto> w)"
    and insert_used: "\<lbrakk> invar t; watcher t fd \<noteq> None \<rbrakk> \<Longrightarrow> insert t w fd = Inl Assert_fail"
    and remove_law: "\<lbrakk> invar t; watcher t fd \<noteq> None \<rbrakk> \<Longrightarrow>
       \<exists>t'. remove t fd = Inr t' \<and> invar t' \<and> watcher t' = (watcher t)(fd := None)"
    and remove_unused: "\<lbrakk> invar t; valid fd; watcher t fd = None \<rbrakk> \<Longrightarrow> remove t fd = Inl Assert_fail"
    and lookup_law: "\<lbrakk> invar t; watcher t fd = Some w \<rbrakk> \<Longrightarrow> lookup t fd = Inr w"
    and lookup_unused: "\<lbrakk> invar t; valid fd; watcher t fd = None \<rbrakk> \<Longrightarrow> lookup t fd = Inl Assert_fail"
    and size_law: "invar t \<Longrightarrow> size t = card (dom (watcher t))"
    and finite_law: "invar t \<Longrightarrow> finite (dom (watcher t))"
begin

lemma insert_remove:
  assumes "invar t" "valid fd" "watcher t fd = None"
  shows "\<exists>t1 t2. insert t w fd = Inr t1 \<and> lookup t1 fd = Inr w \<and> remove t1 fd = Inr t2 \<and>
                 invar t2 \<and> watcher t2 = watcher t \<and> size t2 = size t"
proof -
  from insert_law [OF assms, of w] obtain t1 where
    t1: "insert t w fd = Inr t1" "invar t1" "watcher t1 = (watcher t)(fd \<mapsto> w)" by blast
  with remove_law [of t1 fd] obtain t2 where
    t2: "remove t1 fd = Inr t2" "invar t2" "watcher t2 = (watcher t1)(fd := None)" by auto
  have "watcher t2 = watcher t" using t1(3) t2(3) assms(3) by auto
  with t1 t2 assms(1) lookup_law [of t1 fd w] show ?thesis by (auto simp: size_law)
qed

lemma size_zero: "invar t \<Longrightarrow> size t = 0 \<longleftrightarrow> watcher t = Map.empty"
  using finite_law [of t] by (simp add: size_law)

end

definition fd_valid :: "int \<Rightarrow> bool" where
  "fd_valid fd \<longleftrightarrow> 0 \<le> fd \<and> fd < 1024"

definition fd_watcher :: "'w FdTable \<Rightarrow> int \<Rightarrow> 'w option" where
  "fd_watcher t fd = (if fd_valid fd then fd_entries t ! nat fd else None)"

definition used_entries :: "'w option list \<Rightarrow> nat" where
  "used_entries es = length (filter (\<lambda>e. e \<noteq> None) es)"

definition fd_ok :: "'w FdTable \<Rightarrow> bool" where
  "fd_ok t \<longleftrightarrow> length (fd_entries t) = 1024 \<and> fd_count t = of_nat (used_entries (fd_entries t))"

lemma FDTABLE_MAX: "runloop_FDTABLE_MAX = 1024"
  by (simp add: runloop_FDTABLE_MAX_def runloop_MAX_FDS_def)

lemma used_entries_simps [simp]:
  "used_entries [] = 0"
  "used_entries (e # es) = (if e = None then 0 else 1) + used_entries es"
  by (simp_all add: used_entries_def)

lemma used_entries_update:
  assumes "i < length es"
  shows "used_entries (es[i := x]) + (if es ! i = None then 0 else 1) =
         used_entries es + (if x = None then 0 else 1)"
  using assms
proof (induction es arbitrary: i)
  case (Cons e es)
  then show ?case
  proof (cases i)
    case (Suc j)
    with Cons.IH [of j] Cons.prems show ?thesis by (simp split del: if_split)
  qed simp
qed simp

lemma used_entries_le: "used_entries es \<le> length es"
  by (simp add: used_entries_def)

lemma fd_ok_new: "fd_ok FdTable_new"
  by (simp add: fd_ok_def FdTable_new_def FdTable_init_def FDTABLE_MAX used_entries_def filter_empty_conv
      del: upt_rec_numeral)

lemma fd_watcher_new: "fd_watcher FdTable_new = Map.empty"
  by (rule ext) (simp add: fd_watcher_def FdTable_new_def FdTable_init_def FDTABLE_MAX fd_valid_def
      nat_less_iff del: upt_rec_numeral)

lemma fd_entry_ok: "fd_ok t \<Longrightarrow> fd_entry t fd = (if fd_valid fd then Inr (fd_watcher t fd) else Inl Out_of_bounds)"
  by (auto simp: fd_entry_def fd_ok_def fd_valid_def fd_watcher_def)

lemma fd_watcher_update:
  assumes "fd_ok t" "fd_valid fd"
  shows "fd_watcher (t\<lparr>fd_entries := (fd_entries t)[nat fd := x], fd_count := c\<rparr>) = (fd_watcher t)(fd := x)"
proof
  fix j
  show "fd_watcher (t\<lparr>fd_entries := (fd_entries t)[nat fd := x], fd_count := c\<rparr>) j =
        ((fd_watcher t)(fd := x)) j"
    using assms by (auto simp: fd_watcher_def fd_ok_def fd_valid_def nth_list_update eq_nat_nat_iff)
qed

lemma fd_ok_insert:
  assumes "fd_ok t" "fd_valid fd" "fd_watcher t fd = None"
  shows "fd_ok (t\<lparr>fd_entries := (fd_entries t)[nat fd := Some w], fd_count := fd_count t + 1\<rparr>)"
proof -
  from assms have i: "nat fd < length (fd_entries t)" "fd_entries t ! nat fd = None"
    by (auto simp: fd_ok_def fd_valid_def fd_watcher_def)
  from used_entries_update [OF i(1), of "Some w"] i(2) assms(1) show ?thesis
    by (simp add: fd_ok_def add.commute)
qed

lemma fd_ok_remove:
  assumes "fd_ok t" "fd_watcher t fd \<noteq> None"
  shows "fd_ok (t\<lparr>fd_entries := (fd_entries t)[nat fd := None], fd_count := fd_count t - 1\<rparr>)"
proof -
  from assms have i: "nat fd < length (fd_entries t)" "fd_entries t ! nat fd \<noteq> None"
    by (auto simp: fd_ok_def fd_valid_def fd_watcher_def split: if_splits)
  have "used_entries (fd_entries t) = Suc (used_entries ((fd_entries t)[nat fd := None]))"
    using used_entries_update [OF i(1), of None] i(2) by simp
  with assms(1) show ?thesis by (simp add: fd_ok_def)
qed

lemma fd_count_card:
  assumes "fd_ok t"
  shows "unat (FdTable_size t) = card (dom (fd_watcher t))"
proof -
  let ?es = "fd_entries t"
  have len: "length ?es = 1024" using assms by (simp add: fd_ok_def)
  have "dom (fd_watcher t) = int ` {i. i < length ?es \<and> ?es ! i \<noteq> None}"
  proof (intro set_eqI iffI)
    fix fd
    assume "fd \<in> dom (fd_watcher t)"
    then show "fd \<in> int ` {i. i < length ?es \<and> ?es ! i \<noteq> None}"
      using len by (intro image_eqI [of _ _ "nat fd"]) (auto simp: fd_watcher_def fd_valid_def split: if_splits)
  qed (auto simp: fd_watcher_def fd_valid_def len)
  then have "card (dom (fd_watcher t)) = used_entries ?es"
    by (simp add: card_image used_entries_def length_filter_conv_card)
  moreover have "used_entries ?es < 2 ^ 64" using used_entries_le [of ?es] len by simp
  ultimately show ?thesis
    using assms by (simp add: fd_ok_def FdTable_size_def unat_of_nat)
qed

interpretation ft: fd_registry fd_ok fd_valid fd_watcher FdTable_insert FdTable_remove FdTable_lookup
  "\<lambda>t. unat (FdTable_size t)"
proof (unfold_locales, goal_cases)
  case (1 t fd)
  then show ?case by (auto simp: fd_watcher_def split: if_splits)
next
  case (2 t fd w)
  then show ?case
    by (simp add: FdTable_insert_def fd_entry_ok c_assert_def fd_ok_insert fd_watcher_update)
next
  case (3 t fd w)
  moreover from this have "fd_valid fd" by (auto simp: fd_watcher_def split: if_splits)
  ultimately show ?case by (simp add: FdTable_insert_def fd_entry_ok c_assert_def)
next
  case (4 t fd)
  moreover from this have "fd_valid fd" by (auto simp: fd_watcher_def split: if_splits)
  ultimately show ?case
    by (simp add: FdTable_remove_def fd_entry_ok c_assert_def fd_ok_remove fd_watcher_update)
next
  case (5 t fd)
  then show ?case by (simp add: FdTable_remove_def fd_entry_ok c_assert_def)
next
  case (6 t fd w)
  moreover from this have "fd_valid fd" by (auto simp: fd_watcher_def split: if_splits)
  ultimately show ?case by (simp add: FdTable_lookup_def fd_entry_ok)
next
  case (7 t fd)
  then show ?case by (simp add: FdTable_lookup_def fd_entry_ok)
next
  case (8 t)
  then show ?case by (rule fd_count_card)
next
  case (9 t)
  have "dom (fd_watcher t) \<subseteq> {0..<1024}" by (auto simp: fd_watcher_def fd_valid_def split: if_splits)
  then show ?case by (rule finite_subset) simp
qed

end
