(* ===== verification/Ready_Loop.thy ===== *)
theory Ready_Loop
  imports Functor_List
begin

text \<open>
  The inner loop of \<open>runloop_run\<close>, which both run loops share (\<^verbatim>\<open>epoll_runloop/runloop.c\<close> and
  \<^verbatim>\<open>kqueue_runloop/runloop.c\<close>): it takes functors from the ready list and calls them until the list is
  empty. The locale \<open>ready_loop\<close> holds what the argument needs of a run loop; each of them interprets
  it.

  Functions that only post: \<open>act\<close> says which functors a function posts and how it changes its
  state. The scheduler \<open>sched\<close> runs the functors of a queue first in, first out, appending what each
  posts.
\<close>

definition posting ::
  "(('c, 'a) Functor \<Rightarrow> 'l \<Rightarrow> 'l res) \<Rightarrow> ('c \<Rightarrow> 'a option \<Rightarrow> 's \<Rightarrow> ('c, 'a) Functor list \<times> 's) \<Rightarrow>
   'c \<Rightarrow> 'a option \<Rightarrow> 'l \<times> 's \<Rightarrow> ('l \<times> 's) res" where
  "posting post act c a st =
     rbind (fold_res post (fst (act c a (snd st))) (fst st)) (\<lambda>rl. Inr (rl, snd (act c a (snd st))))"

definition postable :: "('c, 'a) Functor \<Rightarrow> bool" where
  "postable f \<longleftrightarrow> fn f \<noteq> None \<and> fn_arg f \<noteq> None"

fun sched ::
  "nat \<Rightarrow> ('c \<Rightarrow> 'a option \<Rightarrow> 's \<Rightarrow> ('c, 'a) Functor list \<times> 's) \<Rightarrow> ('c, 'a) Functor list \<Rightarrow> 's \<Rightarrow> 's option"
  where
  "sched 0 act q s = None"
| "sched (Suc n) act [] s = Some s"
| "sched (Suc n) act (f # q) s =
     (case fn f of None \<Rightarrow> None
      | Some c \<Rightarrow>
          let ps = fst (act c (fn_arg f) s) in
          if length q + length ps \<le> 2047 \<and> list_all postable ps
          then sched n act (q @ ps) (snd (act c (fn_arg f) s)) else None)"

locale ready_loop =
  fixes ready :: "'l \<Rightarrow> ('c, 'a) Functor FunctorList"
    and with_ready :: "('c, 'a) Functor FunctorList \<Rightarrow> 'l \<Rightarrow> 'l"
    and executing :: "bool \<Rightarrow> 'l \<Rightarrow> 'l"
    and same :: "'l \<Rightarrow> 'l \<Rightarrow> bool"
    and post :: "('c, 'a) Functor \<Rightarrow> 'l \<Rightarrow> 'l res"
    and run :: "nat \<Rightarrow> ('c \<Rightarrow> 'a option \<Rightarrow> 'l \<times> 's \<Rightarrow> ('l \<times> 's) res) \<Rightarrow> 'l \<times> 's \<Rightarrow> ('l \<times> 's) res"
  assumes ready_with: "ready (with_ready lst l) = lst"
    and ready_executing: "ready (executing b l) = ready l"
    and same_refl: "same l l"
    and same_trans: "same l l1 \<Longrightarrow> same l1 l2 \<Longrightarrow> same l l2"
    and same_with: "same l (with_ready lst l)"
    and same_executing: "same l (executing b l)"
    and post_law: "\<lbrakk> fl_rep (ready l) q; length q < fl_room (ready l); postable f \<rbrakk> \<Longrightarrow>
        \<exists>lst. post f l = Inr (with_ready lst l) \<and> fl_rep lst (q @ [f]) \<and> fl_room lst = fl_room (ready l)"
    and run_0: "run 0 call st = Inl Out_of_fuel"
    and run_Suc: "run (Suc n) call st =
        rbind (functor_list_size (ready (fst st))) (\<lambda>k.
        if k = 0 then Inr st
        else
          rbind (functor_list_remove (ready (fst st))) (\<lambda>(func, lst).
          rbind (Functor_call call func (executing True (with_ready lst (fst st)), snd st)) (\<lambda>(rl, s).
          run n call (executing False rl, s))))"
begin

lemma post_all:
  assumes "fl_rep (ready l) q" "fl_room (ready l) = 2047" "length q + length ps \<le> 2047" "list_all postable ps"
  shows "\<exists>l'. fold_res post ps l = Inr l' \<and> fl_rep (ready l') (q @ ps) \<and> fl_room (ready l') = 2047 \<and> same l l'"
  using assms
proof (induction ps arbitrary: l q)
  case (Cons p ps)
  from post_law [OF Cons.prems(1), of p] Cons.prems(2-4) obtain lst where
    lst: "post p l = Inr (with_ready lst l)" "fl_rep lst (q @ [p])" "fl_room lst = 2047" by auto
  from Cons.IH [of "with_ready lst l" "q @ [p]"] lst Cons.prems(3,4) obtain l' where
    "fold_res post ps (with_ready lst l) = Inr l'" "fl_rep (ready l') (q @ p # ps)"
    "fl_room (ready l') = 2047" "same (with_ready lst l) l'" by (auto simp: ready_with)
  with lst(1) same_trans [OF same_with] show ?case by auto
qed (auto simp: same_refl)

lemma run_sched:
  assumes "fl_rep (ready l) q" "fl_room (ready l) = 2047" "sched n act q s = Some s'"
  shows "\<exists>l'. run n (posting post act) (l, s) = Inr (l', s') \<and> fl_rep (ready l') [] \<and>
           fl_room (ready l') = 2047 \<and> same l l'"
  using assms
proof (induction n arbitrary: l q s)
  case (Suc n)
  show ?case
  proof (cases q)
    case Nil
    with Suc.prems fl_rep_len(2) [OF Suc.prems(1)] show ?thesis by (auto simp: run_Suc same_refl)
  next
    case (Cons f q')
    from Suc.prems(3) Cons obtain c where c: "fn f = Some c" by (auto split: option.splits)
    let ?ps = "fst (act c (fn_arg f) s)" and ?s = "snd (act c (fn_arg f) s)"
    from Suc.prems(3) Cons c have next_q: "length q' + length ?ps \<le> 2047" "list_all postable ?ps"
      "sched n act (q' @ ?ps) ?s = Some s'" by (auto simp: Let_def split: if_splits)
    from functor_list_remove_rep(2) [OF Suc.prems(1) Cons] Suc.prems(2) obtain lst where
      lst: "functor_list_remove (ready l) = Inr (f, lst)" "fl_rep lst q'" "fl_room lst = 2047" by auto
    let ?l = "executing True (with_ready lst l)"
    from post_all [of ?l q' ?ps] lst(2,3) next_q(1,2) obtain l1 where
      l1: "fold_res post ?ps ?l = Inr l1" "fl_rep (ready l1) (q' @ ?ps)" "fl_room (ready l1) = 2047" "same ?l l1"
      by (auto simp: ready_with ready_executing)
    from Suc.IH [of "executing False l1" "q' @ ?ps" ?s] l1 next_q(3) obtain l' where
      l': "run n (posting post act) (executing False l1, ?s) = Inr (l', s')" "fl_rep (ready l') []"
      "fl_room (ready l') = 2047" "same (executing False l1) l'" by (auto simp: ready_executing)
    moreover have "same l l'"
      using same_trans [OF same_with same_trans [OF same_executing same_trans [OF l1(4) same_trans [OF same_executing l'(4)]]]] .
    moreover have "posting post act c (fn_arg f) (?l, s) = Inr (l1, ?s)" using l1(1) by (simp add: posting_def)
    ultimately show ?thesis
      using lst(1) c fl_rep_len(2) [OF Suc.prems(1)] Cons by (auto simp: run_Suc Functor_call_def)
  qed
qed simp

lemma run_mono: "run n call st = Inr st' \<Longrightarrow> run (Suc n) call st = Inr st'"
proof (induction n arbitrary: st)
  case (Suc n)
  from Suc.prems obtain k where k: "functor_list_size (ready (fst st)) = Inr k"
    by (auto simp: run_Suc rbind_eq_Inr)
  with Suc.prems show ?case
    unfolding run_Suc [of n] by (subst run_Suc) (auto simp: rbind_eq_Inr Suc.IH split: if_splits)
qed (simp add: run_0)

end

end
