(* ===== verification/Runloop.thy ===== *)
theory Runloop
  imports Fd_Table Ready_Loop
begin

text \<open>
  The run loop: \<^verbatim>\<open>src/runloop/epoll_runloop/runloop.c\<close>.

  A watcher is a pointer of type \<open>'w\<close> and a functor calls a function of type \<open>'c\<close>. The kernel's
  side of the loop is part of the state: \<open>epoll_set\<close> is the interest set of the epoll instance
  (event mask and user pointer per descriptor) and \<open>closed_fds\<close> lists the descriptors passed to
  \<open>close\<close>. \<open>epoll_ctl\<close> fails as documented: adding a descriptor that is present, changing or
  deleting one that is not, or using \<open>EPOLLEXCLUSIVE\<close> where the kernel does not take it. What a call of \<open>epoll_wait\<close> returns is an input of the loop; a call
  that never returns is the error \<open>Would_block\<close>.

  The code that runs in the loop is given by three parameters, which act on the loop and on a
  state of their own: \<open>call\<close> for functors, \<open>handler\<close> for the handlers of watchers, and \<open>wfd\<close> for
  the field \<open>fd\<close> of a watcher. Both loops of \<open>runloop_run\<close> carry fuel, since posted functions may
  post again for ever.
\<close>

section \<open>Operations\<close>

record ('w, 'c, 'a) Runloop =
  epoll_fd :: int
  closed_flag :: bool
  runloop_executing :: bool
  rl_table :: "'w FdTable"
  ready_list :: "('c, 'a) Functor FunctorList"
  epoll_set :: "int \<rightharpoonup> 32 word \<times> 'w option"
  closed_fds :: "int list"

definition EPOLLIN :: "32 word" where "EPOLLIN = 0x001"

definition EPOLLOUT :: "32 word" where "EPOLLOUT = 0x004"

definition EPOLLERR :: "32 word" where "EPOLLERR = 0x008"

definition EPOLLHUP :: "32 word" where "EPOLLHUP = 0x010"

definition EPOLLRDHUP :: "32 word" where "EPOLLRDHUP = 0x2000"

definition EPOLLEXCLUSIVE :: "32 word" where "EPOLLEXCLUSIVE = 0x10000000"

definition EPOLLET :: "32 word" where "EPOLLET = 0x80000000"

definition EPOLLWAKEUP :: "32 word" where "EPOLLWAKEUP = 0x20000000"

text \<open>
  An interest with \<open>EPOLLEXCLUSIVE\<close> may only be added together with a few other flags, and
  neither an interest that has the flag nor one that gets it can be modified.
\<close>

definition nonexclusive :: "32 word \<Rightarrow> bool" where
  "nonexclusive m \<longleftrightarrow> and m EPOLLEXCLUSIVE = 0"

definition addable :: "32 word \<Rightarrow> bool" where
  "addable m \<longleftrightarrow> nonexclusive m \<or>
     or m (or EPOLLEXCLUSIVE (or EPOLLIN (or EPOLLOUT (or EPOLLERR (or EPOLLHUP (or EPOLLWAKEUP EPOLLET)))))) =
     or EPOLLEXCLUSIVE (or EPOLLIN (or EPOLLOUT (or EPOLLERR (or EPOLLHUP (or EPOLLWAKEUP EPOLLET)))))"

datatype epoll_op = EPOLL_CTL_ADD | EPOLL_CTL_DEL | EPOLL_CTL_MOD

definition epoll_ctl ::
  "(int \<rightharpoonup> 32 word \<times> 'w option) \<Rightarrow> epoll_op \<Rightarrow> int \<Rightarrow> 32 word \<times> 'w option \<Rightarrow>
   (int \<rightharpoonup> 32 word \<times> 'w option) option" where
  "epoll_ctl k op fd ev =
     (case op of
        EPOLL_CTL_ADD \<Rightarrow> if k fd = None \<and> addable (fst ev) then Some (k(fd \<mapsto> ev)) else None
      | EPOLL_CTL_MOD \<Rightarrow>
          (case k fd of
             None \<Rightarrow> None
           | Some (m, _) \<Rightarrow> if nonexclusive m \<and> nonexclusive (fst ev) then Some (k(fd \<mapsto> ev)) else None)
      | EPOLL_CTL_DEL \<Rightarrow> if k fd = None then None else Some (k(fd := None)))"

definition runloop_epoll_ctl ::
  "('w, 'c, 'a) Runloop \<Rightarrow> epoll_op \<Rightarrow> int \<Rightarrow> 32 word \<Rightarrow> 'w option \<Rightarrow> ('w, 'c, 'a) Runloop res" where
  "runloop_epoll_ctl athis op fd interest watcher =
     (case epoll_ctl (epoll_set athis) op fd (interest, watcher) of
        None \<Rightarrow> Inl Assert_fail
      | Some k \<Rightarrow> Inr (athis\<lparr>epoll_set := k\<rparr>))"

text \<open>The descriptor that \<open>epoll_create1\<close> returns is a parameter.\<close>

definition runloop_init :: "int \<Rightarrow> ('w, 'c, 'a) Runloop res" where
  "runloop_init fd =
     rbind (c_assert (fd \<noteq> -1)) (\<lambda>_.
     rbind (functor_list_new runloop_READY_LIST_MAX) (\<lambda>lst.
     Inr \<lparr>epoll_fd = fd, closed_flag = False, runloop_executing = False, rl_table = FdTable_new,
          ready_list = lst, epoll_set = Map.empty, closed_fds = []\<rparr>))"

definition runloop_new :: "int \<Rightarrow> ('w, 'c, 'a) Runloop res" where
  "runloop_new fd = runloop_init fd"

definition close_fd :: "('w, 'c, 'a) Runloop \<Rightarrow> int \<Rightarrow> ('w, 'c, 'a) Runloop" where
  "close_fd rl fd = rl\<lparr>closed_fds := closed_fds rl @ [fd], epoll_set := (epoll_set rl)(fd := None)\<rparr>"

fun close_loop :: "nat \<Rightarrow> ('w, 'c, 'a) Runloop \<Rightarrow> int \<Rightarrow> ('w, 'c, 'a) Runloop res" where
  "close_loop 0 athis next_fd = Inl Out_of_fuel"
| "close_loop (Suc n) athis next_fd =
     (if next_fd \<noteq> -1 then
        rbind (FdTable_next_iterator (rl_table athis) next_fd) (\<lambda>next_fd'.
        close_loop n (close_fd athis next_fd) next_fd')
      else Inr athis)"

text \<open>\<open>status\<close> is what closing the epoll descriptor returns.\<close>

definition runloop_close :: "int \<Rightarrow> ('w, 'c, 'a) Runloop \<Rightarrow> ('w, 'c, 'a) Runloop res" where
  "runloop_close status athis =
     (let athis1 = athis\<lparr>closed_flag := True, closed_fds := closed_fds athis @ [epoll_fd athis]\<rparr> in
      rbind (c_assert (status \<noteq> -1)) (\<lambda>_.
      close_loop (Suc runloop_FDTABLE_MAX) athis1 (FdTable_iterator (rl_table athis1))))"

definition runloop_free :: "int \<Rightarrow> ('w, 'c, 'a) Runloop \<Rightarrow> unit res" where
  "runloop_free status athis =
     rbind (if \<not> closed_flag athis then runloop_close status athis else Inr athis) (\<lambda>athis1.
     rbind (FdTable_free (rl_table athis1)) (\<lambda>_. Inr ()))"

definition runloop_register ::
  "('w, 'c, 'a) Runloop \<Rightarrow> int \<Rightarrow> 32 word \<Rightarrow> 'w \<Rightarrow> ('w, 'c, 'a) Runloop res" where
  "runloop_register athis fd interest wref =
     rbind (runloop_epoll_ctl athis EPOLL_CTL_ADD fd interest (Some wref)) (\<lambda>athis1.
     rbind (FdTable_insert (rl_table athis1) wref fd) (\<lambda>t.
     Inr (athis1\<lparr>rl_table := t\<rparr>)))"

definition runloop_deregister :: "('w, 'c, 'a) Runloop \<Rightarrow> int \<Rightarrow> ('w, 'c, 'a) Runloop res" where
  "runloop_deregister athis fd =
     rbind (FdTable_lookup (rl_table athis) fd) (\<lambda>_.
     rbind (runloop_epoll_ctl athis EPOLL_CTL_DEL fd (or EPOLLEXCLUSIVE EPOLLIN) None) (\<lambda>athis1.
     rbind (FdTable_remove (rl_table athis1) fd) (\<lambda>t.
     Inr (athis1\<lparr>rl_table := t\<rparr>))))"

definition runloop_reregister ::
  "('w, 'c, 'a) Runloop \<Rightarrow> int \<Rightarrow> 32 word \<Rightarrow> 'w \<Rightarrow> ('w, 'c, 'a) Runloop res" where
  "runloop_reregister athis fd interest wref =
     rbind (FdTable_lookup (rl_table athis) fd) (\<lambda>_.
     rbind (runloop_epoll_ctl athis EPOLL_CTL_MOD fd interest (Some wref)) (\<lambda>athis1.
     rbind (FdTable_lookup (rl_table athis1) fd) (\<lambda>wref_tmp.
     rbind (c_assert (wref = wref_tmp)) (\<lambda>_. Inr athis1))))"

definition runloop_delete :: "('w, 'c, 'a) Runloop \<Rightarrow> int \<Rightarrow> ('w, 'c, 'a) Runloop res" where
  "runloop_delete athis fd =
     rbind (FdTable_lookup (rl_table athis) fd) (\<lambda>_.
     rbind (FdTable_remove (rl_table athis) fd) (\<lambda>t. Inr (athis\<lparr>rl_table := t\<rparr>)))"

definition runloop_post ::
  "('w, 'c, 'a) Runloop \<Rightarrow> 'c option \<Rightarrow> 'a option \<Rightarrow> ('w, 'c, 'a) Runloop res" where
  "runloop_post athis cb a =
     rbind (c_assert (cb \<noteq> None)) (\<lambda>_.
     rbind (c_assert (a \<noteq> None)) (\<lambda>_.
     rbind (functor_list_add (ready_list athis) \<lparr>fn = cb, fn_arg = a\<rparr>) (\<lambda>lst.
     Inr (athis\<lparr>ready_list := lst\<rparr>))))"

datatype 'w wait =
    Wait_error bool
  | Wait_events "('w \<times> 32 word) list"

definition dispatch ::
  "('w \<Rightarrow> 's \<Rightarrow> int res) \<Rightarrow>
   ('w \<Rightarrow> 32 word \<Rightarrow> ('w, 'c, 'a) Runloop \<times> 's \<Rightarrow> (('w, 'c, 'a) Runloop \<times> 's) res) \<Rightarrow>
   'w \<times> 32 word \<Rightarrow> ('w, 'c, 'a) Runloop \<times> 's \<Rightarrow> (('w, 'c, 'a) Runloop \<times> 's) res" where
  "dispatch wfd handler ev st =
     rbind (wfd (fst ev) (snd st)) (\<lambda>fd.
     rbind (FdTable_lookup (rl_table (fst st)) fd) (\<lambda>wref.
     rbind (c_assert (fst ev = wref)) (\<lambda>_. handler wref (snd ev) st)))"

definition run_functor ::
  "('c \<Rightarrow> 'a option \<Rightarrow> ('w, 'c, 'a) Runloop \<times> 's \<Rightarrow> (('w, 'c, 'a) Runloop \<times> 's) res) \<Rightarrow>
   ('w, 'c, 'a) Runloop \<times> 's \<Rightarrow> (('w, 'c, 'a) Runloop \<times> 's) res" where
  "run_functor call st =
     rbind (functor_list_remove (ready_list (fst st))) (\<lambda>(func, lst).
     rbind (Functor_call call func ((fst st)\<lparr>ready_list := lst, runloop_executing := True\<rparr>, snd st)) (\<lambda>(rl, s).
     Inr (rl\<lparr>runloop_executing := False\<rparr>, s)))"

fun run_ready ::
  "nat \<Rightarrow> ('c \<Rightarrow> 'a option \<Rightarrow> ('w, 'c, 'a) Runloop \<times> 's \<Rightarrow> (('w, 'c, 'a) Runloop \<times> 's) res) \<Rightarrow>
   ('w, 'c, 'a) Runloop \<times> 's \<Rightarrow> (('w, 'c, 'a) Runloop \<times> 's) res" where
  "run_ready 0 call st = Inl Out_of_fuel"
| "run_ready (Suc n) call st =
     rbind (functor_list_size (ready_list (fst st))) (\<lambda>k.
     if k = 0 then Inr st
     else rbind (run_functor call st) (run_ready n call))"

fun runloop_run ::
  "nat \<Rightarrow> ('w \<Rightarrow> 's \<Rightarrow> int res) \<Rightarrow>
   ('w \<Rightarrow> 32 word \<Rightarrow> ('w, 'c, 'a) Runloop \<times> 's \<Rightarrow> (('w, 'c, 'a) Runloop \<times> 's) res) \<Rightarrow>
   ('c \<Rightarrow> 'a option \<Rightarrow> ('w, 'c, 'a) Runloop \<times> 's \<Rightarrow> (('w, 'c, 'a) Runloop \<times> 's) res) \<Rightarrow>
   'w wait list \<Rightarrow> ('w, 'c, 'a) Runloop \<times> 's \<Rightarrow> (int \<times> ('w, 'c, 'a) Runloop \<times> 's) res" where
  "runloop_run 0 wfd handler call waits st = Inl Out_of_fuel"
| "runloop_run (Suc n) wfd handler call waits st =
     rbind (functor_list_size (ready_list (fst st))) (\<lambda>k.
     if FdTable_size (rl_table (fst st)) = 0 \<and> k = 0 then Inr (0, st)
     else if k = 0 then
       (case waits of
          [] \<Rightarrow> Inl Would_block
        | Wait_error eintr # _ \<Rightarrow> Inr (if eintr then -1 else if closed_flag (fst st) then 0 else -1, st)
        | Wait_events [] # _ \<Rightarrow> Inr (0, close_fd (fst st) (epoll_fd (fst st)), snd st)
        | Wait_events evs # ws \<Rightarrow>
            rbind (fold_res (dispatch wfd handler) evs st) (runloop_run n wfd handler call ws))
     else rbind (run_ready n call st) (runloop_run n wfd handler call waits))"

section \<open>Agreement of the table and the kernel\<close>

text \<open>
  The invariant of a run loop: the descriptor table is well formed and so is the list of ready
  functors, and the epoll instance watches exactly the descriptors of the table, each with the
  watcher of the table as user pointer.
\<close>

definition rl_ok :: "('w, 'c, 'a) Runloop \<Rightarrow> bool" where
  "rl_ok rl \<longleftrightarrow>
     fd_ok (rl_table rl) \<and> fl_ok (ready_list rl) \<and> fl_room (ready_list rl) = 2047 \<and>
     (\<forall>fd. map_option snd (epoll_set rl fd) = map_option Some (fd_watcher (rl_table rl) fd))"

lemma runloop_new_ok:
  assumes "fd \<noteq> -1"
  shows "\<exists>rl. runloop_new fd = Inr rl \<and> rl_ok rl \<and> fd_watcher (rl_table rl) = Map.empty \<and>
              fl_rep (ready_list rl) []"
proof -
  from functor_list_new_rep [of runloop_READY_LIST_MAX] obtain lst :: "('b, 'c) Functor FunctorList" where
    "functor_list_new runloop_READY_LIST_MAX = Inr lst" "fl_rep lst []" "fl_room lst = 2047"
    by (auto simp: runloop_READY_LIST_MAX_def runloop_MAX_FDS_def)
  with assms show ?thesis
    by (auto simp: runloop_new_def runloop_init_def c_assert_def rl_ok_def fd_ok_new fd_watcher_new fl_rep_iff)
qed

lemma rl_ok_epoll_None:
  assumes "rl_ok rl"
  shows "epoll_set rl fd = None \<longleftrightarrow> fd_watcher (rl_table rl) fd = None"
proof -
  from assms have "map_option snd (epoll_set rl fd) = map_option Some (fd_watcher (rl_table rl) fd)"
    by (simp add: rl_ok_def)
  then show ?thesis by (metis option.map_disc_iff)
qed

lemma runloop_register_ok:
  assumes "rl_ok rl" "fd_valid fd" "fd_watcher (rl_table rl) fd = None" "addable m"
  shows "\<exists>rl'. runloop_register rl fd m w = Inr rl' \<and> rl_ok rl' \<and>
           fd_watcher (rl_table rl') = (fd_watcher (rl_table rl))(fd \<mapsto> w) \<and>
           epoll_set rl' = (epoll_set rl)(fd \<mapsto> (m, Some w)) \<and> ready_list rl' = ready_list rl"
proof -
  from assms(1) have t: "fd_ok (rl_table rl)" by (simp add: rl_ok_def)
  from ft.insert_law [OF t assms(2,3), of w] obtain t' where
    "FdTable_insert (rl_table rl) w fd = Inr t'" "fd_ok t'" "fd_watcher t' = (fd_watcher (rl_table rl))(fd \<mapsto> w)"
    by blast
  with assms(1) rl_ok_epoll_None [OF assms(1), of fd] assms(3,4) show ?thesis
    by (auto simp: runloop_register_def runloop_epoll_ctl_def epoll_ctl_def rl_ok_def)
qed

lemma runloop_deregister_ok:
  assumes "rl_ok rl" "fd_watcher (rl_table rl) fd = Some w"
  shows "\<exists>rl'. runloop_deregister rl fd = Inr rl' \<and> rl_ok rl' \<and>
           fd_watcher (rl_table rl') = (fd_watcher (rl_table rl))(fd := None) \<and>
           epoll_set rl' = (epoll_set rl)(fd := None) \<and> ready_list rl' = ready_list rl"
proof -
  from assms(1) have t: "fd_ok (rl_table rl)" by (simp add: rl_ok_def)
  from ft.remove_law [OF t, of fd] assms(2) obtain t' where
    "FdTable_remove (rl_table rl) fd = Inr t'" "fd_ok t'" "fd_watcher t' = (fd_watcher (rl_table rl))(fd := None)"
    by auto
  with assms(1) rl_ok_epoll_None [OF assms(1), of fd] assms(2) ft.lookup_law [OF t assms(2)] show ?thesis
    by (auto simp: runloop_deregister_def runloop_epoll_ctl_def epoll_ctl_def rl_ok_def)
qed

lemma runloop_reregister_ok:
  assumes "rl_ok rl" "fd_watcher (rl_table rl) fd = Some w" "epoll_set rl fd = Some (m0, u)"
    "nonexclusive m0" "nonexclusive m"
  shows "\<exists>rl'. runloop_reregister rl fd m w = Inr rl' \<and> rl_ok rl' \<and> rl_table rl' = rl_table rl \<and>
           epoll_set rl' = (epoll_set rl)(fd \<mapsto> (m, Some w)) \<and> ready_list rl' = ready_list rl"
proof -
  from assms(1) have t: "fd_ok (rl_table rl)" by (simp add: rl_ok_def)
  from assms ft.lookup_law [OF t assms(2)] show ?thesis
    by (auto simp: runloop_reregister_def runloop_epoll_ctl_def epoll_ctl_def rl_ok_def c_assert_def)
qed

lemma runloop_post_rep:
  assumes "fl_rep (ready_list rl) q" "length q < fl_room (ready_list rl)"
  shows "\<exists>lst. runloop_post rl (Some c) (Some a) = Inr (rl\<lparr>ready_list := lst\<rparr>) \<and>
           fl_rep lst (q @ [\<lparr>fn = Some c, fn_arg = Some a\<rparr>]) \<and> fl_room lst = fl_room (ready_list rl)"
  using functor_list_add_rep(1) [OF assms, of "\<lparr>fn = Some c, fn_arg = Some a\<rparr>"]
  by (auto simp: runloop_post_def c_assert_def)

datatype ('w, 'c, 'a) rl_call =
    Register int "32 word" 'w
  | Deregister int
  | Reregister int "32 word" 'w
  | Post "'c option" "'a option"

fun rl_exec :: "('w, 'c, 'a) rl_call \<Rightarrow> ('w, 'c, 'a) Runloop \<Rightarrow> ('w, 'c, 'a) Runloop res" where
  "rl_exec (Register fd m w) rl = runloop_register rl fd m w"
| "rl_exec (Deregister fd) rl = runloop_deregister rl fd"
| "rl_exec (Reregister fd m w) rl = runloop_reregister rl fd m w"
| "rl_exec (Post c a) rl = runloop_post rl c a"

lemma runloop_register_Inr:
  assumes "rl_ok rl" "runloop_register rl fd m w = Inr rl'"
  shows "rl_ok rl'"
proof -
  from assms(1) have t: "fd_ok (rl_table rl)" by (simp add: rl_ok_def)
  from assms(2) obtain t' where t': "FdTable_insert (rl_table rl) w fd = Inr t'"
    by (auto simp: runloop_register_def runloop_epoll_ctl_def rbind_eq_Inr split: option.splits)
  then have "fd_valid fd" using fd_entry_ok [OF t, of fd]
    by (auto simp: FdTable_insert_def rbind_eq_Inr split: if_splits)
  moreover have "fd_watcher (rl_table rl) fd = None"
    using t' ft.insert_used [OF t, of fd w] by (cases "fd_watcher (rl_table rl) fd") auto
  moreover have "addable m"
    using assms(2) by (auto simp: runloop_register_def runloop_epoll_ctl_def epoll_ctl_def rbind_eq_Inr
        split: option.splits if_splits)
  ultimately show ?thesis using runloop_register_ok [OF assms(1), of fd m w] assms(2) by auto
qed

lemma FdTable_lookup_Inr:
  assumes "fd_ok t" "FdTable_lookup t fd = Inr w"
  shows "fd_watcher t fd = Some w"
  using assms by (auto simp: FdTable_lookup_def fd_entry_ok split: if_splits option.splits)

lemma rl_exec_ok:
  assumes "rl_ok rl" "rl_exec c rl = Inr rl'"
  shows "rl_ok rl'"
proof (cases c)
  case (Register fd m w)
  with assms show ?thesis by (auto intro: runloop_register_Inr)
next
  case (Deregister fd)
  then obtain w where "FdTable_lookup (rl_table rl) fd = Inr w"
    using assms(2) by (auto simp: runloop_deregister_def rbind_eq_Inr)
  with assms Deregister runloop_deregister_ok [OF assms(1), of fd w] FdTable_lookup_Inr show ?thesis
    by (fastforce simp: rl_ok_def)
next
  case (Reregister fd m w)
  then have "FdTable_lookup (rl_table rl) fd = Inr w"
    using assms(2) by (auto simp: runloop_reregister_def runloop_epoll_ctl_def rbind_eq_Inr split: option.splits)
  moreover obtain m0 u where "epoll_set rl fd = Some (m0, u)" "nonexclusive m0" "nonexclusive m"
    using assms(2) Reregister
    by (auto simp: runloop_reregister_def runloop_epoll_ctl_def epoll_ctl_def rbind_eq_Inr
        split: option.splits if_splits)
  ultimately show ?thesis
    using runloop_reregister_ok [OF assms(1), of fd w m0 u m] FdTable_lookup_Inr [of "rl_table rl" fd w]
      assms Reregister
    by (auto simp: rl_ok_def)
next
  case (Post c a)
  from assms(2) Post obtain lst where
    lst: "functor_list_add (ready_list rl) \<lparr>fn = c, fn_arg = a\<rparr> = Inr lst" "rl' = rl\<lparr>ready_list := lst\<rparr>"
    by (auto simp: runloop_post_def rbind_eq_Inr)
  from assms(1) have fl: "fl_ok (ready_list rl)" by (simp add: rl_ok_def)
  have "length (fl_items (ready_list rl)) < fl_room (ready_list rl)"
    using fl.put_iff [OF fl, of "\<lparr>fn = c, fn_arg = a\<rparr>"] lst(1) fl.size_law [OF fl] by auto
  with fl.put_law [OF fl, of "\<lparr>fn = c, fn_arg = a\<rparr>"] lst assms(1) show ?thesis
    by (auto simp: rl_ok_def)
qed

section \<open>The order of posted functions\<close>

definition post_functor :: "('c, 'a) Functor \<Rightarrow> ('w, 'c, 'a) Runloop \<Rightarrow> ('w, 'c, 'a) Runloop res" where
  "post_functor f rl = runloop_post rl (fn f) (fn_arg f)"

text \<open>The loop differs from \<open>rl\<close> only in what is ready and in the flag \<open>runloop_executing\<close>.\<close>

definition same_loop :: "('w, 'c, 'a) Runloop \<Rightarrow> ('w, 'c, 'a) Runloop \<Rightarrow> bool" where
  "same_loop rl rl' \<longleftrightarrow>
     rl_table rl' = rl_table rl \<and> epoll_set rl' = epoll_set rl \<and> closed_flag rl' = closed_flag rl \<and>
     closed_fds rl' = closed_fds rl \<and> epoll_fd rl' = epoll_fd rl"

interpretation rdy: ready_loop ready_list "\<lambda>lst rl. rl\<lparr>ready_list := lst\<rparr>"
  "\<lambda>b rl. rl\<lparr>runloop_executing := b\<rparr>" same_loop post_functor run_ready
proof (unfold_locales, goal_cases)
  case (7 l q f)
  then obtain c a where f: "f = \<lparr>fn = Some c, fn_arg = Some a\<rparr>" by (cases f) (auto simp: postable_def)
  from runloop_post_rep [OF 7(1,2), of c a] show ?case by (simp add: post_functor_def f)
next
  case (9 n call st)
  show ?case unfolding run_ready.simps run_functor_def rbind_assoc case_prod_unfold rbind_Inr ..
qed (auto simp: same_loop_def)

lemmas post_all_rep = rdy.post_all
lemmas run_ready_sched = rdy.run_sched
lemmas run_ready_mono = rdy.run_mono

section \<open>Closing\<close>

lemma next_entry_skip:
  assumes "i < 1024"
  shows "next_entry t i = (if fd_entries t ! i \<noteq> None then int i else next_entry t (Suc i))"
  using assms by (simp add: next_entry_def FDTABLE_MAX upt_conv_Cons del: upt_rec_numeral)

lemma next_entry_end: "next_entry t 1024 = -1"
  by (simp add: next_entry_def FDTABLE_MAX)

definition fds_from :: "'w FdTable \<Rightarrow> nat \<Rightarrow> int list" where
  "fds_from t i = map int (filter (\<lambda>j. fd_entries t ! j \<noteq> None) [i..<1024])"

lemma fds_from_step: "i < 1024 \<Longrightarrow> fds_from t i = (if fd_entries t ! i \<noteq> None then [int i] else []) @ fds_from t (Suc i)"
  by (simp add: fds_from_def upt_conv_Cons del: upt_rec_numeral)

lemma fds_from_next: "i \<le> 1024 \<Longrightarrow> next_entry t i = (case fds_from t i of [] \<Rightarrow> -1 | fd # _ \<Rightarrow> fd)"
proof (induction "1024 - i" arbitrary: i)
  case 0
  then show ?case by (simp add: next_entry_end fds_from_def)
next
  case (Suc k)
  then have "i < 1024" by simp
  with Suc.hyps(1) [of "Suc i"] Suc.hyps(2) show ?case by (auto simp: next_entry_skip fds_from_step)
qed

lemma close_loop_all:
  assumes "i \<le> 1024" "next_entry (rl_table rl) i = fd" "1024 - i < n"
  shows "if fd_entries (rl_table rl) ! 1023 = None \<or> i = 1024
         then \<exists>rl'. close_loop n rl fd = Inr rl' \<and> closed_fds rl' = closed_fds rl @ fds_from (rl_table rl) i \<and>
                    rl_table rl' = rl_table rl \<and> closed_flag rl' = closed_flag rl
         else close_loop n rl fd = Inl Assert_fail"
  using assms
proof (induction "1024 - i" arbitrary: i n rl fd)
  case 0
  then have "i = 1024" "fd = -1" by (simp_all add: next_entry_end)
  then show ?case using 0 by (cases n) (simp_all add: fds_from_def)
next
  case (Suc k)
  then have i: "i < 1024" and k: "k = 1024 - Suc i" "Suc i \<le> 1024" by simp_all
  note IH = Suc.hyps(1) [OF k]
  show ?case
  proof (cases "fd_entries (rl_table rl) ! i = None")
    case True
    then have "next_entry (rl_table rl) (Suc i) = fd" using Suc.prems(2) i by (simp add: next_entry_skip)
    from IH [OF this, of n] Suc.prems(3) i True fds_from_step [OF i, of "rl_table rl"] show ?thesis
      by (cases "i = 1023") simp_all
  next
    case False
    then have fd: "fd = int i" using Suc.prems(2) i by (simp add: next_entry_skip)
    from Suc.prems(3) obtain m where n: "n = Suc m" by (cases n) auto
    show ?thesis
    proof (cases "i = 1023")
      case True
      with False fd n show ?thesis by (simp add: FdTable_next_iterator_def c_assert_def FDTABLE_MAX)
    next
      case i1023: False
      let ?rl = "close_fd rl (int i)"
      have rl: "rl_table ?rl = rl_table rl" "closed_fds ?rl = closed_fds rl @ [int i]"
        "closed_flag ?rl = closed_flag rl" by (simp_all add: close_fd_def)
      have m: "1024 - Suc i < m" using Suc.prems(3) n i by simp
      have step: "close_loop n rl fd = close_loop m ?rl (next_entry (rl_table rl) (Suc i))"
        using n fd i i1023
        by (simp add: FdTable_next_iterator_def c_assert_def FDTABLE_MAX nat_add_distrib)
      from IH [OF _ m, of ?rl "next_entry (rl_table rl) (Suc i)"] fds_from_step [OF i, of "rl_table rl"] False
        i i1023
      show ?thesis unfolding step by (auto simp: rl split: if_splits)
    qed
  qed
qed

section \<open>Properties\<close>

text \<open>
  C6: After any sequence of successful calls of \<open>runloop_register\<close>, \<open>runloop_reregister\<close>, \<open>runloop_deregister\<close>
  and \<open>runloop_post\<close> on a new loop, the epoll instance watches exactly the descriptors of the table, with
  the table's watchers as user pointers, and the table and the ready list are well formed. The calls do
  not include \<open>runloop_delete\<close>, which takes a descriptor out of the table and leaves it in the epoll instance.
\<close>

theorem table_agrees_with_kernel:
  fixes rl0 :: "('w, 'c, 'a) Runloop"
  assumes "runloop_new efd = Inr rl0" "fold_res rl_exec calls rl0 = Inr rl"
  shows "rl_ok rl"
proof -
  have "efd \<noteq> -1" using assms(1) by (auto simp: runloop_new_def runloop_init_def c_assert_def)
  from runloop_new_ok [OF this, where ?'a = 'w and ?'b = 'c and ?'c = 'a] assms(1) have "rl_ok rl0" by auto
  moreover have "rl_ok a \<Longrightarrow> fold_res rl_exec cs a = Inr b \<Longrightarrow> rl_ok b" for cs a b
    by (induction cs arbitrary: a) (auto simp: rbind_eq_Inr dest: rl_exec_ok)
  ultimately show ?thesis using assms(2) by blast
qed

definition demo_loop :: "(nat, nat, nat) Runloop" where
  "demo_loop = projr (runloop_new 3)"

lemma demo_loop: "runloop_new 3 = Inr demo_loop" "rl_ok demo_loop" "fd_watcher (rl_table demo_loop) = Map.empty"
  "fl_rep (ready_list demo_loop) []"
  using runloop_new_ok [of 3, where ?'a = nat and ?'b = nat and ?'c = nat] by (auto simp: demo_loop_def)

lemma addable_IN: "addable 1"
  by (simp add: addable_def nonexclusive_def EPOLLEXCLUSIVE_def)

theorem table_agrees_with_kernel_witness:
  "\<exists>rl. fold_res rl_exec [Register 5 1 (7 :: nat)] demo_loop = Inr rl \<and> rl_ok rl \<and>
        fd_watcher (rl_table rl) 5 = Some 7"
proof -
  from runloop_register_ok [OF demo_loop(2), of 5 1 7] demo_loop(3) obtain rl where
    rl: "fold_res rl_exec [Register 5 1 (7 :: nat)] demo_loop = Inr rl" "fd_watcher (rl_table rl) 5 = Some 7"
    by (auto simp: fd_valid_def addable_IN)
  from table_agrees_with_kernel [OF demo_loop(1) rl(1)] rl show ?thesis by blast
qed

text \<open>
  C23: With no descriptor registered, the run loop runs the posted functions in the order they
  were posted, those posted while it runs included, without the list overflowing as long as no more
  than 2047 are ready at once, and then returns 0 with nothing left to run.
\<close>

theorem runloop_runs_posted_work:
  assumes "rl_ok rl" "fd_watcher (rl_table rl) = Map.empty"
    and "sched n act (fl_items (ready_list rl)) s = Some s'"
  shows "\<exists>rl'. runloop_run (Suc (Suc n)) wfd handler (posting post_functor act) [] (rl, s) = Inr (0, rl', s') \<and>
               fl_items (ready_list rl') = [] \<and> same_loop rl rl'"
proof -
  let ?q = "fl_items (ready_list rl)"
  from assms(1) have rep: "fl_rep (ready_list rl) ?q" "fl_room (ready_list rl) = 2047" "fd_ok (rl_table rl)"
    by (simp_all add: rl_ok_def fl_ok_def)
  have zero: "FdTable_size (rl_table rl) = 0"
    using ft.size_zero [OF rep(3)] assms(2) by (simp add: unat_eq_zero)
  from run_ready_sched [OF rep(1,2) assms(3)] obtain rl' where
    rl': "run_ready n (posting post_functor act) (rl, s) = Inr (rl', s')" "fl_rep (ready_list rl') []" "same_loop rl rl'"
    by blast
  then have mono: "run_ready (Suc n) (posting post_functor act) (rl, s) = Inr (rl', s')"
    by (intro run_ready_mono)
  show ?thesis
  proof (cases "?q = []")
    case True
    with assms(3) have "s' = s" by (cases n) auto
    with True zero fl_rep_len(2) [OF rep(1)] show ?thesis by (auto simp: same_loop_def)
  next
    case False
    with zero fl_rep_len(2) [OF rep(1)] mono rl' fl_rep_len(2) [OF rl'(2)] show ?thesis
      by (auto simp: same_loop_def fl_rep_iff simp del: run_ready.simps)
  qed
qed

definition demo_act :: "nat \<Rightarrow> nat option \<Rightarrow> nat list \<Rightarrow> (nat, nat) Functor list \<times> nat list" where
  "demo_act c a s = (if c = 1 then [\<lparr>fn = Some 3, fn_arg = Some 0\<rparr>] else [], s @ [c])"

theorem runloop_runs_posted_work_witness:
  "\<exists>rl rl'. fold_res post_functor [\<lparr>fn = Some 1, fn_arg = Some 0\<rparr>, \<lparr>fn = Some 2, fn_arg = Some 0\<rparr>] demo_loop = Inr rl \<and>
     runloop_run 6 (\<lambda>w s. Inr 0) (\<lambda>w m st. Inr st) (posting post_functor demo_act) [] (rl, []) = Inr (0, rl', [1, 2, 3]) \<and>
     fl_items (ready_list rl') = []"
proof -
  let ?q = "[\<lparr>fn = Some (1 :: nat), fn_arg = Some (0 :: nat)\<rparr>, \<lparr>fn = Some 2, fn_arg = Some 0\<rparr>]"
  have "fl_room (ready_list demo_loop) = 2047" using demo_loop(2) by (simp add: rl_ok_def)
  from post_all_rep [OF demo_loop(4) this, of ?q] obtain rl where
    rl: "fold_res post_functor ?q demo_loop = Inr rl" "fl_rep (ready_list rl) ?q"
    "fl_room (ready_list rl) = 2047" "same_loop demo_loop rl" by (auto simp: postable_def)
  have "rl_ok rl" "fd_watcher (rl_table rl) = Map.empty" "fl_items (ready_list rl) = ?q"
    using rl demo_loop by (auto simp: rl_ok_def same_loop_def fl_rep_iff)
  moreover have "sched 4 demo_act ?q [] = Some [1, 2, 3]"
    by (simp add: demo_act_def postable_def eval_nat_numeral)
  ultimately show ?thesis
    using runloop_runs_posted_work [of rl 4 demo_act "[]" "[1, 2, 3]" "\<lambda>w s. Inr 0" "\<lambda>w m st. Inr st"] rl(1)
    by (auto simp: eval_nat_numeral simp del: fold_res.simps runloop_run.simps)
qed

text \<open>
  Closing a run loop closes its epoll descriptor and then every registered descriptor once,
  in ascending order; it fails an assertion instead when descriptor 1023, the last of the table,
  is registered.
\<close>

lemma close_closes_registered:
  assumes "fd_ok (rl_table rl)" "status \<noteq> -1"
  shows "if fd_watcher (rl_table rl) 1023 = None
         then \<exists>rl' fds. runloop_close status rl = Inr rl' \<and> closed_flag rl' \<and>
                closed_fds rl' = closed_fds rl @ epoll_fd rl # fds \<and>
                set fds = dom (fd_watcher (rl_table rl)) \<and> sorted fds \<and> distinct fds
         else runloop_close status rl = Inl Assert_fail"
proof -
  let ?rl = "rl\<lparr>closed_flag := True, closed_fds := closed_fds rl @ [epoll_fd rl]\<rparr>"
  let ?fds = "fds_from (rl_table rl) 0"
  have "set ?fds = dom (fd_watcher (rl_table rl))"
  proof (intro set_eqI iffI)
    fix fd
    assume "fd \<in> dom (fd_watcher (rl_table rl))"
    then show "fd \<in> set ?fds"
      by (auto simp: fds_from_def fd_watcher_def fd_valid_def image_iff nat_less_iff split: if_splits
          intro!: exI [of _ "nat fd"])
  qed (auto simp: fds_from_def fd_watcher_def fd_valid_def)
  moreover have "sorted ?fds" "distinct ?fds"
    by (auto simp: fds_from_def distinct_map sorted_map intro!: sorted_wrt_filter
        simp del: upt_rec_numeral)
  moreover have "fd_watcher (rl_table rl) 1023 = fd_entries (rl_table rl) ! 1023"
    by (simp add: fd_watcher_def fd_valid_def)
  ultimately show ?thesis
    using close_loop_all [of 0 ?rl "FdTable_iterator (rl_table rl)" "Suc runloop_FDTABLE_MAX"] assms(2)
    by (auto simp: runloop_close_def FdTable_iterator_def FDTABLE_MAX c_assert_def Let_def
        simp del: close_loop.simps split: if_splits)
qed

end
