(* ===== verification/Eventfd.thy ===== *)
theory Eventfd
  imports Runloop
begin

text \<open>
  Wake-ups across threads: \<^verbatim>\<open>src/runloop/epoll_runloop/w_eventfd.c\<close>, \<^verbatim>\<open>w_eventfd_queue.c\<close>,
  \<^verbatim>\<open>w_queue_watcher.c\<close> and \<^verbatim>\<open>w_interthread_queue.c\<close>.

  The kernel's counter behind an eventfd is a 64 bit word kept with the object that owns the
  descriptor. Reading it takes one in semaphore mode and everything otherwise, and fails on zero;
  writing adds, and fails when the sum would reach the maximum. A watcher on an eventfd is called
  by the run loop as long as the counter is not zero. The mutex of a queue makes an add and a
  remove atomic, so they are single steps here. Callbacks act on the object and on a further
  state through the parameter \<open>call\<close>.
\<close>

section \<open>Operations\<close>

definition eventfd_write :: "64 word \<Rightarrow> 64 word \<Rightarrow> 64 word option" where
  "eventfd_write c v = (if unat c + unat v \<le> 2 ^ 64 - 2 then Some (c + v) else None)"

definition eventfd_read :: "bool \<Rightarrow> 64 word \<Rightarrow> (64 word \<times> 64 word) option" where
  "eventfd_read sem c = (if c = 0 then None else if sem then Some (1, c - 1) else Some (c, 0))"

subsection \<open>Eventfd watchers\<close>

record ('c, 'a) RunloopEventfd =
  ef_fd :: int
  ef_counter :: "64 word"
  fdevent_postable :: "'c option"
  fdevent_postable_arg :: "'a option"

definition eventfd_handler ::
  "('c \<Rightarrow> 'a option \<Rightarrow> ('c, 'a) RunloopEventfd \<times> 's \<Rightarrow> (('c, 'a) RunloopEventfd \<times> 's) res) \<Rightarrow>
   ('c, 'a) RunloopEventfd \<times> 's \<Rightarrow> (('c, 'a) RunloopEventfd \<times> 's) res" where
  "eventfd_handler call st =
     (case eventfd_read True (ef_counter (fst st)) of
        None \<Rightarrow> Inr st
      | Some (_, c) \<Rightarrow>
          Functor_call call \<lparr>fn = fdevent_postable (fst st), fn_arg = fdevent_postable_arg (fst st)\<rparr>
            ((fst st)\<lparr>ef_counter := c\<rparr>, snd st))"

text \<open>The two postable fields are not set before the watcher is registered; registering clears them.\<close>

definition runloop_eventfd_init :: "int \<Rightarrow> ('c, 'a) RunloopEventfd" where
  "runloop_eventfd_init fd =
     \<lparr>ef_fd = fd, ef_counter = 0, fdevent_postable = None, fdevent_postable_arg = None\<rparr>"

definition runloop_eventfd_new :: "int \<Rightarrow> ('c, 'a) RunloopEventfd" where
  "runloop_eventfd_new fd = runloop_eventfd_init fd"

definition runloop_eventfd_register ::
  "'w \<Rightarrow> ('c, 'a) RunloopEventfd \<Rightarrow> ('w, 'c, 'a) Runloop \<Rightarrow>
   (('c, 'a) RunloopEventfd \<times> ('w, 'c, 'a) Runloop) res" where
  "runloop_eventfd_register w athis rl =
     rbind (runloop_register rl (ef_fd athis) 0 w) (\<lambda>rl1.
     Inr (athis\<lparr>fdevent_postable := None, fdevent_postable_arg := None\<rparr>, rl1))"

definition set_some :: "'x option \<Rightarrow> 'x option \<Rightarrow> 'x option" where
  "set_some new old = (if new \<noteq> None then new else old)"

definition runloop_eventfd_change_watch ::
  "'w \<Rightarrow> ('c, 'a) RunloopEventfd \<Rightarrow> 'c option \<Rightarrow> 'a option \<Rightarrow> 64 word \<Rightarrow> ('w, 'c, 'a) Runloop \<Rightarrow>
   (('c, 'a) RunloopEventfd \<times> ('w, 'c, 'a) Runloop) res" where
  "runloop_eventfd_change_watch w athis p a watch_what rl =
     rbind (runloop_reregister rl (ef_fd athis) (ucast watch_what) w) (\<lambda>rl1.
     Inr (athis\<lparr>fdevent_postable := set_some p (fdevent_postable athis),
                fdevent_postable_arg := set_some a (fdevent_postable_arg athis)\<rparr>, rl1))"

definition runloop_eventfd_deregister ::
  "('c, 'a) RunloopEventfd \<Rightarrow> ('w, 'c, 'a) Runloop \<Rightarrow> ('w, 'c, 'a) Runloop res" where
  "runloop_eventfd_deregister athis rl = runloop_deregister rl (ef_fd athis)"

definition runloop_eventfd_arm ::
  "'w \<Rightarrow> ('c, 'a) RunloopEventfd \<Rightarrow> 'c option \<Rightarrow> 'a option \<Rightarrow> ('w, 'c, 'a) Runloop \<Rightarrow>
   (('c, 'a) RunloopEventfd \<times> ('w, 'c, 'a) Runloop) res" where
  "runloop_eventfd_arm w athis p a rl =
     rbind (runloop_reregister rl (ef_fd athis) (or EPOLLIN (or EPOLLERR EPOLLRDHUP)) w) (\<lambda>rl1.
     Inr (athis\<lparr>fdevent_postable := set_some p (fdevent_postable athis),
                fdevent_postable_arg := set_some a (fdevent_postable_arg athis)\<rparr>, rl1))"

definition runloop_eventfd_disarm ::
  "'w \<Rightarrow> ('c, 'a) RunloopEventfd \<Rightarrow> ('w, 'c, 'a) Runloop \<Rightarrow> ('w, 'c, 'a) Runloop res" where
  "runloop_eventfd_disarm w athis rl = runloop_reregister rl (ef_fd athis) 0 w"

definition runloop_eventfd_fire :: "('c, 'a) RunloopEventfd \<Rightarrow> ('c, 'a) RunloopEventfd res" where
  "runloop_eventfd_fire athis =
     (case eventfd_write (ef_counter athis) 1 of
        None \<Rightarrow> Inl Assert_fail
      | Some c \<Rightarrow> Inr (athis\<lparr>ef_counter := c\<rparr>))"

definition runloop_eventfd_clear_one_event :: "('c, 'a) RunloopEventfd \<Rightarrow> ('c, 'a) RunloopEventfd" where
  "runloop_eventfd_clear_one_event athis =
     (case eventfd_read True (ef_counter athis) of
        None \<Rightarrow> athis
      | Some (_, c) \<Rightarrow> athis\<lparr>ef_counter := c\<rparr>)"

function clear_all_loop :: "64 word \<Rightarrow> 64 word" where
  "clear_all_loop c = (case eventfd_read True c of None \<Rightarrow> c | Some (_, c') \<Rightarrow> clear_all_loop c')"
  by auto
termination
  by (relation "measure unat") (auto simp: eventfd_read_def unat_minus_one unat_gt_0 split: if_splits)

declare clear_all_loop.simps [simp del]

definition runloop_eventfd_clear_all_events :: "('c, 'a) RunloopEventfd \<Rightarrow> ('c, 'a) RunloopEventfd" where
  "runloop_eventfd_clear_all_events athis = athis\<lparr>ef_counter := clear_all_loop (ef_counter athis)\<rparr>"

definition runloop_eventfd_get_fd :: "('c, 'a) RunloopEventfd \<Rightarrow> int" where
  "runloop_eventfd_get_fd athis = ef_fd athis"

subsection \<open>Queues with an eventfd\<close>

record ('c, 'a) EventfdQueue =
  eq_list :: "('c, 'a) Functor FunctorList"
  eq_counter :: "64 word"
  eq_readfd :: int
  eq_writefd :: int

text \<open>A new eventfd counts zero, so that the loop of \<open>mk_fds\<close> ends at its first read.\<close>

definition runloop_eventfd_queue_init :: "int \<Rightarrow> ('c, 'a) EventfdQueue res" where
  "runloop_eventfd_queue_init fd =
     rbind (functor_list_new runloop_MAX_FDS) (\<lambda>lst.
     Inr \<lparr>eq_list = lst, eq_counter = 0, eq_readfd = fd, eq_writefd = fd\<rparr>)"

definition runloop_eventfd_queue_new :: "int \<Rightarrow> ('c, 'a) EventfdQueue res" where
  "runloop_eventfd_queue_new fd = runloop_eventfd_queue_init fd"

definition runloop_eventfd_queue_readfd :: "('c, 'a) EventfdQueue \<Rightarrow> int" where
  "runloop_eventfd_queue_readfd athis = eq_readfd athis"

definition runloop_eventfd_queue_add ::
  "('c, 'a) EventfdQueue \<Rightarrow> ('c, 'a) Functor \<Rightarrow> ('c, 'a) EventfdQueue res" where
  "runloop_eventfd_queue_add athis item =
     rbind (functor_list_add (eq_list athis) item) (\<lambda>lst.
     Inr (athis\<lparr>eq_list := lst,
                eq_counter := (case eventfd_write (eq_counter athis) 1 of None \<Rightarrow> eq_counter athis | Some c \<Rightarrow> c)\<rparr>))"

definition runloop_eventfd_queue_remove ::
  "('c, 'a) EventfdQueue \<Rightarrow> (('c, 'a) Functor \<times> ('c, 'a) EventfdQueue) res" where
  "runloop_eventfd_queue_remove athis =
     rbind (functor_list_size (eq_list athis)) (\<lambda>n.
     rbind (if n > 0 then functor_list_remove (eq_list athis)
            else Inr (\<lparr>fn = None, fn_arg = None\<rparr>, eq_list athis)) (\<lambda>(op, lst).
     Inr (op, athis\<lparr>eq_list := lst,
                    eq_counter := (case eventfd_read False (eq_counter athis) of None \<Rightarrow> eq_counter athis
                                   | Some (_, c) \<Rightarrow> c)\<rparr>)))"

subsection \<open>Queue watchers\<close>

record ('c, 'a, 'r, 'd) RunloopQueueWatcher =
  qw_queue :: "('c, 'a) EventfdQueue"
  qw_fd :: int
  queue_postable :: "'c option"
  queue_postable_arg :: "'a option"
  read_cb :: "'r option"
  read_cb_arg :: "'d option"

text \<open>The callbacks are not set by \<open>init\<close>; reading them before they are set reads \<open>None\<close> here.\<close>

definition runloop_queue_watcher_init :: "('c, 'a) EventfdQueue \<Rightarrow> ('c, 'a, 'r, 'd) RunloopQueueWatcher" where
  "runloop_queue_watcher_init q =
     \<lparr>qw_queue = q, qw_fd = runloop_eventfd_queue_readfd q, queue_postable = None,
      queue_postable_arg = None, read_cb = None, read_cb_arg = None\<rparr>"

definition runloop_queue_watcher_new :: "('c, 'a) EventfdQueue \<Rightarrow> ('c, 'a, 'r, 'd) RunloopQueueWatcher" where
  "runloop_queue_watcher_new q = runloop_queue_watcher_init q"

definition runloop_queue_watcher_register ::
  "'w \<Rightarrow> ('c, 'a, 'r, 'd) RunloopQueueWatcher \<Rightarrow> 'c option \<Rightarrow> 'a option \<Rightarrow> ('w, 'c, 'a) Runloop \<Rightarrow>
   (('c, 'a, 'r, 'd) RunloopQueueWatcher \<times> ('w, 'c, 'a) Runloop) res" where
  "runloop_queue_watcher_register w athis p a rl =
     rbind (runloop_register rl (qw_fd athis) (or EPOLLIN (or EPOLLERR (or EPOLLRDHUP EPOLLHUP))) w) (\<lambda>rl1.
     Inr (athis\<lparr>queue_postable := p, queue_postable_arg := a\<rparr>, rl1))"

definition runloop_queue_watcher_change_watch ::
  "'w \<Rightarrow> ('c, 'a, 'r, 'd) RunloopQueueWatcher \<Rightarrow> 'c option \<Rightarrow> 'a option \<Rightarrow> 64 word \<Rightarrow>
   ('w, 'c, 'a) Runloop \<Rightarrow> (('c, 'a, 'r, 'd) RunloopQueueWatcher \<times> ('w, 'c, 'a) Runloop) res" where
  "runloop_queue_watcher_change_watch w athis p a watch_what rl =
     rbind (runloop_reregister rl (qw_fd athis) (ucast watch_what) w) (\<lambda>rl1.
     Inr (athis\<lparr>queue_postable := set_some p (queue_postable athis),
                queue_postable_arg := set_some a (queue_postable_arg athis)\<rparr>, rl1))"

definition runloop_queue_watcher_deregister ::
  "('c, 'a, 'r, 'd) RunloopQueueWatcher \<Rightarrow> ('w, 'c, 'a) Runloop \<Rightarrow> ('w, 'c, 'a) Runloop res" where
  "runloop_queue_watcher_deregister athis rl = runloop_deregister rl (qw_fd athis)"

text \<open>\<open>on_read_ready\<close> is the postable function that \<open>async_read\<close> registers, with the watcher as argument.\<close>

definition runloop_queue_watcher_async_read ::
  "'c \<Rightarrow> 'a \<Rightarrow> 'w \<Rightarrow> ('c, 'a, 'r, 'd) RunloopQueueWatcher \<Rightarrow> 'r option \<Rightarrow> 'd option \<Rightarrow> ('w, 'c, 'a) Runloop \<Rightarrow>
   (('c, 'a, 'r, 'd) RunloopQueueWatcher \<times> ('w, 'c, 'a) Runloop) res" where
  "runloop_queue_watcher_async_read on_read_ready self w this cb ctx rl =
     runloop_queue_watcher_register w (this\<lparr>read_cb := cb, read_cb_arg := ctx\<rparr>) (Some on_read_ready) (Some self) rl"

definition on_read_ready_postable ::
  "('r \<Rightarrow> 'd option \<Rightarrow> ('c, 'a) Functor \<Rightarrow>
      ('c, 'a, 'r, 'd) RunloopQueueWatcher \<times> ('w, 'c, 'a) Runloop \<Rightarrow>
      (('c, 'a, 'r, 'd) RunloopQueueWatcher \<times> ('w, 'c, 'a) Runloop) res) \<Rightarrow>
   ('c, 'a, 'r, 'd) RunloopQueueWatcher \<times> ('w, 'c, 'a) Runloop \<Rightarrow>
   (('c, 'a, 'r, 'd) RunloopQueueWatcher \<times> ('w, 'c, 'a) Runloop) res" where
  "on_read_ready_postable rcall st =
     rbind (runloop_eventfd_queue_remove (qw_queue (fst st))) (\<lambda>(f, q).
     let qw = (fst st)\<lparr>qw_queue := q, read_cb := None, read_cb_arg := None\<rparr> in
     rbind (runloop_queue_watcher_deregister qw (snd st)) (\<lambda>rl.
     case read_cb (fst st) of
       None \<Rightarrow> Inl Null_deref
     | Some tmp_cb \<Rightarrow> rcall tmp_cb (read_cb_arg (fst st)) f (qw, rl)))"

subsection \<open>Queues between threads\<close>

text \<open>
  \<open>itqueue_postable\<close> runs in the loop when the counter of the queue is not zero: it takes one
  functor and posts it.
\<close>

definition itqueue_postable ::
  "('c, 'a) EventfdQueue \<times> ('w, 'c, 'a) Runloop \<Rightarrow> (('c, 'a) EventfdQueue \<times> ('w, 'c, 'a) Runloop) res" where
  "itqueue_postable st =
     rbind (runloop_eventfd_queue_remove (fst st)) (\<lambda>(f, q).
     rbind (c_assert (\<not> Functor_is_empty f)) (\<lambda>_.
     rbind (runloop_post (snd st) (fn f) (fn_arg f)) (\<lambda>rl. Inr (q, rl))))"

definition itqueue_new ::
  "'c \<Rightarrow> 'a \<Rightarrow> 'w \<Rightarrow> int \<Rightarrow> ('w, 'c, 'a) Runloop \<Rightarrow>
   (('c, 'a, 'r, 'd) RunloopQueueWatcher \<times> ('w, 'c, 'a) Runloop) res" where
  "itqueue_new postable_fn self w fd rl =
     rbind (runloop_eventfd_queue_new fd) (\<lambda>q.
     runloop_queue_watcher_register w (runloop_queue_watcher_new q) (Some postable_fn) (Some self) rl)"

definition itqueue_add :: "('c, 'a) EventfdQueue \<Rightarrow> ('c, 'a) Functor \<Rightarrow> ('c, 'a) EventfdQueue res" where
  "itqueue_add q f = runloop_eventfd_queue_add q f"

definition itqueue_remove ::
  "('c, 'a) EventfdQueue \<Rightarrow> (('c, 'a) Functor \<times> ('c, 'a) EventfdQueue) res" where
  "itqueue_remove q = runloop_eventfd_queue_remove q"

section \<open>Wake-ups of a queue\<close>

text \<open>The counter never exceeds the number of queued functors, so a wake-up finds one.\<close>

definition eq_ok :: "('c, 'a) EventfdQueue \<Rightarrow> bool" where
  "eq_ok q \<longleftrightarrow>
     fl_ok (eq_list q) \<and> fl_room (eq_list q) = 1023 \<and> unat (eq_counter q) \<le> length (fl_items (eq_list q)) \<and>
     list_all postable (fl_items (eq_list q))"

definition eq_items :: "('c, 'a) EventfdQueue \<Rightarrow> ('c, 'a) Functor list" where
  "eq_items q = fl_items (eq_list q)"

lemma eq_new:
  "\<exists>q :: ('c, 'a) EventfdQueue. runloop_eventfd_queue_new fd = Inr q \<and> eq_ok q \<and> eq_items q = [] \<and> eq_counter q = 0"
proof -
  obtain lst :: "('c, 'a) Functor FunctorList" where
    "functor_list_new runloop_MAX_FDS = Inr lst" "fl_rep lst []" "fl_room lst = 1023"
    using functor_list_new_rep [of runloop_MAX_FDS] by (auto simp: runloop_MAX_FDS_def)
  then show ?thesis
    by (auto simp: runloop_eventfd_queue_new_def runloop_eventfd_queue_init_def eq_ok_def eq_items_def fl_rep_iff)
qed

lemma eq_add:
  assumes "eq_ok q" "postable f" "length (eq_items q) < 1023"
  shows "\<exists>q'. itqueue_add q f = Inr q' \<and> eq_ok q' \<and> eq_items q' = eq_items q @ [f] \<and>
              unat (eq_counter q') = unat (eq_counter q) + 1"
proof -
  from assms obtain lst where
    lst: "functor_list_add (eq_list q) f = Inr lst" "fl_ok lst" "fl_items lst = fl_items (eq_list q) @ [f]"
      "fl_room lst = 1023"
    using fl.put_law [of "eq_list q" f] by (auto simp: eq_ok_def eq_items_def)
  have c: "unat (eq_counter q) < 1023" using assms by (simp add: eq_ok_def eq_items_def)
  then have "eventfd_write (eq_counter q) 1 = Some (eq_counter q + 1)"
    by (simp add: eventfd_write_def)
  moreover have "unat (eq_counter q + 1) = unat (eq_counter q) + 1"
    using c by (simp add: unat_word_ariths)
  ultimately show ?thesis
    using lst assms by (auto simp: itqueue_add_def runloop_eventfd_queue_add_def eq_ok_def eq_items_def)
qed

lemma eq_remove:
  assumes "eq_ok q" "eq_items q = f # fs"
  shows "\<exists>q'. runloop_eventfd_queue_remove q = Inr (f, q') \<and> eq_ok q' \<and> eq_items q' = fs \<and> eq_counter q' = 0"
proof -
  from assms obtain lst where
    "functor_list_remove (eq_list q) = Inr (f, lst)" "fl_ok lst" "fl_items lst = fs" "fl_room lst = 1023"
    using fl.get_law [of "eq_list q" f fs] by (auto simp: eq_ok_def eq_items_def)
  moreover have "functor_list_size (eq_list q) = Inr (int (length (f # fs)))"
    using assms by (intro fl_rep_len(2)) (simp add: eq_ok_def eq_items_def fl_rep_iff)
  ultimately show ?thesis
    using assms by (auto simp: runloop_eventfd_queue_remove_def eventfd_read_def eq_ok_def eq_items_def)
qed

lemma eq_add_all:
  assumes "eq_ok q" "list_all postable fs" "length (eq_items q) + length fs \<le> 1023"
  shows "\<exists>q'. fold_res (\<lambda>f q. itqueue_add q f) fs q = Inr q' \<and> eq_ok q' \<and> eq_items q' = eq_items q @ fs \<and>
              unat (eq_counter q') = unat (eq_counter q) + length fs"
  using assms
proof (induction fs arbitrary: q)
  case (Cons f fs)
  from eq_add [OF Cons.prems(1), of f] Cons.prems(2,3) obtain q1 where
    "itqueue_add q f = Inr q1" "eq_ok q1" "eq_items q1 = eq_items q @ [f]"
    "unat (eq_counter q1) = unat (eq_counter q) + 1" by auto
  with Cons.IH [of q1] Cons.prems(2,3) show ?case by auto
qed simp

lemma itqueue_postable_ok:
  assumes "eq_ok q" "eq_items q = f # fs" "fl_ok (ready_list rl)"
    "length (fl_items (ready_list rl)) < fl_room (ready_list rl)"
  shows "\<exists>q' rl'. itqueue_postable (q, rl) = Inr (q', rl') \<and> eq_ok q' \<and> eq_items q' = fs \<and> eq_counter q' = 0 \<and>
           fl_ok (ready_list rl') \<and> fl_items (ready_list rl') = fl_items (ready_list rl) @ [f] \<and>
           fl_room (ready_list rl') = fl_room (ready_list rl)"
proof -
  have "postable f" using assms(1,2) by (simp add: eq_ok_def eq_items_def)
  then obtain c a where f: "f = \<lparr>fn = Some c, fn_arg = Some a\<rparr>" by (cases f) (auto simp: postable_def)
  from eq_remove [OF assms(1,2)] obtain q' where
    "runloop_eventfd_queue_remove q = Inr (f, q')" "eq_ok q'" "eq_items q' = fs" "eq_counter q' = 0" by blast
  moreover from runloop_post_rep [of rl "fl_items (ready_list rl)" c a] assms(3,4) obtain lst where
    "runloop_post rl (Some c) (Some a) = Inr (rl\<lparr>ready_list := lst\<rparr>)"
    "fl_rep lst (fl_items (ready_list rl) @ [f])" "fl_room lst = fl_room (ready_list rl)"
    by (auto simp: f fl_rep_iff)
  ultimately show ?thesis
    by (auto simp: itqueue_postable_def f Functor_is_empty_def c_assert_def fl_rep_iff)
qed

text \<open>
  The threads: any of them adds functors, the loop runs \<open>itqueue_postable\<close> when the counter is not
  zero, and runs what is ready. The log keeps the functors added and those handed to the loop.
\<close>

inductive itq_step ::
  "('c, 'a) EventfdQueue \<times> ('c, 'a) Functor list \<times> ('c, 'a) Functor list \<Rightarrow>
   ('c, 'a) EventfdQueue \<times> ('c, 'a) Functor list \<times> ('c, 'a) Functor list \<Rightarrow> bool" where
  add: "postable f \<Longrightarrow> itqueue_add q f = Inr q' \<Longrightarrow> itq_step (q, added, taken) (q', added @ [f], taken)"
| wake: "eq_counter q \<noteq> 0 \<Longrightarrow> runloop_eventfd_queue_remove q = Inr (f, q') \<Longrightarrow>
     itq_step (q, added, taken) (q', added, taken @ [f])"

inductive itq_reach ::
  "('c, 'a) EventfdQueue \<Rightarrow> ('c, 'a) Functor list \<Rightarrow> ('c, 'a) Functor list \<Rightarrow> bool" where
  start: "runloop_eventfd_queue_new fd = Inr q \<Longrightarrow> itq_reach q [] []"
| step: "itq_reach q added taken \<Longrightarrow> itq_step (q, added, taken) (q', added', taken') \<Longrightarrow>
     itq_reach q' added' taken'"

lemma eq_add_room: "itqueue_add q f = Inr q' \<Longrightarrow> eq_ok q \<Longrightarrow> length (eq_items q) < 1023"
  using fl.put_iff [of "eq_list q" f] fl.size_law [of "eq_list q"]
  by (auto simp: itqueue_add_def runloop_eventfd_queue_add_def rbind_eq_Inr eq_ok_def eq_items_def)

lemma itq_reach_ok: "itq_reach q added taken \<Longrightarrow> eq_ok q \<and> added = taken @ eq_items q"
proof (induction rule: itq_reach.induct)
  case (start fd q)
  with eq_new [of fd, where 'c = 'a and 'a = 'b] show ?case by auto
next
  case (step q added taken q' added' taken')
  from step.hyps(2) show ?case
  proof (cases rule: itq_step.cases)
    case (add f)
    with step.IH eq_add [of q f] eq_add_room [of q f q'] show ?thesis by auto
  next
    case (wake f)
    from wake(3) step.IH obtain g gs where "eq_items q = g # gs"
      by (cases "eq_items q") (auto simp: eq_ok_def eq_items_def unat_eq_zero)
    with wake step.IH eq_remove [of q g gs] show ?thesis by auto
  qed
qed

lemma demo_loop_room: "fl_ok (ready_list demo_loop)"
  "length (fl_items (ready_list demo_loop)) < fl_room (ready_list demo_loop)"
  using demo_loop(2,4) by (auto simp: rl_ok_def fl_rep_iff)

text \<open>
  C19: Whatever the interleaving of threads that add functors to an inter-thread queue and of the
  loop that takes them, no functor is lost, duplicated or reordered, and whenever the loop is woken
  there is one to take: the assertion of the queue's callback holds, and the callback moves the
  oldest functor to the end of the loop's ready list.
\<close>

theorem itqueue_wake_is_safe:
  assumes "itq_reach q added taken" "eq_counter q \<noteq> 0"
    "fl_ok (ready_list rl)" "length (fl_items (ready_list rl)) < fl_room (ready_list rl)"
  shows "\<exists>f fs q' rl'. added = taken @ f # fs \<and> itqueue_postable (q, rl) = Inr (q', rl') \<and>
           itq_reach q' added (taken @ [f]) \<and> eq_items q' = fs \<and>
           fl_items (ready_list rl') = fl_items (ready_list rl) @ [f]"
proof -
  from itq_reach_ok [OF assms(1)] have ok: "eq_ok q" "added = taken @ eq_items q" by auto
  with assms(2) obtain f fs where fs: "eq_items q = f # fs"
    by (cases "eq_items q") (auto simp: eq_ok_def eq_items_def unat_eq_zero)
  from itqueue_postable_ok [OF ok(1) fs assms(3,4)] obtain q' rl' where
    p: "itqueue_postable (q, rl) = Inr (q', rl')" "eq_items q' = fs"
    "fl_items (ready_list rl') = fl_items (ready_list rl) @ [f]" by blast
  then have "runloop_eventfd_queue_remove q = Inr (f, q')"
    using eq_remove [OF ok(1) fs] by (auto simp: itqueue_postable_def rbind_eq_Inr)
  then have "itq_reach q' added (taken @ [f])"
    using assms(1,2) by (blast intro: itq_reach.step itq_step.wake)
  with p ok(2) fs show ?thesis by auto
qed

theorem itqueue_wake_is_safe_witness:
  "\<exists>q f q' rl'. itq_reach q [f] [] \<and> eq_counter q \<noteq> 0 \<and> itqueue_postable (q, demo_loop) = Inr (q', rl') \<and>
     itq_reach q' [f] [f]"
proof -
  let ?f = "\<lparr>fn = Some (1 :: nat), fn_arg = Some (0 :: nat)\<rparr>"
  obtain q0 :: "(nat, nat) EventfdQueue" where
    q0: "runloop_eventfd_queue_new 4 = Inr q0" "eq_ok q0" "eq_items q0 = []" "eq_counter q0 = 0"
    using eq_new by blast
  from eq_add [OF q0(2), of ?f] q0(3,4) obtain q where
    q: "itqueue_add q0 ?f = Inr q" "unat (eq_counter q) = 1" by (auto simp: postable_def)
  have r: "itq_reach q [?f] []"
    using itq_reach.step [OF itq_reach.start [OF q0(1)] itq_step.add [of ?f q0 q "[]" "[]"]] q(1)
    by (simp add: postable_def)
  moreover have "eq_counter q \<noteq> 0" using q(2) by auto
  ultimately show ?thesis
    using itqueue_wake_is_safe [OF r _ demo_loop_room] by fastforce
qed

text \<open>
  C28: The eventfd of a queue is not a semaphore: after any number of functors has been added, one
  wake-up hands over the first of them and clears the counter, so that all the others stay in the
  queue with nothing left to wake the loop for them.
\<close>

theorem itqueue_loses_wakeups:
  fixes f :: "('c, 'a) Functor"
  assumes "list_all postable (f # fs)" "length fs < 1023"
    "fl_ok (ready_list rl)" "length (fl_items (ready_list rl)) < fl_room (ready_list rl)"
  shows "\<exists>q q' rl'. rbind (runloop_eventfd_queue_new fd) (fold_res (\<lambda>f q. itqueue_add q f) (f # fs)) = Inr q \<and>
           unat (eq_counter q) = length (f # fs) \<and>
           itqueue_postable (q, rl) = Inr (q', rl') \<and>
           fl_items (ready_list rl') = fl_items (ready_list rl) @ [f] \<and>
           eq_items q' = fs \<and> eq_counter q' = 0"
proof -
  obtain q0 :: "('c, 'a) EventfdQueue" where q0: "runloop_eventfd_queue_new fd = Inr q0" "eq_ok q0" "eq_items q0 = []" "eq_counter q0 = 0"
    using eq_new by blast
  from eq_add_all [OF q0(2) assms(1)] assms(2) q0 obtain q where
    q: "fold_res (\<lambda>f q. itqueue_add q f) (f # fs) q0 = Inr q" "eq_ok q" "eq_items q = f # fs"
    "unat (eq_counter q) = length (f # fs)" by auto
  from itqueue_postable_ok [OF q(2,3) assms(3,4)] obtain q' rl' where
    "itqueue_postable (q, rl) = Inr (q', rl')" "eq_items q' = fs" "eq_counter q' = 0"
    "fl_items (ready_list rl') = fl_items (ready_list rl) @ [f]" by blast
  with q show ?thesis unfolding q0(1) rbind_Inr by blast
qed

theorem itqueue_loses_wakeups_witness:
  "\<exists>q q' rl'. rbind (runloop_eventfd_queue_new 4) (fold_res (\<lambda>f q. itqueue_add q f)
       [\<lparr>fn = Some 1, fn_arg = Some 0\<rparr>, \<lparr>fn = Some 2, fn_arg = Some 0\<rparr>]) = Inr q \<and>
     unat (eq_counter q) = 2 \<and> itqueue_postable (q, demo_loop) = Inr (q', rl') \<and>
     eq_items q' = [\<lparr>fn = Some 2, fn_arg = Some 0\<rparr>] \<and> eq_counter q' = 0"
  using itqueue_loses_wakeups [of "\<lparr>fn = Some 1, fn_arg = Some 0\<rparr>" "[\<lparr>fn = Some 2, fn_arg = Some 0\<rparr>]",
      OF _ _ demo_loop_room, of 4]
  by (auto simp: postable_def)

section \<open>Eventfd watchers as semaphores\<close>

lemma fire_adds:
  assumes "unat (ef_counter e) + k \<le> 2 ^ 64 - 2"
  shows "fold_res (\<lambda>_. runloop_eventfd_fire) [0..<k] e = Inr (e\<lparr>ef_counter := ef_counter e + of_nat k\<rparr>)"
  using assms
proof (induction k)
  case (Suc k)
  have "unat (ef_counter e + of_nat k) = unat (ef_counter e) + k"
    using Suc.prems by (simp add: unat_word_ariths unat_of_nat)
  with Suc show ?case
    by (simp add: fold_res_append runloop_eventfd_fire_def eventfd_write_def algebra_simps)
qed simp

definition log_call :: "'c \<Rightarrow> 'a option \<Rightarrow> 'e \<times> ('c \<times> 'a option) list \<Rightarrow> ('e \<times> ('c \<times> 'a option) list) res" where
  "log_call c a st = Inr (fst st, snd st @ [(c, a)])"

lemma handler_takes_one:
  assumes "fdevent_postable e = Some c" "k < 2 ^ 64"
  shows "eventfd_handler log_call (e\<lparr>ef_counter := of_nat k\<rparr>, l) =
     Inr (e\<lparr>ef_counter := of_nat (k - 1)\<rparr>, l @ (if k = 0 then [] else [(c, fdevent_postable_arg e)]))"
proof (cases k)
  case (Suc n)
  have "of_nat k \<noteq> (0 :: 64 word)"
    using assms(2) Suc by (simp add: word_of_nat_eq_0_iff nat_dvd_not_less del: of_nat_Suc)
  with Suc assms(1) show ?thesis
    by (simp add: eventfd_handler_def eventfd_read_def Functor_call_def log_call_def)
qed (simp add: eventfd_handler_def eventfd_read_def)

lemma handler_runs:
  assumes "fdevent_postable e = Some c" "k < 2 ^ 64"
  shows "fold_res (\<lambda>_. eventfd_handler log_call) [0..<n] (e\<lparr>ef_counter := of_nat k\<rparr>, []) =
     Inr (e\<lparr>ef_counter := of_nat (k - n)\<rparr>, replicate (min n k) (c, fdevent_postable_arg e))"
proof (induction n)
  case (Suc n)
  have "k - n < 2 ^ 64" using assms(2) by simp
  from handler_takes_one [OF assms(1) this] Suc show ?case
    by (auto simp: fold_res_append replicate_append_same min_def)
qed (use assms in simp)

lemma clear_all_loop_zero: "clear_all_loop c = 0"
  by (induction c rule: clear_all_loop.induct)
    (subst clear_all_loop.simps, auto simp: eventfd_read_def split: option.splits)

text \<open>
  C29: An eventfd watcher is a semaphore. After k fires the handler calls the callback k times in
  its first k runs and not at all afterwards, and the loop that clears all events ends for every
  counter and leaves it zero.
\<close>

theorem each_fire_is_one_call:
  assumes "fdevent_postable e = Some c" "ef_counter e = 0" "k \<le> 2 ^ 64 - 2"
  shows "\<exists>e1. fold_res (\<lambda>_. runloop_eventfd_fire) [0..<k] e = Inr e1 \<and>
     (\<forall>n. fold_res (\<lambda>_. eventfd_handler log_call) [0..<n] (e1, []) =
        Inr (e1\<lparr>ef_counter := of_nat (k - n)\<rparr>, replicate (min n k) (c, fdevent_postable_arg e))) \<and>
     ef_counter (runloop_eventfd_clear_all_events e1) = 0"
proof -
  from assms have k: "k < 2 ^ 64" by simp
  show ?thesis
    using fire_adds [of e k] handler_runs [OF assms(1) k] assms(2,3)
    by (auto simp: runloop_eventfd_clear_all_events_def clear_all_loop_zero)
qed

theorem each_fire_is_one_call_witness:
  "\<exists>e1. fold_res (\<lambda>_. runloop_eventfd_fire) [0..<3]
       \<lparr>ef_fd = 5, ef_counter = 0, fdevent_postable = Some CHR ''c'', fdevent_postable_arg = Some (7::int)\<rparr> = Inr e1 \<and>
     (\<forall>n. fold_res (\<lambda>_. eventfd_handler log_call) [0..<n] (e1, []) =
        Inr (e1\<lparr>ef_counter := of_nat (3 - n)\<rparr>, replicate (min n 3) (CHR ''c'', Some 7))) \<and>
     ef_counter (runloop_eventfd_clear_all_events e1) = 0"
  using each_fire_is_one_call [of "\<lparr>ef_fd = 5, ef_counter = 0, fdevent_postable = Some CHR ''c'',
      fdevent_postable_arg = Some (7::int)\<rparr>" "CHR ''c''" 3] by simp

end
