(* ===== verification/Watchers.thy ===== *)
theory Watchers
  imports Eventfd "HOL-Library.Signed_Division"
begin

text \<open>
  The watchers on sockets, listeners and timers: \<^verbatim>\<open>src/runloop/epoll_runloop/w_stream.c\<close>,
  \<^verbatim>\<open>w_listener.c\<close> (with the asynchronous listener) and \<^verbatim>\<open>w_timerfd.c\<close>.

  A watcher knows its own address of type \<open>'w\<close>, which it hands to the run loop. The functions a
  watcher calls act on the watcher, on the run loop and on a state of their own, through the
  parameter \<open>call\<close>.
\<close>

section \<open>Streams\<close>

record ('w, 'p, 'q) RunloopStream =
  rs_self :: 'w
  rs_fd :: int
  event_mask :: "64 word"
  read_postable_cb :: "'p option"
  read_postable_arg :: "'q option"
  write_postable_cb :: "'p option"
  write_postable_arg :: "'q option"

text \<open>The handler looks at the armed events, not at the events that occurred; \<open>rs\<close> finds the watcher.\<close>

definition armed :: "('w, 'p, 'q) RunloopStream \<Rightarrow> 32 word \<Rightarrow> bool" where
  "armed rl_stream ev \<longleftrightarrow> and (event_mask rl_stream) (ucast ev) \<noteq> 0"

definition stream_handler ::
  "('st \<Rightarrow> ('w, 'p, 'q) RunloopStream) \<Rightarrow> ('p \<Rightarrow> 'q option \<Rightarrow> 'st \<Rightarrow> 'st res) \<Rightarrow> 'st \<Rightarrow> 'st res" where
  "stream_handler rs call st =
     rbind (case read_postable_cb (rs st) of
              Some cb \<Rightarrow> if armed (rs st) EPOLLIN then call cb (read_postable_arg (rs st)) st else Inr st
            | None \<Rightarrow> Inr st) (\<lambda>st1.
     case write_postable_cb (rs st1) of
       Some cb \<Rightarrow> if armed (rs st1) EPOLLOUT then call cb (write_postable_arg (rs st1)) st1 else Inr st1
     | None \<Rightarrow> Inr st1)"

definition runloop_stream_init :: "'w \<Rightarrow> int \<Rightarrow> ('w, 'p, 'q) RunloopStream" where
  "runloop_stream_init self fd =
     \<lparr>rs_self = self, rs_fd = fd, event_mask = 0, read_postable_cb = None, read_postable_arg = None,
      write_postable_cb = None, write_postable_arg = None\<rparr>"

definition runloop_stream_new :: "'w \<Rightarrow> int \<Rightarrow> ('w, 'p, 'q) RunloopStream" where
  "runloop_stream_new self fd = runloop_stream_init self fd"

definition runloop_stream_free ::
  "('w, 'p, 'q) RunloopStream \<Rightarrow> ('w, 'c, 'a) Runloop \<Rightarrow> ('w, 'c, 'a) Runloop" where
  "runloop_stream_free athis rl = close_fd rl (rs_fd athis)"

definition runloop_stream_register ::
  "('w, 'p, 'q) RunloopStream \<Rightarrow> ('w, 'c, 'a) Runloop \<Rightarrow> ('w, 'c, 'a) Runloop res" where
  "runloop_stream_register athis rl = runloop_register rl (rs_fd athis) 0 (rs_self athis)"

definition runloop_stream_deregister ::
  "('w, 'p, 'q) RunloopStream \<Rightarrow> ('w, 'c, 'a) Runloop \<Rightarrow> ('w, 'c, 'a) Runloop res" where
  "runloop_stream_deregister athis rl = runloop_deregister rl (rs_fd athis)"

definition stream_reregister ::
  "('w, 'p, 'q) RunloopStream \<Rightarrow> ('w, 'c, 'a) Runloop \<Rightarrow>
   (('w, 'p, 'q) RunloopStream \<times> ('w, 'c, 'a) Runloop) res" where
  "stream_reregister athis rl =
     rbind (runloop_reregister rl (rs_fd athis) (ucast (event_mask athis)) (rs_self athis)) (\<lambda>rl1.
     Inr (athis, rl1))"

definition runloop_stream_arm_both ::
  "('w, 'p, 'q) RunloopStream \<Rightarrow> 'p option \<Rightarrow> 'q option \<Rightarrow> 'p option \<Rightarrow> 'q option \<Rightarrow> ('w, 'c, 'a) Runloop \<Rightarrow>
   (('w, 'p, 'q) RunloopStream \<times> ('w, 'c, 'a) Runloop) res" where
  "runloop_stream_arm_both athis rcb rarg wcb warg rl =
     stream_reregister
       (athis\<lparr>event_mask := or (ucast (or EPOLLET (or EPOLLOUT (or EPOLLIN (or EPOLLERR (or EPOLLHUP EPOLLRDHUP))))))
                (event_mask athis),
              read_postable_cb := set_some rcb (read_postable_cb athis),
              read_postable_arg := set_some rarg (read_postable_arg athis),
              write_postable_cb := set_some wcb (write_postable_cb athis),
              write_postable_arg := set_some warg (write_postable_arg athis)\<rparr>) rl"

definition runloop_stream_arm_read ::
  "('w, 'p, 'q) RunloopStream \<Rightarrow> 'p option \<Rightarrow> 'q option \<Rightarrow> ('w, 'c, 'a) Runloop \<Rightarrow>
   (('w, 'p, 'q) RunloopStream \<times> ('w, 'c, 'a) Runloop) res" where
  "runloop_stream_arm_read athis cb a rl =
     stream_reregister
       (athis\<lparr>event_mask := or (ucast (or EPOLLIN (or EPOLLERR (or EPOLLHUP EPOLLRDHUP)))) (event_mask athis),
              read_postable_cb := set_some cb (read_postable_cb athis),
              read_postable_arg := set_some a (read_postable_arg athis)\<rparr>) rl"

definition runloop_stream_arm_write ::
  "('w, 'p, 'q) RunloopStream \<Rightarrow> 'p option \<Rightarrow> 'q option \<Rightarrow> ('w, 'c, 'a) Runloop \<Rightarrow>
   (('w, 'p, 'q) RunloopStream \<times> ('w, 'c, 'a) Runloop) res" where
  "runloop_stream_arm_write athis cb a rl =
     stream_reregister
       (athis\<lparr>event_mask := or (ucast (or EPOLLOUT (or EPOLLERR (or EPOLLHUP EPOLLRDHUP)))) (event_mask athis),
              write_postable_cb := set_some cb (write_postable_cb athis),
              write_postable_arg := set_some a (write_postable_arg athis)\<rparr>) rl"

definition runloop_stream_disarm_read ::
  "('w, 'p, 'q) RunloopStream \<Rightarrow> ('w, 'c, 'a) Runloop \<Rightarrow>
   (('w, 'p, 'q) RunloopStream \<times> ('w, 'c, 'a) Runloop) res" where
  "runloop_stream_disarm_read athis rl =
     stream_reregister
       (athis\<lparr>event_mask := and (event_mask athis) (not (ucast EPOLLIN)),
              read_postable_cb := None, read_postable_arg := None\<rparr>) rl"

definition runloop_stream_disarm_write ::
  "('w, 'p, 'q) RunloopStream \<Rightarrow> ('w, 'c, 'a) Runloop \<Rightarrow>
   (('w, 'p, 'q) RunloopStream \<times> ('w, 'c, 'a) Runloop) res" where
  "runloop_stream_disarm_write athis rl =
     stream_reregister
       (athis\<lparr>event_mask := and (not (ucast EPOLLOUT)) (event_mask athis),
              write_postable_cb := None, write_postable_arg := None\<rparr>) rl"

definition runloop_stream_get_fd :: "('w, 'p, 'q) RunloopStream \<Rightarrow> int" where
  "runloop_stream_get_fd athis = rs_fd athis"

section \<open>Listeners\<close>

record ('w, 'p, 'q) RunloopListener =
  ls_self :: 'w
  ls_fd :: int
  listen_postable :: "'p option"
  listen_postable_arg :: "'q option"

definition listener_handler ::
  "('p \<Rightarrow> 'q option \<Rightarrow> ('w, 'p, 'q) RunloopListener \<times> 's \<Rightarrow> (('w, 'p, 'q) RunloopListener \<times> 's) res) \<Rightarrow>
   ('w, 'p, 'q) RunloopListener \<times> 's \<Rightarrow> (('w, 'p, 'q) RunloopListener \<times> 's) res" where
  "listener_handler call st =
     (case listen_postable (fst st) of
        None \<Rightarrow> Inr st
      | Some p \<Rightarrow> call p (listen_postable_arg (fst st)) st)"

definition runloop_listener_init :: "'w \<Rightarrow> int \<Rightarrow> ('w, 'p, 'q) RunloopListener" where
  "runloop_listener_init self fd =
     \<lparr>ls_self = self, ls_fd = fd, listen_postable = None, listen_postable_arg = None\<rparr>"

definition runloop_listener_new :: "'w \<Rightarrow> int \<Rightarrow> ('w, 'p, 'q) RunloopListener" where
  "runloop_listener_new self fd = runloop_listener_init self fd"

definition runloop_listener_free ::
  "('w, 'p, 'q) RunloopListener \<Rightarrow> ('w, 'c, 'a) Runloop \<Rightarrow> ('w, 'c, 'a) Runloop" where
  "runloop_listener_free athis rl = close_fd rl (ls_fd athis)"

definition runloop_listener_register ::
  "('w, 'p, 'q) RunloopListener \<Rightarrow> 'p option \<Rightarrow> 'q option \<Rightarrow> ('w, 'c, 'a) Runloop \<Rightarrow>
   (('w, 'p, 'q) RunloopListener \<times> ('w, 'c, 'a) Runloop) res" where
  "runloop_listener_register athis p a rl =
     rbind (runloop_register rl (ls_fd athis) (or EPOLLIN EPOLLEXCLUSIVE) (ls_self athis)) (\<lambda>rl1.
     Inr (athis\<lparr>listen_postable := set_some p (listen_postable athis),
                listen_postable_arg := set_some a (listen_postable_arg athis)\<rparr>, rl1))"

definition runloop_listener_deregister ::
  "('w, 'p, 'q) RunloopListener \<Rightarrow> ('w, 'c, 'a) Runloop \<Rightarrow> ('w, 'c, 'a) Runloop res" where
  "runloop_listener_deregister athis rl = runloop_deregister rl (ls_fd athis)"

definition runloop_listener_arm ::
  "('w, 'p, 'q) RunloopListener \<Rightarrow> 'p option \<Rightarrow> 'q option \<Rightarrow> ('w, 'c, 'a) Runloop \<Rightarrow>
   (('w, 'p, 'q) RunloopListener \<times> ('w, 'c, 'a) Runloop) res" where
  "runloop_listener_arm athis p a rl =
     rbind (runloop_reregister rl (ls_fd athis) EPOLLIN (ls_self athis)) (\<lambda>rl1.
     Inr (athis\<lparr>listen_postable := set_some p (listen_postable athis),
                listen_postable_arg := set_some a (listen_postable_arg athis)\<rparr>, rl1))"

definition runloop_listener_disarm ::
  "('w, 'p, 'q) RunloopListener \<Rightarrow> ('w, 'c, 'a) Runloop \<Rightarrow> ('w, 'c, 'a) Runloop res" where
  "runloop_listener_disarm athis rl = runloop_reregister rl (ls_fd athis) 0 (ls_self athis)"

definition runloop_listener_get_fd :: "('w, 'p, 'q) RunloopListener \<Rightarrow> int" where
  "runloop_listener_get_fd athis = ls_fd athis"

subsection \<open>Asynchronous listeners\<close>

text \<open>The only function a listener of this kind is registered with is \<open>on_listening_postable\<close>.\<close>

datatype listener_postable = On_listening_postable

record ('w, 'k, 'd) AsioListener =
  rl_listener :: "('w, listener_postable, unit) RunloopListener"
  on_accept_callback :: "'k option"
  on_accept_callback_arg :: "'d option"

definition asio_listener_init :: "'w \<Rightarrow> int \<Rightarrow> ('w, 'k, 'd) AsioListener" where
  "asio_listener_init self socket_fd =
     \<lparr>rl_listener = runloop_listener_new self socket_fd, on_accept_callback = None, on_accept_callback_arg = None\<rparr>"

definition asio_listener_new :: "'w \<Rightarrow> int \<Rightarrow> ('w, 'k, 'd) AsioListener" where
  "asio_listener_new self socket_fd = asio_listener_init self socket_fd"

definition asio_listener_deinit ::
  "('w, 'k, 'd) AsioListener \<Rightarrow> ('w, 'c, 'a) Runloop \<Rightarrow> ('w, 'c, 'a) Runloop" where
  "asio_listener_deinit this rl = runloop_listener_free (rl_listener this) rl"

definition asio_listener_free ::
  "('w, 'k, 'd) AsioListener \<Rightarrow> ('w, 'c, 'a) Runloop \<Rightarrow> ('w, 'c, 'a) Runloop" where
  "asio_listener_free this rl = asio_listener_deinit this rl"

definition asio_accept ::
  "('w, 'k, 'd) AsioListener \<Rightarrow> 'k option \<Rightarrow> 'd option \<Rightarrow> ('w, 'c, 'a) Runloop \<Rightarrow>
   (('w, 'k, 'd) AsioListener \<times> ('w, 'c, 'a) Runloop) res" where
  "asio_accept this cb a rl =
     rbind (runloop_listener_register (rl_listener this) (Some On_listening_postable) (Some ()) rl) (\<lambda>(ls, rl1).
     Inr (this\<lparr>rl_listener := ls, on_accept_callback := cb, on_accept_callback_arg := a\<rparr>, rl1))"

text \<open>\<open>sock2\<close> and \<open>errno\<close> are what \<open>accept\<close> returns.\<close>

definition on_listening_postable ::
  "('k \<Rightarrow> 'd option \<Rightarrow> int \<Rightarrow> int \<Rightarrow> ('w, 'k, 'd) AsioListener \<times> ('w, 'c, 'a) Runloop \<times> 's \<Rightarrow>
      (('w, 'k, 'd) AsioListener \<times> ('w, 'c, 'a) Runloop \<times> 's) res) \<Rightarrow>
   int \<Rightarrow> int \<Rightarrow> ('w, 'k, 'd) AsioListener \<times> ('w, 'c, 'a) Runloop \<times> 's \<Rightarrow>
   (('w, 'k, 'd) AsioListener \<times> ('w, 'c, 'a) Runloop \<times> 's) res" where
  "on_listening_postable call sock2 errno st =
     (case st of (al, rl, s) \<Rightarrow>
        let al1 = al\<lparr>on_accept_callback := None, on_accept_callback_arg := None\<rparr> in
        rbind (if sock2 \<le> 0 then runloop_listener_disarm (rl_listener al) rl
               else runloop_listener_deregister (rl_listener al) rl) (\<lambda>rl1.
        case on_accept_callback al of
          None \<Rightarrow> Inl Null_deref
        | Some cb \<Rightarrow> call cb (on_accept_callback_arg al) sock2 (if sock2 \<le> 0 then errno else 0) (al1, rl1, s)))"

section \<open>Timers\<close>

text \<open>
  A time setting holds seconds and nanoseconds up to the first expiry and between expiries. The
  kernel's timer is part of the watcher; setting it fails on values outside their ranges.
\<close>

record itimerspec =
  value_sec :: int
  value_nsec :: int
  interval_sec :: int
  interval_nsec :: int

definition timerfd_settime :: "itimerspec \<Rightarrow> bool" where
  "timerfd_settime its \<longleftrightarrow>
     0 \<le> value_sec its \<and> 0 \<le> value_nsec its \<and> value_nsec its < 1000000000 \<and>
     0 \<le> interval_sec its \<and> 0 \<le> interval_nsec its \<and> interval_nsec its < 1000000000"

record ('w, 'p, 'q) RunloopTimer =
  tm_self :: 'w
  tm_fd :: int
  tm_interval :: "64 word"
  tm_repeating :: bool
  timer_postable :: "'p option"
  timer_postable_arg :: "'q option"
  tm_setting :: "itimerspec option"

definition runloop_timer_init :: "'w \<Rightarrow> int \<Rightarrow> ('w, 'p, 'q) RunloopTimer" where
  "runloop_timer_init self fd =
     \<lparr>tm_self = self, tm_fd = fd, tm_interval = 0, tm_repeating = False, timer_postable = None,
      timer_postable_arg = None, tm_setting = None\<rparr>"

definition runloop_timer_new :: "'w \<Rightarrow> int \<Rightarrow> ('w, 'p, 'q) RunloopTimer" where
  "runloop_timer_new self fd = runloop_timer_init self fd"

definition runloop_timer_free ::
  "('w, 'p, 'q) RunloopTimer \<Rightarrow> ('w, 'c, 'a) Runloop \<Rightarrow> ('w, 'c, 'a) Runloop" where
  "runloop_timer_free athis rl = close_fd rl (tm_fd athis)"

definition runloop_timer_deregister ::
  "('w, 'p, 'q) RunloopTimer \<Rightarrow> ('w, 'c, 'a) Runloop \<Rightarrow> ('w, 'c, 'a) Runloop res" where
  "runloop_timer_deregister athis rl = runloop_deregister rl (tm_fd athis)"

definition WTimerFd_update_interval ::
  "('w, 'p, 'q) RunloopTimer \<Rightarrow> 64 word \<Rightarrow> bool \<Rightarrow> ('w, 'p, 'q) RunloopTimer \<times> itimerspec" where
  "WTimerFd_update_interval this interval_ms repeating =
     (let ex_time_ns = sint (1000 * interval_ms);
          sec = ex_time_ns sdiv 1000000;
          nsec = ex_time_ns smod 1000000 in
      (this\<lparr>tm_repeating := repeating, tm_interval := interval_ms\<rparr>,
       if repeating
       then \<lparr>value_sec = sec, value_nsec = nsec, interval_sec = sec, interval_nsec = nsec\<rparr>
       else \<lparr>value_sec = sec, value_nsec = nsec, interval_sec = 11, interval_nsec = 0\<rparr>))"

definition timer_settime ::
  "('w, 'p, 'q) RunloopTimer \<times> itimerspec \<Rightarrow> ('w, 'p, 'q) RunloopTimer res" where
  "timer_settime u =
     rbind (c_assert (timerfd_settime (snd u))) (\<lambda>_. Inr ((fst u)\<lparr>tm_setting := Some (snd u)\<rparr>))"

definition runloop_timer_register ::
  "('w, 'p, 'q) RunloopTimer \<Rightarrow> 'p option \<Rightarrow> 'q option \<Rightarrow> 64 word \<Rightarrow> bool \<Rightarrow> ('w, 'c, 'a) Runloop \<Rightarrow>
   (('w, 'p, 'q) RunloopTimer \<times> ('w, 'c, 'a) Runloop) res" where
  "runloop_timer_register athis cb ctx interval_ms repeating rl =
     rbind (timer_settime (WTimerFd_update_interval (athis\<lparr>timer_postable := cb, timer_postable_arg := ctx\<rparr>)
              interval_ms repeating)) (\<lambda>athis1.
     rbind (runloop_register rl (tm_fd athis1) (or EPOLLIN EPOLLERR) (tm_self athis1)) (\<lambda>rl1.
     Inr (athis1, rl1)))"

definition runloop_timer_update ::
  "('w, 'p, 'q) RunloopTimer \<Rightarrow> 64 word \<Rightarrow> bool \<Rightarrow> ('w, 'c, 'a) Runloop \<Rightarrow>
   (('w, 'p, 'q) RunloopTimer \<times> ('w, 'c, 'a) Runloop) res" where
  "runloop_timer_update athis interval_ms repeating rl =
     rbind (timer_settime (WTimerFd_update_interval athis interval_ms repeating)) (\<lambda>athis1.
     rbind (runloop_reregister rl (tm_fd athis1) 0 (tm_self athis1)) (\<lambda>rl1. Inr (athis1, rl1)))"

definition runloop_timer_disarm :: "('w, 'p, 'q) RunloopTimer \<Rightarrow> ('w, 'p, 'q) RunloopTimer res" where
  "runloop_timer_disarm athis =
     timer_settime (WTimerFd_update_interval athis (tm_interval athis) (tm_repeating athis))"

definition runloop_timer_rearm_old ::
  "('w, 'p, 'q) RunloopTimer \<Rightarrow> 'p option \<Rightarrow> 'q option \<Rightarrow> 64 word \<Rightarrow> bool \<Rightarrow> ('w, 'p, 'q) RunloopTimer res" where
  "runloop_timer_rearm_old athis cb ctx interval_ms repeating =
     timer_settime (WTimerFd_update_interval (athis\<lparr>timer_postable := cb, timer_postable_arg := ctx\<rparr>)
       interval_ms repeating)"

definition runloop_timer_rearm :: "('w, 'p, 'q) RunloopTimer \<Rightarrow> ('w, 'p, 'q) RunloopTimer res" where
  "runloop_timer_rearm athis =
     timer_settime (WTimerFd_update_interval athis (tm_interval athis) (tm_repeating athis))"

definition runloop_timer_set ::
  "'w \<Rightarrow> int \<Rightarrow> 'p option \<Rightarrow> 'q option \<Rightarrow> 64 word \<Rightarrow> bool \<Rightarrow> ('w, 'c, 'a) Runloop \<Rightarrow>
   (('w, 'p, 'q) RunloopTimer \<times> ('w, 'c, 'a) Runloop) res" where
  "runloop_timer_set self fd cb ctx interval_ms repeating rl =
     runloop_timer_register (runloop_timer_new self fd) cb ctx interval_ms repeating rl"

definition runloop_timer_clear ::
  "('w, 'p, 'q) RunloopTimer \<Rightarrow> ('w, 'c, 'a) Runloop \<Rightarrow> ('w, 'c, 'a) Runloop res" where
  "runloop_timer_clear timerref rl =
     rbind (runloop_timer_deregister timerref rl) (\<lambda>rl1. Inr (runloop_timer_free timerref rl1))"

definition timer_handler ::
  "('p \<Rightarrow> 'q option \<Rightarrow> ('w, 'p, 'q) RunloopTimer \<times> ('w, 'c, 'a) Runloop \<times> 's \<Rightarrow>
      (('w, 'p, 'q) RunloopTimer \<times> ('w, 'c, 'a) Runloop \<times> 's) res) \<Rightarrow>
   ('w, 'p, 'q) RunloopTimer \<times> ('w, 'c, 'a) Runloop \<times> 's \<Rightarrow>
   (('w, 'p, 'q) RunloopTimer \<times> ('w, 'c, 'a) Runloop \<times> 's) res" where
  "timer_handler call st =
     (case st of (tm, rl, s) \<Rightarrow>
        rbind (if tm_repeating tm then Inr rl else runloop_timer_deregister tm rl) (\<lambda>rl1.
        case timer_postable tm of
          None \<Rightarrow> Inl Assert_fail
        | Some p \<Rightarrow> call p (timer_postable_arg tm) (tm, rl1, s)))"

section \<open>Armed events and the kernel\<close>

text \<open>
  The invariant of a registered stream: the loop is well formed, its table and its epoll instance
  know the stream under its descriptor, and the kernel's interest is the mask of the stream, which
  has no flags other than those the stream operations set.
\<close>

definition stream_bits :: "64 word" where
  "stream_bits = 0x8000201D"

definition mask_ok :: "64 word \<Rightarrow> bool" where
  "mask_ok m \<longleftrightarrow> or m stream_bits = stream_bits"

definition stream_ok :: "('w, 'p, 'q) RunloopStream \<Rightarrow> ('w, 'c, 'a) Runloop \<Rightarrow> bool" where
  "stream_ok rs rl \<longleftrightarrow>
     rl_ok rl \<and> fd_watcher (rl_table rl) (rs_fd rs) = Some (rs_self rs) \<and>
     epoll_set rl (rs_fd rs) = Some (ucast (event_mask rs), Some (rs_self rs)) \<and> mask_ok (event_mask rs)"

lemmas epoll_flags = EPOLLIN_def EPOLLOUT_def EPOLLERR_def EPOLLHUP_def EPOLLRDHUP_def EPOLLET_def
  EPOLLEXCLUSIVE_def

lemma mask_ok_bit: "mask_ok m \<longleftrightarrow> (\<forall>n. bit m n \<longrightarrow> bit stream_bits n)"
proof
  show "mask_ok m \<Longrightarrow> \<forall>n. bit m n \<longrightarrow> bit stream_bits n"
    unfolding mask_ok_def by (metis bit_or_iff)
qed (auto simp: mask_ok_def bit_eq_iff bit_or_iff)

lemma mask_ok_zero [simp]: "mask_ok 0"
  by (simp add: mask_ok_def)

lemma mask_ok_or: "mask_ok m \<Longrightarrow> mask_ok k \<Longrightarrow> mask_ok (or k m)"
  by (auto simp: mask_ok_bit bit_or_iff)

lemma mask_ok_and: "mask_ok m \<Longrightarrow> mask_ok (and m k)" "mask_ok m \<Longrightarrow> mask_ok (and k m)"
  by (auto simp: mask_ok_bit bit_and_iff)

lemma mask_ok_nonexclusive:
  assumes "mask_ok m"
  shows "nonexclusive (ucast m)"
proof -
  have "\<not> bit stream_bits 28" by (simp add: stream_bits_def)
  with assms have "\<not> bit m 28" by (auto simp: mask_ok_bit)
  then have "\<not> bit (ucast m :: 32 word) 28" by (simp add: bit_ucast_iff)
  moreover have "EPOLLEXCLUSIVE = push_bit 28 1" by (simp add: EPOLLEXCLUSIVE_def)
  ultimately show ?thesis
    unfolding nonexclusive_def by (metis bit_iff_and_push_bit_not_eq_0)
qed

lemma armed_bits: "armed rs EPOLLIN \<longleftrightarrow> bit (event_mask rs) 0" "armed rs EPOLLOUT \<longleftrightarrow> bit (event_mask rs) 2"
proof -
  have "(ucast EPOLLIN :: 64 word) = 2 ^ 0" "(ucast EPOLLOUT :: 64 word) = 2 ^ 2"
    by (simp_all add: epoll_flags)
  then show "armed rs EPOLLIN \<longleftrightarrow> bit (event_mask rs) 0" "armed rs EPOLLOUT \<longleftrightarrow> bit (event_mask rs) 2"
    unfolding armed_def by (simp_all only: bit_iff_and_push_bit_not_eq_0 push_bit_of_1)
qed

lemma runloop_stream_register_ok:
  assumes "rl_ok rl" "fd_valid fd" "fd_watcher (rl_table rl) fd = None"
  shows "\<exists>rl'. runloop_stream_register (runloop_stream_new w fd) rl = Inr rl' \<and> stream_ok (runloop_stream_new w fd) rl' \<and>
           ready_list rl' = ready_list rl"
proof -
  have "addable 0" by (simp add: addable_def nonexclusive_def)
  from runloop_register_ok [OF assms this, of w] show ?thesis
    by (auto simp: runloop_stream_register_def runloop_stream_new_def runloop_stream_init_def stream_ok_def)
qed

lemma stream_reregister_ok:
  assumes "stream_ok rs rl" "rs_fd rs' = rs_fd rs" "rs_self rs' = rs_self rs" "mask_ok (event_mask rs')"
  shows "\<exists>rl'. stream_reregister rs' rl = Inr (rs', rl') \<and> stream_ok rs' rl' \<and>
           rl_table rl' = rl_table rl \<and> ready_list rl' = ready_list rl"
proof -
  from assms(1) have "rl_ok rl" "fd_watcher (rl_table rl) (rs_fd rs) = Some (rs_self rs)"
    "epoll_set rl (rs_fd rs) = Some (ucast (event_mask rs), Some (rs_self rs))" "mask_ok (event_mask rs)"
    by (auto simp: stream_ok_def)
  from runloop_reregister_ok [OF this(1,2,3) mask_ok_nonexclusive mask_ok_nonexclusive, OF this(4) assms(4)]
  show ?thesis using assms by (auto simp: stream_reregister_def stream_ok_def)
qed

datatype ('p, 'q) stream_op =
    Arm_read "'p option" "'q option"
  | Arm_write "'p option" "'q option"
  | Arm_both "'p option" "'q option" "'p option" "'q option"
  | Disarm_read
  | Disarm_write

fun stream_exec ::
  "('p, 'q) stream_op \<Rightarrow> ('w, 'p, 'q) RunloopStream \<times> ('w, 'c, 'a) Runloop \<Rightarrow>
   (('w, 'p, 'q) RunloopStream \<times> ('w, 'c, 'a) Runloop) res" where
  "stream_exec (Arm_read p a) st = runloop_stream_arm_read (fst st) p a (snd st)"
| "stream_exec (Arm_write p a) st = runloop_stream_arm_write (fst st) p a (snd st)"
| "stream_exec (Arm_both p a q b) st = runloop_stream_arm_both (fst st) p a q b (snd st)"
| "stream_exec Disarm_read st = runloop_stream_disarm_read (fst st) (snd st)"
| "stream_exec Disarm_write st = runloop_stream_disarm_write (fst st) (snd st)"

text \<open>The abstract stream: whether reading and whether writing is armed.\<close>

fun abs_op :: "('p, 'q) stream_op \<Rightarrow> bool \<times> bool \<Rightarrow> bool \<times> bool" where
  "abs_op (Arm_read _ _) (r, w) = (True, w)"
| "abs_op (Arm_write _ _) (r, w) = (r, True)"
| "abs_op (Arm_both _ _ _ _) _ = (True, True)"
| "abs_op Disarm_read (r, w) = (False, w)"
| "abs_op Disarm_write (r, w) = (r, False)"

definition stream_abs :: "('w, 'p, 'q) RunloopStream \<Rightarrow> bool \<times> bool" where
  "stream_abs rs = (armed rs EPOLLIN, armed rs EPOLLOUT)"

lemma flag_bits:
  "bit (ucast (or EPOLLIN (or EPOLLERR (or EPOLLHUP EPOLLRDHUP))) :: 64 word) 0"
  "\<not> bit (ucast (or EPOLLIN (or EPOLLERR (or EPOLLHUP EPOLLRDHUP))) :: 64 word) 2"
  "\<not> bit (ucast (or EPOLLOUT (or EPOLLERR (or EPOLLHUP EPOLLRDHUP))) :: 64 word) 0"
  "bit (ucast (or EPOLLOUT (or EPOLLERR (or EPOLLHUP EPOLLRDHUP))) :: 64 word) 2"
  "bit (ucast (or EPOLLET (or EPOLLOUT (or EPOLLIN (or EPOLLERR (or EPOLLHUP EPOLLRDHUP))))) :: 64 word) 0"
  "bit (ucast (or EPOLLET (or EPOLLOUT (or EPOLLIN (or EPOLLERR (or EPOLLHUP EPOLLRDHUP))))) :: 64 word) 2"
  "bit (not (ucast EPOLLIN) :: 64 word) 2" "\<not> bit (not (ucast EPOLLIN) :: 64 word) 0"
  "bit (not (ucast EPOLLOUT) :: 64 word) 0" "\<not> bit (not (ucast EPOLLOUT) :: 64 word) 2"
  by (simp_all add: epoll_flags bit_not_iff)

lemma flag_masks:
  "mask_ok (ucast (or EPOLLIN (or EPOLLERR (or EPOLLHUP EPOLLRDHUP))))"
  "mask_ok (ucast (or EPOLLOUT (or EPOLLERR (or EPOLLHUP EPOLLRDHUP))))"
  "mask_ok (ucast (or EPOLLET (or EPOLLOUT (or EPOLLIN (or EPOLLERR (or EPOLLHUP EPOLLRDHUP))))))"
  by (simp_all add: epoll_flags mask_ok_def stream_bits_def)

lemmas stream_op_defs = runloop_stream_arm_read_def runloop_stream_arm_write_def runloop_stream_arm_both_def
  runloop_stream_disarm_read_def runloop_stream_disarm_write_def

lemma stream_exec_ok:
  assumes "stream_ok rs rl"
  shows "\<exists>rs' rl'. stream_exec op (rs, rl) = Inr (rs', rl') \<and> stream_ok rs' rl' \<and>
           stream_abs rs' = abs_op op (stream_abs rs) \<and> rs_fd rs' = rs_fd rs \<and> rs_self rs' = rs_self rs"
proof -
  from assms have m: "mask_ok (event_mask rs)" by (simp add: stream_ok_def)
  show ?thesis
  proof (cases op)
    case (Arm_read p a)
    from stream_reregister_ok [OF assms, of "rs\<lparr>event_mask := or (ucast (or EPOLLIN (or EPOLLERR
        (or EPOLLHUP EPOLLRDHUP)))) (event_mask rs), read_postable_cb := set_some p (read_postable_cb rs),
        read_postable_arg := set_some a (read_postable_arg rs)\<rparr>"] Arm_read m
    show ?thesis
      by (auto simp: stream_op_defs stream_abs_def armed_bits bit_or_iff flag_bits mask_ok_or flag_masks)
  next
    case (Arm_write p a)
    from stream_reregister_ok [OF assms, of "rs\<lparr>event_mask := or (ucast (or EPOLLOUT (or EPOLLERR
        (or EPOLLHUP EPOLLRDHUP)))) (event_mask rs), write_postable_cb := set_some p (write_postable_cb rs),
        write_postable_arg := set_some a (write_postable_arg rs)\<rparr>"] Arm_write m
    show ?thesis
      by (auto simp: stream_op_defs stream_abs_def armed_bits bit_or_iff flag_bits mask_ok_or flag_masks)
  next
    case (Arm_both p a q b)
    from stream_reregister_ok [OF assms, of "rs\<lparr>event_mask := or (ucast (or EPOLLET (or EPOLLOUT (or EPOLLIN
        (or EPOLLERR (or EPOLLHUP EPOLLRDHUP)))))) (event_mask rs),
        read_postable_cb := set_some p (read_postable_cb rs), read_postable_arg := set_some a (read_postable_arg rs),
        write_postable_cb := set_some q (write_postable_cb rs),
        write_postable_arg := set_some b (write_postable_arg rs)\<rparr>"] Arm_both m
    show ?thesis
      by (auto simp: stream_op_defs stream_abs_def armed_bits bit_or_iff flag_bits mask_ok_or flag_masks)
  next
    case Disarm_read
    with stream_reregister_ok [OF assms, of "rs\<lparr>event_mask := and (event_mask rs) (not (ucast EPOLLIN)),
        read_postable_cb := None, read_postable_arg := None\<rparr>"] m
    show ?thesis
      by (auto simp: stream_op_defs stream_abs_def armed_bits bit_and_iff flag_bits mask_ok_and)
  next
    case Disarm_write
    with stream_reregister_ok [OF assms, of "rs\<lparr>event_mask := and (not (ucast EPOLLOUT)) (event_mask rs),
        write_postable_cb := None, write_postable_arg := None\<rparr>"] m
    show ?thesis
      by (auto simp: stream_op_defs stream_abs_def armed_bits bit_and_iff flag_bits mask_ok_and)
  qed
qed

lemma stream_fold_ok:
  assumes "stream_ok rs rl"
  shows "\<exists>rs' rl'. fold_res stream_exec ops (rs, rl) = Inr (rs', rl') \<and> stream_ok rs' rl' \<and>
           stream_abs rs' = fold abs_op ops (stream_abs rs)"
  using assms
proof (induction ops arbitrary: rs rl)
  case (Cons op ops)
  from stream_exec_ok [OF Cons.prems, of op] obtain rs1 rl1 where
    "stream_exec op (rs, rl) = Inr (rs1, rl1)" "stream_ok rs1 rl1" "stream_abs rs1 = abs_op op (stream_abs rs)"
    by blast
  with Cons.IH [of rs1 rl1] show ?case by auto
qed simp

text \<open>
  C11: A stream that is registered with a loop can be armed and disarmed in any order without an
  error. At every moment the kernel watches the descriptor with exactly the mask of the stream, and
  reading or writing is armed exactly when the last operation on it armed it.
\<close>

theorem stream_interest_agrees:
  fixes rl :: "('w, 'c, 'a) Runloop" and w :: 'w and ops :: "('p, 'q) stream_op list"
  assumes "rl_ok rl" "fd_valid fd" "fd_watcher (rl_table rl) fd = None"
  shows "\<exists>rl0 rs rl1. runloop_stream_register (runloop_stream_new w fd :: ('w, 'p, 'q) RunloopStream) rl = Inr rl0 \<and>
           fold_res stream_exec ops (runloop_stream_new w fd, rl0) = Inr (rs, rl1) \<and> stream_ok rs rl1 \<and>
           stream_abs rs = fold abs_op ops (False, False)"
proof -
  from runloop_stream_register_ok [OF assms, of w, where ?'d = 'p and ?'e = 'q] obtain rl0 where
    "runloop_stream_register (runloop_stream_new w fd :: ('w, 'p, 'q) RunloopStream) rl = Inr rl0"
    "stream_ok (runloop_stream_new w fd :: ('w, 'p, 'q) RunloopStream) rl0" by blast
  moreover from stream_fold_ok [OF this(2), of ops] obtain rs rl1 where
    "fold_res stream_exec ops (runloop_stream_new w fd, rl0) = Inr (rs, rl1)" "stream_ok rs rl1"
    "stream_abs rs = fold abs_op ops (stream_abs (runloop_stream_new w fd :: ('w, 'p, 'q) RunloopStream))" by blast
  moreover have "stream_abs (runloop_stream_new w fd :: ('w, 'p, 'q) RunloopStream) = (False, False)"
    by (simp add: stream_abs_def armed_def runloop_stream_new_def runloop_stream_init_def)
  ultimately show ?thesis by auto
qed

theorem stream_interest_agrees_witness:
  "\<exists>rl0 rs rl1. runloop_stream_register (runloop_stream_new 1 5 :: (nat, nat, nat) RunloopStream) demo_loop = Inr rl0 \<and>
     fold_res stream_exec [Arm_read (Some (1 :: nat)) (Some (2 :: nat)), Arm_write (Some 3) (Some 2), Disarm_read]
       (runloop_stream_new 1 5, rl0) = Inr (rs, rl1) \<and> stream_ok rs rl1 \<and> stream_abs rs = (False, True)"
  using stream_interest_agrees [OF demo_loop(2), of 5 1
      "[Arm_read (Some (1 :: nat)) (Some (2 :: nat)), Arm_write (Some 3) (Some 2), Disarm_read]"] demo_loop(3)
  by (auto simp: fd_valid_def)

section \<open>Accepting connections\<close>

lemma asio_accept_ok:
  assumes "rl_ok rl" "fd_valid fd" "fd_watcher (rl_table rl) fd = None"
  shows "\<exists>al rl1. asio_accept (asio_listener_new w fd) cb a rl = Inr (al, rl1) \<and> rl_ok rl1 \<and>
     fd_watcher (rl_table rl1) = (fd_watcher (rl_table rl))(fd \<mapsto> w) \<and>
     epoll_set rl1 fd = Some (or EPOLLIN EPOLLEXCLUSIVE, Some w) \<and>
     ls_fd (rl_listener al) = fd \<and> ls_self (rl_listener al) = w \<and>
     on_accept_callback al = cb \<and> on_accept_callback_arg al = a"
proof -
  have "addable (or EPOLLIN EPOLLEXCLUSIVE)" by (simp add: addable_def epoll_flags EPOLLWAKEUP_def)
  from runloop_register_ok [OF assms this, of w] show ?thesis
    by (auto simp: asio_accept_def asio_listener_new_def asio_listener_init_def runloop_listener_new_def
        runloop_listener_init_def runloop_listener_register_def)
qed

lemma reregister_exclusive:
  assumes "rl_ok rl" "fd_watcher (rl_table rl) fd = Some w" "epoll_set rl fd = Some (m0, u)" "\<not> nonexclusive m0"
  shows "runloop_reregister rl fd m w = Inl Assert_fail"
proof -
  from assms(1) have "fd_ok (rl_table rl)" by (simp add: rl_ok_def)
  from ft.lookup_law [OF this assms(2)] assms(3,4) show ?thesis
    by (simp add: runloop_reregister_def runloop_epoll_ctl_def epoll_ctl_def)
qed

text \<open>
  C30: One asynchronous accept serves one connection: when the listening socket yields a
  connection, the callback is called once with it, after the listener has been removed from the
  loop, so that the callback can accept again. When accepting fails the callback is never called:
  disarming a listener that was registered for exclusive wake-ups is refused by the kernel and
  fails an assertion.
\<close>

theorem accept_outcome:
  assumes "rl_ok rl" "fd_valid fd" "fd_watcher (rl_table rl) fd = None"
  shows "\<exists>al rl1 al2 rl2. asio_accept (asio_listener_new w fd) (Some cb) a rl = Inr (al, rl1) \<and>
     rl_ok rl2 \<and> fd_watcher (rl_table rl2) = fd_watcher (rl_table rl) \<and> on_accept_callback al2 = None \<and>
     on_listening_postable call sock2 errno (al, rl1, s) =
       (if sock2 > 0 then call cb a sock2 0 (al2, rl2, s) else Inl Assert_fail)"
proof -
  from asio_accept_ok [OF assms, of w "Some cb" a] obtain al rl1 where
    al: "asio_accept (asio_listener_new w fd) (Some cb) a rl = Inr (al, rl1)" "rl_ok rl1"
    "fd_watcher (rl_table rl1) = (fd_watcher (rl_table rl))(fd \<mapsto> w)"
    "epoll_set rl1 fd = Some (or EPOLLIN EPOLLEXCLUSIVE, Some w)"
    "ls_fd (rl_listener al) = fd" "ls_self (rl_listener al) = w"
    "on_accept_callback al = Some cb" "on_accept_callback_arg al = a" by blast
  from runloop_deregister_ok [OF al(2), of fd w] al(3) assms(3) obtain rl2 where
    rl2: "runloop_deregister rl1 fd = Inr rl2" "rl_ok rl2" "fd_watcher (rl_table rl2) = fd_watcher (rl_table rl)"
    by (auto simp: fun_upd_idem)
  have "\<not> nonexclusive (or EPOLLIN EPOLLEXCLUSIVE)" by (simp add: nonexclusive_def epoll_flags)
  with reregister_exclusive [OF al(2) _ al(4), of w 0] al(3) have
    "runloop_reregister rl1 fd 0 w = Inl Assert_fail" by simp
  with al rl2 show ?thesis
    by (intro exI [of _ al] exI [of _ rl1] exI [of _ "al\<lparr>on_accept_callback := None, on_accept_callback_arg := None\<rparr>"]
        exI [of _ rl2])
      (simp add: on_listening_postable_def runloop_listener_disarm_def runloop_listener_deregister_def)
qed

theorem accept_outcome_witness:
  "\<exists>al rl1 al2 rl2. asio_accept (asio_listener_new 1 5) (Some CHR ''a'') (Some (3::nat)) demo_loop = Inr (al, rl1) \<and>
     rl_ok rl2 \<and> on_listening_postable (\<lambda>cb a fd e (al, rl, s). Inr (al, rl, s @ [fd])) 9 0 (al, rl1, [8]) =
       Inr (al2, rl2, [8, 9])"
  using accept_outcome [OF demo_loop(2), of 5 1 "CHR ''a''" "Some 3" "\<lambda>cb a fd e (al, rl, s). Inr (al, rl, s @ [fd])"
      9 0 "[8]"] demo_loop(3)
  by (auto simp: fd_valid_def)

section \<open>Delays of timers\<close>

lemma sint_small:
  assumes "unat ms * 1000 < 2 ^ 63"
  shows "sint (1000 * ms :: 64 word) = 1000 * int (unat ms)"
proof -
  have u: "int (unat ms) = uint ms" by simp
  from assms have "int (unat ms * 1000) < int (2 ^ 63)" by (simp only: of_nat_less_iff)
  then have "1000 * int (unat ms) < 2 ^ 63" by (simp add: mult.commute)
  then have b: "1000 * uint ms < 2 ^ 63" unfolding u .
  then have "uint (1000 * ms) = 1000 * uint ms"
    by (simp add: uint_word_ariths)
  moreover have "signed_take_bit 63 (1000 * uint ms) = 1000 * uint ms"
    using b by (intro signed_take_bit_int_eq_self) (simp_all add: order_trans [of _ 0])
  ultimately show ?thesis unfolding u sint_uint by simp
qed

lemma thousandths:
  "1000 * int k div 1000000 = int (k div 1000)" "1000 * int k mod 1000000 = int (k mod 1000) * 1000"
  using div_mult_mult1 [of 1000 "int k" 1000] mult_mod_right [of 1000 "int k" 1000]
  by (simp_all add: zdiv_int zmod_int)

definition delay_ns :: "itimerspec \<Rightarrow> int" where
  "delay_ns its = value_sec its * 1000000000 + value_nsec its"

text \<open>
  C31: For every interval of less than 2^63 microseconds the setting of a timer is one the kernel
  accepts, but its delay is the whole seconds of the interval plus one microsecond for every
  remaining millisecond: it is never too long, and it is the interval asked for exactly when that
  is a whole number of seconds. For longer intervals the multiplication wraps and nothing is claimed.
\<close>

theorem timer_delay:
  assumes "unat ms * 1000 < 2 ^ 63"
  shows "timerfd_settime (snd (WTimerFd_update_interval tm ms rep)) \<and>
    delay_ns (snd (WTimerFd_update_interval tm ms rep)) =
      int (unat ms div 1000) * 1000000000 + int (unat ms mod 1000) * 1000 \<and>
    (delay_ns (snd (WTimerFd_update_interval tm ms rep)) = int (unat ms) * 1000000 \<longleftrightarrow> unat ms mod 1000 = 0)"
proof -
  define k where "k = unat ms"
  have s: "sint (1000 * ms) = 1000 * int k" using sint_small [OF assms] by (simp add: k_def)
  have q: "1000 * int k sdiv 1000000 = int (k div 1000)" "1000 * int k smod 1000000 = int (k mod 1000) * 1000"
    using thousandths [of k]
    by (cases "k = 0"; simp add: signed_divide_int_eq_divide_int signed_modulo_int_eq_modulo_int sgn_mult)+
  have k: "int k = 1000 * int (k div 1000) + int (k mod 1000)"
    by (metis mult_div_mod_eq of_nat_add of_nat_mult of_nat_numeral)
  have "timerfd_settime (snd (WTimerFd_update_interval tm ms rep))"
    by (simp add: WTimerFd_update_interval_def Let_def s q timerfd_settime_def)
  moreover have d: "delay_ns (snd (WTimerFd_update_interval tm ms rep)) =
      int (k div 1000) * 1000000000 + int (k mod 1000) * 1000"
    by (simp add: WTimerFd_update_interval_def Let_def s q delay_ns_def)
  moreover have "int (k div 1000) * 1000000000 + int (k mod 1000) * 1000 = int k * 1000000 \<longleftrightarrow> k mod 1000 = 0"
    by (subst k) auto
  ultimately show ?thesis unfolding k_def by simp
qed

theorem timer_delay_witness:
  "delay_ns (snd (WTimerFd_update_interval (runloop_timer_new (1 :: nat) 5 :: (nat, nat, nat) RunloopTimer) 1500 False)) =
     1000500000"
  using timer_delay [of 1500 "runloop_timer_new (1 :: nat) 5 :: (nat, nat, nat) RunloopTimer" False] by simp

end
