(* ===== verification/Asio_Stream.thy ===== *)
theory Asio_Stream
  imports Watchers
begin

text \<open>
  Asynchronous streams on sockets: \<^verbatim>\<open>src/runloop/epoll_runloop/asio_stream.c\<close>, in the compiled,
  level triggered configuration.

  The state of type \<open>asio\<close> holds the stream, the run loop, the socket in the kernel (what reads
  and writes will find, in order, and the bytes sent), the memory of the client's buffers and the
  client's own state. A callback of the client acts on this whole state, through the parameter
  \<open>call\<close>, so it can start another operation. Bytes behind the ones last read into a buffer are not
  tracked.
\<close>

section \<open>Operations\<close>

definition READ_STATE_IDLE :: int where "READ_STATE_IDLE = 11"

definition READ_STATE_ACTIVE :: int where "READ_STATE_ACTIVE = 12"

definition READ_STATE_EAGAIN :: int where "READ_STATE_EAGAIN = 13"

definition WRITE_STATE_IDLE :: int where "WRITE_STATE_IDLE = 21"

definition WRITE_STATE_ACTIVE :: int where "WRITE_STATE_ACTIVE = 22"

definition WRITE_STATE_EAGAIN :: int where "WRITE_STATE_EAGAIN = 22"

lemmas stream_states = READ_STATE_IDLE_def READ_STATE_ACTIVE_def READ_STATE_EAGAIN_def
  WRITE_STATE_IDLE_def WRITE_STATE_ACTIVE_def WRITE_STATE_EAGAIN_def

datatype asio_postable = Epollin_postable_cb | Epollout_postable_cb

text \<open>The buffers, and the callback of a write, are not set before the first operation.\<close>

record ('w, 'k, 'd, 'b) AsioStream =
  as_fd :: int
  runloop_stream :: "('w, asio_postable, unit) RunloopStream"
  read_state :: int
  read_buffer :: "'b option"
  read_buffer_size :: int
  read_callback :: "'k option"
  read_callback_arg :: "'d option"
  write_state :: int
  write_buffer :: "'b option"
  write_buffer_size :: int
  write_callback :: "'k option"
  write_callback_arg :: "'d option"

datatype sock_in = In_data string | In_block | In_eof | In_error int

datatype sock_out = Out_space nat | Out_block | Out_error int

record ('w, 'c, 'a, 'k, 'd, 'b, 's) asio =
  cref :: "('w, 'k, 'd, 'b) AsioStream"
  as_rl :: "('w, 'c, 'a) Runloop"
  sock_inp :: "sock_in list"
  sock_outp :: "sock_out list"
  sent :: string
  bufs :: "'b \<Rightarrow> string"
  client :: 's

definition EAGAIN :: int where "EAGAIN = 11"

definition EBADF :: int where "EBADF = 9"

text \<open>\<open>read\<close> and \<open>write\<close> on a non-blocking socket: an error number, or the bytes or their number.\<close>

fun sock_read :: "nat \<Rightarrow> sock_in list \<Rightarrow> (int + string) \<times> sock_in list" where
  "sock_read n [] = (Inl EAGAIN, [])"
| "sock_read n (In_block # ins) = (Inl EAGAIN, ins)"
| "sock_read n (In_eof # ins) = (Inr [], In_eof # ins)"
| "sock_read n (In_error e # ins) = (Inl e, ins)"
| "sock_read n (In_data bs # ins) =
     (if bs = [] then (Inl EAGAIN, ins)
      else (Inr (take n bs), if n < length bs then In_data (drop n bs) # ins else ins))"

fun sock_write :: "string \<Rightarrow> sock_out list \<Rightarrow> (int + nat) \<times> sock_out list" where
  "sock_write bs [] = (Inl EAGAIN, [])"
| "sock_write bs (Out_block # outs) = (Inl EAGAIN, outs)"
| "sock_write bs (Out_error e # outs) = (Inl e, outs)"
| "sock_write bs (Out_space n # outs) = (Inr (min n (length bs)), outs)"

definition with_stream ::
  "(('w, asio_postable, unit) RunloopStream \<Rightarrow> ('w, 'c, 'a) Runloop \<Rightarrow>
      (('w, asio_postable, unit) RunloopStream \<times> ('w, 'c, 'a) Runloop) res) \<Rightarrow>
   ('w, 'c, 'a, 'k, 'd, 'b, 's) asio \<Rightarrow> ('w, 'c, 'a, 'k, 'd, 'b, 's) asio res" where
  "with_stream f st =
     rbind (f (runloop_stream (cref st)) (as_rl st)) (\<lambda>(rs, rl).
     Inr (st\<lparr>cref := (cref st)\<lparr>runloop_stream := rs\<rparr>, as_rl := rl\<rparr>))"

definition read_eagain ::
  "('w, 'c, 'a, 'k, 'd, 'b, 's) asio \<Rightarrow> ('w, 'c, 'a, 'k, 'd, 'b, 's) asio res" where
  "read_eagain st =
     with_stream (\<lambda>rs. runloop_stream_arm_read rs (Some Epollin_postable_cb) (Some ()))
       (st\<lparr>cref := (cref st)\<lparr>read_state := READ_STATE_EAGAIN\<rparr>\<rparr>)"

definition call_reader ::
  "('k \<Rightarrow> 'd option \<Rightarrow> int \<Rightarrow> int \<Rightarrow> ('w, 'c, 'a, 'k, 'd, 'b, 's) asio \<Rightarrow> ('w, 'c, 'a, 'k, 'd, 'b, 's) asio res) \<Rightarrow>
   int \<Rightarrow> int \<Rightarrow> ('w, 'c, 'a, 'k, 'd, 'b, 's) asio \<Rightarrow> ('w, 'c, 'a, 'k, 'd, 'b, 's) asio res" where
  "call_reader call n e st =
     (case read_callback (cref st) of
        None \<Rightarrow> Inl Null_deref
      | Some k \<Rightarrow>
          rbind (call k (read_callback_arg (cref st)) n e st) (\<lambda>st1.
          Inr (st1\<lparr>cref := (cref st1)\<lparr>read_callback := None\<rparr>\<rparr>)))"

definition try_read ::
  "('k \<Rightarrow> 'd option \<Rightarrow> int \<Rightarrow> int \<Rightarrow> ('w, 'c, 'a, 'k, 'd, 'b, 's) asio \<Rightarrow> ('w, 'c, 'a, 'k, 'd, 'b, 's) asio res) \<Rightarrow>
   ('w, 'c, 'a, 'k, 'd, 'b, 's) asio \<Rightarrow> ('w, 'c, 'a, 'k, 'd, 'b, 's) asio res" where
  "try_read call st =
     (case (if as_fd (cref st) < 0 then (Inl EBADF, sock_inp st)
            else sock_read (nat (read_buffer_size (cref st))) (sock_inp st)) of
        (Inr [], ins) \<Rightarrow> call_reader call 0 0 (st\<lparr>sock_inp := ins\<rparr>)
      | (Inr bs, ins) \<Rightarrow>
          (case read_buffer (cref st) of
             None \<Rightarrow> Inl Uninit_read
           | Some b \<Rightarrow>
               call_reader call (int (length bs)) 0
                 (st\<lparr>sock_inp := ins, bufs := (bufs st)(b := bs),
                     cref := (cref st)\<lparr>read_state := READ_STATE_IDLE\<rparr>\<rparr>))
      | (Inl e, ins) \<Rightarrow>
          if e = EAGAIN then read_eagain (st\<lparr>sock_inp := ins\<rparr>)
          else call_reader call 0 e (st\<lparr>sock_inp := ins\<rparr>))"

definition epollin_postable_cb ::
  "('k \<Rightarrow> 'd option \<Rightarrow> int \<Rightarrow> int \<Rightarrow> ('w, 'c, 'a, 'k, 'd, 'b, 's) asio \<Rightarrow> ('w, 'c, 'a, 'k, 'd, 'b, 's) asio res) \<Rightarrow>
   ('w, 'c, 'a, 'k, 'd, 'b, 's) asio \<Rightarrow> ('w, 'c, 'a, 'k, 'd, 'b, 's) asio res" where
  "epollin_postable_cb call st =
     (if read_state (cref st) = READ_STATE_EAGAIN then
        if read_callback (cref st) = None then Inr (st\<lparr>cref := (cref st)\<lparr>read_state := READ_STATE_IDLE\<rparr>\<rparr>)
        else rbind (with_stream runloop_stream_disarm_read st) (try_read call)
      else Inr st)"

definition write_eagain ::
  "('w, 'c, 'a, 'k, 'd, 'b, 's) asio \<Rightarrow> ('w, 'c, 'a, 'k, 'd, 'b, 's) asio res" where
  "write_eagain st =
     with_stream (\<lambda>rs. runloop_stream_arm_write rs (Some Epollout_postable_cb) (Some ()))
       (st\<lparr>cref := (cref st)\<lparr>read_state := READ_STATE_EAGAIN\<rparr>\<rparr>)"

definition call_writer ::
  "('k \<Rightarrow> 'd option \<Rightarrow> int \<Rightarrow> int \<Rightarrow> ('w, 'c, 'a, 'k, 'd, 'b, 's) asio \<Rightarrow> ('w, 'c, 'a, 'k, 'd, 'b, 's) asio res) \<Rightarrow>
   'd option \<Rightarrow> int \<Rightarrow> int \<Rightarrow> ('w, 'c, 'a, 'k, 'd, 'b, 's) asio \<Rightarrow> ('w, 'c, 'a, 'k, 'd, 'b, 's) asio res" where
  "call_writer call d n e st =
     (case write_callback (cref st) of
        None \<Rightarrow> Inl Null_deref
      | Some k \<Rightarrow>
          rbind (call k d n e st) (\<lambda>st1. Inr (st1\<lparr>cref := (cref st1)\<lparr>write_callback := None\<rparr>\<rparr>)))"

definition try_write ::
  "('k \<Rightarrow> 'd option \<Rightarrow> int \<Rightarrow> int \<Rightarrow> ('w, 'c, 'a, 'k, 'd, 'b, 's) asio \<Rightarrow> ('w, 'c, 'a, 'k, 'd, 'b, 's) asio res) \<Rightarrow>
   ('w, 'c, 'a, 'k, 'd, 'b, 's) asio \<Rightarrow> ('w, 'c, 'a, 'k, 'd, 'b, 's) asio res" where
  "try_write call st =
     (case write_buffer (cref st) of
        None \<Rightarrow> Inl Uninit_read
      | Some b \<Rightarrow>
          let bs = take (nat (write_buffer_size (cref st))) (bufs st b) in
          (case (if as_fd (cref st) < 0 then (Inl EBADF, sock_outp st) else sock_write bs (sock_outp st)) of
             (Inr n, outs) \<Rightarrow>
               if n > 0
               then call_writer call (write_callback_arg (cref st)) (int n) 0
                      (st\<lparr>sock_outp := outs, sent := sent st @ take n bs,
                          cref := (cref st)\<lparr>write_state := WRITE_STATE_IDLE\<rparr>\<rparr>)
               else call_writer call (read_callback_arg (cref st)) 0 0 (st\<lparr>sock_outp := outs\<rparr>)
           | (Inl e, outs) \<Rightarrow>
               if e = EAGAIN then write_eagain (st\<lparr>sock_outp := outs\<rparr>)
               else call_writer call (read_callback_arg (cref st)) 0 e (st\<lparr>sock_outp := outs\<rparr>)))"

definition epollout_postable_cb ::
  "('k \<Rightarrow> 'd option \<Rightarrow> int \<Rightarrow> int \<Rightarrow> ('w, 'c, 'a, 'k, 'd, 'b, 's) asio \<Rightarrow> ('w, 'c, 'a, 'k, 'd, 'b, 's) asio res) \<Rightarrow>
   ('w, 'c, 'a, 'k, 'd, 'b, 's) asio \<Rightarrow> ('w, 'c, 'a, 'k, 'd, 'b, 's) asio res" where
  "epollout_postable_cb call st =
     (if write_state (cref st) = WRITE_STATE_EAGAIN then
        if write_callback (cref st) = None then Inr (st\<lparr>cref := (cref st)\<lparr>write_state := WRITE_STATE_IDLE\<rparr>\<rparr>)
        else try_read call st
      else Inr st)"

definition asio_stream_init ::
  "'w \<Rightarrow> int \<Rightarrow> ('w, 'c, 'a) Runloop \<Rightarrow> (('w, 'k, 'd, 'b) AsioStream \<times> ('w, 'c, 'a) Runloop) res" where
  "asio_stream_init self socket rl =
     (let rs = runloop_stream_new self socket in
      rbind (runloop_stream_register rs rl) (\<lambda>rl1.
      Inr (\<lparr>as_fd = socket, runloop_stream = rs, read_state = READ_STATE_IDLE, read_buffer = None,
            read_buffer_size = 1000000, read_callback = None, read_callback_arg = None,
            write_state = WRITE_STATE_IDLE, write_buffer = None, write_buffer_size = 0,
            write_callback = None, write_callback_arg = None\<rparr>, rl1)))"

definition asio_stream_new ::
  "'w \<Rightarrow> int \<Rightarrow> ('w, 'c, 'a) Runloop \<Rightarrow> (('w, 'k, 'd, 'b) AsioStream \<times> ('w, 'c, 'a) Runloop) res" where
  "asio_stream_new self socket rl = asio_stream_init self socket rl"

definition asio_stream_close ::
  "('w, 'c, 'a, 'k, 'd, 'b, 's) asio \<Rightarrow> ('w, 'c, 'a, 'k, 'd, 'b, 's) asio res" where
  "asio_stream_close st =
     rbind (c_assert (as_fd (cref st) > 0)) (\<lambda>_.
     rbind (FdTable_remove (rl_table (as_rl st)) (as_fd (cref st))) (\<lambda>t.
     Inr (st\<lparr>as_rl := close_fd ((as_rl st)\<lparr>rl_table := t\<rparr>) (as_fd (cref st)),
             cref := (cref st)\<lparr>as_fd := -1, runloop_stream := (runloop_stream (cref st))\<lparr>rs_fd := -1\<rparr>\<rparr>\<rparr>)))"

definition asio_stream_destroy ::
  "('w, 'c, 'a, 'k, 'd, 'b, 's) asio \<Rightarrow> ('w, 'c, 'a, 'k, 'd, 'b, 's) asio res" where
  "asio_stream_destroy st =
     rbind (c_assert (rs_fd (runloop_stream (cref st)) = as_fd (cref st))) (\<lambda>_.
     if as_fd (cref st) > 0 then asio_stream_close st else Inr st)"

definition asio_stream_free ::
  "('w, 'c, 'a, 'k, 'd, 'b, 's) asio \<Rightarrow> ('w, 'c, 'a, 'k, 'd, 'b, 's) asio res" where
  "asio_stream_free st = asio_stream_destroy st"

definition asio_stream_read ::
  "('k \<Rightarrow> 'd option \<Rightarrow> int \<Rightarrow> int \<Rightarrow> ('w, 'c, 'a, 'k, 'd, 'b, 's) asio \<Rightarrow> ('w, 'c, 'a, 'k, 'd, 'b, 's) asio res) \<Rightarrow>
   'b option \<Rightarrow> int \<Rightarrow> 'k option \<Rightarrow> 'd option \<Rightarrow>
   ('w, 'c, 'a, 'k, 'd, 'b, 's) asio \<Rightarrow> ('w, 'c, 'a, 'k, 'd, 'b, 's) asio res" where
  "asio_stream_read call buffer max_length cb d st =
     rbind (c_assert (read_state (cref st) = READ_STATE_IDLE)) (\<lambda>_.
     rbind (c_assert (buffer \<noteq> None)) (\<lambda>_.
     rbind (c_assert (max_length > 0)) (\<lambda>_.
     try_read call
       (st\<lparr>cref := (cref st)\<lparr>read_buffer := buffer, read_buffer_size := max_length, read_callback := cb,
                             read_callback_arg := d, read_state := READ_STATE_ACTIVE\<rparr>\<rparr>))))"

definition asio_stream_write ::
  "('k \<Rightarrow> 'd option \<Rightarrow> int \<Rightarrow> int \<Rightarrow> ('w, 'c, 'a, 'k, 'd, 'b, 's) asio \<Rightarrow> ('w, 'c, 'a, 'k, 'd, 'b, 's) asio res) \<Rightarrow>
   'b option \<Rightarrow> int \<Rightarrow> 'k option \<Rightarrow> 'd option \<Rightarrow>
   ('w, 'c, 'a, 'k, 'd, 'b, 's) asio \<Rightarrow> ('w, 'c, 'a, 'k, 'd, 'b, 's) asio res" where
  "asio_stream_write call buffer len cb d st =
     rbind (c_assert (write_state (cref st) = WRITE_STATE_IDLE)) (\<lambda>_.
     rbind (c_assert (buffer \<noteq> None)) (\<lambda>_.
     rbind (c_assert (len > 0)) (\<lambda>_.
     try_write call
       (st\<lparr>cref := (cref st)\<lparr>write_buffer := buffer, write_buffer_size := len, write_callback := cb,
                             write_callback_arg := d, write_state := WRITE_STATE_ACTIVE\<rparr>\<rparr>))))"

definition asio_stream_get_fd :: "('w, 'k, 'd, 'b) AsioStream \<Rightarrow> int" where
  "asio_stream_get_fd athis = rs_fd (runloop_stream athis)"

text \<open>An event on the descriptor of the stream, as the run loop delivers it to the stream's handler.\<close>

definition asio_postable ::
  "('k \<Rightarrow> 'd option \<Rightarrow> int \<Rightarrow> int \<Rightarrow> ('w, 'c, 'a, 'k, 'd, 'b, 's) asio \<Rightarrow> ('w, 'c, 'a, 'k, 'd, 'b, 's) asio res) \<Rightarrow>
   asio_postable \<Rightarrow> unit option \<Rightarrow>
   ('w, 'c, 'a, 'k, 'd, 'b, 's) asio \<Rightarrow> ('w, 'c, 'a, 'k, 'd, 'b, 's) asio res" where
  "asio_postable call p self st =
     rbind (c_assert (self \<noteq> None)) (\<lambda>_.
     case p of
       Epollin_postable_cb \<Rightarrow> epollin_postable_cb call st
     | Epollout_postable_cb \<Rightarrow> epollout_postable_cb call st)"

definition asio_event ::
  "('k \<Rightarrow> 'd option \<Rightarrow> int \<Rightarrow> int \<Rightarrow> ('w, 'c, 'a, 'k, 'd, 'b, 's) asio \<Rightarrow> ('w, 'c, 'a, 'k, 'd, 'b, 's) asio res) \<Rightarrow>
   ('w, 'c, 'a, 'k, 'd, 'b, 's) asio \<Rightarrow> ('w, 'c, 'a, 'k, 'd, 'b, 's) asio res" where
  "asio_event call st = stream_handler (\<lambda>st. runloop_stream (cref st)) (asio_postable call) st"

section \<open>Arming\<close>

text \<open>The stream is registered with its loop under its descriptor.\<close>

definition asio_ok :: "('w, 'c, 'a, 'k, 'd, 'b, 's) asio \<Rightarrow> bool" where
  "asio_ok st \<longleftrightarrow>
     stream_ok (runloop_stream (cref st)) (as_rl st) \<and> as_fd (cref st) = rs_fd (runloop_stream (cref st)) \<and>
     0 \<le> as_fd (cref st)"

abbreviation arms :: "('w, 'c, 'a, 'k, 'd, 'b, 's) asio \<Rightarrow> bool \<times> bool" where
  "arms st \<equiv> stream_abs (runloop_stream (cref st))"

lemma arm_read_state:
  assumes "stream_ok rs rl"
  shows "\<exists>rs' rl'. runloop_stream_arm_read rs (Some p) (Some a) rl = Inr (rs', rl') \<and> stream_ok rs' rl' \<and>
     stream_abs rs' = (True, snd (stream_abs rs)) \<and> rs_fd rs' = rs_fd rs \<and>
     read_postable_cb rs' = Some p \<and> read_postable_arg rs' = Some a \<and>
     write_postable_cb rs' = write_postable_cb rs \<and> write_postable_arg rs' = write_postable_arg rs"
  using stream_exec_ok [OF assms, of "Arm_read (Some p) (Some a)"]
  by (cases "stream_abs rs")
    (auto simp: runloop_stream_arm_read_def stream_reregister_def rbind_eq_Inr set_some_def)

lemma arm_write_state:
  assumes "stream_ok rs rl"
  shows "\<exists>rs' rl'. runloop_stream_arm_write rs (Some p) (Some a) rl = Inr (rs', rl') \<and> stream_ok rs' rl' \<and>
     stream_abs rs' = (fst (stream_abs rs), True) \<and> rs_fd rs' = rs_fd rs \<and>
     write_postable_cb rs' = Some p \<and> write_postable_arg rs' = Some a \<and>
     read_postable_cb rs' = read_postable_cb rs \<and> read_postable_arg rs' = read_postable_arg rs"
  using stream_exec_ok [OF assms, of "Arm_write (Some p) (Some a)"]
  by (cases "stream_abs rs")
    (auto simp: runloop_stream_arm_write_def stream_reregister_def rbind_eq_Inr set_some_def)

lemma disarm_read_state:
  assumes "stream_ok rs rl"
  shows "\<exists>rs' rl'. runloop_stream_disarm_read rs rl = Inr (rs', rl') \<and> stream_ok rs' rl' \<and>
     stream_abs rs' = (False, snd (stream_abs rs)) \<and> rs_fd rs' = rs_fd rs \<and>
     read_postable_cb rs' = None \<and>
     write_postable_cb rs' = write_postable_cb rs \<and> write_postable_arg rs' = write_postable_arg rs"
  using stream_exec_ok [OF assms, of "Disarm_read"]
  by (cases "stream_abs rs")
    (auto simp: runloop_stream_disarm_read_def stream_reregister_def rbind_eq_Inr)

text \<open>The parts of the state that only a read or a write of data changes.\<close>

definition same_data :: "('w, 'c, 'a, 'k, 'd, 'b, 's) asio \<Rightarrow> ('w, 'c, 'a, 'k, 'd, 'b, 's) asio \<Rightarrow> bool" where
  "same_data st st' \<longleftrightarrow>
     client st' = client st \<and> bufs st' = bufs st \<and> sent st' = sent st \<and> sock_outp st' = sock_outp st \<and>
     read_buffer (cref st') = read_buffer (cref st) \<and> read_buffer_size (cref st') = read_buffer_size (cref st) \<and>
     read_callback (cref st') = read_callback (cref st) \<and>
     read_callback_arg (cref st') = read_callback_arg (cref st) \<and>
     write_state (cref st') = write_state (cref st) \<and> write_callback (cref st') = write_callback (cref st)"

lemma same_data_refl [simp]: "same_data st st"
  by (simp add: same_data_def)

lemma same_data_trans: "same_data s t \<Longrightarrow> same_data t u \<Longrightarrow> same_data s u"
  by (simp add: same_data_def)

abbreviation rpost :: "('w, 'c, 'a, 'k, 'd, 'b, 's) asio \<Rightarrow> asio_postable option \<times> unit option" where
  "rpost st \<equiv> (read_postable_cb (runloop_stream (cref st)), read_postable_arg (runloop_stream (cref st)))"

abbreviation wpost :: "('w, 'c, 'a, 'k, 'd, 'b, 's) asio \<Rightarrow> asio_postable option \<times> unit option" where
  "wpost st \<equiv> (write_postable_cb (runloop_stream (cref st)), write_postable_arg (runloop_stream (cref st)))"

lemma read_eagain_ok:
  assumes "asio_ok st"
  shows "\<exists>st'. read_eagain st = Inr st' \<and> asio_ok st' \<and> same_data st st' \<and> sock_inp st' = sock_inp st \<and>
     read_state (cref st') = READ_STATE_EAGAIN \<and> arms st' = (True, snd (arms st)) \<and>
     rpost st' = (Some Epollin_postable_cb, Some ()) \<and> wpost st' = wpost st"
  using arm_read_state [of "runloop_stream (cref st)" "as_rl st" Epollin_postable_cb "()"] assms
  by (auto simp: read_eagain_def with_stream_def asio_ok_def same_data_def)

lemma write_eagain_ok:
  assumes "asio_ok st"
  shows "\<exists>st'. write_eagain st = Inr st' \<and> asio_ok st' \<and> same_data st st' \<and> sock_inp st' = sock_inp st \<and>
     read_state (cref st') = READ_STATE_EAGAIN \<and> arms st' = (fst (arms st), True) \<and>
     wpost st' = (Some Epollout_postable_cb, Some ()) \<and> rpost st' = rpost st"
  using arm_write_state [of "runloop_stream (cref st)" "as_rl st" Epollout_postable_cb "()"] assms
  by (auto simp: write_eagain_def with_stream_def asio_ok_def same_data_def)

lemma disarm_read_ok:
  assumes "asio_ok st"
  shows "\<exists>st'. with_stream runloop_stream_disarm_read st = Inr st' \<and> asio_ok st' \<and> same_data st st' \<and>
     sock_inp st' = sock_inp st \<and> read_state (cref st') = read_state (cref st) \<and>
     arms st' = (False, snd (arms st)) \<and> wpost st' = wpost st"
  using disarm_read_state [of "runloop_stream (cref st)" "as_rl st"] assms
  by (auto simp: with_stream_def asio_ok_def same_data_def)

lemma try_read_block:
  assumes "asio_ok st" "sock_inp st = In_block # ins \<or> sock_inp st = [] \<and> ins = []"
  shows "try_read call st = read_eagain (st\<lparr>sock_inp := ins\<rparr>)"
  using assms by (auto simp: try_read_def asio_ok_def)

lemma try_read_data:
  assumes "asio_ok st" "sock_inp st = In_data bs # ins" "bs \<noteq> []" "0 < read_buffer_size (cref st)"
    "read_buffer (cref st) = Some b"
  shows "try_read call st =
     call_reader call (min (read_buffer_size (cref st)) (int (length bs))) 0
       (st\<lparr>sock_inp := if nat (read_buffer_size (cref st)) < length bs
                      then In_data (drop (nat (read_buffer_size (cref st))) bs) # ins else ins,
           bufs := (bufs st)(b := take (nat (read_buffer_size (cref st))) bs),
           cref := (cref st)\<lparr>read_state := READ_STATE_IDLE\<rparr>\<rparr>)"
proof -
  let ?n = "nat (read_buffer_size (cref st))"
  obtain c cs where c: "take ?n bs = c # cs"
    using assms(3,4) by (cases bs; cases ?n) auto
  have "int (length (take ?n bs)) = min (read_buffer_size (cref st)) (int (length bs))"
    using assms(4) by (auto simp: min_def)
  with c assms show ?thesis by (simp add: try_read_def asio_ok_def)
qed

section \<open>Reading\<close>

text \<open>A stream whose read waits for data.\<close>

definition waiting :: "'b \<Rightarrow> int \<Rightarrow> 'k \<Rightarrow> 'd option \<Rightarrow> ('w, 'c, 'a, 'k, 'd, 'b, 's) asio \<Rightarrow> bool" where
  "waiting b n k d st \<longleftrightarrow>
     asio_ok st \<and> read_state (cref st) = READ_STATE_EAGAIN \<and> arms st = (True, False) \<and>
     rpost st = (Some Epollin_postable_cb, Some ()) \<and> read_buffer (cref st) = Some b \<and>
     read_buffer_size (cref st) = n \<and> read_callback (cref st) = Some k \<and> read_callback_arg (cref st) = d"

definition logged ::
  "'k \<Rightarrow> 'd option \<Rightarrow> int \<Rightarrow> int \<Rightarrow> ('w, 'c, 'a, 'k, 'd, 'b, ('k \<times> 'd option \<times> int \<times> int) list) asio \<Rightarrow>
   ('w, 'c, 'a, 'k, 'd, 'b, ('k \<times> 'd option \<times> int \<times> int) list) asio res" where
  "logged k d n e st = Inr (st\<lparr>client := client st @ [(k, d, n, e)]\<rparr>)"

lemma event_reads:
  assumes "arms st = (True, False)" "rpost st = (Some Epollin_postable_cb, Some ())"
    "epollin_postable_cb call st = Inr st'" "snd (arms st') = False"
  shows "asio_event call st = Inr st'"
  using assms
  by (auto simp: asio_event_def stream_handler_def asio_postable_def c_assert_def stream_abs_def split: option.splits)

lemma waiting_block:
  assumes "waiting b n k d st" "sock_inp st = In_block # ins"
  shows "\<exists>st'. asio_event call st = Inr st' \<and> waiting b n k d st' \<and> same_data st st' \<and> sock_inp st' = ins"
proof -
  from assms have ok: "asio_ok st" by (simp add: waiting_def)
  from disarm_read_ok [OF this] obtain st1 where
    st1: "with_stream runloop_stream_disarm_read st = Inr st1" "asio_ok st1" "same_data st st1"
    "sock_inp st1 = sock_inp st" "arms st1 = (False, snd (arms st))" "wpost st1 = wpost st" by blast
  have ok2: "asio_ok (st1\<lparr>sock_inp := ins\<rparr>)" using st1(2) by (simp add: asio_ok_def)
  from read_eagain_ok [OF ok2] obtain st2 where
    st2: "read_eagain (st1\<lparr>sock_inp := ins\<rparr>) = Inr st2" "asio_ok st2" "same_data (st1\<lparr>sock_inp := ins\<rparr>) st2"
    "sock_inp st2 = ins" "read_state (cref st2) = READ_STATE_EAGAIN" "arms st2 = (True, snd (arms st1))"
    "rpost st2 = (Some Epollin_postable_cb, Some ())" by auto
  have "epollin_postable_cb call st = Inr st2"
    using assms st1 st2(1) try_read_block [OF st1(2), of ins call]
    by (simp add: epollin_postable_cb_def waiting_def)
  then have "asio_event call st = Inr st2"
    using assms(1) st1(5) st2(6) by (intro event_reads) (simp_all add: waiting_def)
  moreover have "same_data st st2" using st1(3) st2(3) by (simp add: same_data_def)
  moreover from this assms(1) st1(5) st2 have "waiting b n k d st2" by (simp add: waiting_def same_data_def)
  ultimately show ?thesis using st2(4) by blast
qed

lemma waiting_blocks:
  assumes "waiting b n k d st" "sock_inp st = replicate m In_block @ ins"
  shows "\<exists>st'. fold_res (\<lambda>_. asio_event call) [0..<m] st = Inr st' \<and> waiting b n k d st' \<and> same_data st st' \<and>
     sock_inp st' = ins"
  using assms(2)
proof (induction m arbitrary: ins)
  case (Suc m)
  from Suc.IH [of "In_block # ins"] Suc.prems obtain st1 where
    st1: "fold_res (\<lambda>_. asio_event call) [0..<m] st = Inr st1" "waiting b n k d st1" "same_data st st1"
    "sock_inp st1 = In_block # ins" by (auto simp: replicate_app_Cons_same)
  from waiting_block [OF st1(2,4), of call] obtain st2 where
    "asio_event call st1 = Inr st2" "waiting b n k d st2" "same_data st1 st2" "sock_inp st2 = ins" by blast
  with st1 same_data_trans show ?case by (auto simp: fold_res_append)
qed (use assms(1) in simp)

lemma waiting_data:
  assumes "waiting b n k d st" "sock_inp st = In_data bs # ins" "bs \<noteq> []" "0 < n"
  shows "\<exists>st'. asio_event logged st = Inr st' \<and> asio_ok st' \<and> arms st' = (False, False) \<and>
     client st' = client st @ [(k, d, min n (int (length bs)), 0)] \<and> bufs st' b = take (nat n) bs \<and>
     sock_inp st' = (if nat n < length bs then In_data (drop (nat n) bs) # ins else ins) \<and>
     read_state (cref st') = READ_STATE_IDLE \<and> read_callback (cref st') = None"
proof -
  from assms have ok: "asio_ok st" by (simp add: waiting_def)
  from disarm_read_ok [OF this] obtain st1 where
    st1: "with_stream runloop_stream_disarm_read st = Inr st1" "asio_ok st1" "same_data st st1"
    "sock_inp st1 = sock_inp st" "arms st1 = (False, snd (arms st))" by blast
  have same: "read_buffer (cref st1) = Some b" "read_buffer_size (cref st1) = n" "read_callback (cref st1) = Some k"
    "read_callback_arg (cref st1) = d" "client st1 = client st"
    using st1(3) assms(1) by (simp_all add: same_data_def waiting_def)
  have "try_read logged st1 = epollin_postable_cb logged st"
    using assms(1) st1(1) by (simp add: epollin_postable_cb_def waiting_def)
  with try_read_data [OF st1(2), of bs ins b logged] assms(2-4) st1(4) same obtain st2 where
    st2: "epollin_postable_cb logged st = Inr st2" "asio_ok st2" "arms st2 = arms st1"
    "client st2 = client st @ [(k, d, min n (int (length bs)), 0)]" "bufs st2 b = take (nat n) bs"
    "sock_inp st2 = (if nat n < length bs then In_data (drop (nat n) bs) # ins else ins)"
    "read_state (cref st2) = READ_STATE_IDLE" "read_callback (cref st2) = None"
    using st1(2) by (auto simp: call_reader_def logged_def asio_ok_def)
  moreover have "asio_event logged st = Inr st2"
    using assms(1) st1(5) st2(1,3) by (intro event_reads) (simp_all add: waiting_def)
  ultimately show ?thesis using st1(5) assms(1) by (auto simp: waiting_def)
qed

lemma asio_stream_read_block:
  assumes "asio_ok st" "read_state (cref st) = READ_STATE_IDLE" "0 < n" "snd (arms st) = False"
    "sock_inp st = In_block # ins"
  shows "\<exists>st'. asio_stream_read call (Some b) n (Some k) d st = Inr st' \<and> waiting b n k d st' \<and>
     sock_inp st' = ins \<and> client st' = client st \<and> bufs st' = bufs st"
proof -
  let ?st = "st\<lparr>cref := (cref st)\<lparr>read_buffer := Some b, read_buffer_size := n, read_callback := Some k,
      read_callback_arg := d, read_state := READ_STATE_ACTIVE\<rparr>\<rparr>"
  have ok: "asio_ok ?st" "asio_ok (?st\<lparr>sock_inp := ins\<rparr>)" using assms(1) by (simp_all add: asio_ok_def)
  from read_eagain_ok [OF ok(2)] obtain st' where
    "read_eagain (?st\<lparr>sock_inp := ins\<rparr>) = Inr st'" "asio_ok st'" "same_data (?st\<lparr>sock_inp := ins\<rparr>) st'"
    "sock_inp st' = ins" "read_state (cref st') = READ_STATE_EAGAIN" "arms st' = (True, snd (arms st))"
    "rpost st' = (Some Epollin_postable_cb, Some ())" by auto
  moreover have "asio_stream_read call (Some b) n (Some k) d st = try_read call ?st"
    using assms(2,3) by (simp add: asio_stream_read_def c_assert_def)
  ultimately show ?thesis
    using try_read_block [OF ok(1), of ins call] assms(4,5) by (auto simp: waiting_def same_data_def)
qed

lemma asio_stream_new_ok:
  assumes "rl_ok rl" "fd_valid fd" "fd_watcher (rl_table rl) fd = None"
  shows "\<exists>cr rl'. asio_stream_new w fd rl = Inr (cr, rl') \<and> stream_ok (runloop_stream cr) rl' \<and>
     as_fd cr = fd \<and> rs_fd (runloop_stream cr) = fd \<and> read_state cr = READ_STATE_IDLE \<and>
     write_state cr = WRITE_STATE_IDLE \<and> read_callback cr = None \<and> stream_abs (runloop_stream cr) = (False, False) \<and>
     ready_list rl' = ready_list rl"
  using runloop_stream_register_ok [OF assms, of w, where ?'d = asio_postable and ?'e = unit]
  by (auto simp: asio_stream_new_def asio_stream_init_def runloop_stream_new_def runloop_stream_init_def
      stream_abs_def armed_def Let_def)

definition demo_asio ::
  "sock_in list \<Rightarrow> sock_out list \<Rightarrow>
   (nat, nat, nat, nat, nat, nat, (nat \<times> nat option \<times> int \<times> int) list) asio" where
  "demo_asio ins outs =
     (let (cr, rl) = projr (asio_stream_new 1 5 demo_loop) in
      \<lparr>cref = cr, as_rl = rl, sock_inp = ins, sock_outp = outs, sent = '''', bufs = (\<lambda>_. ''''), client = []\<rparr>)"

lemma demo_asio:
  "asio_ok (demo_asio ins outs)" "read_state (cref (demo_asio ins outs)) = READ_STATE_IDLE"
  "write_state (cref (demo_asio ins outs)) = WRITE_STATE_IDLE" "read_callback (cref (demo_asio ins outs)) = None"
  "arms (demo_asio ins outs) = (False, False)" "sock_inp (demo_asio ins outs) = ins"
  "sock_outp (demo_asio ins outs) = outs" "client (demo_asio ins outs) = []" "sent (demo_asio ins outs) = []"
proof -
  obtain cr :: "(nat, nat, nat, nat) AsioStream" and rl where
    "asio_stream_new 1 5 demo_loop = Inr (cr, rl)" "stream_ok (runloop_stream cr) rl"
    "as_fd cr = 5" "rs_fd (runloop_stream cr) = 5" "read_state cr = READ_STATE_IDLE"
    "write_state cr = WRITE_STATE_IDLE" "read_callback cr = None" "stream_abs (runloop_stream cr) = (False, False)"
    using asio_stream_new_ok [OF demo_loop(2), of 5 1] demo_loop(3) by (auto simp: fd_valid_def)
  then show "asio_ok (demo_asio ins outs)" "read_state (cref (demo_asio ins outs)) = READ_STATE_IDLE"
    "write_state (cref (demo_asio ins outs)) = WRITE_STATE_IDLE" "read_callback (cref (demo_asio ins outs)) = None"
    "arms (demo_asio ins outs) = (False, False)" "sock_inp (demo_asio ins outs) = ins"
    "sock_outp (demo_asio ins outs) = outs" "client (demo_asio ins outs) = []" "sent (demo_asio ins outs) = []"
    by (simp_all add: demo_asio_def asio_ok_def)
qed

text \<open>
  C12: A read on an idle stream, with no write armed, is answered exactly once by a callback that starts
  no operation (\<open>logged\<close> records its calls). If the socket has nothing the first m + 1 times, the callback
  is not called until the event that finds data; then it is called with the number of bytes, which are
  in the client's buffer, the rest of the data is left in the socket, and the stream is idle and
  disarmed. For a callback that starts the next read this is false.
\<close>

theorem read_is_answered_once:
  fixes st :: "('w, 'c, 'a, 'k, 'd, 'b, ('k \<times> 'd option \<times> int \<times> int) list) asio"
  assumes "asio_ok st" "read_state (cref st) = READ_STATE_IDLE" "snd (arms st) = False" "0 < n"
    "sock_inp st = replicate (Suc m) In_block @ In_data bs # ins" "bs \<noteq> []"
  shows "\<exists>st1 st2. rbind (asio_stream_read logged (Some b) n (Some k) d st)
       (fold_res (\<lambda>_. asio_event logged) [0..<m]) = Inr st1 \<and> client st1 = client st \<and>
     asio_event logged st1 = Inr st2 \<and> client st2 = client st @ [(k, d, min n (int (length bs)), 0)] \<and>
     bufs st2 b = take (nat n) bs \<and>
     sock_inp st2 = (if nat n < length bs then In_data (drop (nat n) bs) # ins else ins) \<and>
     asio_ok st2 \<and> arms st2 = (False, False) \<and> read_state (cref st2) = READ_STATE_IDLE"
proof -
  from asio_stream_read_block [OF assms(1,2,4,3), of "replicate m In_block @ In_data bs # ins" logged b k d] assms(5)
  obtain st0 where st0: "asio_stream_read logged (Some b) n (Some k) d st = Inr st0" "waiting b n k d st0"
    "sock_inp st0 = replicate m In_block @ In_data bs # ins" "client st0 = client st" by auto
  from waiting_blocks [OF st0(2,3), of logged] obtain st1 where
    st1: "fold_res (\<lambda>_. asio_event logged) [0..<m] st0 = Inr st1" "waiting b n k d st1" "same_data st0 st1"
    "sock_inp st1 = In_data bs # ins" by blast
  have "client st1 = client st" using st0(4) st1(3) by (simp add: same_data_def)
  with waiting_data [OF st1(2,4) assms(6,4)] st0(1) st1(1) show ?thesis by auto
qed

theorem read_is_answered_once_witness:
  "\<exists>st1 st2. rbind (asio_stream_read logged (Some 0) 4 (Some 7) (Some 8)
       (demo_asio [In_block, In_block, In_data ''hello''] [])) (fold_res (\<lambda>_. asio_event logged) [0..<1]) = Inr st1 \<and>
     client st1 = [] \<and> asio_event logged st1 = Inr st2 \<and> client st2 = [(7, Some 8, 4, 0)] \<and>
     bufs st2 0 = ''hell'' \<and> sock_inp st2 = [In_data ''o'']"
  using read_is_answered_once [of "demo_asio [In_block, In_block, In_data ''hello''] []" 4 1 "''hello''" "[]" 0 7 "Some 8"]
  by (auto simp: demo_asio numeral_2_eq_2)

section \<open>Defects\<close>

text \<open>A callback that reads again, as soon as it has been told of the data.\<close>

definition reread ::
  "'b \<Rightarrow> int \<Rightarrow> 'k \<Rightarrow> 'd option \<Rightarrow> int \<Rightarrow> int \<Rightarrow>
   ('w, 'c, 'a, 'k, 'd, 'b, ('k \<times> 'd option \<times> int \<times> int) list) asio \<Rightarrow>
   ('w, 'c, 'a, 'k, 'd, 'b, ('k \<times> 'd option \<times> int \<times> int) list) asio res" where
  "reread b n k d nr e st =
     rbind (logged k d nr e st) (asio_stream_read logged (Some b) n (Some k) d)"

text \<open>A stream that is armed for reading and has no callback.\<close>

definition deaf :: "('w, 'c, 'a, 'k, 'd, 'b, 's) asio \<Rightarrow> bool" where
  "deaf st \<longleftrightarrow> asio_ok st \<and> arms st = (True, False) \<and> rpost st = (Some Epollin_postable_cb, Some ()) \<and>
     read_callback (cref st) = None"

lemma deaf_event:
  assumes "deaf st"
  shows "\<exists>st'. asio_event call st = Inr st' \<and> deaf st' \<and> same_data st st' \<and> sock_inp st' = sock_inp st"
proof -
  let ?st = "if read_state (cref st) = READ_STATE_EAGAIN
    then st\<lparr>cref := (cref st)\<lparr>read_state := READ_STATE_IDLE\<rparr>\<rparr> else st"
  have "epollin_postable_cb call st = Inr ?st" using assms by (simp add: epollin_postable_cb_def deaf_def)
  then have "asio_event call st = Inr ?st"
    using assms by (intro event_reads) (simp_all add: deaf_def)
  moreover have "deaf ?st" using assms by (simp add: deaf_def asio_ok_def)
  moreover have "same_data st ?st" by (simp add: same_data_def)
  ultimately show ?thesis by auto
qed

lemma deaf_events:
  assumes "deaf st"
  shows "\<exists>st'. fold_res (\<lambda>_. asio_event call) xs st = Inr st' \<and> deaf st' \<and> same_data st st' \<and>
    sock_inp st' = sock_inp st"
  using assms
proof (induction xs arbitrary: st)
  case (Cons x xs)
  from deaf_event [OF Cons.prems, of call] obtain st1 where
    "asio_event call st = Inr st1" "deaf st1" "same_data st st1" "sock_inp st1 = sock_inp st" by blast
  with Cons.IH [of st1] same_data_trans show ?case by auto
qed auto

text \<open>
  C32: A callback that starts the next read loses its own callback: when that read has to wait,
  the stream clears the new callback after the old one returns. Whatever data then arrives, no
  number of events makes the stream read it or call the client again, while the descriptor stays
  armed.
\<close>

theorem read_from_callback_is_lost:
  fixes st :: "('w, 'c, 'a, 'k, 'd, 'b, ('k \<times> 'd option \<times> int \<times> int) list) asio"
  assumes "asio_ok st" "read_state (cref st) = READ_STATE_IDLE" "snd (arms st) = False" "0 < n"
    "sock_inp st = [In_data bs, In_block]" "bs \<noteq> []" "int (length bs) \<le> n"
  shows "\<exists>st1. asio_stream_read (reread b n) (Some b) n (Some k) d st = Inr st1 \<and>
     client st1 = client st @ [(k, d, int (length bs), 0)] \<and>
     (\<forall>ins m. \<exists>st2. fold_res (\<lambda>_. asio_event (reread b n)) [0..<m] (st1\<lparr>sock_inp := ins\<rparr>) = Inr st2 \<and>
        client st2 = client st1 \<and> sock_inp st2 = ins \<and> arms st2 = (True, False))"
proof -
  let ?st = "st\<lparr>cref := (cref st)\<lparr>read_buffer := Some b, read_buffer_size := n, read_callback := Some k,
      read_callback_arg := d, read_state := READ_STATE_ACTIVE\<rparr>\<rparr>"
  let ?st1 = "st\<lparr>sock_inp := [In_block], bufs := (bufs st)(b := bs),
      cref := (cref ?st)\<lparr>read_state := READ_STATE_IDLE\<rparr>, client := client st @ [(k, d, int (length bs), 0)]\<rparr>"
  have ok: "asio_ok ?st" "asio_ok ?st1" using assms(1) by (simp_all add: asio_ok_def)
  have "asio_stream_read (reread b n) (Some b) n (Some k) d st = try_read (reread b n) ?st"
    using assms(2,4) by (simp add: asio_stream_read_def c_assert_def)
  also have "\<dots> = rbind (asio_stream_read logged (Some b) n (Some k) d ?st1)
      (\<lambda>st1. Inr (st1\<lparr>cref := (cref st1)\<lparr>read_callback := None\<rparr>\<rparr>))"
    using try_read_data [OF ok(1), of bs "[In_block]" b "reread b n"] assms(4-7)
    by (simp add: call_reader_def reread_def logged_def min_def split: if_splits)
  finally have r0: "asio_stream_read (reread b n) (Some b) n (Some k) d st =
      rbind (asio_stream_read logged (Some b) n (Some k) d ?st1)
        (\<lambda>st1. Inr (st1\<lparr>cref := (cref st1)\<lparr>read_callback := None\<rparr>\<rparr>))" .
  obtain st2 where st2: "asio_stream_read logged (Some b) n (Some k) d ?st1 = Inr st2" "waiting b n k d st2"
    "client st2 = client ?st1"
    using asio_stream_read_block [OF ok(2), of n "[]" logged b k d] assms(3,4) by auto
  have r: "asio_stream_read (reread b n) (Some b) n (Some k) d st =
      Inr (st2\<lparr>cref := (cref st2)\<lparr>read_callback := None\<rparr>\<rparr>)" unfolding r0 st2(1) by simp
  have deaf: "deaf (st2\<lparr>cref := (cref st2)\<lparr>read_callback := None\<rparr>, sock_inp := ins\<rparr>)" for ins
    using st2(2) by (simp add: waiting_def deaf_def asio_ok_def)
  have "\<exists>st3. fold_res (\<lambda>_. asio_event (reread b n)) [0..<m]
          ((st2\<lparr>cref := (cref st2)\<lparr>read_callback := None\<rparr>\<rparr>)\<lparr>sock_inp := ins\<rparr>) = Inr st3 \<and>
        client st3 = client (st2\<lparr>cref := (cref st2)\<lparr>read_callback := None\<rparr>\<rparr>) \<and> sock_inp st3 = ins \<and>
        arms st3 = (True, False)" for ins m
    using deaf_events [OF deaf, of "reread b n" "[0..<m]" ins] by (auto simp: same_data_def deaf_def)
  with r st2(3) show ?thesis
    by (intro exI [of _ "st2\<lparr>cref := (cref st2)\<lparr>read_callback := None\<rparr>\<rparr>"]) simp
qed

theorem read_from_callback_is_lost_witness:
  "\<exists>st1 st2. asio_stream_read (reread 0 4) (Some 0) 4 (Some 7) (Some 8) (demo_asio [In_data ''hi'', In_block] []) = Inr st1 \<and>
     fold_res (\<lambda>_. asio_event (reread 0 4)) [0..<3] (st1\<lparr>sock_inp := [In_data ''more'']\<rparr>) = Inr st2 \<and>
     client st2 = [(7, Some 8, 2, 0)] \<and> sock_inp st2 = [In_data ''more'']"
  using read_from_callback_is_lost [of "demo_asio [In_data ''hi'', In_block] []" 4 "''hi''" 0 7 "Some 8"]
  by (simp add: demo_asio del: upt_rec_numeral) metis

text \<open>A stream whose write waits for space, with no reader.\<close>

definition stuck :: "('w, 'c, 'a, 'k, 'd, 'b, 's) asio \<Rightarrow> bool" where
  "stuck st \<longleftrightarrow> asio_ok st \<and> snd (arms st) \<and> wpost st = (Some Epollout_postable_cb, Some ()) \<and>
     (fst (arms st) \<longrightarrow> rpost st = (Some Epollin_postable_cb, Some ())) \<and>
     write_state (cref st) = WRITE_STATE_ACTIVE \<and> write_callback (cref st) \<noteq> None \<and> read_callback (cref st) = None"

lemma event_writes:
  assumes "stuck st"
  shows "asio_event call st = epollout_postable_cb call
     (if fst (arms st) \<and> read_state (cref st) = READ_STATE_EAGAIN
      then st\<lparr>cref := (cref st)\<lparr>read_state := READ_STATE_IDLE\<rparr>\<rparr> else st)"
  using assms
  by (auto simp: stuck_def asio_event_def stream_handler_def asio_postable_def c_assert_def stream_abs_def
      epollin_postable_cb_def split: option.splits)

lemma stuck_epollout:
  assumes "stuck st" "sock_inp st = []"
  shows "\<exists>st'. epollout_postable_cb call st = Inr st' \<and> stuck st' \<and> same_data st st' \<and> sock_inp st' = []"
proof -
  have ok: "asio_ok st" "asio_ok (st\<lparr>sock_inp := []\<rparr>)" using assms(1) by (simp_all add: stuck_def asio_ok_def)
  have "epollout_postable_cb call st = read_eagain (st\<lparr>sock_inp := []\<rparr>)"
    using assms try_read_block [OF ok(1), of "[]" call] by (auto simp: epollout_postable_cb_def stuck_def stream_states)
  moreover from read_eagain_ok [OF ok(2)] obtain st' where
    st': "read_eagain (st\<lparr>sock_inp := []\<rparr>) = Inr st'" "asio_ok st'" "same_data (st\<lparr>sock_inp := []\<rparr>) st'"
    "sock_inp st' = []" "arms st' = (True, snd (arms st))"
    "rpost st' = (Some Epollin_postable_cb, Some ())" "wpost st' = wpost st" by auto
  moreover from st'(3) have "same_data st st'" by (simp add: same_data_def)
  moreover from st' this assms(1) have "stuck st'" by (auto simp: stuck_def same_data_def)
  ultimately show ?thesis by auto
qed

lemma stuck_event:
  assumes "stuck st" "sock_inp st = []"
  shows "\<exists>st'. asio_event call st = Inr st' \<and> stuck st' \<and> same_data st st' \<and> sock_inp st' = []"
proof -
  define st0 where "st0 = (if fst (arms st) \<and> read_state (cref st) = READ_STATE_EAGAIN
      then st\<lparr>cref := (cref st)\<lparr>read_state := READ_STATE_IDLE\<rparr>\<rparr> else st)"
  have "stuck st0" "sock_inp st0 = []" "same_data st st0"
    using assms by (auto simp: st0_def stuck_def asio_ok_def same_data_def)
  with stuck_epollout [of st0 call] event_writes [OF assms(1), of call] same_data_trans show ?thesis
    unfolding st0_def [symmetric] by fastforce
qed

lemma stuck_events:
  assumes "stuck st" "sock_inp st = []"
  shows "\<exists>st'. fold_res (\<lambda>_. asio_event call) xs st = Inr st' \<and> stuck st' \<and> same_data st st'"
  using assms
proof (induction xs arbitrary: st)
  case (Cons x xs)
  from stuck_event [OF Cons.prems, of call] obtain st1 where
    "asio_event call st = Inr st1" "stuck st1" "same_data st st1" "sock_inp st1 = []" by blast
  with Cons.IH [of st1] same_data_trans show ?case by auto
qed auto

text \<open>
  C33: A write that finds no space in the socket is never completed, on a stream that has no reader.
  However often the socket is reported writable afterwards, and whatever space it then has, with
  nothing to read no byte is sent, the callback is not called and the stream refuses further writes.
\<close>

theorem blocked_write_is_never_retried:
  assumes "asio_ok st" "write_state (cref st) = WRITE_STATE_IDLE" "read_callback (cref st) = None"
    "arms st = (False, False)" "0 < n" "sock_outp st = Out_block # outs" "sock_inp st = []"
  shows "\<exists>st1. asio_stream_write call (Some b) n (Some k) d st = Inr st1 \<and>
     (\<forall>m. \<exists>st2. fold_res (\<lambda>_. asio_event call) [0..<m] st1 = Inr st2 \<and>
        client st2 = client st \<and> sent st2 = sent st \<and> sock_outp st2 = outs \<and>
        asio_stream_write call (Some b) n (Some k) d st2 = Inl Assert_fail)"
proof -
  let ?st = "st\<lparr>cref := (cref st)\<lparr>write_buffer := Some b, write_buffer_size := n, write_callback := Some k,
      write_callback_arg := d, write_state := WRITE_STATE_ACTIVE\<rparr>, sock_outp := outs\<rparr>"
  have ok: "asio_ok ?st" using assms(1) by (simp add: asio_ok_def)
  from write_eagain_ok [OF ok] obtain st1 where
    st1: "write_eagain ?st = Inr st1" "asio_ok st1" "same_data ?st st1" "sock_inp st1 = []"
    "arms st1 = (False, True)" "wpost st1 = (Some Epollout_postable_cb, Some ())"
    using assms(4,7) by auto
  have "asio_stream_write call (Some b) n (Some k) d st = write_eagain ?st"
    using assms by (simp add: asio_stream_write_def c_assert_def try_write_def asio_ok_def Let_def)
  moreover have "stuck st1" using st1 assms(3) by (auto simp: stuck_def same_data_def)
  moreover have "stuck st2 \<Longrightarrow> asio_stream_write call (Some b) n (Some k) d st2 = Inl Assert_fail" for st2
    by (simp add: asio_stream_write_def stuck_def c_assert_def stream_states)
  moreover have "\<exists>st2. fold_res (\<lambda>_. asio_event call) [0..<m] st1 = Inr st2 \<and> stuck st2 \<and> same_data st1 st2" for m
    using stuck_events [of st1 call "[0..<m]"] \<open>stuck st1\<close> st1(4) by blast
  ultimately show ?thesis
    using st1(1,3) by (intro exI [of _ st1]) (fastforce simp: same_data_def)
qed

theorem blocked_write_is_never_retried_witness:
  "\<exists>st1 st2. asio_stream_write logged (Some 0) 4 (Some 7) (Some 8) (demo_asio [] [Out_block, Out_space 9]) = Inr st1 \<and>
     fold_res (\<lambda>_. asio_event logged) [0..<3] st1 = Inr st2 \<and> client st2 = [] \<and> sock_outp st2 = [Out_space 9]"
  using blocked_write_is_never_retried [of "demo_asio [] [Out_block, Out_space 9]" 4 "[Out_space 9]" logged 0 7 "Some 8"]
  by (simp add: demo_asio del: upt_rec_numeral) metis

end
