(* ===== verification/Http_Connection.thy ===== *)
theory Http_Connection
  imports Http_Parser_Spec Asio_Stream
begin

text \<open>
  Connections of the server: \<^verbatim>\<open>src/http_protocol/http_connection.c\<close>, on top of the asynchronous
  stream, the run loop, the message parser and the message list.

  The state is that of the stream, whose client is the connection together with the state of the
  connection's own client. The run loop holds the two functions the connection posts and those of
  its client; their argument is the connection. The memory behind the buffers handed to the stream
  is \<open>In_buffer\<close>, the space of the active input buffer, and \<open>Out_buffer\<close>, the data of the active
  output buffer. The callbacks of the client are the parameters \<open>rcb\<close> and \<open>wcb\<close>.
\<close>

section \<open>Operations\<close>

definition CONN_READ_IDLE :: int where "CONN_READ_IDLE = 11"

definition CONN_READ_ACTIVE :: int where "CONN_READ_ACTIVE = 13"

definition CONN_READ_STOP :: int where "CONN_READ_STOP = 14"

definition CONN_WRITE_IDLE :: int where "CONN_WRITE_IDLE = 21"

definition CONN_WRITE_ACTIVE :: int where "CONN_WRITE_ACTIVE = 23"

definition CONN_WRITE_STOP :: int where "CONN_WRITE_STOP = 24"

lemmas conn_states = CONN_READ_IDLE_def CONN_READ_ACTIVE_def CONN_READ_STOP_def
  CONN_WRITE_IDLE_def CONN_WRITE_ACTIVE_def CONN_WRITE_STOP_def

definition HttpConnectionErrCode_is_closed :: int where "HttpConnectionErrCode_is_closed = -31"

datatype 'x conn_postable = Postable_writer | Postable_write_call_cb | Client_postable 'x

datatype conn_cb = Read_have_data_cb | Writer_cb

datatype conn_buf = In_buffer | Out_buffer

record ('l, 'r, 'q) HttpConnection =
  input_message_list :: "HttpMessage List"
  active_input_buffer :: "IOBuffer option"
  conn_read_buffer_size :: int
  active_output_buffer :: "IOBuffer option"
  conn_parser :: "'l HttpMessageParser"
  conn_read_state :: int
  conn_write_state :: int
  on_read_cb :: "'r option"
  on_read_cb_arg :: "'q option"
  on_write_cb :: "'r option"
  on_write_cb_arg :: "'q option"
  on_close_cb :: "'r option"
  on_close_cb_arg :: "'q option"

type_synonym ('w, 'x, 'l, 'r, 'q, 's) conn_world =
  "('w, 'x conn_postable, unit, conn_cb, unit, conn_buf, ('l, 'r, 'q) HttpConnection \<times> 's) asio"

abbreviation conn :: "('w, 'x, 'l, 'r, 'q, 's) conn_world \<Rightarrow> ('l, 'r, 'q) HttpConnection" where
  "conn st \<equiv> fst (client st)"

definition with_conn ::
  "(('l, 'r, 'q) HttpConnection \<Rightarrow> ('l, 'r, 'q) HttpConnection) \<Rightarrow>
   ('w, 'x, 'l, 'r, 'q, 's) conn_world \<Rightarrow> ('w, 'x, 'l, 'r, 'q, 's) conn_world" where
  "with_conn f st = st\<lparr>client := (f (fst (client st)), snd (client st))\<rparr>"

definition on_parser_new_message_complete :: "HttpMessage \<Rightarrow> HttpMessage List \<Rightarrow> HttpMessage List res" where
  "on_parser_new_message_complete msg lst = List_add_back lst msg"

definition http_connection_init ::
  "'l llhttp \<Rightarrow> 'w \<Rightarrow> int \<Rightarrow> 'r option \<Rightarrow> 'q option \<Rightarrow> ('w, 'x conn_postable, unit) Runloop \<Rightarrow>
   (('l, 'r, 'q) HttpConnection \<times> ('w, conn_cb, unit, conn_buf) AsioStream \<times> ('w, 'x conn_postable, unit) Runloop) res"
  where
  "http_connection_init ll self socket close_cb href rl =
     rbind (asio_stream_new self socket rl) (\<lambda>(stream, rl1).
     rbind (http_message_parser_new ll) (\<lambda>p.
     Inr (\<lparr>input_message_list = List_new, active_input_buffer = None, conn_read_buffer_size = 1000,
           active_output_buffer = None, conn_parser = p, conn_read_state = CONN_READ_IDLE,
           conn_write_state = CONN_WRITE_IDLE, on_read_cb = None, on_read_cb_arg = None, on_write_cb = None,
           on_write_cb_arg = None, on_close_cb = close_cb, on_close_cb_arg = href\<rparr>, stream, rl1)))"

definition http_connection_new ::
  "'l llhttp \<Rightarrow> 'w \<Rightarrow> int \<Rightarrow> 'r option \<Rightarrow> 'q option \<Rightarrow> ('w, 'x conn_postable, unit) Runloop \<Rightarrow>
   (('l, 'r, 'q) HttpConnection \<times> ('w, conn_cb, unit, conn_buf) AsioStream \<times> ('w, 'x conn_postable, unit) Runloop) res"
  where
  "http_connection_new ll self socket close_cb href rl = http_connection_init ll self socket close_cb href rl"

definition http_connection_close ::
  "('w, 'x, 'l, 'r, 'q, 's) conn_world \<Rightarrow> ('w, 'x, 'l, 'r, 'q, 's) conn_world res" where
  "http_connection_close st = asio_stream_close st"

definition http_connection_free ::
  "('w, 'x, 'l, 'r, 'q, 's) conn_world \<Rightarrow> ('w, 'x, 'l, 'r, 'q, 's) conn_world res" where
  "http_connection_free st =
     rbind (asio_stream_free (st\<lparr>as_rl := close_fd (as_rl st) (asio_stream_get_fd (cref st))\<rparr>)) (\<lambda>st1.
     rbind (List_safe_free (input_message_list (conn st1)) (Some (\<lambda>m u. http_message_free m)) ()) (\<lambda>_.
     Inr (with_conn (\<lambda>c. c\<lparr>active_output_buffer := None, active_input_buffer := None\<rparr>) st1)))"

definition call_on_read_cb ::
  "('r \<Rightarrow> 'q \<Rightarrow> HttpMessage option \<Rightarrow> int \<Rightarrow> ('w, 'x, 'l, 'r, 'q, 's) conn_world \<Rightarrow>
      ('w, 'x, 'l, 'r, 'q, 's) conn_world res) \<Rightarrow>
   HttpMessage option \<Rightarrow> int \<Rightarrow> ('w, 'x, 'l, 'r, 'q, 's) conn_world \<Rightarrow> ('w, 'x, 'l, 'r, 'q, 's) conn_world res" where
  "call_on_read_cb rcb msg status st =
     (case (on_read_cb (conn st), on_read_cb_arg (conn st)) of
        (Some f, Some a) \<Rightarrow> rcb f a msg status (with_conn (\<lambda>c. c\<lparr>on_read_cb := None, on_read_cb_arg := None\<rparr>) st)
      | _ \<Rightarrow> Inl Assert_fail)"

definition call_on_write_cb ::
  "('r \<Rightarrow> 'q \<Rightarrow> int \<Rightarrow> ('w, 'x, 'l, 'r, 'q, 's) conn_world \<Rightarrow> ('w, 'x, 'l, 'r, 'q, 's) conn_world res) \<Rightarrow>
   int \<Rightarrow> ('w, 'x, 'l, 'r, 'q, 's) conn_world \<Rightarrow> ('w, 'x, 'l, 'r, 'q, 's) conn_world res" where
  "call_on_write_cb wcb status st =
     (case (on_write_cb (conn st), on_write_cb_arg (conn st)) of
        (Some f, Some a) \<Rightarrow> wcb f a status (with_conn (\<lambda>c. c\<lparr>on_write_cb := None, on_write_cb_arg := None\<rparr>) st)
      | _ \<Rightarrow> Inl Assert_fail)"

definition post_to_runloop ::
  "'x conn_postable \<Rightarrow> ('w, 'x, 'l, 'r, 'q, 's) conn_world \<Rightarrow> ('w, 'x, 'l, 'r, 'q, 's) conn_world res" where
  "post_to_runloop p st = rbind (runloop_post (as_rl st) (Some p) (Some ())) (\<lambda>rl. Inr (st\<lparr>as_rl := rl\<rparr>))"

definition read_have_data_cb ::
  "'l llhttp \<Rightarrow>
   ('r \<Rightarrow> 'q \<Rightarrow> HttpMessage option \<Rightarrow> int \<Rightarrow> ('w, 'x, 'l, 'r, 'q, 's) conn_world \<Rightarrow>
      ('w, 'x, 'l, 'r, 'q, 's) conn_world res) \<Rightarrow>
   int \<Rightarrow> int \<Rightarrow> ('w, 'x, 'l, 'r, 'q, 's) conn_world \<Rightarrow> ('w, 'x, 'l, 'r, 'q, 's) conn_world res" where
  "read_have_data_cb ll rcb bytes_available err_status st =
     (case active_input_buffer (conn st) of
        None \<Rightarrow> Inl Assert_fail
      | Some iob \<Rightarrow>
          if bytes_available = 0 then call_on_read_cb rcb None (-1) st
          else if bytes_available < 0 then call_on_read_cb rcb None (-2) st
          else
            rbind (mem_copy (mem_p iob) (IOBuffer_space iob) (map Some (bufs st In_buffer))) (\<lambda>m.
            rbind (IOBuffer_commit (iob\<lparr>mem_p := m\<rparr>) bytes_available) (\<lambda>iob1.
            rbind (http_message_parser_consume_buffer ll on_parser_new_message_complete (conn_parser (conn st)) iob1
                     (input_message_list (conn st))) (\<lambda>(en, p, iob2, lst).
            rbind (c_assert (IOBuffer_data_len iob2 = 0)) (\<lambda>_.
            let st1 = with_conn (\<lambda>c. c\<lparr>conn_parser := p, input_message_list := lst, active_input_buffer := None\<rparr>) st in
            if en = HPE_OK then
              (if List_size lst > 0 then
                 rbind (List_remove_first lst) (\<lambda>(msg, lst1).
                 call_on_read_cb rcb msg 0
                   (with_conn (\<lambda>c. c\<lparr>input_message_list := lst1, conn_read_state := CONN_READ_IDLE\<rparr>) st1))
               else Inr st1)
            else call_on_read_cb rcb None en st1)))))"

definition writer_cb ::
  "int \<Rightarrow> int \<Rightarrow> ('w, 'x, 'l, 'r, 'q, 's) conn_world \<Rightarrow> ('w, 'x, 'l, 'r, 'q, 's) conn_world res" where
  "writer_cb bytes_written status st =
     (case active_output_buffer (conn st) of
        None \<Rightarrow> Inl Assert_fail
      | Some iob \<Rightarrow>
          rbind (c_assert (bytes_written > 0)) (\<lambda>_.
          rbind (IOBuffer_consume iob bytes_written) (\<lambda>iob1.
          if IOBuffer_data_len iob1 > 0
          then post_to_runloop Postable_writer (with_conn (\<lambda>c. c\<lparr>active_output_buffer := Some iob1\<rparr>) st)
          else post_to_runloop Postable_write_call_cb (with_conn (\<lambda>c. c\<lparr>active_output_buffer := None\<rparr>) st))))"

text \<open>The callbacks as the stream calls them; their argument is the connection.\<close>

definition conn_call ::
  "'l llhttp \<Rightarrow>
   ('r \<Rightarrow> 'q \<Rightarrow> HttpMessage option \<Rightarrow> int \<Rightarrow> ('w, 'x, 'l, 'r, 'q, 's) conn_world \<Rightarrow>
      ('w, 'x, 'l, 'r, 'q, 's) conn_world res) \<Rightarrow>
   conn_cb \<Rightarrow> unit option \<Rightarrow> int \<Rightarrow> int \<Rightarrow>
   ('w, 'x, 'l, 'r, 'q, 's) conn_world \<Rightarrow> ('w, 'x, 'l, 'r, 'q, 's) conn_world res" where
  "conn_call ll rcb k self n e st =
     (if self = None then Inl Null_deref
      else case k of Read_have_data_cb \<Rightarrow> read_have_data_cb ll rcb n e st | Writer_cb \<Rightarrow> writer_cb n e st)"

definition http_connection_read ::
  "'l llhttp \<Rightarrow>
   ('r \<Rightarrow> 'q \<Rightarrow> HttpMessage option \<Rightarrow> int \<Rightarrow> ('w, 'x, 'l, 'r, 'q, 's) conn_world \<Rightarrow>
      ('w, 'x, 'l, 'r, 'q, 's) conn_world res) \<Rightarrow>
   'r option \<Rightarrow> 'q option \<Rightarrow> ('w, 'x, 'l, 'r, 'q, 's) conn_world \<Rightarrow> ('w, 'x, 'l, 'r, 'q, 's) conn_world res" where
  "http_connection_read ll rcb on_http_read_cb href st =
     rbind (c_assert (on_http_read_cb \<noteq> None)) (\<lambda>_.
     rbind (c_assert (conn_read_state (conn st) = CONN_READ_IDLE)) (\<lambda>_.
     rbind (c_assert (active_input_buffer (conn st) = None)) (\<lambda>_.
     rbind (c_assert (on_read_cb (conn st) = None)) (\<lambda>_.
     rbind (c_assert (on_read_cb_arg (conn st) = None)) (\<lambda>_.
     let st1 = with_conn (\<lambda>c. c\<lparr>on_read_cb := on_http_read_cb, on_read_cb_arg := href\<rparr>) st;
         lst = input_message_list (conn st) in
     if List_size lst > 1 then
       rbind (List_remove_first lst) (\<lambda>(msg, lst1).
       call_on_read_cb rcb msg 0 (with_conn (\<lambda>c. c\<lparr>input_message_list := lst1\<rparr>) st1))
     else if List_size lst = 1 then
       rbind (List_remove_first lst) (\<lambda>(msg, lst1).
       call_on_read_cb rcb msg 0
         (with_conn (\<lambda>c. c\<lparr>input_message_list := lst1, conn_read_state := CONN_READ_ACTIVE\<rparr>) st1))
     else
       rbind (IOBuffer_new_with_capacity (conn_read_buffer_size (conn st))) (\<lambda>iob.
       rbind (c_assert (IOBuffer_data_len iob = 0)) (\<lambda>_.
       asio_stream_read (conn_call ll rcb) (Some In_buffer) (IOBuffer_space_len iob) (Some Read_have_data_cb) (Some ())
         (with_conn (\<lambda>c. c\<lparr>conn_read_state := CONN_READ_ACTIVE, active_input_buffer := Some iob\<rparr>) st1))))))))"

definition postable_call_on_read_cb ::
  "('r \<Rightarrow> 'q \<Rightarrow> HttpMessage option \<Rightarrow> int \<Rightarrow> ('w, 'x, 'l, 'r, 'q, 's) conn_world \<Rightarrow>
      ('w, 'x, 'l, 'r, 'q, 's) conn_world res) \<Rightarrow>
   ('w, 'x, 'l, 'r, 'q, 's) conn_world \<Rightarrow> ('w, 'x, 'l, 'r, 'q, 's) conn_world res" where
  "postable_call_on_read_cb rcb st =
     rbind (c_assert (List_size (input_message_list (conn st)) > 0)) (\<lambda>_.
     rbind (List_remove_first (input_message_list (conn st))) (\<lambda>(msg, lst).
     call_on_read_cb rcb msg 0
       (with_conn (\<lambda>c. c\<lparr>input_message_list := lst, conn_read_state := CONN_READ_IDLE\<rparr>) st)))"

definition http_connection_write ::
  "(int \<Rightarrow> char list) \<Rightarrow>
   ('r \<Rightarrow> 'q \<Rightarrow> int \<Rightarrow> ('w, 'x, 'l, 'r, 'q, 's) conn_world \<Rightarrow> ('w, 'x, 'l, 'r, 'q, 's) conn_world res) \<Rightarrow>
   HttpMessage option \<Rightarrow> 'r option \<Rightarrow> 'q option \<Rightarrow>
   ('w, 'x, 'l, 'r, 'q, 's) conn_world \<Rightarrow> ('w, 'x, 'l, 'r, 'q, 's) conn_world res" where
  "http_connection_write method_name wcb response on_http_write_cb href st =
     (case response of
        None \<Rightarrow> Inl Assert_fail
      | Some msg \<Rightarrow>
          rbind (c_assert (on_http_write_cb \<noteq> None)) (\<lambda>_.
          rbind (c_assert (conn_write_state (conn st) = CONN_WRITE_IDLE)) (\<lambda>_.
          rbind (c_assert (on_write_cb (conn st) = None)) (\<lambda>_.
          rbind (c_assert (active_output_buffer (conn st) = None)) (\<lambda>_.
          rbind (http_message_serialize method_name msg) (\<lambda>iob.
          let st1 = with_conn (\<lambda>c. c\<lparr>on_write_cb := on_http_write_cb, on_write_cb_arg := href,
                      conn_write_state := CONN_WRITE_ACTIVE, active_output_buffer := Some iob\<rparr>) st in
          if conn_write_state (conn st1) = CONN_WRITE_STOP
          then call_on_write_cb wcb HttpConnectionErrCode_is_closed st1
          else post_to_runloop Postable_writer st1))))))"

definition postable_writer ::
  "'l llhttp \<Rightarrow>
   ('r \<Rightarrow> 'q \<Rightarrow> HttpMessage option \<Rightarrow> int \<Rightarrow> ('w, 'x, 'l, 'r, 'q, 's) conn_world \<Rightarrow>
      ('w, 'x, 'l, 'r, 'q, 's) conn_world res) \<Rightarrow>
   ('r \<Rightarrow> 'q \<Rightarrow> int \<Rightarrow> ('w, 'x, 'l, 'r, 'q, 's) conn_world \<Rightarrow> ('w, 'x, 'l, 'r, 'q, 's) conn_world res) \<Rightarrow>
   ('w, 'x, 'l, 'r, 'q, 's) conn_world \<Rightarrow> ('w, 'x, 'l, 'r, 'q, 's) conn_world res" where
  "postable_writer ll rcb wcb st =
     (if conn_write_state (conn st) = CONN_WRITE_STOP
      then call_on_write_cb wcb HttpConnectionErrCode_is_closed
             (with_conn (\<lambda>c. c\<lparr>active_output_buffer := None\<rparr>) st)
      else
        (case active_output_buffer (conn st) of
           None \<Rightarrow> Inl Assert_fail
         | Some iob \<Rightarrow>
             rbind (c_assert (conn_write_state (conn st) = CONN_WRITE_IDLE)) (\<lambda>_.
             rbind (mem_read (mem_p iob) (IOBuffer_data iob) (IOBuffer_data_len iob)) (\<lambda>bs.
             asio_stream_write (conn_call ll rcb) (Some Out_buffer) (IOBuffer_data_len iob) (Some Writer_cb) (Some ())
               (st\<lparr>bufs := (bufs st)(Out_buffer := bs)\<rparr>)))))"

definition postable_write_call_cb ::
  "('r \<Rightarrow> 'q \<Rightarrow> int \<Rightarrow> ('w, 'x, 'l, 'r, 'q, 's) conn_world \<Rightarrow> ('w, 'x, 'l, 'r, 'q, 's) conn_world res) \<Rightarrow>
   ('w, 'x, 'l, 'r, 'q, 's) conn_world \<Rightarrow> ('w, 'x, 'l, 'r, 'q, 's) conn_world res" where
  "postable_write_call_cb wcb st = call_on_write_cb wcb 0 st"

section \<open>Reading a request\<close>

text \<open>A connection with no read in progress and no message queued.\<close>

definition conn_idle :: "('l, 'r, 'q) HttpConnection \<Rightarrow> bool" where
  "conn_idle c \<longleftrightarrow>
     conn_read_state c = CONN_READ_IDLE \<and> active_input_buffer c = None \<and> on_read_cb c = None \<and>
     on_read_cb_arg c = None \<and> List_ok (input_message_list c) \<and> contents (input_message_list c) = [] \<and>
     conn_read_buffer_size c = 1000"

lemma client_with_conn [simp]: "client (with_conn f st) = (f (conn st), snd (client st))"
  by (simp add: with_conn_def)

lemma stream_with_conn [simp]: "cref (with_conn f st) = cref st" "as_rl (with_conn f st) = as_rl st"
  "sock_inp (with_conn f st) = sock_inp st" "bufs (with_conn f st) = bufs st"
  by (simp_all add: with_conn_def)

lemma commit_input:
  assumes "iob_holds iob []" "buffer_capacity iob = 1000" "c \<noteq> []" "length c \<le> 1000"
  shows "\<exists>m iob1. mem_copy (mem_p iob) (IOBuffer_space iob) (map Some c) = Inr m \<and>
    IOBuffer_commit (iob\<lparr>mem_p := m\<rparr>) (int (length c)) = Inr iob1 \<and> iob_holds iob1 c"
proof -
  have "\<not> IOBuffer_space_len iob < int (length c)"
    using iob_holds_space_len [OF assms(1)] assms(2,4) by simp
  with IOBuffer_data_add_holds [OF assms(1), of c] assms(2-4) show ?thesis
    by (auto simp: IOBuffer_data_add_def Let_def rbind_eq_Inr c_assert_def)
qed

text \<open>What the parser makes of one buffer decides what the callback of a read does.\<close>

lemma have_data_outcome:
  fixes st :: "('w, 'x, 'l, 'r, 'q, 's) conn_world"
  assumes iob: "active_input_buffer (conn st) = Some iob" "iob_holds iob []" "buffer_capacity iob = 1000"
    and c: "bufs st In_buffer = c" "c \<noteq> []" "length c \<le> 1000"
    and lst: "List_ok (input_message_list (conn st))" "contents (input_message_list (conn st)) = []"
    and p: "parser_rep (conn_parser (conn st)) a"
      "ll_step ll (m_llhttp_ptr (conn_parser (conn st))) c = (es, err, l1)" "ap_run es a = Some (out, a1)"
    and len: "int (length out) \<le> INT_MAX"
  shows "\<exists>ms p1 lst. list_all2 msg_rep ms out \<and> parser_rep p1 a1 \<and> List_ok lst \<and> contents lst = tl ms \<and>
    read_have_data_cb ll rcb (int (length c)) e st =
      (if err \<noteq> HPE_OK then Inl Assert_fail
       else if ms = [] then
         Inr (with_conn (\<lambda>c. c\<lparr>conn_parser := p1, input_message_list := lst, active_input_buffer := None\<rparr>) st)
       else call_on_read_cb rcb (Some (hd ms)) 0
         (with_conn (\<lambda>c. c\<lparr>conn_parser := p1, active_input_buffer := None, input_message_list := lst,
            conn_read_state := CONN_READ_IDLE\<rparr>) st))"
proof -
  from consume_sim [OF p, where 's = "HttpMessage List"] obtain ms p1 where
    ms: "list_all2 msg_rep ms out" "parser_rep p1 a1"
    "\<forall>(h :: HttpMessage \<Rightarrow> HttpMessage List \<Rightarrow> HttpMessage List res) s.
       http_message_parser_consume ll h (conn_parser (conn st)) c s =
       rbind (fold_res h ms s) (\<lambda>s1. Inr (err, p1, s1))" by (elim exE conjE)
  from ms(1) len have "int (length ms) \<le> INT_MAX" by (simp add: list_all2_lengthD)
  with lq.add_all [OF lst(1), of ms] lst(2) obtain L where
    L: "fold_res on_parser_new_message_complete ms (input_message_list (conn st)) = Inr L" "List_ok L"
    "contents L = ms" by (auto simp: on_parser_new_message_complete_def [abs_def])
  from commit_input [OF iob(2,3) c(2,3)] obtain m iob1 where
    m: "mem_copy (mem_p iob) (IOBuffer_space iob) (map Some c) = Inr m"
    "IOBuffer_commit (iob\<lparr>mem_p := m\<rparr>) (int (length c)) = Inr iob1" "iob_holds iob1 c" by blast
  from consume_buffer_holds [OF m(3), of ll on_parser_new_message_complete "conn_parser (conn st)"
      "input_message_list (conn st)"] obtain iob2 where
    b: "http_message_parser_consume_buffer ll on_parser_new_message_complete (conn_parser (conn st)) iob1
      (input_message_list (conn st)) = Inr (err, p1, if err = HPE_OK then iob2 else iob1, L)"
    "IOBuffer_data_len iob2 = 0" using ms(3) L(1) by auto
  have "IOBuffer_data_len iob1 = int (length c)"
    using iob_holds_remaining [OF m(3)] by (simp add: IOBuffer_data_len_def)
  with iob(1) c m b have r: "read_have_data_cb ll rcb (int (length c)) e st =
      (if err \<noteq> HPE_OK then Inl Assert_fail
       else if List_size L > 0 then
         rbind (List_remove_first L) (\<lambda>(msg, lst1).
           call_on_read_cb rcb msg 0 (with_conn (\<lambda>c. c\<lparr>input_message_list := lst1, conn_read_state := CONN_READ_IDLE\<rparr>)
             (with_conn (\<lambda>c. c\<lparr>conn_parser := p1, input_message_list := L, active_input_buffer := None\<rparr>) st)))
       else Inr (with_conn (\<lambda>c. c\<lparr>conn_parser := p1, input_message_list := L, active_input_buffer := None\<rparr>) st))"
    by (simp add: read_have_data_cb_def c_assert_def Let_def)
  from lq.remove_first_law [OF L(2)] L(3) obtain L1 where
    L1: "List_remove_first L = Inr (if ms = [] then None else Some (hd ms), L1)" "List_ok L1" "contents L1 = tl ms"
    by auto
  show ?thesis
  proof (cases "ms = []")
    case True
    then show ?thesis
      using ms(1,2) L r lq.size_law [OF L(2)] by (intro exI [of _ ms] exI [of _ p1] exI [of _ L]) simp
  next
    case False
    then show ?thesis
      using ms(1,2) L1 r L lq.size_law [OF L(2)]
      by (intro exI [of _ ms] exI [of _ p1] exI [of _ L1]) (simp add: with_conn_def)
  qed
qed

lemma iob_new_1000:
  "\<exists>iob. IOBuffer_new_with_capacity 1000 = Inr iob \<and> iob_holds iob [] \<and> buffer_capacity iob = 1000 \<and>
     IOBuffer_data_len iob = 0 \<and> IOBuffer_space_len iob = 1000"
  using IOBuffer_new_ok [of 1000]
  by (auto simp: iob_holds_def INT_MAX_def IOBuffer_data_len_def IOBuffer_space_len_def)

lemma connection_read_starts:
  fixes st :: "('w, 'x, 'l, 'r, 'q, 's) conn_world"
  assumes "asio_ok st" "read_state (cref st) = READ_STATE_IDLE" "conn_idle (conn st)"
    "sock_inp st = In_data c # ins" "c \<noteq> []" "length c \<le> 1000"
  shows "\<exists>iob st1. iob_holds iob [] \<and> buffer_capacity iob = 1000 \<and> active_input_buffer (conn st1) = Some iob \<and>
    conn st1 = (conn st)\<lparr>on_read_cb := Some f, on_read_cb_arg := Some x, conn_read_state := CONN_READ_ACTIVE,
      active_input_buffer := Some iob\<rparr> \<and>
    bufs st1 In_buffer = c \<and> read_state (cref st1) = READ_STATE_IDLE \<and> sock_inp st1 = ins \<and>
    as_rl st1 = as_rl st \<and> runloop_stream (cref st1) = runloop_stream (cref st) \<and> as_fd (cref st1) = as_fd (cref st) \<and>
    snd (client st1) = snd (client st) \<and>
    http_connection_read ll rcb (Some f) (Some x) st =
      rbind (read_have_data_cb ll rcb (int (length c)) 0 st1) (\<lambda>st2.
      Inr (st2\<lparr>cref := (cref st2)\<lparr>read_callback := None\<rparr>\<rparr>))"
proof -
  from iob_new_1000 obtain iob where iob: "IOBuffer_new_with_capacity 1000 = Inr iob" "iob_holds iob []"
    "buffer_capacity iob = 1000" "IOBuffer_data_len iob = 0" "IOBuffer_space_len iob = 1000" by blast
  let ?cn = "(conn st)\<lparr>on_read_cb := Some f, on_read_cb_arg := Some x, conn_read_state := CONN_READ_ACTIVE,
      active_input_buffer := Some iob\<rparr>"
  let ?st = "st\<lparr>client := (?cn, snd (client st)), cref := (cref st)\<lparr>read_buffer := Some In_buffer,
      read_buffer_size := 1000, read_callback := Some Read_have_data_cb, read_callback_arg := Some (),
      read_state := READ_STATE_ACTIVE\<rparr>\<rparr>"
  have ok: "asio_ok ?st" using assms(1) by (simp add: asio_ok_def)
  have "http_connection_read ll rcb (Some f) (Some x) st = try_read (conn_call ll rcb) ?st"
    using assms(2,3) iob lq.size_law [of "input_message_list (conn st)"]
    by (simp add: http_connection_read_def conn_idle_def c_assert_def asio_stream_read_def with_conn_def)
  also have "\<dots> = call_reader (conn_call ll rcb) (int (length c)) 0
      (?st\<lparr>sock_inp := ins, bufs := (bufs st)(In_buffer := c), cref := (cref ?st)\<lparr>read_state := READ_STATE_IDLE\<rparr>\<rparr>)"
    using try_read_data [OF ok, of c ins In_buffer "conn_call ll rcb"] assms(4-6) by simp
  finally show ?thesis
    using iob(2,3)
    by (intro exI [of _ iob] exI [of _ "?st\<lparr>sock_inp := ins, bufs := (bufs st)(In_buffer := c),
          cref := (cref ?st)\<lparr>read_state := READ_STATE_IDLE\<rparr>\<rparr>"])
      (simp add: call_reader_def conn_call_def)
qed

lemma http_connection_new_ok:
  assumes "rl_ok rl" "fd_valid fd" "fd_watcher (rl_table rl) fd = None"
  shows "\<exists>c stream rl'. http_connection_new ll w fd cb x rl = Inr (c, stream, rl') \<and> conn_idle c \<and>
    parser_rep (conn_parser c) start_aparser \<and> m_llhttp_ptr (conn_parser c) = ll_init ll \<and>
    conn_write_state c = CONN_WRITE_IDLE \<and> on_write_cb c = None \<and> active_output_buffer c = None \<and>
    stream_ok (runloop_stream stream) rl' \<and> as_fd stream = fd \<and> rs_fd (runloop_stream stream) = fd \<and>
    read_state stream = READ_STATE_IDLE \<and> stream_abs (runloop_stream stream) = (False, False) \<and>
    ready_list rl' = ready_list rl"
proof -
  from asio_stream_new_ok [OF assms, of w] obtain stream :: "('a, conn_cb, unit, conn_buf) AsioStream" and rl' where
    "asio_stream_new w fd rl = Inr (stream, rl')" "stream_ok (runloop_stream stream) rl'" "as_fd stream = fd"
    "rs_fd (runloop_stream stream) = fd" "read_state stream = READ_STATE_IDLE"
    "stream_abs (runloop_stream stream) = (False, False)" "ready_list rl' = ready_list rl" by blast
  with http_message_parser_new_rep [of ll] show ?thesis
    by (auto simp: http_connection_new_def http_connection_init_def conn_idle_def lq.new_law)
qed

text \<open>A new connection on descriptor 5 of a new loop, with the given data in its socket.\<close>

definition demo_conn :: "nat llhttp \<Rightarrow> sock_in list \<Rightarrow> (nat, nat, nat, nat, nat, unit) conn_world" where
  "demo_conn ll ins =
     (let (c, stream, rl) = projr (http_connection_new ll 1 5 None None (projr (runloop_new 3))) in
      \<lparr>cref = stream, as_rl = rl, sock_inp = ins, sock_outp = [], sent = [], bufs = (\<lambda>_. []), client = (c, ())\<rparr>)"

lemma demo_conn:
  "asio_ok (demo_conn ll ins)" "read_state (cref (demo_conn ll ins)) = READ_STATE_IDLE"
  "arms (demo_conn ll ins) = (False, False)" "conn_idle (conn (demo_conn ll ins))"
  "sock_inp (demo_conn ll ins) = ins" "parser_rep (conn_parser (conn (demo_conn ll ins))) start_aparser"
  "m_llhttp_ptr (conn_parser (conn (demo_conn ll ins))) = ll_init ll"
  "conn_write_state (conn (demo_conn ll ins)) = CONN_WRITE_IDLE" "on_write_cb (conn (demo_conn ll ins)) = None"
  "active_output_buffer (conn (demo_conn ll ins)) = None" "fl_rep (ready_list (as_rl (demo_conn ll ins))) []"
proof -
  obtain rl :: "(nat, nat conn_postable, unit) Runloop" where
    rl: "runloop_new 3 = Inr rl" "rl_ok rl" "fd_watcher (rl_table rl) = Map.empty" "fl_rep (ready_list rl) []"
    using runloop_new_ok [of 3, where ?'a = nat and ?'b = "nat conn_postable" and ?'c = unit] by auto
  have u: "fd_watcher (rl_table rl) 5 = None" "fd_valid 5" using rl(3) by (simp_all add: fd_valid_def)
  from http_connection_new_ok [OF rl(2) u(2,1), of ll 1 None None] obtain c :: "(nat, nat, nat) HttpConnection" and stream rl' where
    "http_connection_new ll 1 5 None None rl = Inr (c, stream, rl')" "conn_idle c"
    "parser_rep (conn_parser c) start_aparser" "m_llhttp_ptr (conn_parser c) = ll_init ll"
    "conn_write_state c = CONN_WRITE_IDLE" "on_write_cb c = None" "active_output_buffer c = None"
    "stream_ok (runloop_stream stream) rl'" "as_fd stream = 5" "rs_fd (runloop_stream stream) = 5"
    "read_state stream = READ_STATE_IDLE" "stream_abs (runloop_stream stream) = (False, False)"
    "ready_list rl' = ready_list rl" by blast
  with rl(1,4) show
    "asio_ok (demo_conn ll ins)" "read_state (cref (demo_conn ll ins)) = READ_STATE_IDLE"
    "arms (demo_conn ll ins) = (False, False)" "conn_idle (conn (demo_conn ll ins))"
    "sock_inp (demo_conn ll ins) = ins" "parser_rep (conn_parser (conn (demo_conn ll ins))) start_aparser"
    "m_llhttp_ptr (conn_parser (conn (demo_conn ll ins))) = ll_init ll"
    "conn_write_state (conn (demo_conn ll ins)) = CONN_WRITE_IDLE" "on_write_cb (conn (demo_conn ll ins)) = None"
    "active_output_buffer (conn (demo_conn ll ins)) = None" "fl_rep (ready_list (as_rl (demo_conn ll ins))) []"
    by (simp_all add: demo_conn_def asio_ok_def)
qed

definition demo_ll1 :: "nat llhttp" where
  "demo_ll1 = demo_ll\<lparr>ll_execute := (\<lambda>l c. (wire_events demo_wire, 0, l))\<rparr>"

lemma demo_ll1_run: "\<exists>a1. ap_run (wire_events demo_wire) start_aparser = Some ([wire_msg demo_wire], a1)"
  using ap_run_wires [of start_aparser "[demo_wire]"]
  by (auto simp: start_aparser_def demo_wire_def wire_ok_def INT_MAX_def header_ok_def bc_takes_def cbuf_takes_def)

definition bad_ll :: "nat llhttp" where
  "bad_ll = demo_ll\<lparr>ll_execute := (\<lambda>l c. ([On_message_begin], 1, l))\<rparr>"

text \<open>
  C22: The three outcomes of reading on an idle connection when the socket has between 1 and 1000
  bytes. If \<open>llhttp\<close> finds an error in them, in the first message or a later one, an assertion fails,
  since the parser leaves a buffer with an error unconsumed. If there is no error and no message is
  complete, the call returns with the read still active, the client's callback kept and no buffer.
  Otherwise the client's callback is called with the first message, after the connection has become
  idle, and the others are queued in order. The parser's callbacks are taken to succeed on what
  \<open>llhttp\<close> reports, of at most \<open>INT_MAX\<close> messages.
\<close>

theorem connection_read_outcome:
  fixes st :: "('w, 'x, 'l, 'r, 'q, 's) conn_world"
  assumes "asio_ok st" "read_state (cref st) = READ_STATE_IDLE" "conn_idle (conn st)"
    "sock_inp st = In_data c # ins" "c \<noteq> []" "length c \<le> 1000"
    "parser_rep (conn_parser (conn st)) a" "ll_step ll (m_llhttp_ptr (conn_parser (conn st))) c = (es, err, l1)"
    "ap_run es a = Some (out, a1)" "int (length out) \<le> INT_MAX"
  shows "\<exists>ms st1. list_all2 msg_rep ms out \<and> asio_ok st1 \<and> active_input_buffer (conn st1) = None \<and>
    (if out = [] then conn_read_state (conn st1) = CONN_READ_ACTIVE \<and> on_read_cb (conn st1) = Some f
     else conn_read_state (conn st1) = CONN_READ_IDLE \<and> on_read_cb (conn st1) = None) \<and>
    parser_rep (conn_parser (conn st1)) a1 \<and>
    List_ok (input_message_list (conn st1)) \<and> contents (input_message_list (conn st1)) = tl ms \<and>
    http_connection_read ll rcb (Some f) (Some x) st =
      (if err \<noteq> HPE_OK then Inl Assert_fail
       else rbind (if out = [] then Inr st1 else rcb f x (Some (hd ms)) 0 st1)
              (\<lambda>st2. Inr (st2\<lparr>cref := (cref st2)\<lparr>read_callback := None\<rparr>\<rparr>)))"
proof -
  from connection_read_starts [OF assms(1-6), where f = f and x = x and ll = ll and rcb = rcb] obtain iob st1 where
    st1: "iob_holds iob []" "buffer_capacity iob = 1000" "active_input_buffer (conn st1) = Some iob"
    "conn st1 = (conn st)\<lparr>on_read_cb := Some f, on_read_cb_arg := Some x, conn_read_state := CONN_READ_ACTIVE,
      active_input_buffer := Some iob\<rparr>" "bufs st1 In_buffer = c"
    "as_rl st1 = as_rl st" "runloop_stream (cref st1) = runloop_stream (cref st)" "as_fd (cref st1) = as_fd (cref st)"
    "http_connection_read ll rcb (Some f) (Some x) st =
      rbind (read_have_data_cb ll rcb (int (length c)) 0 st1) (\<lambda>st2.
      Inr (st2\<lparr>cref := (cref st2)\<lparr>read_callback := None\<rparr>\<rparr>))" by blast
  have lst: "List_ok (input_message_list (conn st1))" "contents (input_message_list (conn st1)) = []"
    using assms(3) st1(4) by (simp_all add: conn_idle_def)
  have p: "parser_rep (conn_parser (conn st1)) a"
    "ll_step ll (m_llhttp_ptr (conn_parser (conn st1))) c = (es, err, l1)" using assms(7,8) st1(4) by simp_all
  from have_data_outcome [OF st1(3,1,2,5) assms(5,6) lst p assms(9,10), of rcb 0] obtain ms p1 lst where
    r: "list_all2 msg_rep ms out" "parser_rep p1 a1" "List_ok lst" "contents lst = tl ms"
    "read_have_data_cb ll rcb (int (length c)) 0 st1 =
      (if err \<noteq> HPE_OK then Inl Assert_fail
       else if ms = [] then
         Inr (with_conn (\<lambda>c. c\<lparr>conn_parser := p1, input_message_list := lst, active_input_buffer := None\<rparr>) st1)
       else call_on_read_cb rcb (Some (hd ms)) 0
         (with_conn (\<lambda>c. c\<lparr>conn_parser := p1, active_input_buffer := None, input_message_list := lst,
            conn_read_state := CONN_READ_IDLE\<rparr>) st1))" by blast
  from r(1) have e: "ms = [] \<longleftrightarrow> out = []" by auto
  define st2 where "st2 = (if out = []
     then with_conn (\<lambda>c. c\<lparr>conn_parser := p1, input_message_list := lst, active_input_buffer := None\<rparr>) st1
     else with_conn (\<lambda>c. c\<lparr>on_read_cb := None, on_read_cb_arg := None\<rparr>)
        (with_conn (\<lambda>c. c\<lparr>conn_parser := p1, active_input_buffer := None, input_message_list := lst,
            conn_read_state := CONN_READ_IDLE\<rparr>) st1))"
  from r st1 assms(1) show ?thesis
    by (intro exI [of _ ms] exI [of _ st2]) (simp add: st2_def e call_on_read_cb_def asio_ok_def)
qed

text \<open>A complete request is handed over; an error in the first request aborts.\<close>

theorem connection_read_outcome_witness:
  "(\<exists>m st1. msg_rep m (wire_msg demo_wire) \<and> on_read_cb (conn st1) = None \<and>
     http_connection_read demo_ll1 (\<lambda>f x m e st. Inr st) (Some 1) (Some 2) (demo_conn demo_ll1 [In_data ''x'']) =
       Inr (st1\<lparr>cref := (cref st1)\<lparr>read_callback := None\<rparr>\<rparr>)) \<and>
   http_connection_read bad_ll (\<lambda>f x m e st. Inr st) (Some 1) (Some 2) (demo_conn bad_ll [In_data ''x'']) =
     Inl Assert_fail"
proof
  let ?r = "\<lambda>(f :: nat) (x :: nat) m (e :: int) st. Inr st"
  have x: "''x'' \<noteq> []" "length ''x'' \<le> 1000" "int (length [wire_msg demo_wire]) \<le> INT_MAX"
    "int (length ([] :: amsg list)) \<le> INT_MAX" by (simp_all add: INT_MAX_def)
  obtain a1 where a1: "ap_run (wire_events demo_wire) start_aparser = Some ([wire_msg demo_wire], a1)"
    using demo_ll1_run by blast
  have l: "ll_step demo_ll1 (m_llhttp_ptr (conn_parser (conn (demo_conn demo_ll1 [In_data ''x''])))) ''x'' =
      (wire_events demo_wire, 0, 0)"
    unfolding demo_conn(7) by (simp add: ll_step_def demo_ll1_def demo_ll_def)
  from connection_read_outcome [OF demo_conn(1,2,4,5) x(1,2) demo_conn(6) l a1 x(3), where f = 1 and x = 2
      and rcb = ?r] obtain ms st1 where
    "list_all2 msg_rep ms [wire_msg demo_wire]" "on_read_cb (conn st1) = None"
    "http_connection_read demo_ll1 ?r (Some 1) (Some 2) (demo_conn demo_ll1 [In_data ''x'']) =
      Inr (st1\<lparr>cref := (cref st1)\<lparr>read_callback := None\<rparr>\<rparr>)" by (auto simp: HPE_OK_def)
  then show "\<exists>m st1. msg_rep m (wire_msg demo_wire) \<and> on_read_cb (conn st1) = None \<and>
     http_connection_read demo_ll1 ?r (Some 1) (Some 2) (demo_conn demo_ll1 [In_data ''x'']) =
       Inr (st1\<lparr>cref := (cref st1)\<lparr>read_callback := None\<rparr>\<rparr>)" by (auto simp: list_all2_Cons2)
  obtain a2 where a2: "ap_run [On_message_begin] start_aparser = Some ([], a2)" by (simp add: start_aparser_def)
  have l2: "ll_step bad_ll (m_llhttp_ptr (conn_parser (conn (demo_conn bad_ll [In_data ''x''])))) ''x'' =
      ([On_message_begin], 1, 0)"
    unfolding demo_conn(7) by (simp add: ll_step_def bad_ll_def demo_ll_def)
  from connection_read_outcome [OF demo_conn(1,2,4,5) x(1,2) demo_conn(6) l2 a2 x(4), where f = 1 and x = 2
      and rcb = ?r] show "http_connection_read bad_ll ?r (Some 1) (Some 2) (demo_conn bad_ll [In_data ''x'']) =
     Inl Assert_fail" by (auto simp: HPE_OK_def)
qed

section \<open>Defects\<close>

lemma unarmed_event:
  assumes "arms st = (False, False)"
  shows "asio_event call st = Inr st"
  using assms by (auto simp: asio_event_def stream_handler_def stream_abs_def split: option.splits)

text \<open>
  C35: A request that is not complete in the first bytes the socket yields is never answered. The
  connection starts no further read: its stream is not armed, so that no number of events and no
  further data make it read or call its client, and it refuses every new read.
\<close>

theorem partial_request_stalls:
  fixes st :: "('w, 'x, 'l, 'r, 'q, 's) conn_world"
  assumes "asio_ok st" "read_state (cref st) = READ_STATE_IDLE" "arms st = (False, False)" "conn_idle (conn st)"
    "sock_inp st = [In_data c]" "c \<noteq> []" "length c \<le> 1000"
    "parser_rep (conn_parser (conn st)) a" "ll_step ll (m_llhttp_ptr (conn_parser (conn st))) c = (es, HPE_OK, l1)"
    "ap_run es a = Some ([], a1)"
  shows "\<exists>st1. http_connection_read ll rcb (Some f) (Some x) st = Inr st1 \<and>
    on_read_cb (conn st1) = Some f \<and> snd (client st1) = snd (client st) \<and>
    (\<forall>ins n. fold_res (\<lambda>_. asio_event (conn_call ll rcb)) [0..<n] (st1\<lparr>sock_inp := ins\<rparr>) = Inr (st1\<lparr>sock_inp := ins\<rparr>) \<and>
       http_connection_read ll rcb (Some f) (Some x) (st1\<lparr>sock_inp := ins\<rparr>) = Inl Assert_fail)"
proof -
  from connection_read_starts [OF assms(1,2,4-7), where f = f and x = x and ll = ll and rcb = rcb] obtain iob st1 where
    st1: "iob_holds iob []" "buffer_capacity iob = 1000" "active_input_buffer (conn st1) = Some iob"
    "conn st1 = (conn st)\<lparr>on_read_cb := Some f, on_read_cb_arg := Some x, conn_read_state := CONN_READ_ACTIVE,
      active_input_buffer := Some iob\<rparr>" "bufs st1 In_buffer = c"
    "runloop_stream (cref st1) = runloop_stream (cref st)" "snd (client st1) = snd (client st)"
    "http_connection_read ll rcb (Some f) (Some x) st =
      rbind (read_have_data_cb ll rcb (int (length c)) 0 st1) (\<lambda>st2.
      Inr (st2\<lparr>cref := (cref st2)\<lparr>read_callback := None\<rparr>\<rparr>))" by blast
  have lst: "List_ok (input_message_list (conn st1))" "contents (input_message_list (conn st1)) = []"
    using assms(4) st1(4) by (simp_all add: conn_idle_def)
  have p: "parser_rep (conn_parser (conn st1)) a"
    "ll_step ll (m_llhttp_ptr (conn_parser (conn st1))) c = (es, HPE_OK, l1)" using assms(8,9) st1(4) by simp_all
  from have_data_outcome [OF st1(3,1,2,5) assms(6,7) lst p assms(10), of rcb 0]
  obtain p1 lst where
    r: "read_have_data_cb ll rcb (int (length c)) 0 st1 =
         Inr (with_conn (\<lambda>c. c\<lparr>conn_parser := p1, input_message_list := lst, active_input_buffer := None\<rparr>) st1)"
    by (auto simp: INT_MAX_def)
  define st2 where "st2 = (with_conn (\<lambda>c. c\<lparr>conn_parser := p1, input_message_list := lst,
      active_input_buffer := None\<rparr>) st1)"
  define st3 where "st3 = st2\<lparr>cref := (cref st2)\<lparr>read_callback := None\<rparr>\<rparr>"
  have "arms (st3\<lparr>sock_inp := ins\<rparr>) = (False, False)" for ins
    using assms(3) st1(6) by (simp add: st3_def st2_def)
  then have "fold_res (\<lambda>_. asio_event (conn_call ll rcb)) [0..<n] (st3\<lparr>sock_inp := ins\<rparr>) = Inr (st3\<lparr>sock_inp := ins\<rparr>)"
    for ins n by (induction n) (simp_all add: fold_res_append unarmed_event)
  moreover have "http_connection_read ll rcb (Some f) (Some x) (st3\<lparr>sock_inp := ins\<rparr>) = Inl Assert_fail" for ins
    using st1(4) by (simp add: http_connection_read_def st3_def st2_def c_assert_def conn_states)
  moreover have "http_connection_read ll rcb (Some f) (Some x) st = Inr st3"
    unfolding st1(8) r st3_def st2_def by simp
  moreover have "on_read_cb (conn st3) = Some f" "snd (client st3) = snd (client st)"
    using st1(4,7) by (simp_all add: st3_def st2_def)
  ultimately show ?thesis by (intro exI [of _ st3]) simp
qed

theorem partial_request_stalls_witness:
  "\<exists>st1. http_connection_read demo_ll (\<lambda>f x m e st. Inl Would_block) (Some 1) (Some 2) (demo_conn demo_ll [In_data ''x'']) = Inr st1 \<and>
     fold_res (\<lambda>_. asio_event (conn_call demo_ll (\<lambda>f x m e st. Inl Would_block))) [0..<4]
       (st1\<lparr>sock_inp := [In_data ''y'']\<rparr>) = Inr (st1\<lparr>sock_inp := [In_data ''y'']\<rparr>)"
proof -
  let ?es = "[On_message_begin, On_method ''x'', On_url ''/a'', On_url ''b'', On_url_complete, On_header_field ''Ho'']"
  have l: "ll_step demo_ll (m_llhttp_ptr (conn_parser (conn (demo_conn demo_ll [In_data ''x''])))) ''x'' =
      (?es, HPE_OK, 1)"
    unfolding demo_conn(7) by (simp add: ll_step_def demo_ll_def HPE_OK_def)
  have x: "''x'' \<noteq> []" "length ''x'' \<le> 1000" by simp_all
  obtain a1 where a1: "ap_run ?es start_aparser = Some ([], a1)"
    by (simp add: start_aparser_def ap_fits_def cbuf_takes_def ap_name_def ap_flush_def)
  from partial_request_stalls [OF demo_conn(1,2,3,4,5) x demo_conn(6) l a1, where f = 1 and x = 2
      and rcb = "\<lambda>f x m e st. Inl Would_block"] show ?thesis by blast
qed

text \<open>
  C36: No response is ever written. \<open>http_connection_write\<close> marks the write active and posts the
  function that is to write; that function insists that no write is active, so it fails its
  assertion, whatever the loop has done to the rest of the state in the meantime.
\<close>

theorem response_write_aborts:
  fixes st :: "('w, 'x, 'l, 'r, 'q, 's) conn_world"
  assumes "conn_write_state (conn st) = CONN_WRITE_IDLE" "on_write_cb (conn st) = None"
    "active_output_buffer (conn st) = None" "http_message_serialize nm msg = Inr iob"
    "fl_ok (ready_list (as_rl st))" "length (fl_items (ready_list (as_rl st))) < fl_room (ready_list (as_rl st))"
  shows "\<exists>st1. http_connection_write nm wcb (Some msg) (Some f) (Some x) st = Inr st1 \<and>
    fl_items (ready_list (as_rl st1)) =
      fl_items (ready_list (as_rl st)) @ [\<lparr>fn = Some Postable_writer, fn_arg = Some ()\<rparr>] \<and>
    (\<forall>st2. conn st2 = conn st1 \<longrightarrow> postable_writer ll rcb wcb st2 = Inl Assert_fail)"
proof -
  let ?st = "with_conn (\<lambda>c. c\<lparr>on_write_cb := Some f, on_write_cb_arg := Some x,
      conn_write_state := CONN_WRITE_ACTIVE, active_output_buffer := Some iob\<rparr>) st"
  from runloop_post_rep [of "as_rl st" "fl_items (ready_list (as_rl st))" Postable_writer "()"] assms(5,6) obtain lst where
    lst: "runloop_post (as_rl st) (Some Postable_writer) (Some ()) = Inr ((as_rl st)\<lparr>ready_list := lst\<rparr>)"
    "fl_rep lst (fl_items (ready_list (as_rl st)) @ [\<lparr>fn = Some Postable_writer, fn_arg = Some ()\<rparr>])"
    by (auto simp: fl_rep_iff)
  have "http_connection_write nm wcb (Some msg) (Some f) (Some x) st =
      Inr (?st\<lparr>as_rl := (as_rl st)\<lparr>ready_list := lst\<rparr>\<rparr>)"
    using assms(1-4) lst(1)
    by (simp add: http_connection_write_def c_assert_def Let_def conn_states post_to_runloop_def)
  moreover have "postable_writer ll rcb wcb st2 = Inl Assert_fail" if "conn st2 = conn ?st" for st2
    using that by (simp add: postable_writer_def conn_states c_assert_def)
  ultimately show ?thesis
    using lst(2) by (intro exI [of _ "?st\<lparr>as_rl := (as_rl st)\<lparr>ready_list := lst\<rparr>\<rparr>"]) (simp add: fl_rep_iff)
qed

lemma demo_response: "\<exists>iob. http_message_serialize nm (demo_msg False) = Inr iob"
proof -
  have t: "text_cbuf (reason (demo_msg False)) ''OK''" using demo_cbuf [of "''OK''"] by (simp add: demo_msg_def)
  have m: "is_request (demo_msg False) = Some False" "status_code (demo_msg False) = Some 200"
    "hdr_holds (hm_headers (demo_msg False)) [(''HOST'', ''h''), (''ACCEPT'', ''x'')]"
    "body_holds (hm_body (demo_msg False)) []"
    using demo_hdrs by (simp_all add: demo_msg_def body_holds_def)
  have "no_nul (version_text (demo_msg False) @ ''  '' @ c_dec 200 @ '' '' @ ''OK'' @ crlf)"
    using t by (auto simp: text_cbuf_def demo_version)
  from http_message_serialize_holds [of nm, OF first_line_response [OF m(1,2) t] this _ m(3,4)] show ?thesis
    by (auto simp: demo_version c_dec_def dec_nat.simps)
qed

theorem response_write_aborts_witness:
  "\<exists>st1. http_connection_write (\<lambda>_. ''GET'') (\<lambda>f x e st. Inr st) (Some (demo_msg False)) (Some 1) (Some 2)
       (demo_conn demo_ll []) = Inr st1 \<and>
     postable_writer demo_ll (\<lambda>f x m e st. Inr st) (\<lambda>f x e st. Inr st) st1 = Inl Assert_fail"
proof -
  obtain iob where iob: "http_message_serialize (\<lambda>_. ''GET'') (demo_msg False) = Inr iob" using demo_response by blast
  have "rl_ok (as_rl (demo_conn demo_ll []))" using demo_conn(1) by (simp add: asio_ok_def stream_ok_def)
  have r: "fl_ok (ready_list (as_rl (demo_conn demo_ll [])))"
    "length (fl_items (ready_list (as_rl (demo_conn demo_ll [])))) < fl_room (ready_list (as_rl (demo_conn demo_ll [])))"
    using demo_conn(11) [of demo_ll "[]"] \<open>rl_ok _\<close> by (simp_all add: rl_ok_def fl_rep_iff)
  from response_write_aborts [OF demo_conn(8-10) iob r] show ?thesis by blast
qed

end
