(* ===== verification/Event_Table.thy ===== *)
theory Event_Table
  imports C_Ring
begin

text \<open>
  The table of events of the kqueue run loop: \<^verbatim>\<open>src/runloop/kqueue_runloop/event_table.c\<close>.

  A slab holds an event and remembers its own index; a pointer to a slab is that index. The free
  list is a ring of indices in 16-bit counters, and the indices that are not on it are in use. The
  table is allocated with \<open>malloc\<close>, so a cell and a slab have no value before they are written.
  The locale \<open>slot_pool\<close> is what the watchers rely on: an entry that is handed out is not in use.
\<close>

section \<open>Operations\<close>

definition EVT_MAX :: nat where "EVT_MAX = 2048"

record FreeList =
  fr_count :: nat
  max_entries :: nat
  modulo_max :: nat
  rdix :: nat
  wrix :: nat
  fr_buffer :: "nat option list"

definition freelist_is_full :: "FreeList \<Rightarrow> bool" where
  "freelist_is_full fl \<longleftrightarrow> fr_count fl = max_entries fl"

definition freelist_is_empty :: "FreeList \<Rightarrow> bool" where
  "freelist_is_empty fl \<longleftrightarrow> fr_count fl = 0"

definition freelist_add :: "FreeList \<Rightarrow> nat \<Rightarrow> FreeList res" where
  "freelist_add fl element =
     rbind (c_assert (\<not> freelist_is_full fl)) (\<lambda>_.
     let fl1 = fl\<lparr>fr_count := u16 (fr_count fl + 1)\<rparr> in
     if wrix fl1 < length (fr_buffer fl1) then
       if modulo_max fl1 = 0 then Inl Div_by_zero
       else Inr (fl1\<lparr>fr_buffer := (fr_buffer fl1)[wrix fl1 := Some (u16 element)],
                     wrix := u16 ((wrix fl1 + 1) mod modulo_max fl1)\<rparr>)
     else Inl Out_of_bounds)"

definition freelist_get :: "FreeList \<Rightarrow> (nat \<times> FreeList) res" where
  "freelist_get fl =
     rbind (c_assert (\<not> freelist_is_empty fl)) (\<lambda>_.
     if rdix fl < length (fr_buffer fl) then
       (case fr_buffer fl ! rdix fl of
          None \<Rightarrow> Inl Uninit_read
        | Some v \<Rightarrow>
            if modulo_max fl = 0 then Inl Div_by_zero
            else Inr (v, fl\<lparr>fr_count := u16 (fr_count fl + 2 ^ 16 - 1), rdix := u16 ((rdix fl + 1) mod modulo_max fl)\<rparr>))
     else Inl Out_of_bounds)"

definition freelist_size :: "FreeList \<Rightarrow> nat" where
  "freelist_size fl = fr_count fl"

text \<open>The argument stands for the memory that is initialised.\<close>

definition freelist_init :: "nat option list \<Rightarrow> FreeList res" where
  "freelist_init mem =
     fold_res (\<lambda>i fl. freelist_add fl i) [0..<EVT_MAX]
       \<lparr>fr_count = 0, max_entries = EVT_MAX, modulo_max = EVT_MAX + 1, rdix = 0, wrix = 0, fr_buffer = mem\<rparr>"

record 'e MemorySlab =
  slab_event :: "'e option"
  my_index :: "nat option"

record 'e EventTable =
  free_list :: FreeList
  et_memory :: "'e MemorySlab list"

definition event_table_init :: "'e EventTable \<Rightarrow> 'e EventTable res" where
  "event_table_init ot =
     rbind (freelist_init (fr_buffer (free_list ot))) (\<lambda>fl. Inr (ot\<lparr>free_list := fl\<rparr>))"

definition event_table_new :: "'e EventTable res" where
  "event_table_new =
     event_table_init
       \<lparr>free_list = \<lparr>fr_count = 0, max_entries = 0, modulo_max = 0, rdix = 0, wrix = 0,
                     fr_buffer = replicate (EVT_MAX + 1) None\<rparr>,
        et_memory = replicate (EVT_MAX + 1) \<lparr>slab_event = None, my_index = None\<rparr>\<rparr>"

definition event_table_get_entry :: "'e EventTable \<Rightarrow> (nat \<times> 'e EventTable) res" where
  "event_table_get_entry ot =
     rbind (freelist_get (free_list ot)) (\<lambda>(ix, fl).
     if ix < length (et_memory ot) then
       Inr (ix, ot\<lparr>free_list := fl, et_memory := (et_memory ot)[ix := (et_memory ot ! ix)\<lparr>my_index := Some ix\<rparr>]\<rparr>)
     else Inl Out_of_bounds)"

definition event_table_release_entry :: "'e EventTable \<Rightarrow> nat \<Rightarrow> 'e EventTable res" where
  "event_table_release_entry ot p =
     (if p < length (et_memory ot) then
        (case my_index (et_memory ot ! p) of
           None \<Rightarrow> Inl Uninit_read
         | Some ix \<Rightarrow> rbind (freelist_add (free_list ot) ix) (\<lambda>fl. Inr (ot\<lparr>free_list := fl\<rparr>)))
      else Inl Bad_pointer)"

definition event_table_number_in_use :: "'e EventTable \<Rightarrow> nat" where
  "event_table_number_in_use et = max_entries (free_list et) - freelist_size (free_list et)"

definition event_table_has_outstanding_events :: "'e EventTable \<Rightarrow> bool" where
  "event_table_has_outstanding_events et \<longleftrightarrow> \<not> freelist_is_full (free_list et)"

text \<open>Reading and writing an event through a pointer to its slab.\<close>

definition event_at :: "'e EventTable \<Rightarrow> nat \<Rightarrow> 'e res" where
  "event_at et p =
     (if p < length (et_memory et) then
        (case slab_event (et_memory et ! p) of None \<Rightarrow> Inl Uninit_read | Some e \<Rightarrow> Inr e)
      else Inl Bad_pointer)"

definition set_event :: "'e EventTable \<Rightarrow> nat \<Rightarrow> 'e \<Rightarrow> 'e EventTable res" where
  "set_event et p e =
     (if p < length (et_memory et)
      then Inr (et\<lparr>et_memory := (et_memory et)[p := (et_memory et ! p)\<lparr>slab_event := Some e\<rparr>]\<rparr>)
      else Inl Bad_pointer)"

section \<open>The free list\<close>

definition fr_rep :: "FreeList \<Rightarrow> nat list \<Rightarrow> bool" where
  "fr_rep fl xs \<longleftrightarrow>
     max_entries fl = EVT_MAX \<and> modulo_max fl = EVT_MAX + 1 \<and> length (fr_buffer fl) = EVT_MAX + 1 \<and>
     fr_count fl = length xs \<and> length xs \<le> EVT_MAX \<and> wrix fl = (rdix fl + length xs) mod (EVT_MAX + 1) \<and>
     ring_rep (fr_buffer fl) (EVT_MAX + 1) (rdix fl) xs \<and> (\<forall>x \<in> set xs. x < EVT_MAX)"

definition fr_items :: "FreeList \<Rightarrow> nat list" where
  "fr_items fl = map (\<lambda>i. the (fr_buffer fl ! ((rdix fl + i) mod (EVT_MAX + 1)))) [0..<fr_count fl]"

definition fr_ok :: "FreeList \<Rightarrow> bool" where
  "fr_ok fl \<longleftrightarrow> fr_rep fl (fr_items fl)"

lemma fr_rep_items: "fr_rep fl xs \<Longrightarrow> fr_items fl = xs"
  by (rule nth_equalityI) (auto simp: fr_items_def fr_rep_def ring_rep_def)

lemma fr_rep_iff: "fr_rep fl xs \<longleftrightarrow> fr_ok fl \<and> fr_items fl = xs"
  using fr_rep_items by (auto simp: fr_ok_def)

lemma freelist_add_rep:
  assumes "fr_rep fl xs" "x < EVT_MAX" "length xs < EVT_MAX"
  shows "\<exists>fl'. freelist_add fl x = Inr fl' \<and> fr_rep fl' (xs @ [x])"
proof -
  let ?n = "EVT_MAX + 1" and ?w = "(rdix fl + length xs) mod (EVT_MAX + 1)"
  from assms(1) have r: "ring_rep (fr_buffer fl) ?n (rdix fl) xs" by (simp add: fr_rep_def)
  have w: "?w < ?n" by simp
  then have u: "u16 (Suc ?w mod ?n) = Suc ?w mod ?n"
    by (intro u16_id, rule_tac less_le_trans [OF mod_less_divisor]) (simp_all add: EVT_MAX_def)
  have "freelist_add fl x = Inr (fl\<lparr>fr_count := Suc (length xs), fr_buffer := (fr_buffer fl)[?w := Some x],
      wrix := Suc ?w mod ?n\<rparr>)"
    using assms w u by (simp add: freelist_add_def freelist_is_full_def fr_rep_def EVT_MAX_def)
  moreover have "ring_rep ((fr_buffer fl)[?w := Some x]) ?n (rdix fl) (xs @ [x])"
    using ring_put [OF r, of x] assms(3) by simp
  ultimately show ?thesis using assms by (auto simp: fr_rep_def mod_Suc_eq)
qed
lemma freelist_get_rep:
  assumes "fr_rep fl (x # xs)"
  shows "\<exists>fl'. freelist_get fl = Inr (x, fl') \<and> fr_rep fl' xs"
proof -
  let ?n = "EVT_MAX + 1"
  from assms have r: "ring_rep (fr_buffer fl) ?n (rdix fl) (x # xs)" "rdix fl < ?n"
    by (simp_all add: fr_rep_def ring_rep_def)
  have u: "u16 (Suc (rdix fl) mod ?n) = Suc (rdix fl) mod ?n"
    by (intro u16_id, rule_tac less_le_trans [OF mod_less_divisor]) (simp_all add: EVT_MAX_def)
  have c: "u16 (65536 + length xs) = length xs"
    using assms by (simp add: u16_def fr_rep_def EVT_MAX_def)
  have "freelist_get fl = Inr (x, fl\<lparr>fr_count := length xs, rdix := Suc (rdix fl) mod ?n\<rparr>)"
    using assms ring_get(1) [OF r(1)] r(2) u c by (simp add: freelist_get_def freelist_is_empty_def fr_rep_def)
  moreover have "((Suc (rdix fl) mod ?n) + length xs) mod ?n = (rdix fl + length (x # xs)) mod ?n"
    by (simp add: mod_add_left_eq)
  ultimately show ?thesis
    using assms ring_get(2) [OF r(1)] by (auto simp: fr_rep_def)
qed

lemma freelist_errors:
  assumes "fr_rep fl xs"
  shows "length xs = EVT_MAX \<Longrightarrow> freelist_add fl x = Inl Assert_fail"
    and "xs = [] \<Longrightarrow> freelist_get fl = Inl Assert_fail"
  using assms by (simp_all add: freelist_add_def freelist_get_def freelist_is_full_def freelist_is_empty_def fr_rep_def)

lemma freelist_init_rep:
  assumes "length mem = EVT_MAX + 1"
  shows "\<exists>fl. freelist_init mem = Inr fl \<and> fr_rep fl [0..<EVT_MAX]"
proof -
  let ?fl = "\<lparr>fr_count = 0, max_entries = EVT_MAX, modulo_max = EVT_MAX + 1, rdix = 0, wrix = 0, fr_buffer = mem\<rparr>"
  have "\<exists>fl. fold_res (\<lambda>i fl. freelist_add fl i) [0..<n] ?fl = Inr fl \<and> fr_rep fl [0..<n]" if "n \<le> EVT_MAX" for n
    using that
  proof (induction n)
    case 0
    with assms show ?case by (simp add: fr_rep_def)
  next
    case (Suc n)
    then obtain fl where "fold_res (\<lambda>i fl. freelist_add fl i) [0..<n] ?fl = Inr fl" "fr_rep fl [0..<n]" by auto
    with freelist_add_rep [of fl "[0..<n]" n] Suc.prems show ?case by (auto simp: fold_res_append fold_res_eta)
  qed
  then show ?thesis by (simp add: freelist_init_def)
qed

section \<open>The pool of entries\<close>

locale slot_pool =
  fixes invar :: "'t \<Rightarrow> bool"
    and used :: "'t \<Rightarrow> nat set"
    and slots :: nat
    and new :: "'t res"
    and alloc :: "'t \<Rightarrow> (nat \<times> 't) res"
    and release :: "'t \<Rightarrow> nat \<Rightarrow> 't res"
    and load :: "'t \<Rightarrow> nat \<Rightarrow> 'e res"
    and store :: "'t \<Rightarrow> nat \<Rightarrow> 'e \<Rightarrow> 't res"
  assumes new_law: "\<exists>t. new = Inr t \<and> invar t \<and> used t = {}"
    and alloc_law: "\<lbrakk> invar t; card (used t) < slots \<rbrakk> \<Longrightarrow>
        \<exists>p t'. alloc t = Inr (p, t') \<and> invar t' \<and> p \<notin> used t \<and> used t' = insert p (used t) \<and>
          (\<forall>q. load t' q = load t q)"
    and alloc_full: "\<lbrakk> invar t; card (used t) = slots \<rbrakk> \<Longrightarrow> alloc t = Inl Assert_fail"
    and release_law: "\<lbrakk> invar t; p \<in> used t \<rbrakk> \<Longrightarrow>
        \<exists>t'. release t p = Inr t' \<and> invar t' \<and> used t' = used t - {p} \<and> (\<forall>q. load t' q = load t q)"
    and store_law: "\<lbrakk> invar t; p \<in> used t \<rbrakk> \<Longrightarrow>
        \<exists>t'. store t p e = Inr t' \<and> invar t' \<and> used t' = used t \<and> load t' p = Inr e \<and>
          (\<forall>q. q \<noteq> p \<longrightarrow> load t' q = load t q)"
    and bound: "invar t \<Longrightarrow> finite (used t) \<and> card (used t) \<le> slots"
begin

lemma alloc_iff: "invar t \<Longrightarrow> (\<exists>r. alloc t = Inr r) \<longleftrightarrow> card (used t) < slots"
  using alloc_law [of t] alloc_full [of t] bound [of t] by (cases "card (used t) = slots") fastforce+

text \<open>An event written to a fresh entry is there, and every entry in use keeps its own.\<close>

lemma alloc_store:
  assumes "invar t" "card (used t) < slots"
  shows "\<exists>p t1 t2. alloc t = Inr (p, t1) \<and> store t1 p e = Inr t2 \<and> invar t2 \<and> p \<notin> used t \<and>
    used t2 = insert p (used t) \<and> load t2 p = Inr e \<and> (\<forall>q \<in> used t. load t2 q = load t q)"
proof -
  from alloc_law [OF assms] obtain p t1 where
    a: "alloc t = Inr (p, t1)" "invar t1" "p \<notin> used t" "used t1 = insert p (used t)" "\<forall>q. load t1 q = load t q"
    by blast
  from store_law [OF a(2), of p e] a(4) obtain t2 where
    "store t1 p e = Inr t2" "invar t2" "used t2 = used t1" "load t2 p = Inr e" "\<forall>q. q \<noteq> p \<longrightarrow> load t2 q = load t1 q"
    by blast
  with a show ?thesis by (intro exI [of _ p] exI [of _ t1] exI [of _ t2]) auto
qed

end

definition et_used :: "'e EventTable \<Rightarrow> nat set" where
  "et_used et = {..<EVT_MAX} - set (fr_items (free_list et))"

definition et_ok :: "'e EventTable \<Rightarrow> bool" where
  "et_ok et \<longleftrightarrow>
     fr_ok (free_list et) \<and> distinct (fr_items (free_list et)) \<and> length (et_memory et) = EVT_MAX + 1 \<and>
     (\<forall>p \<in> et_used et. my_index (et_memory et ! p) = Some p)"

lemma et_ok_free:
  assumes "et_ok et"
  shows "set (fr_items (free_list et)) \<subseteq> {..<EVT_MAX}" "card (et_used et) = EVT_MAX - length (fr_items (free_list et))"
    "length (fr_items (free_list et)) \<le> EVT_MAX"
proof -
  from assms show s: "set (fr_items (free_list et)) \<subseteq> {..<EVT_MAX}" "length (fr_items (free_list et)) \<le> EVT_MAX"
    by (auto simp: et_ok_def fr_ok_def fr_rep_def)
  show "card (et_used et) = EVT_MAX - length (fr_items (free_list et))"
    unfolding et_used_def using assms s(1) by (subst card_Diff_subset) (simp_all add: et_ok_def distinct_card)
qed

lemma event_table_new_ok: "\<exists>et. event_table_new = Inr et \<and> et_ok et \<and> et_used et = {}"
proof -
  from freelist_init_rep [of "replicate (EVT_MAX + 1) None"] obtain fl where
    "freelist_init (replicate (EVT_MAX + 1) None) = Inr fl" "fr_rep fl [0..<EVT_MAX]" by auto
  then show ?thesis
    by (auto simp: event_table_new_def event_table_init_def et_ok_def et_used_def fr_rep_iff)
qed

lemma event_table_get_entry_ok:
  assumes ok: "et_ok et" and "card (et_used et) < EVT_MAX"
  shows "\<exists>p et'. event_table_get_entry et = Inr (p, et') \<and> et_ok et' \<and> p \<notin> et_used et \<and>
    et_used et' = insert p (et_used et) \<and> (\<forall>q. event_at et' q = event_at et q)"
proof -
  from assms et_ok_free(2) [OF ok] obtain p xs where p: "fr_items (free_list et) = p # xs"
    by (cases "fr_items (free_list et)") auto
  with ok have "fr_rep (free_list et) (p # xs)" by (simp add: et_ok_def fr_rep_iff)
  from freelist_get_rep [OF this] obtain fl where fl: "freelist_get (free_list et) = Inr (p, fl)" "fr_rep fl xs"
    by blast
  have lt: "p < EVT_MAX" "p \<notin> set xs" "length (et_memory et) = EVT_MAX + 1"
    using et_ok_free(1) [OF ok] p ok by (auto simp: et_ok_def)
  let ?et = "et\<lparr>free_list := fl, et_memory := (et_memory et)[p := (et_memory et ! p)\<lparr>my_index := Some p\<rparr>]\<rparr>"
  have u: "et_used ?et = insert p (et_used et)" "p \<notin> et_used et" using lt p fl(2) by (auto simp: et_used_def fr_rep_iff)
  then have "et_ok ?et" using ok fl(2) lt p by (auto simp: et_ok_def fr_rep_iff nth_list_update)
  moreover have "event_table_get_entry et = Inr (p, ?et)" using fl(1) lt by (simp add: event_table_get_entry_def)
  moreover have "event_at ?et q = event_at et q" for q using lt by (auto simp: event_at_def nth_list_update)
  ultimately show ?thesis using u by blast
qed

lemma event_table_get_entry_full:
  assumes "et_ok et" "card (et_used et) = EVT_MAX"
  shows "event_table_get_entry et = Inl Assert_fail"
proof -
  from et_ok_free(2,3) [OF assms(1)] assms(2) have "fr_items (free_list et) = []"
    by (cases "fr_items (free_list et)") (auto simp: EVT_MAX_def)
  with assms(1) freelist_errors(2) [of "free_list et" "[]"] show ?thesis
    by (simp add: event_table_get_entry_def et_ok_def fr_ok_def)
qed

lemma event_table_release_entry_ok:
  assumes ok: "et_ok et" and p: "p \<in> et_used et"
  shows "\<exists>et'. event_table_release_entry et p = Inr et' \<and> et_ok et' \<and> et_used et' = et_used et - {p} \<and>
    (\<forall>q. event_at et' q = event_at et q)"
proof -
  from p have lt: "p < EVT_MAX" "p \<notin> set (fr_items (free_list et))" by (auto simp: et_used_def)
  have "0 < card (et_used et)" using p by (auto simp: card_gt_0_iff et_used_def)
  with et_ok_free(2) [OF ok] have "length (fr_items (free_list et)) < EVT_MAX" by simp
  with freelist_add_rep [of "free_list et" "fr_items (free_list et)" p] lt ok obtain fl where
    fl: "freelist_add (free_list et) p = Inr fl" "fr_rep fl (fr_items (free_list et) @ [p])"
    by (auto simp: et_ok_def fr_ok_def)
  have u: "et_used (et\<lparr>free_list := fl\<rparr>) = et_used et - {p}" using fl(2) by (auto simp: et_used_def fr_rep_iff)
  with ok fl(2) lt have "et_ok (et\<lparr>free_list := fl\<rparr>)" by (auto simp: et_ok_def fr_rep_iff)
  moreover have "event_table_release_entry et p = Inr (et\<lparr>free_list := fl\<rparr>)"
    using ok p lt fl(1) by (simp add: event_table_release_entry_def et_ok_def)
  ultimately show ?thesis using u by (auto simp: event_at_def)
qed

lemma set_event_ok:
  assumes "et_ok et" "p \<in> et_used et"
  shows "\<exists>et'. set_event et p e = Inr et' \<and> et_ok et' \<and> et_used et' = et_used et \<and> event_at et' p = Inr e \<and>
    (\<forall>q. q \<noteq> p \<longrightarrow> event_at et' q = event_at et q)"
proof -
  from assms have "p < length (et_memory et)" by (auto simp: et_used_def et_ok_def)
  moreover from this have "et_used (et\<lparr>et_memory := (et_memory et)[p := (et_memory et ! p)\<lparr>slab_event := Some e\<rparr>]\<rparr>) = et_used et"
    by (simp add: et_used_def)
  ultimately show ?thesis using assms(1)
    by (auto simp: set_event_def et_ok_def event_at_def nth_list_update)
qed

interpretation et: slot_pool et_ok et_used EVT_MAX event_table_new event_table_get_entry
  event_table_release_entry event_at set_event
proof (unfold_locales, goal_cases)
  case 1
  show ?case by (rule event_table_new_ok)
next
  case (2 t)
  then show ?case by (rule event_table_get_entry_ok)
next
  case (3 t)
  then show ?case by (rule event_table_get_entry_full)
next
  case (4 t p)
  then show ?case by (rule event_table_release_entry_ok)
next
  case (5 t p e)
  then show ?case by (rule set_event_ok)
next
  case (6 t)
  then show ?case using et_ok_free(2) [of t] by (simp add: et_used_def)
qed

lemma number_in_use: "et_ok et \<Longrightarrow> event_table_number_in_use et = card (et_used et)"
  using et_ok_free(2) [of et]
  by (simp add: event_table_number_in_use_def freelist_size_def et_ok_def fr_ok_def fr_rep_def)

end
