(* ===== verification/Kqueue.thy ===== *)
theory Kqueue
  imports Event_Table Ready_Loop "HOL-Library.Word"
begin

unbundle bit_operations_syntax

text \<open>
  The run loop for systems with kqueue: \<^verbatim>\<open>src/runloop/kqueue_runloop/\<close> \<^verbatim>\<open>runloop.c\<close> and \<^verbatim>\<open>kqueue_helpers.c\<close>.
  Its functions have the names of those of the epoll loop; here they carry the prefix \<open>kq_\<close>.

  A watcher is a slab of the event table, and a pointer to it is the index of the slab. The kernel's
  side is part of the state: \<open>knotes\<close> holds, per identifier and filter, what was registered. A change
  list is processed in order up to the first change that fails; adding an event that is present
  changes its parameters, deleting one that is not fails, a signal is identified by its number and
  not by an address. Descriptors that are added are open. Which active events a waiting call reports
  is an input of the loop; it reports only events that are enabled, and disables or removes those
  registered for one delivery.

  The code that runs in the loop is the parameter \<open>call\<close>, which acts on the loop and a state of its
  own. An argument of a callback is one that a client passed (\<open>Arg\<close>) or a watcher (\<open>Event\<close>). The fields
  \<open>type\<close>, \<open>context\<close> and \<open>free\<close> of a watcher are only written and left out.
\<close>

section \<open>The kernel\<close>

datatype kident = Fd int | Ptr nat

datatype kfilter = EVFILT_READ | EVFILT_WRITE | EVFILT_TIMER | EVFILT_SIGNAL | EVFILT_USER

record kevent =
  ke_ident :: kident
  ke_filter :: kfilter
  ke_flags :: "16 word"
  ke_fflags :: "32 word"
  ke_data :: int
  ke_udata :: "nat option"

definition EV_ADD :: "16 word" where "EV_ADD = 0x0001"

definition EV_DELETE :: "16 word" where "EV_DELETE = 0x0002"

definition EV_ENABLE :: "16 word" where "EV_ENABLE = 0x0004"

definition EV_DISABLE :: "16 word" where "EV_DISABLE = 0x0008"

definition EV_ONESHOT :: "16 word" where "EV_ONESHOT = 0x0010"

definition EV_RECEIPT :: "16 word" where "EV_RECEIPT = 0x0040"

definition EV_DISPATCH :: "16 word" where "EV_DISPATCH = 0x0080"

definition NOTE_TRIGGER :: "32 word" where "NOTE_TRIGGER = 0x01000000"

lemmas ev_flags = EV_ADD_def EV_DELETE_def EV_ENABLE_def EV_DISABLE_def EV_ONESHOT_def EV_RECEIPT_def
  EV_DISPATCH_def NOTE_TRIGGER_def

record knote =
  kn_enabled :: bool
  kn_dispatch :: bool
  kn_oneshot :: bool
  kn_data :: int
  kn_udata :: "nat option"
  kn_triggered :: bool

type_synonym knotes = "kident \<times> kfilter \<rightharpoonup> knote"

definition EV_SET :: "kident \<Rightarrow> kfilter \<Rightarrow> 16 word \<Rightarrow> 32 word \<Rightarrow> int \<Rightarrow> nat option \<Rightarrow> kevent" where
  "EV_SET i f fl ff d u =
     \<lparr>ke_ident = i, ke_filter = f, ke_flags = fl, ke_fflags = ff, ke_data = d, ke_udata = u\<rparr>"

definition kevent_change :: "knotes \<Rightarrow> kevent \<Rightarrow> knotes option" where
  "kevent_change k c =
     (let key = (ke_ident c, ke_filter c); has = (\<lambda>f. ke_flags c AND f \<noteq> 0) in
      if has EV_DELETE then (if k key = None then None else Some (k(key := None)))
      else if has EV_ADD then
        (if (case ke_ident c of Ptr _ \<Rightarrow> ke_filter c = EVFILT_SIGNAL | Fd _ \<Rightarrow> False) then None
         else Some (k(key \<mapsto>
           \<lparr>kn_enabled = (\<not> has EV_DISABLE), kn_dispatch = has EV_DISPATCH, kn_oneshot = has EV_ONESHOT,
            kn_data = ke_data c, kn_udata = ke_udata c,
            kn_triggered = (ke_fflags c AND NOTE_TRIGGER \<noteq> 0 \<or>
              (case k key of None \<Rightarrow> False | Some kn \<Rightarrow> kn_triggered kn))\<rparr>)))
      else None)"

fun kevent_changes :: "knotes \<Rightarrow> kevent list \<Rightarrow> knotes" where
  "kevent_changes k [] = k"
| "kevent_changes k (c # cs) =
     (case kevent_change k c of None \<Rightarrow> k | Some k1 \<Rightarrow> kevent_changes k1 cs)"

text \<open>What a waiting call reports of the events that are picked, and what it leaves registered.\<close>

definition kn_active :: "kident \<times> kfilter \<Rightarrow> knote \<Rightarrow> bool" where
  "kn_active key kn \<longleftrightarrow> kn_enabled kn \<and> (snd key = EVFILT_USER \<longrightarrow> kn_triggered kn)"

fun kevent_wait :: "knotes \<Rightarrow> (kident \<times> kfilter) list \<Rightarrow> ((kident \<times> kfilter) \<times> nat option) list \<times> knotes" where
  "kevent_wait k [] = ([], k)"
| "kevent_wait k (key # keys) =
     (case k key of
        None \<Rightarrow> kevent_wait k keys
      | Some kn \<Rightarrow>
          if kn_active key kn then
            (let k1 = (if kn_oneshot kn then k(key := None)
                       else if kn_dispatch kn then k(key \<mapsto> kn\<lparr>kn_enabled := False\<rparr>) else k)
             in case kevent_wait k1 keys of (evs, k2) \<Rightarrow> ((key, kn_udata kn) # evs, k2))
          else kevent_wait k keys)"

section \<open>The run loop\<close>

datatype 'a post_arg = Arg 'a | Event nat

record ('c, 'a) kTimer =
  kt_interval :: int
  kt_repeating :: bool
  kt_postable :: "'c option"
  kt_arg :: "'a post_arg option"

record ('c, 'a) kListener =
  kl_fd :: int
  kl_postable :: "'c option"
  kl_arg :: "'a post_arg option"

record ('c, 'a) kStream =
  ks_fd :: int
  ks_mask :: "64 word"
  ks_read_cb :: "'c option"
  ks_read_arg :: "'a post_arg option"
  ks_write_cb :: "'c option"
  ks_write_arg :: "'a post_arg option"

text \<open>The fields of a user event have no value before it is armed.\<close>

record ('c, 'a) kUevent =
  ku_postable :: "'c option option"
  ku_arg :: "'a post_arg option option"

datatype ('c, 'a) kvariant =
    Timer_ev "('c, 'a) kTimer"
  | Listener_ev "('c, 'a) kListener"
  | Stream_ev "('c, 'a) kStream"
  | Uevent_ev "('c, 'a) kUevent"

datatype khandler = Timer_handler | Listener_handler | Stream_handler | Uevent_handler

record ('c, 'a) RunloopEvent =
  ev_handler :: "khandler option"
  ev_variant :: "('c, 'a) kvariant"

record ('c, 'a) kq_loop =
  kqueue_fd :: int
  kq_closed :: bool
  kq_executing :: bool
  kq_table :: "('c, 'a) RunloopEvent EventTable"
  change_max :: int
  change_count :: int
  events_max :: int
  events_count :: int
  kq_ready :: "('c, 'a post_arg) Functor FunctorList"
  knotes :: knotes
  kq_closed_fds :: "int list"

definition runloop_MAX_EVENTS :: int where "runloop_MAX_EVENTS = runloop_MAX_FDS * 2"

text \<open>The descriptor that \<open>kqueue\<close> returns is an argument.\<close>

definition kq_runloop_init :: "int \<Rightarrow> ('c, 'a) kq_loop res" where
  "kq_runloop_init fd =
     rbind (c_assert (fd \<noteq> -1)) (\<lambda>_.
     rbind event_table_new (\<lambda>et.
     rbind (functor_list_new runloop_READY_LIST_MAX) (\<lambda>lst.
     Inr \<lparr>kqueue_fd = fd, kq_closed = False, kq_executing = False, kq_table = et,
          change_max = runloop_MAX_EVENTS, change_count = 0, events_max = runloop_MAX_EVENTS, events_count = 0,
          kq_ready = lst, knotes = Map.empty, kq_closed_fds = []\<rparr>)))"

definition kq_runloop_new :: "int \<Rightarrow> ('c, 'a) kq_loop res" where
  "kq_runloop_new fd = kq_runloop_init fd"

text \<open>Closing a descriptor removes its events.\<close>

definition kq_close_fd :: "('c, 'a) kq_loop \<Rightarrow> int \<Rightarrow> ('c, 'a) kq_loop" where
  "kq_close_fd rl fd =
     rl\<lparr>knotes := (\<lambda>key. if fst key = Fd fd then None else knotes rl key), kq_closed_fds := kq_closed_fds rl @ [fd]\<rparr>"

definition kq_runloop_close :: "int \<Rightarrow> ('c, 'a) kq_loop \<Rightarrow> ('c, 'a) kq_loop res" where
  "kq_runloop_close status athis =
     rbind (c_assert (status \<noteq> -1)) (\<lambda>_. Inr (kq_close_fd (athis\<lparr>kq_closed := True\<rparr>) (kqueue_fd athis)))"

definition kq_runloop_free :: "int \<Rightarrow> ('c, 'a) kq_loop \<Rightarrow> unit res" where
  "kq_runloop_free status athis =
     rbind (if \<not> kq_closed athis then kq_runloop_close status athis else Inr athis) (\<lambda>_. Inr ())"

definition kq_kevent :: "('c, 'a) kq_loop \<Rightarrow> kevent list \<Rightarrow> ('c, 'a) kq_loop" where
  "kq_kevent rl cs = rl\<lparr>knotes := kevent_changes (knotes rl) cs\<rparr>"

definition kq_runloop_register_timer :: "('c, 'a) kq_loop \<Rightarrow> nat \<Rightarrow> bool \<Rightarrow> int \<Rightarrow> ('c, 'a) kq_loop" where
  "kq_runloop_register_timer rl ident one_shot milli_secs =
     kq_kevent rl [EV_SET (Ptr ident) EVFILT_TIMER (EV_ADD OR EV_ENABLE OR EV_RECEIPT OR (if one_shot then EV_ONESHOT else 0))
       0 milli_secs None]"

definition kq_runloop_cancel_timer :: "('c, 'a) kq_loop \<Rightarrow> nat \<Rightarrow> ('c, 'a) kq_loop" where
  "kq_runloop_cancel_timer rl ident = kq_kevent rl [EV_SET (Ptr ident) EVFILT_TIMER (EV_DELETE OR EV_RECEIPT) 0 0 None]"

definition kq_runloop_register :: "('c, 'a) kq_loop \<Rightarrow> int \<Rightarrow> 32 word \<Rightarrow> 'w \<Rightarrow> int \<times> ('c, 'a) kq_loop" where
  "kq_runloop_register athis fd interest wref = (0, athis)"

definition runloop_get_change_table_size :: "('c, 'a) kq_loop \<Rightarrow> int" where
  "runloop_get_change_table_size athis = change_count athis"

definition runloop_change_at :: "('c, 'a) kq_loop \<Rightarrow> int \<Rightarrow> int res" where
  "runloop_change_at athis index =
     rbind (c_assert (index \<ge> 0 \<and> index < change_max athis)) (\<lambda>_. Inr index)"

definition runloop_get_fresh_event_table :: "('c, 'a) kq_loop \<Rightarrow> ('c, 'a) kq_loop" where
  "runloop_get_fresh_event_table athis = athis\<lparr>events_count := 0\<rparr>"

definition runloop_get_max_events :: "('c, 'a) kq_loop \<Rightarrow> int" where
  "runloop_get_max_events athis = events_max athis"

definition kq_runloop_post ::
  "('c, 'a) kq_loop \<Rightarrow> 'c option \<Rightarrow> 'a post_arg option \<Rightarrow> ('c, 'a) kq_loop res" where
  "kq_runloop_post athis cb a =
     rbind (c_assert (cb \<noteq> None)) (\<lambda>_.
     rbind (c_assert (a \<noteq> None)) (\<lambda>_.
     rbind (functor_list_add (kq_ready athis) \<lparr>fn = cb, fn_arg = a\<rparr>) (\<lambda>lst.
     Inr (athis\<lparr>kq_ready := lst\<rparr>))))"

section \<open>Access to watchers\<close>

definition ev_at :: "('c, 'a) kq_loop \<Rightarrow> nat \<Rightarrow> ('c, 'a) RunloopEvent res" where
  "ev_at rl p = event_at (kq_table rl) p"

definition put_ev :: "('c, 'a) kq_loop \<Rightarrow> nat \<Rightarrow> ('c, 'a) RunloopEvent \<Rightarrow> ('c, 'a) kq_loop res" where
  "put_ev rl p e = rbind (set_event (kq_table rl) p e) (\<lambda>et. Inr (rl\<lparr>kq_table := et\<rparr>))"

definition timer_at :: "('c, 'a) kq_loop \<Rightarrow> nat \<Rightarrow> ('c, 'a) kTimer res" where
  "timer_at rl p = rbind (ev_at rl p) (\<lambda>e. case ev_variant e of Timer_ev t \<Rightarrow> Inr t | _ \<Rightarrow> Inl Bad_pointer)"

definition listener_at :: "('c, 'a) kq_loop \<Rightarrow> nat \<Rightarrow> ('c, 'a) kListener res" where
  "listener_at rl p = rbind (ev_at rl p) (\<lambda>e. case ev_variant e of Listener_ev t \<Rightarrow> Inr t | _ \<Rightarrow> Inl Bad_pointer)"

definition stream_at :: "('c, 'a) kq_loop \<Rightarrow> nat \<Rightarrow> ('c, 'a) kStream res" where
  "stream_at rl p = rbind (ev_at rl p) (\<lambda>e. case ev_variant e of Stream_ev t \<Rightarrow> Inr t | _ \<Rightarrow> Inl Bad_pointer)"

definition uevent_at :: "('c, 'a) kq_loop \<Rightarrow> nat \<Rightarrow> ('c, 'a) kUevent res" where
  "uevent_at rl p = rbind (ev_at rl p) (\<lambda>e. case ev_variant e of Uevent_ev t \<Rightarrow> Inr t | _ \<Rightarrow> Inl Bad_pointer)"

text \<open>Changing the fields of a watcher of a given kind; the handler stays.\<close>

definition put_variant :: "('c, 'a) kq_loop \<Rightarrow> nat \<Rightarrow> ('c, 'a) kvariant \<Rightarrow> ('c, 'a) kq_loop res" where
  "put_variant rl p v = rbind (ev_at rl p) (\<lambda>e. put_ev rl p (e\<lparr>ev_variant := v\<rparr>))"

definition new_ev :: "('c, 'a) kq_loop \<Rightarrow> ('c, 'a) RunloopEvent \<Rightarrow> (nat \<times> ('c, 'a) kq_loop) res" where
  "new_ev rl e =
     rbind (event_table_get_entry (kq_table rl)) (\<lambda>(p, et).
     rbind (put_ev (rl\<lparr>kq_table := et\<rparr>) p e) (\<lambda>rl1. Inr (p, rl1)))"

definition release_ev :: "('c, 'a) kq_loop \<Rightarrow> nat \<Rightarrow> ('c, 'a) kq_loop res" where
  "release_ev rl p = rbind (event_table_release_entry (kq_table rl) p) (\<lambda>et. Inr (rl\<lparr>kq_table := et\<rparr>))"

section \<open>Changes to the kqueue\<close>

text \<open>
  Every helper returns 0 whatever \<open>kevent\<close> returns, so that the assertions of the callers on that
  value always hold; the value is left out. Timers, signals and user events are identified by the
  address of the watcher, streams and listeners by their descriptor.
\<close>

definition kqh_readerwriter_register :: "('c, 'a) kq_loop \<Rightarrow> nat \<Rightarrow> ('c, 'a) kq_loop res" where
  "kqh_readerwriter_register rl p = rbind (stream_at rl p) (\<lambda>s. let i = Fd (ks_fd s) in
     Inr (kq_kevent rl [EV_SET i EVFILT_READ (EV_ADD OR EV_ENABLE OR EV_DISPATCH OR EV_RECEIPT) 0 0 (Some p),
       EV_SET i EVFILT_WRITE (EV_ADD OR EV_ENABLE OR EV_DISPATCH OR EV_RECEIPT) 0 0 (Some p)]))"

definition kqh_readerwriter_cancel :: "('c, 'a) kq_loop \<Rightarrow> nat \<Rightarrow> ('c, 'a) kq_loop res" where
  "kqh_readerwriter_cancel rl p = rbind (stream_at rl p) (\<lambda>s. let i = Fd (ks_fd s) in
     Inr (kq_kevent rl [EV_SET i EVFILT_READ (EV_DELETE OR EV_RECEIPT) 0 0 None,
       EV_SET i EVFILT_WRITE (EV_DELETE OR EV_RECEIPT) 0 0 None]))"

definition kqh_readerwriter_pause_reader :: "('c, 'a) kq_loop \<Rightarrow> nat \<Rightarrow> ('c, 'a) kq_loop res" where
  "kqh_readerwriter_pause_reader rl p = rbind (stream_at rl p) (\<lambda>s. let i = Fd (ks_fd s) in
     Inr (kq_kevent rl [EV_SET i EVFILT_READ (EV_ADD OR EV_DISABLE OR EV_RECEIPT) 0 0 None,
       EV_SET i EVFILT_WRITE (EV_ADD OR EV_ENABLE OR EV_RECEIPT) 0 0 None]))"

definition kqh_readerwriter_pause :: "('c, 'a) kq_loop \<Rightarrow> nat \<Rightarrow> ('c, 'a) kq_loop res" where
  "kqh_readerwriter_pause rl p = rbind (stream_at rl p) (\<lambda>s. let i = Fd (ks_fd s) in
     Inr (kq_kevent rl [EV_SET i EVFILT_READ (EV_ADD OR EV_ENABLE OR EV_RECEIPT) 0 0 None,
       EV_SET i EVFILT_WRITE (EV_ADD OR EV_DISABLE OR EV_RECEIPT) 0 0 None]))"

definition kqh_writer_register :: "('c, 'a) kq_loop \<Rightarrow> nat \<Rightarrow> ('c, 'a) kq_loop res" where
  "kqh_writer_register rl p = rbind (stream_at rl p) (\<lambda>s. let i = Fd (ks_fd s) in
     Inr (kq_kevent rl [EV_SET i EVFILT_WRITE (EV_ADD OR EV_ENABLE OR EV_DISPATCH OR EV_RECEIPT) 0 0 (Some p)]))"

definition kqh_writer_cancel :: "('c, 'a) kq_loop \<Rightarrow> nat \<Rightarrow> ('c, 'a) kq_loop res" where
  "kqh_writer_cancel rl p = rbind (stream_at rl p) (\<lambda>s. let i = Fd (ks_fd s) in
     Inr (kq_kevent rl [EV_SET i EVFILT_WRITE (EV_DELETE OR EV_RECEIPT) 0 0 None]))"

definition kqh_writer_pause :: "('c, 'a) kq_loop \<Rightarrow> nat \<Rightarrow> ('c, 'a) kq_loop res" where
  "kqh_writer_pause rl p = rbind (stream_at rl p) (\<lambda>s. let i = Fd (ks_fd s) in
     Inr (kq_kevent rl [EV_SET i EVFILT_WRITE (EV_ADD OR EV_DISABLE OR EV_RECEIPT) 0 0 None]))"

definition kqh_reader_register :: "('c, 'a) kq_loop \<Rightarrow> nat \<Rightarrow> ('c, 'a) kq_loop res" where
  "kqh_reader_register rl p = rbind (stream_at rl p) (\<lambda>s. let i = Fd (ks_fd s) in
     Inr (kq_kevent rl [EV_SET i EVFILT_READ (EV_ADD OR EV_ENABLE OR EV_RECEIPT) 0 0 (Some p)]))"

definition kqh_reader_cancel :: "('c, 'a) kq_loop \<Rightarrow> nat \<Rightarrow> ('c, 'a) kq_loop res" where
  "kqh_reader_cancel rl p = rbind (stream_at rl p) (\<lambda>s. let i = Fd (ks_fd s) in
     Inr (kq_kevent rl [EV_SET i EVFILT_READ (EV_DELETE OR EV_RECEIPT) 0 0 None]))"

definition kqh_reader_pause :: "('c, 'a) kq_loop \<Rightarrow> nat \<Rightarrow> ('c, 'a) kq_loop res" where
  "kqh_reader_pause rl p = rbind (stream_at rl p) (\<lambda>s. let i = Fd (ks_fd s) in
     Inr (kq_kevent rl [EV_SET i EVFILT_READ (EV_ADD OR EV_DISABLE OR EV_RECEIPT) 0 0 None]))"

definition kqh_signal_register :: "('c, 'a) kq_loop \<Rightarrow> nat \<Rightarrow> ('c, 'a) kq_loop" where
  "kqh_signal_register rl p = kq_kevent rl [EV_SET (Ptr p) EVFILT_SIGNAL (EV_ADD OR EV_ENABLE OR EV_RECEIPT) 0 0 (Some p)]"

definition kqh_signal_cancel :: "('c, 'a) kq_loop \<Rightarrow> nat \<Rightarrow> ('c, 'a) kq_loop" where
  "kqh_signal_cancel rl p = kq_kevent rl [EV_SET (Ptr p) EVFILT_SIGNAL (EV_DELETE OR EV_RECEIPT) 0 0 None]"

definition kqh_signal_pause :: "('c, 'a) kq_loop \<Rightarrow> nat \<Rightarrow> ('c, 'a) kq_loop" where
  "kqh_signal_pause rl p = kq_kevent rl [EV_SET (Ptr p) EVFILT_SIGNAL (EV_ADD OR EV_DISABLE OR EV_RECEIPT) 0 0 None]"

definition kqh_timer_register :: "('c, 'a) kq_loop \<Rightarrow> nat \<Rightarrow> bool \<Rightarrow> int \<Rightarrow> ('c, 'a) kq_loop" where
  "kqh_timer_register rl p one_shot milli_secs =
     kq_kevent rl [EV_SET (Ptr p) EVFILT_TIMER (EV_ADD OR EV_ENABLE OR EV_RECEIPT OR (if one_shot then EV_ONESHOT else 0))
       0 milli_secs (Some p)]"

definition kqh_timer_cancel :: "('c, 'a) kq_loop \<Rightarrow> nat \<Rightarrow> ('c, 'a) kq_loop" where
  "kqh_timer_cancel rl p = kq_kevent rl [EV_SET (Ptr p) EVFILT_TIMER (EV_DELETE OR EV_RECEIPT) 0 0 None]"

definition kqh_timer_pause :: "('c, 'a) kq_loop \<Rightarrow> nat \<Rightarrow> ('c, 'a) kq_loop" where
  "kqh_timer_pause rl p = kq_kevent rl [EV_SET (Ptr p) EVFILT_TIMER (EV_ADD OR EV_DISABLE OR EV_RECEIPT) 0 0 None]"

definition kqh_user_event_register :: "('c, 'a) kq_loop \<Rightarrow> nat \<Rightarrow> ('c, 'a) kq_loop" where
  "kqh_user_event_register rl p = kq_kevent rl [EV_SET (Ptr p) EVFILT_USER (EV_ADD OR EV_ENABLE OR EV_RECEIPT) 0 0 (Some p)]"

definition kqh_user_event_trigger :: "('c, 'a) kq_loop \<Rightarrow> nat \<Rightarrow> int \<Rightarrow> ('c, 'a) kq_loop" where
  "kqh_user_event_trigger rl p d =
     kq_kevent rl [EV_SET (Ptr p) EVFILT_USER (EV_ADD OR EV_ENABLE OR EV_RECEIPT) NOTE_TRIGGER d (Some p)]"

definition kqh_user_event_cancel :: "('c, 'a) kq_loop \<Rightarrow> nat \<Rightarrow> ('c, 'a) kq_loop" where
  "kqh_user_event_cancel rl p = kq_kevent rl [EV_SET (Ptr p) EVFILT_TIMER (EV_DELETE OR EV_RECEIPT) 0 0 None]"

definition kqh_user_event_pause :: "('c, 'a) kq_loop \<Rightarrow> nat \<Rightarrow> ('c, 'a) kq_loop" where
  "kqh_user_event_pause rl p = kq_kevent rl [EV_SET (Ptr p) EVFILT_TIMER (EV_ADD OR EV_DISABLE OR EV_RECEIPT) 0 0 None]"

definition kqh_listener_register :: "('c, 'a) kq_loop \<Rightarrow> nat \<Rightarrow> ('c, 'a) kq_loop res" where
  "kqh_listener_register rl p = rbind (listener_at rl p) (\<lambda>l. let i = Fd (kl_fd l) in
     Inr (kq_kevent rl [EV_SET i EVFILT_READ (EV_ADD OR EV_ENABLE OR EV_RECEIPT OR EV_DISPATCH) 0 0 (Some p)]))"

definition kqh_listener_cancel :: "('c, 'a) kq_loop \<Rightarrow> nat \<Rightarrow> ('c, 'a) kq_loop res" where
  "kqh_listener_cancel rl p = rbind (listener_at rl p) (\<lambda>l. let i = Fd (kl_fd l) in
     Inr (kq_kevent rl [EV_SET i EVFILT_TIMER (EV_DELETE OR EV_RECEIPT) 0 0 None]))"

definition kqh_listener_pause :: "('c, 'a) kq_loop \<Rightarrow> nat \<Rightarrow> ('c, 'a) kq_loop res" where
  "kqh_listener_pause rl p = rbind (listener_at rl p) (\<lambda>l. let i = Fd (kl_fd l) in
     Inr (kq_kevent rl [EV_SET i EVFILT_READ (EV_ADD OR EV_DISABLE OR EV_RECEIPT) 0 0 None]))"

end
