(* ===== verification/Kqueue_Watchers.thy ===== *)
theory Kqueue_Watchers
  imports Kqueue
begin

unbundle bit_operations_syntax

text \<open>
  The watchers of the kqueue run loop and the loop itself: \<^verbatim>\<open>src/runloop/kqueue_runloop/\<close> \<^verbatim>\<open>stream.c\<close>,
  \<^verbatim>\<open>timer.c\<close>, \<^verbatim>\<open>listener.c\<close>, \<^verbatim>\<open>user_event.c\<close> and \<open>runloop_run\<close> of \<^verbatim>\<open>runloop.c\<close>, in the configuration that is
  built (user events without pipes). A handler calls the callback of its watcher directly.
\<close>

type_synonym ('c, 'a, 's) kq_state = "('c, 'a) kq_loop \<times> 's"
type_synonym ('c, 'a, 's) kq_call =
  "'c \<Rightarrow> 'a post_arg option \<Rightarrow> ('c, 'a, 's) kq_state \<Rightarrow> ('c, 'a, 's) kq_state res"

definition set_given :: "'v option \<Rightarrow> 'v option \<Rightarrow> 'v option" where
  "set_given new old = (case new of None \<Rightarrow> old | Some v \<Rightarrow> Some v)"

section \<open>Streams\<close>

definition kq_stream_handler ::
  "('c, 'a, 's) kq_call \<Rightarrow> nat \<Rightarrow> kfilter \<Rightarrow> ('c, 'a, 's) kq_state \<Rightarrow> ('c, 'a, 's) kq_state res" where
  "kq_stream_handler call p f st =
     rbind (stream_at (fst st) p) (\<lambda>w.
     rbind (case f of
              EVFILT_READ \<Rightarrow> (case ks_read_cb w of None \<Rightarrow> Inr st | Some cb \<Rightarrow> call cb (ks_read_arg w) st)
            | EVFILT_WRITE \<Rightarrow> (case ks_write_cb w of None \<Rightarrow> Inr st | Some cb \<Rightarrow> call cb (ks_write_arg w) st)
            | _ \<Rightarrow> Inl Assert_fail) (\<lambda>st1.
     rbind (stream_at (fst st1) p) (\<lambda>w1.
     rbind (case ks_read_cb w1 of
              None \<Rightarrow> Inr st1
            | Some cb \<Rightarrow> if ks_mask w1 \<noteq> 0 then call cb (ks_read_arg w1) st1 else Inr st1) (\<lambda>st2.
     rbind (stream_at (fst st2) p) (\<lambda>w2.
     case ks_write_cb w2 of
       None \<Rightarrow> Inr st2
     | Some cb \<Rightarrow> if ks_mask w2 \<noteq> 0 then call cb (ks_write_arg w2) st2 else Inr st2)))))"

definition kq_stream_init :: "int \<Rightarrow> ('c, 'a) RunloopEvent" where
  "kq_stream_init fd =
     \<lparr>ev_handler = Some Stream_handler,
      ev_variant = Stream_ev \<lparr>ks_fd = fd, ks_mask = 0, ks_read_cb = None, ks_read_arg = None,
                              ks_write_cb = None, ks_write_arg = None\<rparr>\<rparr>"

definition kq_stream_deinit :: "('c, 'a) kq_loop \<Rightarrow> nat \<Rightarrow> ('c, 'a) kq_loop res" where
  "kq_stream_deinit rl p = put_ev rl p ((kq_stream_init 0)\<lparr>ev_handler := None\<rparr>)"

definition kq_stream_new :: "('c, 'a) kq_loop \<Rightarrow> int \<Rightarrow> (nat \<times> ('c, 'a) kq_loop) res" where
  "kq_stream_new rl fd = new_ev rl (kq_stream_init fd)"

definition kq_stream_register :: "('c, 'a) kq_loop \<Rightarrow> nat \<Rightarrow> ('c, 'a) kq_loop res" where
  "kq_stream_register rl p = kqh_readerwriter_register rl p"

definition kq_stream_deregister :: "('c, 'a) kq_loop \<Rightarrow> nat \<Rightarrow> ('c, 'a) kq_loop res" where
  "kq_stream_deregister rl p = kqh_readerwriter_cancel rl p"

definition kq_stream_free :: "('c, 'a) kq_loop \<Rightarrow> nat \<Rightarrow> ('c, 'a) kq_loop res" where
  "kq_stream_free rl p =
     rbind (kq_stream_deregister rl p) (\<lambda>rl1.
     rbind (stream_at rl1 p) (\<lambda>w. release_ev (kq_close_fd rl1 (ks_fd w)) p))"

definition kq_stream_arm_both ::
  "('c, 'a) kq_loop \<Rightarrow> nat \<Rightarrow> 'c option \<Rightarrow> 'a post_arg option \<Rightarrow> 'c option \<Rightarrow> 'a post_arg option \<Rightarrow>
   ('c, 'a) kq_loop res" where
  "kq_stream_arm_both rl p rcb rarg wcb warg =
     rbind (stream_at rl p) (\<lambda>w.
     rbind (put_variant rl p (Stream_ev (w\<lparr>ks_read_cb := set_given rcb (ks_read_cb w),
       ks_read_arg := set_given rarg (ks_read_arg w), ks_write_cb := set_given wcb (ks_write_cb w),
       ks_write_arg := set_given warg (ks_write_arg w)\<rparr>))) (\<lambda>rl1. kqh_readerwriter_register rl1 p))"

definition kq_stream_arm_read ::
  "('c, 'a) kq_loop \<Rightarrow> nat \<Rightarrow> 'c option \<Rightarrow> 'a post_arg option \<Rightarrow> ('c, 'a) kq_loop res" where
  "kq_stream_arm_read rl p cb a =
     rbind (stream_at rl p) (\<lambda>w.
     rbind (put_variant rl p (Stream_ev (w\<lparr>ks_read_cb := set_given cb (ks_read_cb w),
       ks_read_arg := set_given a (ks_read_arg w)\<rparr>))) (\<lambda>rl1. kqh_reader_register rl1 p))"

definition kq_stream_arm_write ::
  "('c, 'a) kq_loop \<Rightarrow> nat \<Rightarrow> 'c option \<Rightarrow> 'a post_arg option \<Rightarrow> ('c, 'a) kq_loop res" where
  "kq_stream_arm_write rl p cb a =
     rbind (stream_at rl p) (\<lambda>w.
     rbind (put_variant rl p (Stream_ev (w\<lparr>ks_write_cb := set_given cb (ks_write_cb w),
       ks_write_arg := set_given a (ks_write_arg w)\<rparr>))) (\<lambda>rl1. kqh_writer_register rl1 p))"

definition kq_stream_disarm_read :: "('c, 'a) kq_loop \<Rightarrow> nat \<Rightarrow> ('c, 'a) kq_loop res" where
  "kq_stream_disarm_read rl p =
     rbind (stream_at rl p) (\<lambda>w.
     rbind (put_variant rl p (Stream_ev (w\<lparr>ks_read_cb := None, ks_read_arg := None\<rparr>))) (\<lambda>rl1.
     kqh_reader_pause rl1 p))"

definition kq_stream_disarm_write :: "('c, 'a) kq_loop \<Rightarrow> nat \<Rightarrow> ('c, 'a) kq_loop res" where
  "kq_stream_disarm_write rl p =
     rbind (stream_at rl p) (\<lambda>w.
     rbind (put_variant rl p (Stream_ev (w\<lparr>ks_mask := 0, ks_write_cb := None, ks_write_arg := None\<rparr>))) (\<lambda>rl1.
     kqh_writer_pause rl1 p))"

definition kq_stream_get_fd :: "('c, 'a) kq_loop \<Rightarrow> nat \<Rightarrow> int res" where
  "kq_stream_get_fd rl p = rbind (stream_at rl p) (\<lambda>w. Inr (ks_fd w))"

section \<open>Timers\<close>

definition kq_timer_init :: "('c, 'a) RunloopEvent" where
  "kq_timer_init =
     \<lparr>ev_handler = Some Timer_handler,
      ev_variant = Timer_ev \<lparr>kt_interval = 0, kt_repeating = False, kt_postable = None, kt_arg = None\<rparr>\<rparr>"

definition kq_timer_new :: "('c, 'a) kq_loop \<Rightarrow> (nat \<times> ('c, 'a) kq_loop) res" where
  "kq_timer_new rl = new_ev rl kq_timer_init"

definition kq_timer_free :: "('c, 'a) kq_loop \<Rightarrow> nat \<Rightarrow> ('c, 'a) kq_loop res" where
  "kq_timer_free rl p = release_ev rl p"

definition kq_timer_register ::
  "('c, 'a) kq_loop \<Rightarrow> nat \<Rightarrow> 'c option \<Rightarrow> 'a post_arg option \<Rightarrow> int \<Rightarrow> bool \<Rightarrow> ('c, 'a) kq_loop res" where
  "kq_timer_register rl p cb ctx interval_ms repeating =
     rbind (timer_at rl p) (\<lambda>_.
     rbind (put_ev rl p \<lparr>ev_handler = Some Timer_handler,
       ev_variant = Timer_ev \<lparr>kt_interval = interval_ms, kt_repeating = repeating, kt_postable = cb, kt_arg = ctx\<rparr>\<rparr>)
     (\<lambda>rl1. Inr (kqh_timer_register rl1 p (\<not> repeating) interval_ms)))"

definition kq_timer_update :: "('c, 'a) kq_loop \<Rightarrow> nat \<Rightarrow> int \<Rightarrow> bool \<Rightarrow> ('c, 'a) kq_loop" where
  "kq_timer_update rl p interval_ms repeating = kqh_timer_register rl p (\<not> repeating) interval_ms"

definition kq_timer_disarm :: "('c, 'a) kq_loop \<Rightarrow> nat \<Rightarrow> ('c, 'a) kq_loop" where
  "kq_timer_disarm rl p = kqh_timer_pause rl p"

definition kq_timer_rearm :: "('c, 'a) kq_loop \<Rightarrow> nat \<Rightarrow> ('c, 'a) kq_loop res" where
  "kq_timer_rearm rl p =
     rbind (timer_at rl p) (\<lambda>t. Inr (kqh_timer_register rl p (\<not> kt_repeating t) (kt_interval t)))"

definition kq_timer_deregister :: "('c, 'a) kq_loop \<Rightarrow> nat \<Rightarrow> ('c, 'a) kq_loop" where
  "kq_timer_deregister rl p = kqh_timer_cancel rl p"

definition kq_timer_handler ::
  "('c, 'a, 's) kq_call \<Rightarrow> nat \<Rightarrow> ('c, 'a, 's) kq_state \<Rightarrow> ('c, 'a, 's) kq_state res" where
  "kq_timer_handler call p st =
     rbind (timer_at (fst st) p) (\<lambda>t.
     let rl1 = (if \<not> kt_repeating t then kq_timer_deregister (fst st) p else fst st) in
     case kt_postable t of None \<Rightarrow> Inl Assert_fail | Some cb \<Rightarrow> call cb (kt_arg t) (rl1, snd st))"

definition kq_timer_set ::
  "('c, 'a) kq_loop \<Rightarrow> 'c option \<Rightarrow> 'a post_arg option \<Rightarrow> int \<Rightarrow> bool \<Rightarrow> (nat \<times> ('c, 'a) kq_loop) res" where
  "kq_timer_set rl cb ctx interval_ms repeating =
     rbind (kq_timer_new rl) (\<lambda>(p, rl1).
     rbind (kq_timer_register rl1 p cb ctx interval_ms repeating) (\<lambda>rl2. Inr (p, rl2)))"

definition kq_timer_clear :: "('c, 'a) kq_loop \<Rightarrow> nat \<Rightarrow> ('c, 'a) kq_loop res" where
  "kq_timer_clear rl p = kq_timer_free (kq_timer_deregister rl p) p"

section \<open>Listeners\<close>

definition kq_listener_handler ::
  "('c, 'a, 's) kq_call \<Rightarrow> nat \<Rightarrow> ('c, 'a, 's) kq_state \<Rightarrow> ('c, 'a, 's) kq_state res" where
  "kq_listener_handler call p st =
     rbind (listener_at (fst st) p) (\<lambda>l.
     case kl_postable l of None \<Rightarrow> Inr st | Some cb \<Rightarrow> call cb (kl_arg l) st)"

definition kq_listener_init :: "int \<Rightarrow> ('c, 'a) RunloopEvent" where
  "kq_listener_init fd =
     \<lparr>ev_handler = Some Listener_handler,
      ev_variant = Listener_ev \<lparr>kl_fd = fd, kl_postable = None, kl_arg = None\<rparr>\<rparr>"

definition kq_listener_new :: "('c, 'a) kq_loop \<Rightarrow> int \<Rightarrow> (nat \<times> ('c, 'a) kq_loop) res" where
  "kq_listener_new rl fd = new_ev rl (kq_listener_init fd)"

definition kq_listener_free :: "('c, 'a) kq_loop \<Rightarrow> nat \<Rightarrow> ('c, 'a) kq_loop res" where
  "kq_listener_free rl p = rbind (listener_at rl p) (\<lambda>l. release_ev (kq_close_fd rl (kl_fd l)) p)"

definition kq_listener_register ::
  "('c, 'a) kq_loop \<Rightarrow> nat \<Rightarrow> 'c option \<Rightarrow> 'a post_arg option \<Rightarrow> ('c, 'a) kq_loop res" where
  "kq_listener_register rl p cb a =
     rbind (listener_at rl p) (\<lambda>l.
     rbind (put_ev rl p \<lparr>ev_handler = Some Listener_handler, ev_variant = Listener_ev
       (l\<lparr>kl_postable := set_given cb (kl_postable l), kl_arg := set_given a (kl_arg l)\<rparr>)\<rparr>) (\<lambda>rl1.
     kqh_listener_register rl1 p))"

definition kq_listener_deregister :: "('c, 'a) kq_loop \<Rightarrow> nat \<Rightarrow> ('c, 'a) kq_loop res" where
  "kq_listener_deregister rl p = kqh_listener_cancel rl p"

definition kq_listener_arm ::
  "('c, 'a) kq_loop \<Rightarrow> nat \<Rightarrow> 'c option \<Rightarrow> 'a post_arg option \<Rightarrow> ('c, 'a) kq_loop res" where
  "kq_listener_arm rl p cb a =
     rbind (listener_at rl p) (\<lambda>l.
     rbind (put_variant rl p (Listener_ev
       (l\<lparr>kl_postable := set_given cb (kl_postable l), kl_arg := set_given a (kl_arg l)\<rparr>))) (\<lambda>rl1.
     kqh_listener_register rl1 p))"

definition kq_listener_rearm :: "('c, 'a) kq_loop \<Rightarrow> nat \<Rightarrow> ('c, 'a) kq_loop res" where
  "kq_listener_rearm rl p = kqh_listener_register rl p"

definition kq_listener_disarm :: "('c, 'a) kq_loop \<Rightarrow> nat \<Rightarrow> ('c, 'a) kq_loop res" where
  "kq_listener_disarm rl p = kqh_listener_pause rl p"

definition kq_listener_get_fd :: "('c, 'a) kq_loop \<Rightarrow> nat \<Rightarrow> int res" where
  "kq_listener_get_fd rl p = rbind (listener_at rl p) (\<lambda>l. Inr (kl_fd l))"

section \<open>User events\<close>

definition kq_uevent_handler ::
  "('c, 'a, 's) kq_call \<Rightarrow> nat \<Rightarrow> ('c, 'a, 's) kq_state \<Rightarrow> ('c, 'a, 's) kq_state res" where
  "kq_uevent_handler call p st =
     rbind (uevent_at (fst st) p) (\<lambda>u.
     case ku_postable u of
       None \<Rightarrow> Inl Uninit_read
     | Some None \<Rightarrow> Inl Null_deref
     | Some (Some cb) \<Rightarrow> call cb (Some (Event p)) st)"

definition kq_user_event_init :: "('c, 'a) RunloopEvent" where
  "kq_user_event_init =
     \<lparr>ev_handler = Some Uevent_handler, ev_variant = Uevent_ev \<lparr>ku_postable = None, ku_arg = None\<rparr>\<rparr>"

definition kq_user_event_new :: "('c, 'a) kq_loop \<Rightarrow> (nat \<times> ('c, 'a) kq_loop) res" where
  "kq_user_event_new rl = new_ev rl kq_user_event_init"

text \<open>
  The descriptors of a user event are never set, so closing, reading or returning them uses a value
  that was never written.
\<close>

definition kq_user_event_free :: "('c, 'a) kq_loop \<Rightarrow> nat \<Rightarrow> ('c, 'a) kq_loop res" where
  "kq_user_event_free rl p = rbind (uevent_at rl p) (\<lambda>_. Inl Uninit_read)"

definition kq_user_event_register :: "('c, 'a) kq_loop \<Rightarrow> nat \<Rightarrow> ('c, 'a) kq_loop" where
  "kq_user_event_register rl p = kqh_user_event_register rl p"

definition kq_user_event_change_watch :: "('c, 'a) kq_loop \<Rightarrow> nat \<Rightarrow> ('c, 'a) kq_loop" where
  "kq_user_event_change_watch rl p = rl"

definition kq_user_event_deregister :: "('c, 'a) kq_loop \<Rightarrow> nat \<Rightarrow> ('c, 'a) kq_loop" where
  "kq_user_event_deregister rl p = rl"

definition kq_user_event_arm ::
  "('c, 'a) kq_loop \<Rightarrow> nat \<Rightarrow> 'c option \<Rightarrow> 'a post_arg option \<Rightarrow> ('c, 'a) kq_loop res" where
  "kq_user_event_arm rl p cb a =
     rbind (uevent_at rl p) (\<lambda>u.
     rbind (put_variant rl p (Uevent_ev
       (u\<lparr>ku_postable := (if cb = None then ku_postable u else Some cb), ku_arg := (if a = None then ku_arg u else Some a)\<rparr>)))
     (\<lambda>rl1. Inr (kqh_user_event_register rl1 p)))"

definition kq_user_event_disarm :: "('c, 'a) kq_loop \<Rightarrow> nat \<Rightarrow> ('c, 'a) kq_loop" where
  "kq_user_event_disarm rl p = kqh_user_event_pause rl p"

definition kq_user_event_fire :: "('c, 'a) kq_loop \<Rightarrow> nat \<Rightarrow> ('c, 'a) kq_loop" where
  "kq_user_event_fire rl p = kqh_user_event_trigger rl p 1234"

definition kq_user_event_clear_one_event :: "('c, 'a) kq_loop \<Rightarrow> nat \<Rightarrow> ('c, 'a) kq_loop res" where
  "kq_user_event_clear_one_event rl p = rbind (uevent_at rl p) (\<lambda>_. Inl Uninit_read)"

definition kq_user_event_clear_all_events :: "('c, 'a) kq_loop \<Rightarrow> nat \<Rightarrow> ('c, 'a) kq_loop res" where
  "kq_user_event_clear_all_events rl p = rbind (uevent_at rl p) (\<lambda>_. Inl Uninit_read)"

definition kq_user_event_get_fd :: "('c, 'a) kq_loop \<Rightarrow> nat \<Rightarrow> int res" where
  "kq_user_event_get_fd rl p = rbind (uevent_at rl p) (\<lambda>_. Inl Uninit_read)"

section \<open>The loop\<close>

definition kq_dispatch ::
  "('c, 'a, 's) kq_call \<Rightarrow> (kident \<times> kfilter) \<times> nat option \<Rightarrow> ('c, 'a, 's) kq_state \<Rightarrow> ('c, 'a, 's) kq_state res" where
  "kq_dispatch call ev st =
     (case snd ev of
        None \<Rightarrow> Inl Null_deref
      | Some p \<Rightarrow>
          rbind (ev_at (fst st) p) (\<lambda>e.
          case ev_handler e of
            None \<Rightarrow> Inl Null_deref
          | Some Stream_handler \<Rightarrow> kq_stream_handler call p (snd (fst ev)) st
          | Some Timer_handler \<Rightarrow> kq_timer_handler call p st
          | Some Listener_handler \<Rightarrow> kq_listener_handler call p st
          | Some Uevent_handler \<Rightarrow> kq_uevent_handler call p st))"

fun kq_run_ready ::
  "nat \<Rightarrow> ('c, 'a, 's) kq_call \<Rightarrow> ('c, 'a, 's) kq_state \<Rightarrow> ('c, 'a, 's) kq_state res" where
  "kq_run_ready 0 call st = Inl Out_of_fuel"
| "kq_run_ready (Suc n) call st =
     rbind (functor_list_size (kq_ready (fst st))) (\<lambda>k.
     if k = 0 then Inr st
     else
       rbind (functor_list_remove (kq_ready (fst st))) (\<lambda>(func, lst).
       rbind (Functor_call call func ((fst st)\<lparr>kq_ready := lst, kq_executing := True\<rparr>, snd st)) (\<lambda>(rl, s).
       kq_run_ready n call (rl\<lparr>kq_executing := False\<rparr>, s))))"

datatype kq_wait = KWait_error bool | KWait_events "(kident \<times> kfilter) list"

text \<open>The seconds and nanoseconds that a call may wait, or no bound.\<close>

definition kq_timeout :: "int \<Rightarrow> (int \<times> int) option" where
  "kq_timeout timeout_ms =
     (if timeout_ms > 0 then Some (timeout_ms div 1000, 1000 * (timeout_ms mod 1000)) else None)"

fun kq_runloop_run ::
  "nat \<Rightarrow> ('c, 'a, 's) kq_call \<Rightarrow> kq_wait list \<Rightarrow> ('c, 'a, 's) kq_state \<Rightarrow> (int \<times> ('c, 'a, 's) kq_state) res" where
  "kq_runloop_run 0 call waits st = Inl Out_of_fuel"
| "kq_runloop_run (Suc n) call waits st =
     rbind (functor_list_size (kq_ready (fst st))) (\<lambda>k.
     if k = 0 \<and> event_table_number_in_use (kq_table (fst st)) = 0 then Inr (0, st)
     else if k = 0 then
       (case waits of
          [] \<Rightarrow> Inl Would_block
        | KWait_error eintr # _ \<Rightarrow>
            Inr (if eintr then -1 else if kq_closed (fst st) then 0 else -1,
                 runloop_get_fresh_event_table (fst st), snd st)
        | KWait_events keys # ws \<Rightarrow>
            let (evs, k1) = kevent_wait (knotes (fst st)) keys;
                rl1 = (runloop_get_fresh_event_table (fst st))\<lparr>knotes := k1\<rparr> in
            if evs = [] then Inr (0, (kq_close_fd rl1 (kqueue_fd rl1))\<lparr>kq_closed := True\<rparr>, snd st)
            else rbind (fold_res (kq_dispatch call) evs (rl1, snd st)) (kq_runloop_run n call ws))
     else rbind (kq_run_ready n call st) (kq_runloop_run n call waits))"

end
