(* ===== verification/Tcp_Stream.thy ===== *)
theory Tcp_Stream
  imports Kqueue_Watchers Io_Buffer
begin

text \<open>
  The TCP streams and listeners of the sample server, on the kqueue run loop: \<^verbatim>\<open>apps/tcp/\<close> \<^verbatim>\<open>tcp_stream.c\<close>,
  \<^verbatim>\<open>tcp_reader.c\<close>, \<^verbatim>\<open>tcp_writer.c\<close> and \<^verbatim>\<open>tcp_listener.c\<close>.

  The state is a run loop and a world. Objects live in the world and a pointer to one is its index;
  what is freed is \<open>None\<close>. The kernel's side of a socket is what the next calls of \<open>read\<close> and \<open>write\<close>
  do, and the bytes that went through it. A \<open>read\<close> for which nothing is listed finds no data, a \<open>write\<close>
  for which nothing is listed takes everything. Memory from \<open>malloc\<close> that a constructor does not set
  keeps the contents it had, which are an argument.

  A callback is a function pointer with an argument; \<open>rcall\<close>, \<open>wcall\<close> and \<open>acall\<close> say what calling one
  does. The world may be extended by the client of this layer.
\<close>

section \<open>Function pointers, objects and the kernel\<close>

datatype fn_ptr =
    Read_ready_callback | Postable_reader | Postable_try_write | Wrtr_cb
  | Postable_try_accept | On_accept_ready
  | Tcp_read_callback | Tcp_write_callback | Msg_postable_read
  | Msg_read_callback | Msg_write_callback | App_postable_read
  | App_instance_done_cb | Handle_new_socket | Postable_start

datatype obj = Tcp_ref nat | Listener_ref nat | Msg_ref nat | App_ref nat | Server_ref

datatype rd_result = Rd_data "char list" | Rd_eof int | Rd_error int

datatype wr_result = Wr_bytes nat | Wr_zero int | Wr_error int

record socket =
  sk_reads :: "rd_result list"
  sk_writes :: "wr_result list"
  sk_received :: "char list"
  sk_sent :: "char list"

datatype ac_result = Ac_socket int socket | Ac_error int

definition EAGAIN :: int where "EAGAIN = 35"

datatype rd_state = RD_STATE_INITIAL | RD_STATE_EAGAIN | RD_STATE_STOPPED | RD_STATE_READY | RD_STATE_ERROR

datatype wrt_state = WRT_STATE_EAGAIN | WRT_STATE_READY | WRT_STATE_ERROR | WRT_STATE_STOPPED | WRT_STATE_INITIAL

datatype l_state = L_STATE_EAGAIN | L_STATE_READY | L_STATE_INITIAL | L_STATE_STOPPED | L_STATE_ERROR

record TcpReader =
  rd_state :: rd_state
  rd_buffer :: "nat option"
  rd_cb :: "fn_ptr option"
  rd_arg :: "obj option"

record TcpWriter =
  wr_state :: wrt_state
  wr_cb :: "fn_ptr option"
  wr_arg :: "obj option"
  wr_buffer :: "nat option"

record TcpStream =
  rlstream :: nat
  stream_fd :: int
  tcp_reader :: TcpReader
  tcp_writer :: TcpWriter

record TcpListener =
  rl_listener :: nat
  accept_cb :: "fn_ptr option"
  accept_arg :: "obj option"
  l_state :: l_state

record tcp_world =
  tcps :: "TcpStream list"
  lsns :: "TcpListener list"
  bufs :: "IOBuffer option list"
  socks :: "int \<Rightarrow> socket"
  accepts :: "int \<Rightarrow> ac_result list"
  listen_status :: "int \<Rightarrow> int"

type_synonym tcp_loop = "(fn_ptr, obj) kq_loop"
type_synonym 'z tcp_state = "tcp_loop \<times> 'z tcp_world_scheme"
type_synonym 'z io_call = "fn_ptr \<Rightarrow> obj option \<Rightarrow> int \<Rightarrow> 'z tcp_state \<Rightarrow> 'z tcp_state res"
type_synonym 'z accept_call = "fn_ptr \<Rightarrow> obj option \<Rightarrow> int \<Rightarrow> int \<Rightarrow> 'z tcp_state \<Rightarrow> 'z tcp_state res"

definition tcp_at :: "'z tcp_world_scheme \<Rightarrow> nat \<Rightarrow> TcpStream res" where
  "tcp_at w t = (if t < length (tcps w) then Inr (tcps w ! t) else Inl Bad_pointer)"

definition put_tcp :: "'z tcp_world_scheme \<Rightarrow> nat \<Rightarrow> TcpStream \<Rightarrow> 'z tcp_world_scheme" where
  "put_tcp w t s = w\<lparr>tcps := (tcps w)[t := s]\<rparr>"

definition lsn_at :: "'z tcp_world_scheme \<Rightarrow> nat \<Rightarrow> TcpListener res" where
  "lsn_at w t = (if t < length (lsns w) then Inr (lsns w ! t) else Inl Bad_pointer)"

definition put_lsn :: "'z tcp_world_scheme \<Rightarrow> nat \<Rightarrow> TcpListener \<Rightarrow> 'z tcp_world_scheme" where
  "put_lsn w t s = w\<lparr>lsns := (lsns w)[t := s]\<rparr>"

definition buf_at :: "'z tcp_world_scheme \<Rightarrow> nat option \<Rightarrow> (nat \<times> IOBuffer) res" where
  "buf_at w r =
     (case r of
        None \<Rightarrow> Inl Null_deref
      | Some b \<Rightarrow>
          if b < length (bufs w) then (case bufs w ! b of None \<Rightarrow> Inl Bad_pointer | Some iob \<Rightarrow> Inr (b, iob))
          else Inl Bad_pointer)"

definition put_buf :: "'z tcp_world_scheme \<Rightarrow> nat \<Rightarrow> IOBuffer \<Rightarrow> 'z tcp_world_scheme" where
  "put_buf w b iob = w\<lparr>bufs := (bufs w)[b := Some iob]\<rparr>"

definition new_buf :: "'z tcp_world_scheme \<Rightarrow> IOBuffer \<Rightarrow> nat \<times> 'z tcp_world_scheme" where
  "new_buf w iob = (length (bufs w), w\<lparr>bufs := bufs w @ [Some iob]\<rparr>)"

definition put_sock :: "'z tcp_world_scheme \<Rightarrow> int \<Rightarrow> socket \<Rightarrow> 'z tcp_world_scheme" where
  "put_sock w fd s = w\<lparr>socks := (socks w)(fd := s)\<rparr>"

text \<open>
  \<open>read\<close>: the bytes or the error, and the socket afterwards. A short count leaves the rest. What \<open>errno\<close>
  holds at the end of the data is part of the result; a call that moves no byte otherwise leaves it 0.
\<close>

definition sys_read :: "socket \<Rightarrow> nat \<Rightarrow> rd_result \<times> socket" where
  "sys_read s len =
     (case sk_reads s of
        [] \<Rightarrow> (Rd_error EAGAIN, s)
      | Rd_data bs # rest \<Rightarrow>
          (Rd_data (take len bs),
           s\<lparr>sk_reads := (if len < length bs then Rd_data (drop len bs) # rest else rest),
             sk_received := sk_received s @ take len bs\<rparr>)
      | r # rest \<Rightarrow> (r, s\<lparr>sk_reads := rest\<rparr>))"

text \<open>\<open>write\<close> of the bytes \<open>bs\<close>.\<close>

definition sys_write :: "socket \<Rightarrow> char list \<Rightarrow> wr_result \<times> socket" where
  "sys_write s bs =
     (case sk_writes s of
        [] \<Rightarrow> (Wr_bytes (length bs), s\<lparr>sk_sent := sk_sent s @ bs\<rparr>)
      | Wr_bytes n # rest \<Rightarrow>
          (Wr_bytes (min n (length bs)), s\<lparr>sk_writes := rest, sk_sent := sk_sent s @ take n bs\<rparr>)
      | r # rest \<Rightarrow> (r, s\<lparr>sk_writes := rest\<rparr>))"

section \<open>Streams\<close>

definition tcp_stream_init :: "TcpStream \<Rightarrow> int \<Rightarrow> tcp_loop \<Rightarrow> (TcpStream \<times> tcp_loop) res" where
  "tcp_stream_init blk fd rl =
     rbind (kq_stream_new rl fd) (\<lambda>(p, rl1).
     rbind (kq_stream_get_fd rl1 p) (\<lambda>fd1.
     Inr (blk\<lparr>rlstream := p, tcp_reader := (tcp_reader blk)\<lparr>rd_state := RD_STATE_INITIAL\<rparr>,
              tcp_writer := (tcp_writer blk)\<lparr>wr_state := WRT_STATE_INITIAL\<rparr>, stream_fd := fd1\<rparr>, rl1)))"

definition tcp_stream_new :: "TcpStream \<Rightarrow> int \<Rightarrow> 'z tcp_state \<Rightarrow> (nat \<times> 'z tcp_state) res" where
  "tcp_stream_new blk fd st =
     rbind (tcp_stream_init blk fd (fst st)) (\<lambda>(s, rl).
     Inr (length (tcps (snd st)), rl, (snd st)\<lparr>tcps := tcps (snd st) @ [s]\<rparr>))"

definition tcp_stream_deinit :: "nat \<Rightarrow> 'z tcp_state \<Rightarrow> 'z tcp_state res" where
  "tcp_stream_deinit t st =
     rbind (tcp_at (snd st) t) (\<lambda>s.
     rbind (kq_stream_deinit (fst st) (rlstream s)) (\<lambda>rl. Inr (rl, snd st)))"

definition tcp_stream_free :: "nat \<Rightarrow> 'z tcp_state \<Rightarrow> 'z tcp_state res" where
  "tcp_stream_free t st =
     rbind (tcp_at (snd st) t) (\<lambda>s.
     rbind (kq_stream_free (fst st) (rlstream s)) (\<lambda>rl. Inr (rl, snd st)))"

text \<open>The status is what setting the flags of the socket returns.\<close>

definition async_socket_set_nonblocking :: "int \<Rightarrow> unit res" where
  "async_socket_set_nonblocking status = c_assert (status = 0)"

section \<open>Reading\<close>

definition is_read_pending :: "TcpStream \<Rightarrow> bool res" where
  "is_read_pending s =
     (let r = tcp_reader s in
      rbind (c_assert (rd_buffer r \<noteq> None \<and> rd_cb r \<noteq> None \<or> rd_buffer r = None \<and> rd_cb r = None)) (\<lambda>_.
      Inr (rd_buffer r \<noteq> None \<and> rd_cb r \<noteq> None)))"

definition tcp_invoke_read_cb :: "'z io_call \<Rightarrow> nat \<Rightarrow> int \<Rightarrow> 'z tcp_state \<Rightarrow> 'z tcp_state res" where
  "tcp_invoke_read_cb rcall t errno_value st =
     rbind (tcp_at (snd st) t) (\<lambda>s.
     case rd_cb (tcp_reader s) of
       None \<Rightarrow> Inl Assert_fail
     | Some cb \<Rightarrow>
         rcall cb (rd_arg (tcp_reader s)) errno_value
           (fst st, put_tcp (snd st) t (s\<lparr>tcp_reader := (tcp_reader s)\<lparr>rd_buffer := None, rd_cb := None, rd_arg := None\<rparr>\<rparr>)))"

definition tcp_try_read :: "'z io_call \<Rightarrow> nat \<Rightarrow> 'z tcp_state \<Rightarrow> 'z tcp_state res" where
  "tcp_try_read rcall t st =
     rbind (tcp_at (snd st) t) (\<lambda>s.
     rbind (c_assert (rd_buffer (tcp_reader s) \<noteq> None)) (\<lambda>_.
     rbind (kq_stream_get_fd (fst st) (rlstream s)) (\<lambda>fd.
     rbind (c_assert (stream_fd s = fd)) (\<lambda>_.
     if rd_state (tcp_reader s) = RD_STATE_ERROR \<or> rd_state (tcp_reader s) = RD_STATE_STOPPED then Inr st
     else
       rbind (buf_at (snd st) (rd_buffer (tcp_reader s))) (\<lambda>(b, iob).
       case sys_read (socks (snd st) fd) (nat (IOBuffer_space_len iob)) of (r, sk) \<Rightarrow>
       let w1 = put_sock (snd st) fd sk in
       case r of
         Rd_data bs \<Rightarrow>
           if bs \<noteq> [] then
             rbind (read_into iob bs) (\<lambda>iob1.
             tcp_invoke_read_cb rcall t 0
               (fst st, put_tcp (put_buf w1 b iob1) t (s\<lparr>tcp_reader := (tcp_reader s)\<lparr>rd_state := RD_STATE_READY\<rparr>\<rparr>)))
           else tcp_invoke_read_cb rcall t 0 (fst st, w1)
       | Rd_eof e \<Rightarrow> tcp_invoke_read_cb rcall t e (fst st, w1)
       | Rd_error e \<Rightarrow>
           if e = EAGAIN then
             rbind (kq_stream_arm_read (fst st) (rlstream s) (Some Read_ready_callback) (Some (Arg (Tcp_ref t)))) (\<lambda>rl.
             Inr (rl, put_tcp w1 t (s\<lparr>tcp_reader := (tcp_reader s)\<lparr>rd_state := RD_STATE_EAGAIN\<rparr>\<rparr>)))
           else tcp_invoke_read_cb rcall t e (fst st, w1))))))"

definition tcp_read ::
  "'z io_call \<Rightarrow> nat \<Rightarrow> nat option \<Rightarrow> fn_ptr option \<Rightarrow> obj option \<Rightarrow> 'z tcp_state \<Rightarrow> 'z tcp_state res" where
  "tcp_read rcall t input_buffer read_cb arg st =
     rbind (tcp_at (snd st) t) (\<lambda>s.
     rbind (is_read_pending s) (\<lambda>pending.
     rbind (c_assert (\<not> pending)) (\<lambda>_.
     rbind (buf_at (snd st) input_buffer) (\<lambda>(b, iob).
     rbind (c_assert (IOBuffer_space_len iob \<noteq> 0)) (\<lambda>_.
     tcp_try_read rcall t
       (fst st, put_tcp (snd st) t
          (s\<lparr>tcp_reader := (tcp_reader s)\<lparr>rd_buffer := input_buffer, rd_cb := read_cb, rd_arg := arg\<rparr>\<rparr>)))))))"

definition read_ready_callback :: "'z io_call \<Rightarrow> nat \<Rightarrow> 'z tcp_state \<Rightarrow> 'z tcp_state res" where
  "read_ready_callback rcall t st =
     rbind (tcp_at (snd st) t) (\<lambda>s.
     case rd_state (tcp_reader s) of
       RD_STATE_ERROR \<Rightarrow> Inr st
     | RD_STATE_STOPPED \<Rightarrow> Inr st
     | _ \<Rightarrow> tcp_try_read rcall t (fst st, put_tcp (snd st) t (s\<lparr>tcp_reader := (tcp_reader s)\<lparr>rd_state := RD_STATE_READY\<rparr>\<rparr>)))"

definition tcp_postable_reader :: "'z io_call \<Rightarrow> nat \<Rightarrow> 'z tcp_state \<Rightarrow> 'z tcp_state res" where
  "tcp_postable_reader rcall t st = tcp_try_read rcall t st"

section \<open>Writing\<close>

definition is_write_pending :: "TcpStream \<Rightarrow> bool res" where
  "is_write_pending s =
     (let r = tcp_writer s in
      rbind (c_assert (wr_buffer r \<noteq> None \<and> wr_cb r \<noteq> None \<or> wr_buffer r = None \<and> wr_cb r = None)) (\<lambda>_.
      Inr (wr_buffer r \<noteq> None)))"

definition tcp_invoke_write_callback :: "'z io_call \<Rightarrow> nat \<Rightarrow> int \<Rightarrow> 'z tcp_state \<Rightarrow> 'z tcp_state res" where
  "tcp_invoke_write_callback wcall t errnoval st =
     rbind (tcp_at (snd st) t) (\<lambda>s.
     case wr_cb (tcp_writer s) of
       None \<Rightarrow> Inl Null_deref
     | Some cb \<Rightarrow>
         wcall cb (wr_arg (tcp_writer s)) errnoval
           (fst st, put_tcp (snd st) t (s\<lparr>tcp_writer := (tcp_writer s)\<lparr>wr_cb := None, wr_arg := None, wr_buffer := None\<rparr>\<rparr>)))"

definition tcp_try_write :: "'z io_call \<Rightarrow> nat \<Rightarrow> 'z tcp_state \<Rightarrow> 'z tcp_state res" where
  "tcp_try_write wcall t st =
     rbind (tcp_at (snd st) t) (\<lambda>s.
     rbind (buf_at (snd st) (wr_buffer (tcp_writer s))) (\<lambda>(b, iob).
     rbind (mem_read (mem_p iob) (IOBuffer_data iob) (IOBuffer_data_len iob)) (\<lambda>bs.
     case sys_write (socks (snd st) (stream_fd s)) bs of (r, sk) \<Rightarrow>
     let w1 = put_sock (snd st) (stream_fd s) sk in
     case r of
       Wr_bytes n \<Rightarrow>
         if n > 0 then
           rbind (IOBuffer_consume iob (int n)) (\<lambda>iob1.
           let st1 = (fst st, put_tcp (put_buf w1 b iob1) t (s\<lparr>tcp_writer := (tcp_writer s)\<lparr>wr_state := WRT_STATE_READY\<rparr>\<rparr>)) in
           if IOBuffer_data_len iob1 = 0 then tcp_invoke_write_callback wcall t 0 st1
           else
             rbind (kq_runloop_post (fst st1) (Some Postable_try_write) (Some (Arg (Tcp_ref t)))) (\<lambda>rl. Inr (rl, snd st1)))
         else tcp_invoke_write_callback wcall t 0 (fst st, w1)
     | Wr_zero e \<Rightarrow> tcp_invoke_write_callback wcall t e (fst st, w1)
     | Wr_error e \<Rightarrow>
         if e = EAGAIN then
           Inr (fst st, put_tcp w1 t (s\<lparr>tcp_writer := (tcp_writer s)\<lparr>wr_state := WRT_STATE_EAGAIN\<rparr>\<rparr>))
         else
           tcp_invoke_write_callback wcall t e
             (fst st, put_tcp w1 t (s\<lparr>tcp_writer := (tcp_writer s)\<lparr>wr_state := WRT_STATE_ERROR\<rparr>\<rparr>)))))"

definition tcp_write ::
  "'z io_call \<Rightarrow> nat \<Rightarrow> nat option \<Rightarrow> fn_ptr option \<Rightarrow> obj option \<Rightarrow> 'z tcp_state \<Rightarrow> 'z tcp_state res" where
  "tcp_write wcall t outbuf write_cb arg st =
     rbind (tcp_at (snd st) t) (\<lambda>s.
     rbind (is_write_pending s) (\<lambda>pending.
     rbind (c_assert (\<not> pending)) (\<lambda>_.
     rbind (c_assert (write_cb \<noteq> None)) (\<lambda>_.
     tcp_try_write wcall t
       (fst st, put_tcp (snd st) t
          (s\<lparr>tcp_writer := (tcp_writer s)\<lparr>wr_buffer := outbuf, wr_cb := write_cb, wr_arg := arg\<rparr>\<rparr>))))))"

definition postable_try_write :: "'z io_call \<Rightarrow> nat \<Rightarrow> 'z tcp_state \<Rightarrow> 'z tcp_state res" where
  "postable_try_write wcall t st = tcp_try_write wcall t st"

definition wrtr_cb :: "'z io_call \<Rightarrow> nat \<Rightarrow> 'z tcp_state \<Rightarrow> 'z tcp_state res" where
  "wrtr_cb wcall t st =
     rbind (tcp_at (snd st) t) (\<lambda>s.
     case wr_state (tcp_writer s) of
       WRT_STATE_EAGAIN \<Rightarrow>
         tcp_try_write wcall t (fst st, put_tcp (snd st) t (s\<lparr>tcp_writer := (tcp_writer s)\<lparr>wr_state := WRT_STATE_READY\<rparr>\<rparr>))
     | _ \<Rightarrow> Inr st)"

definition write_error_terminate :: "nat \<Rightarrow> 'z tcp_state \<Rightarrow> 'z tcp_state res" where
  "write_error_terminate t st =
     rbind (tcp_at (snd st) t) (\<lambda>s.
     rbind (kq_stream_disarm_write (fst st) (rlstream s)) (\<lambda>rl1.
     rbind (kq_stream_deregister rl1 (rlstream s)) (\<lambda>rl2.
     rbind (kq_stream_free rl2 (rlstream s)) (\<lambda>rl3. Inr (rl3, snd st)))))"

definition write_clean_terminate :: "nat \<Rightarrow> 'z tcp_state \<Rightarrow> 'z tcp_state res" where
  "write_clean_terminate t st =
     rbind (tcp_at (snd st) t) (\<lambda>s.
     write_error_terminate t (fst st, put_tcp (snd st) t (s\<lparr>tcp_writer := (tcp_writer s)\<lparr>wr_state := WRT_STATE_STOPPED\<rparr>\<rparr>)))"

section \<open>Listening\<close>

text \<open>
  The sizes, without tags, of a pointer to a listener and of a listener: three pointers and an \<open>int\<close>. A
  listener is set up in a block of \<open>n\<close> bytes, and \<open>tcp_listener_new\<close> allocates the size of a pointer.
\<close>

definition sizeof_TcpListenerRef :: nat where "sizeof_TcpListenerRef = 8"

definition sizeof_TcpListener :: nat where "sizeof_TcpListener = 32"

definition tcp_listener_init :: "nat \<Rightarrow> int \<Rightarrow> tcp_loop \<Rightarrow> (TcpListener \<times> tcp_loop) res" where
  "tcp_listener_init n fd rl =
     rbind (kq_listener_new rl fd) (\<lambda>(p, rl1).
     if n < sizeof_TcpListener then Inl Out_of_bounds
     else Inr (\<lparr>rl_listener = p, accept_cb = None, accept_arg = None, l_state = L_STATE_INITIAL\<rparr>, rl1))"

definition tcp_listener_new :: "int \<Rightarrow> 'z tcp_state \<Rightarrow> (nat \<times> 'z tcp_state) res" where
  "tcp_listener_new fd st =
     rbind (tcp_listener_init sizeof_TcpListenerRef fd (fst st)) (\<lambda>(l, rl).
     Inr (length (lsns (snd st)), rl, (snd st)\<lparr>lsns := lsns (snd st) @ [l]\<rparr>))"

definition tcp_listener_free :: "nat \<Rightarrow> 'z tcp_state \<Rightarrow> 'z tcp_state res" where
  "tcp_listener_free l st =
     rbind (lsn_at (snd st) l) (\<lambda>s.
     rbind (kq_listener_free (fst st) (rl_listener s)) (\<lambda>rl. Inr (rl, snd st)))"

definition invoke_accept_callback :: "'z accept_call \<Rightarrow> nat \<Rightarrow> int \<Rightarrow> int \<Rightarrow> 'z tcp_state \<Rightarrow> 'z tcp_state res" where
  "invoke_accept_callback acall l new_sock error st =
     rbind (lsn_at (snd st) l) (\<lambda>s.
     case accept_cb s of
       None \<Rightarrow> Inl Null_deref
     | Some cb \<Rightarrow>
         acall cb (accept_arg s) new_sock error
           (fst st, put_lsn (snd st) l (s\<lparr>accept_cb := None, accept_arg := None\<rparr>)))"

definition tcp_try_accept :: "'z accept_call \<Rightarrow> nat \<Rightarrow> 'z tcp_state \<Rightarrow> 'z tcp_state res" where
  "tcp_try_accept acall l st =
     rbind (lsn_at (snd st) l) (\<lambda>s.
     rbind (kq_listener_get_fd (fst st) (rl_listener s)) (\<lambda>fd.
     case accepts (snd st) fd of
       [] \<Rightarrow>
         rbind (kq_listener_arm (fst st) (rl_listener s) (Some On_accept_ready) (Some (Arg (Listener_ref l)))) (\<lambda>rl.
         Inr (rl, put_lsn (snd st) l (s\<lparr>l_state := L_STATE_EAGAIN\<rparr>)))
     | r # rest \<Rightarrow>
         let w1 = (snd st)\<lparr>accepts := (accepts (snd st))(fd := rest)\<rparr> in
         case r of
           Ac_socket sock2 sk \<Rightarrow>
             if sock2 > 0 then
               invoke_accept_callback acall l sock2 0 (fst st, put_sock (put_lsn w1 l (s\<lparr>l_state := L_STATE_READY\<rparr>)) sock2 sk)
             else invoke_accept_callback acall l 0 (-33) (fst st, w1)
         | Ac_error e \<Rightarrow>
             if e = EAGAIN then
               rbind (kq_listener_arm (fst st) (rl_listener s) (Some On_accept_ready) (Some (Arg (Listener_ref l)))) (\<lambda>rl.
               Inr (rl, put_lsn w1 l (s\<lparr>l_state := L_STATE_EAGAIN\<rparr>)))
             else invoke_accept_callback acall l 0 e (fst st, put_lsn w1 l (s\<lparr>l_state := L_STATE_ERROR\<rparr>))))"

definition postable_try_accept :: "'z accept_call \<Rightarrow> nat \<Rightarrow> 'z tcp_state \<Rightarrow> 'z tcp_state res" where
  "postable_try_accept acall l st =
     rbind (lsn_at (snd st) l) (\<lambda>s.
     rbind (kq_listener_register (fst st) (rl_listener s) (Some On_accept_ready) (Some (Arg (Listener_ref l)))) (\<lambda>rl.
     rbind (kq_listener_get_fd rl (rl_listener s)) (\<lambda>fd.
     case l_state s of
       L_STATE_INITIAL \<Rightarrow>
         rbind (c_assert (listen_status (snd st) fd = 0)) (\<lambda>_.
         tcp_try_accept acall l (rl, put_lsn (snd st) l (s\<lparr>l_state := L_STATE_READY\<rparr>)))
     | L_STATE_READY \<Rightarrow> tcp_try_accept acall l (rl, snd st)
     | _ \<Rightarrow> Inr (rl, snd st))))"

definition tcp_accept ::
  "'z accept_call \<Rightarrow> nat \<Rightarrow> fn_ptr option \<Rightarrow> obj option \<Rightarrow> 'z tcp_state \<Rightarrow> 'z tcp_state res" where
  "tcp_accept acall l cb arg st =
     rbind (lsn_at (snd st) l) (\<lambda>s.
     rbind (c_assert (accept_cb s = None)) (\<lambda>_.
     rbind (c_assert (accept_arg s = None)) (\<lambda>_.
     let st1 = (fst st, put_lsn (snd st) l (s\<lparr>accept_cb := cb, accept_arg := arg\<rparr>)) in
     rbind (if l_state s = L_STATE_STOPPED \<or> l_state s = L_STATE_ERROR
            then invoke_accept_callback acall l 0 (-33) st1 else Inr st1) (\<lambda>st2.
     rbind (kq_runloop_post (fst st2) (Some Postable_try_accept) (Some (Arg (Listener_ref l)))) (\<lambda>rl.
     Inr (rl, snd st2))))))"

definition on_accept_ready :: "'z accept_call \<Rightarrow> nat \<Rightarrow> 'z tcp_state \<Rightarrow> 'z tcp_state res" where
  "on_accept_ready acall l st =
     rbind (lsn_at (snd st) l) (\<lambda>s.
     case l_state s of
       L_STATE_EAGAIN \<Rightarrow>
         let st1 = (fst st, put_lsn (snd st) l (s\<lparr>l_state := L_STATE_READY\<rparr>)) in
         if accept_cb s \<noteq> None then tcp_try_accept acall l st1 else Inr st1
     | L_STATE_READY \<Rightarrow> if accept_cb s \<noteq> None then tcp_try_accept acall l st else Inr st
     | _ \<Rightarrow> Inl Assert_fail)"

end
