(* ===== verification/App_Messages.thy ===== *)
theory App_Messages
  imports Io_Buffer C_List
begin

text \<open>
  The message formats of the sample applications, \<^verbatim>\<open>apps/msg/newline_msg.c\<close>, \<^verbatim>\<open>newline_msg_parser.c\<close>,
  \<^verbatim>\<open>demo_msg.c\<close> and \<^verbatim>\<open>demo_msg_parser.c\<close>, and the synchronous message stream \<^verbatim>\<open>apps/mstream/mstream.c\<close>
  that is compiled against one of them. What the macros of \<^verbatim>\<open>msg_selection_header.h\<close> select is a
  parameter of the stream; the locale \<open>msg_format\<close> holds what the stream relies on, and both formats
  interpret it. A handler of messages acts on a state of its own.
\<close>

section \<open>Messages that end with a newline\<close>

record NewLineMsg =
  nm_iob :: "IOBuffer option"

definition newline_msg_init :: "NewLineMsg res" where
  "newline_msg_init = rbind IOBuffer_new (\<lambda>iob. Inr \<lparr>nm_iob = Some iob\<rparr>)"

definition newline_msg_new :: "NewLineMsg res" where
  "newline_msg_new = newline_msg_init"

definition newline_msg_get_content :: "NewLineMsg \<Rightarrow> IOBuffer option" where
  "newline_msg_get_content msg = nm_iob msg"

definition newline_msg_set_content :: "NewLineMsg \<Rightarrow> IOBuffer option \<Rightarrow> NewLineMsg" where
  "newline_msg_set_content mr iob = mr\<lparr>nm_iob := iob\<rparr>"

definition newline_msg_serialize :: "NewLineMsg \<Rightarrow> IOBuffer res" where
  "newline_msg_serialize msg =
     rbind IOBuffer_new (\<lambda>tmp.
     case nm_iob msg of
       None \<Rightarrow> Inl Null_deref
     | Some iob \<Rightarrow> rbind (IOBuffer_cstr iob) (\<lambda>s. IOBuffer_sprintf tmp (s @ [CHR 0x0A])))"

record NewLineMsgParser =
  line_buffer_length :: int
  line_buffer_max :: int
  nmp_msg :: NewLineMsg
  nmp_iob :: IOBuffer

definition newline_msg_parser_init :: "NewLineMsgParser res" where
  "newline_msg_parser_init =
     rbind newline_msg_new (\<lambda>m.
     rbind IOBuffer_new (\<lambda>iob.
     Inr \<lparr>line_buffer_length = 0, line_buffer_max = 256, nmp_msg = m, nmp_iob = iob\<rparr>))"

definition newline_msg_parser_new :: "NewLineMsgParser res" where
  "newline_msg_parser_new = newline_msg_parser_init"

definition newline_push :: "NewLineMsg \<Rightarrow> char \<Rightarrow> NewLineMsg res" where
  "newline_push msg ch =
     (case newline_msg_get_content msg of
        None \<Rightarrow> Inl Null_deref
      | Some iob \<Rightarrow> rbind (IOBuffer_commit_push_back iob ch) (\<lambda>iob1. Inr (msg\<lparr>nm_iob := Some iob1\<rparr>)))"

fun newline_loop ::
  "nat \<Rightarrow> (NewLineMsg \<Rightarrow> int \<Rightarrow> 's \<Rightarrow> 's res) \<Rightarrow> NewLineMsg \<Rightarrow> IOBuffer \<Rightarrow> 's \<Rightarrow>
   (NewLineMsg \<times> IOBuffer \<times> 's) res" where
  "newline_loop 0 cb msg iob s = Inl Out_of_fuel"
| "newline_loop (Suc n) cb msg iob s =
     (if IOBuffer_empty iob then Inr (msg, iob, s)
      else
        rbind (IOBuffer_consume_pop_front iob) (\<lambda>(ch, iob1).
        if ch = CHR 0x0A \<or> ch = CHR 0x00 then
          rbind (cb msg 0 s) (\<lambda>s1.
          rbind newline_msg_new (\<lambda>msg1. newline_loop n cb msg1 iob1 s1))
        else rbind (newline_push msg ch) (\<lambda>msg1. newline_loop n cb msg1 iob1 s)))"

text \<open>Every pass takes a byte, so the loop needs one pass more than there are bytes.\<close>

definition newline_msg_parser_consume ::
  "(NewLineMsg \<Rightarrow> int \<Rightarrow> 's \<Rightarrow> 's res) \<Rightarrow> NewLineMsgParser \<Rightarrow> IOBuffer \<Rightarrow> 's \<Rightarrow>
   (NewLineMsgParser \<times> IOBuffer \<times> 's) res" where
  "newline_msg_parser_consume cb mp iob s =
     rbind (newline_loop (Suc (nat (IOBuffer_data_len iob))) cb (nmp_msg mp) iob s) (\<lambda>(msg, iob1, s1).
     Inr (mp\<lparr>nmp_msg := msg\<rparr>, iob1, s1))"

section \<open>Messages between control characters\<close>

record DemoMsg =
  dm_body :: "IOBuffer option"

definition demo_msg_new :: "DemoMsg res" where
  "demo_msg_new = rbind (IOBuffer_new_with_capacity 1024) (\<lambda>iob. Inr \<lparr>dm_body = Some iob\<rparr>)"

definition demo_msg_new_request :: "DemoMsg res" where
  "demo_msg_new_request = demo_msg_new"

definition demo_msg_new_response :: "DemoMsg res" where
  "demo_msg_new_response = demo_msg_new"

definition body_of :: "DemoMsg \<Rightarrow> IOBuffer res" where
  "body_of m = (case dm_body m of None \<Rightarrow> Inl Null_deref | Some iob \<Rightarrow> Inr iob)"

definition get_body_first_char :: "DemoMsg \<Rightarrow> char res" where
  "get_body_first_char m =
     rbind (body_of m) (\<lambda>iob.
     rbind (c_assert (IOBuffer_data_len iob > 1)) (\<lambda>_. mem_get (mem_p iob) (IOBuffer_data iob)))"

definition set_body_first_char :: "DemoMsg \<Rightarrow> char \<Rightarrow> DemoMsg res" where
  "set_body_first_char m c =
     rbind (body_of m) (\<lambda>iob.
     rbind (mem_put (mem_p iob) (IOBuffer_data iob) c) (\<lambda>mm. Inr (m\<lparr>dm_body := Some (iob\<lparr>mem_p := mm\<rparr>)\<rparr>)))"

definition demo_msg_serialize :: "DemoMsg \<Rightarrow> IOBuffer res" where
  "demo_msg_serialize m =
     rbind (body_of m) (\<lambda>body.
     rbind (IOBuffer_new_with_capacity (IOBuffer_data_len body + 64)) (\<lambda>iob.
     rbind (IOBuffer_cstr body) (\<lambda>s. IOBuffer_sprintf iob (CHR 0x02 # s @ [CHR 0x03]))))"

definition demo_msg_get_is_request :: "DemoMsg \<Rightarrow> bool res" where
  "demo_msg_get_is_request m = rbind (get_body_first_char m) (\<lambda>c. Inr (c = CHR ''R''))"

definition demo_msg_get_body :: "DemoMsg \<Rightarrow> IOBuffer option" where
  "demo_msg_get_body m = dm_body m"

definition demo_msg_get_content :: "DemoMsg \<Rightarrow> IOBuffer option" where
  "demo_msg_get_content m = dm_body m"

definition demo_msg_set_content :: "DemoMsg \<Rightarrow> IOBuffer option \<Rightarrow> DemoMsg" where
  "demo_msg_set_content m content = m\<lparr>dm_body := content\<rparr>"

definition demo_msg_set_body :: "DemoMsg \<Rightarrow> IOBuffer option \<Rightarrow> DemoMsg" where
  "demo_msg_set_body m iob = demo_msg_set_content m iob"

datatype demo_state = STATE_IDLE | STATE_SOH_WAIT | STATE_OPCODE | STATE_STX_WAIT | STATE_BODY
  | STATE_EXT_WAIT | STATE_LRC | STATE_EOT_WAIT | STATE_ERROR_RECOVERY

record DemoMsgParser =
  m_state :: demo_state
  m_current_message :: "DemoMsg option"

definition demo_msg_parser_new :: DemoMsgParser where
  "demo_msg_parser_new = \<lparr>m_state = STATE_IDLE, m_current_message = None\<rparr>"

definition demo_msg_parser_initialize :: "DemoMsgParser \<Rightarrow> DemoMsgParser" where
  "demo_msg_parser_initialize this = this\<lparr>m_current_message := None\<rparr>"

definition CH_STX :: char where "CH_STX = CHR 0x02"

definition CH_ETX :: char where "CH_ETX = CHR 0x03"

text \<open>
  \<open>isprint\<close> in the C locale. The parser passes it a byte as a \<open>char\<close> widened to \<open>int\<close>: where \<open>char\<close> is
  signed, a byte from 0x80 on is a negative argument, for which C defines no result other than for
  \<open>EOF\<close>. The model takes what \<open>glibc\<close> documents, whose table has entries from \<open>-128\<close> on: not printable.
\<close>

definition isprint :: "char \<Rightarrow> bool" where
  "isprint c \<longleftrightarrow> 0x20 \<le> (of_char c :: nat) \<and> (of_char c :: nat) \<le> 0x7E"

definition demo_current :: "DemoMsgParser \<Rightarrow> DemoMsg res" where
  "demo_current p = (case m_current_message p of None \<Rightarrow> Inl Null_deref | Some m \<Rightarrow> Inr m)"

text \<open>
  The switch on the state, for the byte \<open>ch\<close>; \<open>is_last\<close> says whether it ends the buffer. The pointer
  that the debugging call of \<open>IOBuffer_cstr\<close> returns is never read.
\<close>

definition demo_switch ::
  "(DemoMsg \<Rightarrow> int \<Rightarrow> 's \<Rightarrow> 's res) \<Rightarrow> char \<Rightarrow> bool \<Rightarrow> DemoMsgParser \<Rightarrow> 's \<Rightarrow> (DemoMsgParser \<times> 's) res" where
  "demo_switch cb ch is_last p s =
     (case m_state p of
        STATE_IDLE \<Rightarrow> Inr (if ch = CH_STX then p\<lparr>m_state := STATE_BODY\<rparr> else p, s)
      | STATE_BODY \<Rightarrow>
          if isprint ch then
            rbind (demo_current p) (\<lambda>m.
            rbind (body_of m) (\<lambda>iob.
            rbind (IOBuffer_commit_push_back iob ch) (\<lambda>iob1.
            Inr (p\<lparr>m_current_message := Some (m\<lparr>dm_body := Some iob1\<rparr>)\<rparr>, s))))
          else if ch = CH_ETX then
            rbind (demo_current p) (\<lambda>m.
            rbind (cb m 0 s) (\<lambda>s1.
            rbind demo_msg_new (\<lambda>m1.
            Inr (p\<lparr>m_current_message := Some m1, m_state := STATE_IDLE\<rparr>, s1))))
          else Inr (p\<lparr>m_state := STATE_ERROR_RECOVERY\<rparr>, s)
      | STATE_ERROR_RECOVERY \<Rightarrow>
          if ch = CH_STX \<and> \<not> is_last then Inr (p\<lparr>m_state := STATE_BODY\<rparr>, s)
          else if is_last then rbind demo_msg_new (\<lambda>m1. Inr (p\<lparr>m_current_message := Some m1\<rparr>, s))
          else Inr (p, s)
      | _ \<Rightarrow> Inl Assert_fail)"

definition demo_byte ::
  "(DemoMsg \<Rightarrow> int \<Rightarrow> 's \<Rightarrow> 's res) \<Rightarrow> int \<Rightarrow> nat \<Rightarrow> nat \<Rightarrow>
   DemoMsgParser \<times> IOBuffer \<times> 's \<Rightarrow> (DemoMsgParser \<times> IOBuffer \<times> 's) res" where
  "demo_byte cb charbuf len i st =
     (case st of (p, iob, s) \<Rightarrow>
        rbind (mem_get (mem_p iob) (IOBuffer_data iob)) (\<lambda>ch2.
        rbind (IOBuffer_consume iob 1) (\<lambda>iob1.
        rbind (mem_get (mem_p iob1) (charbuf + int i)) (\<lambda>ch.
        rbind (c_assert (ch = ch2)) (\<lambda>_.
        rbind (demo_switch cb ch (Suc i = len) p s) (\<lambda>(p1, s1). Inr (p1, iob1, s1)))))))"

definition demo_msg_parser_consume ::
  "(DemoMsg \<Rightarrow> int \<Rightarrow> 's \<Rightarrow> 's res) \<Rightarrow> DemoMsgParser \<Rightarrow> IOBuffer \<Rightarrow> 's \<Rightarrow>
   (DemoMsgParser \<times> IOBuffer \<times> 's) res" where
  "demo_msg_parser_consume cb p iob s =
     (let len = nat (IOBuffer_data_len iob) in
      rbind (case m_current_message p of
               None \<Rightarrow> rbind demo_msg_new (\<lambda>m. Inr (p\<lparr>m_current_message := Some m\<rparr>))
             | Some m \<Rightarrow> Inr p) (\<lambda>p1.
      rbind (c_assert (IOBuffer_data_len iob \<noteq> 0)) (\<lambda>_.
      fold_res (demo_byte cb (IOBuffer_data iob) len) [0..<len] (p1, iob, s))))"

section \<open>Message streams\<close>

text \<open>
  The parameters stand for the macros \<open>MSG_PARSER_CONSUME\<close> and \<open>MSG_SERIALIZE\<close>. What \<open>read\<close> returns is
  an argument, the empty string for the end of the stream; \<open>nw\<close> is what \<open>write\<close> returns.
\<close>

record 'm MStream =
  ms_fd :: int
  input_msg_list :: "'m List"

definition new_msg_cb :: "'m \<Rightarrow> int \<Rightarrow> 'm List \<Rightarrow> 'm List res" where
  "new_msg_cb nm error_code lst = List_add_back lst nm"

definition mstream_init :: "int \<Rightarrow> 'm MStream" where
  "mstream_init fd = \<lparr>ms_fd = fd, input_msg_list = List_new\<rparr>"

definition mstream_new :: "int \<Rightarrow> 'm MStream" where
  "mstream_new fd = mstream_init fd"

definition mstream_write :: "('m \<Rightarrow> IOBuffer res) \<Rightarrow> 'm \<Rightarrow> int \<Rightarrow> char list res" where
  "mstream_write serialize m nw =
     rbind (serialize m) (\<lambda>iob.
     rbind (c_assert (nw = IOBuffer_data_len iob)) (\<lambda>_.
     mem_read (mem_p iob) (IOBuffer_data iob) (IOBuffer_data_len iob)))"

fun mstream_read ::
  "(('m \<Rightarrow> int \<Rightarrow> 'm List \<Rightarrow> 'm List res) \<Rightarrow> 'p \<Rightarrow> IOBuffer \<Rightarrow> 'm List \<Rightarrow> ('p \<times> IOBuffer \<times> 'm List) res) \<Rightarrow>
   'm MStream \<Rightarrow> 'p \<Rightarrow> char list list \<Rightarrow> ('m option \<times> 'm MStream \<times> 'p \<times> char list list) res" where
  "mstream_read consume stream parser reads =
     (if List_size (input_msg_list stream) > 0 then
        rbind (List_remove_first (input_msg_list stream)) (\<lambda>(m, lst).
        Inr (m, stream\<lparr>input_msg_list := lst\<rparr>, parser, reads))
      else
        rbind IOBuffer_new (\<lambda>iob.
        case reads of
          [] \<Rightarrow> Inl Would_block
        | bs # reads1 \<Rightarrow>
            rbind (c_assert (bs \<noteq> [])) (\<lambda>_.
            rbind (read_into iob bs) (\<lambda>iob1.
            rbind (consume new_msg_cb parser iob1 (input_msg_list stream)) (\<lambda>(parser1, iob2, lst).
            mstream_read consume (stream\<lparr>input_msg_list := lst\<rparr>) parser1 reads1)))))"

declare mstream_read.simps [simp del]

fun mstream_read_n ::
  "nat \<Rightarrow> (('m \<Rightarrow> int \<Rightarrow> 'm List \<Rightarrow> 'm List res) \<Rightarrow> 'p \<Rightarrow> IOBuffer \<Rightarrow> 'm List \<Rightarrow> ('p \<times> IOBuffer \<times> 'm List) res) \<Rightarrow>
   'm MStream \<times> 'p \<times> char list list \<Rightarrow> 'm option list res" where
  "mstream_read_n 0 consume st = Inr []"
| "mstream_read_n (Suc n) consume st =
     (case st of (stream, parser, reads) \<Rightarrow>
        rbind (mstream_read consume stream parser reads) (\<lambda>(m, st1).
        rbind (mstream_read_n n consume st1) (\<lambda>ms. Inr (m # ms))))"

section \<open>What a stream relies on\<close>

text \<open>A buffer after all of its data was consumed.\<close>

definition drained :: "IOBuffer \<Rightarrow> IOBuffer \<Rightarrow> bool" where
  "drained b b' \<longleftrightarrow> iob_holds b' [] \<and> buffer_capacity b' = buffer_capacity b"

text \<open>
  A message format: \<open>run\<close> is the parser on strings, from a state to the texts it completes and the
  next state; \<open>fits\<close> says which input it takes without an error; \<open>encode\<close> is the text of a message on
  the wire.
\<close>

locale msg_format =
  fixes run :: "'a \<Rightarrow> char list \<Rightarrow> char list list \<times> 'a"
    and init :: 'a
    and fits :: "'a \<Rightarrow> char list \<Rightarrow> bool"
    and encode :: "char list \<Rightarrow> char list"
    and ok :: "char list \<Rightarrow> bool"
    and rep :: "'p \<Rightarrow> 'a \<Rightarrow> bool"
    and holds :: "'m \<Rightarrow> char list \<Rightarrow> bool"
    and consume :: "('m \<Rightarrow> int \<Rightarrow> 'm List \<Rightarrow> 'm List res) \<Rightarrow> 'p \<Rightarrow> IOBuffer \<Rightarrow> 'm List \<Rightarrow>
                    ('p \<times> IOBuffer \<times> 'm List) res"
    and serialize :: "'m \<Rightarrow> IOBuffer res"
  assumes run_append: "fits a xs \<Longrightarrow>
        run a (xs @ ys) = (fst (run a xs) @ fst (run (snd (run a xs)) ys), snd (run (snd (run a xs)) ys))"
    and run_Nil: "run a [] = ([], a)"
    and fits_append: "fits a (xs @ ys) \<longleftrightarrow> fits a xs \<and> fits (snd (run a xs)) ys"
    and fits_Nil: "fits a []"
    and run_length: "length (fst (run a xs)) \<le> length xs"
    and run_encode: "ok s \<Longrightarrow> run init (encode s) = ([s], init)" "ok s \<Longrightarrow> fits init (encode s)"
    and consume_law:
      "\<lbrakk> rep p a; iob_holds iob c; c \<noteq> []; fits a c \<rbrakk> \<Longrightarrow>
       \<exists>ms p1 iob1. list_all2 holds ms (fst (run a c)) \<and> rep p1 (snd (run a c)) \<and> drained iob iob1 \<and>
         (\<forall>h s. consume h p iob s = rbind (fold_res (\<lambda>m. h m 0) ms s) (\<lambda>s1. Inr (p1, iob1, s1)))"
    and serialize_law: "\<lbrakk> holds m s; ok s \<rbrakk> \<Longrightarrow> \<exists>iob. serialize m = Inr iob \<and> iob_holds iob (encode s)"
begin

lemma run_frames:
  "list_all ok ss \<Longrightarrow> run init (concat (map encode ss)) = (ss, init) \<and> fits init (concat (map encode ss))"
  by (induction ss) (simp_all add: run_Nil fits_Nil run_append fits_append run_encode)

lemma read_next:
  assumes "List_ok (input_msg_list st)" "rep p a" "fits a (concat cs)"
    "list_all2 holds ms0 xs" "contents (input_msg_list st) = ms0" "xs @ fst (run a (concat cs)) = x # rest"
    "list_all (\<lambda>c. c \<noteq> [] \<and> length c \<le> 4096) cs"
  shows "\<exists>m st' p' cs' a' ms1 ys. mstream_read consume st p cs = Inr (Some m, st', p', cs') \<and> holds m x \<and>
    List_ok (input_msg_list st') \<and> rep p' a' \<and> fits a' (concat cs') \<and> list_all2 holds ms1 ys \<and>
    contents (input_msg_list st') = ms1 \<and> ys @ fst (run a' (concat cs')) = rest \<and>
    list_all (\<lambda>c. c \<noteq> [] \<and> length c \<le> 4096) cs'"
  using assms
proof (induction cs arbitrary: st p a ms0 xs)
  case Nil
  then have xs: "xs = x # rest" by (simp add: run_Nil)
  with Nil.prems(4) obtain m ms' where m: "ms0 = m # ms'" "holds m x" "list_all2 holds ms' rest"
    by (auto simp: list_all2_Cons2)
  from lq.remove_first_law [OF Nil.prems(1)] m(1) Nil.prems(5) obtain l' where
    "List_remove_first (input_msg_list st) = Inr (Some m, l')" "List_ok l'" "contents l' = ms'" by auto
  moreover have "List_size (input_msg_list st) > 0" using lq.size_law [OF Nil.prems(1)] Nil.prems(5) m(1) by simp
  ultimately show ?case
    using m Nil.prems(2,3)
    by (intro exI [of _ m] exI [of _ "st\<lparr>input_msg_list := l'\<rparr>"] exI [of _ p] exI [of _ "[]"] exI [of _ a]
        exI [of _ ms'] exI [of _ rest])
      (simp add: mstream_read.simps run_Nil)
next
  case (Cons c cs)
  show ?case
  proof (cases xs)
    case (Cons y ys)
    with Cons.prems(4) obtain m ms' where m: "ms0 = m # ms'" "holds m y" "list_all2 holds ms' ys"
      by (auto simp: list_all2_Cons2)
    from lq.remove_first_law [OF Cons.prems(1)] m(1) Cons.prems(5) obtain l' where
      "List_remove_first (input_msg_list st) = Inr (Some m, l')" "List_ok l'" "contents l' = ms'" by auto
    moreover have "List_size (input_msg_list st) > 0" using lq.size_law [OF Cons.prems(1)] Cons.prems(5) m(1) by simp
    ultimately show ?thesis
      using m Cons Cons.prems(2,3,6,7)
      by (intro exI [of _ m] exI [of _ "st\<lparr>input_msg_list := l'\<rparr>"] exI [of _ p] exI [of _ "c # cs"] exI [of _ a]
          exI [of _ ms'] exI [of _ ys])
        (simp add: mstream_read.simps)
  next
    case Nil
    with Cons.prems(4) have ms0: "ms0 = []" by simp
    from Cons.prems(7) have c: "c \<noteq> []" "length c \<le> 4096" by simp_all
    with read_into_holds [of c 4096] obtain iob iob1 where
      iob: "IOBuffer_new = Inr iob" "read_into iob c = Inr iob1" "iob_holds iob1 c"
      by (auto simp: INT_MAX_def IOBuffer_new_def IOBUFFER_DEFAULT_CAPACITY_def)
    from Cons.prems(3) have f: "fits a c" "fits (snd (run a c)) (concat cs)" by (simp_all add: fits_append)
    from consume_law [OF Cons.prems(2) iob(3) c(1) f(1)] obtain ms p1 iob2 where
      ms: "list_all2 holds ms (fst (run a c))" "rep p1 (snd (run a c))"
      "\<And>h s. consume h p iob1 s = rbind (fold_res (\<lambda>m. h m 0) ms s) (\<lambda>s1. Inr (p1, iob2, s1))" by blast
    have "length ms \<le> 4096"
      using run_length [of a c] c(2) list_all2_lengthD [OF ms(1)] by simp
    with lq.add_all [OF Cons.prems(1), of ms] Cons.prems(5) ms0 obtain L where
      L: "fold_res (\<lambda>m. new_msg_cb m 0) ms (input_msg_list st) = Inr L" "List_ok L" "contents L = ms"
      by (auto simp: new_msg_cb_def [abs_def] INT_MAX_def)
    have "List_size (input_msg_list st) = 0" using lq.size_law [OF Cons.prems(1)] Cons.prems(5) ms0 by simp
    then have "mstream_read consume st p (c # cs) = mstream_read consume (st\<lparr>input_msg_list := L\<rparr>) p1 cs"
      using iob(2) c(1) by (subst mstream_read.simps, unfold iob(1)) (simp add: ms(3) L(1) c_assert_def)
    moreover have "fst (run a c) @ fst (run (snd (run a c)) (concat cs)) = x # rest"
      using Cons.prems(6) Nil f(1) by (simp add: run_append)
    ultimately show ?thesis
      using Cons.IH [of "st\<lparr>input_msg_list := L\<rparr>" p1 "snd (run a c)" ms "fst (run a c)"] L ms(1,2) f(2) Cons.prems(7)
      by simp
  qed
qed

lemma read_all:
  assumes "List_ok (input_msg_list st)" "rep p a" "fits a (concat cs)"
    "list_all2 holds (contents (input_msg_list st)) xs" "xs @ fst (run a (concat cs)) = ss"
    "list_all (\<lambda>c. c \<noteq> [] \<and> length c \<le> 4096) cs"
  shows "\<exists>ms. mstream_read_n (length ss) consume (st, p, cs) = Inr (map Some ms) \<and> list_all2 holds ms ss"
  using assms
proof (induction ss arbitrary: st p a cs xs)
  case (Cons x rest)
  from read_next [OF Cons.prems(1-4) refl Cons.prems(5,6)] obtain m st' p' cs' a' ys where
    r: "mstream_read consume st p cs = Inr (Some m, st', p', cs')" "holds m x" "List_ok (input_msg_list st')"
    "rep p' a'" "fits a' (concat cs')" "list_all2 holds (contents (input_msg_list st')) ys"
    "ys @ fst (run a' (concat cs')) = rest" "list_all (\<lambda>c. c \<noteq> [] \<and> length c \<le> 4096) cs'" by blast
  from Cons.IH [OF r(3-8)] obtain ms where
    "mstream_read_n (length rest) consume (st', p', cs') = Inr (map Some ms)" "list_all2 holds ms rest" by blast
  with r(1,2) show ?case by (intro exI [of _ "m # ms"]) simp
qed (intro exI [of _ "[]"], simp)

text \<open>What is written is read back, in any pieces.\<close>

lemma written_is_read:
  assumes "rep p init" "list_all2 holds ms ss" "list_all ok ss" "list_all (\<lambda>c. c \<noteq> [] \<and> length c \<le> 4096) cs"
    "concat cs = concat (map encode ss)"
  shows "\<exists>outs ms'. list_all2 (\<lambda>m out. mstream_write serialize m (int (length out)) = Inr out) ms outs \<and>
    concat cs = concat outs \<and>
    mstream_read_n (length ms) consume (mstream_new fd, p, cs) = Inr (map Some ms') \<and> list_all2 holds ms' ss"
proof -
  have w: "mstream_write serialize m (int (length (encode s))) = Inr (encode s)" if h: "holds m s" "ok s" for m s
  proof -
    from serialize_law [OF h] obtain iob where
      iob: "serialize m = Inr iob" "iob_holds iob (encode s)" by blast
    then have "IOBuffer_data_len iob = int (length (encode s))"
      using iob_holds_remaining [OF iob(2)] by (simp add: IOBuffer_data_len_def)
    moreover have "mem_read (mem_p iob) (IOBuffer_data iob) (IOBuffer_data_len iob) = Inr (encode s)"
      using iob_range [of iob] iob(2) by (auto simp: iob_holds_def mem_read_def mem_range_def split: if_splits)
    ultimately show ?thesis using iob(1) by (simp add: mstream_write_def c_assert_def)
  qed
  have "list_all2 (\<lambda>m out. mstream_write serialize m (int (length out)) = Inr out) ms (map encode ss)"
    using assms(2,3) by (induction ms ss rule: list_all2_induct) (simp_all add: w)
  moreover have "run init (concat cs) = (ss, init)" "fits init (concat cs)"
    using run_frames [OF assms(3)] assms(5) by simp_all
  moreover have "length ms = length ss" using assms(2) by (rule list_all2_lengthD)
  ultimately show ?thesis
    using read_all [of "mstream_new fd" p init cs "[]" ss] assms(1,4,5)
    by (intro exI [of _ "map encode ss"]) (simp add: mstream_new_def mstream_init_def lq.new_law)
qed

end

section \<open>Contents\<close>

text \<open>A message keeps its text from the start of a buffer of its own, with a zero byte after it.\<close>

definition content_holds :: "int \<Rightarrow> IOBuffer option \<Rightarrow> char list \<Rightarrow> bool" where
  "content_holds cap ob s \<longleftrightarrow>
     (\<exists>iob. ob = Some iob \<and> iob_holds iob s \<and> buffer_capacity iob = cap \<and> (s \<noteq> [] \<longrightarrow> iob_terminated iob))"

lemma content_new:
  assumes "0 < n" "n < INT_MAX"
  shows "\<exists>iob. IOBuffer_new_with_capacity n = Inr iob \<and> content_holds n (Some iob) []"
  using IOBuffer_new_ok [of n] assms by (auto simp: content_holds_def iob_holds_def)

lemma content_push:
  assumes "content_holds cap ob s" "int (length s) < cap"
  shows "\<exists>iob iob1. ob = Some iob \<and> IOBuffer_commit_push_back iob c = Inr iob1 \<and>
    content_holds cap (Some iob1) (s @ [c])"
proof -
  from assms(1) obtain iob where iob: "ob = Some iob" "iob_holds iob s" "buffer_capacity iob = cap"
    by (auto simp: content_holds_def)
  from IOBuffer_data_add_holds [OF iob(2), of "[c]"] assms(2) iob(1,3) show ?thesis
    by (auto simp: IOBuffer_commit_push_back_def content_holds_def)
qed

lemma content_cstr:
  assumes "content_holds cap ob s" "s \<noteq> []" "CHR 0x00 \<notin> set s"
  shows "\<exists>iob. ob = Some iob \<and> IOBuffer_cstr iob = Inr s \<and> IOBuffer_data_len iob = int (length s)"
  using assms IOBuffer_cstr_holds iob_holds_remaining
  by (fastforce simp: content_holds_def no_nul_def IOBuffer_data_len_def)

section \<open>The newline format\<close>

fun nl_run :: "char list \<Rightarrow> char list \<Rightarrow> char list list \<times> char list" where
  "nl_run pend [] = ([], pend)"
| "nl_run pend (c # cs) =
     (if c = CHR 0x0A \<or> c = CHR 0x00 then (pend # fst (nl_run [] cs), snd (nl_run [] cs))
      else nl_run (pend @ [c]) cs)"

fun nl_fits :: "char list \<Rightarrow> char list \<Rightarrow> bool" where
  "nl_fits pend [] \<longleftrightarrow> True"
| "nl_fits pend (c # cs) \<longleftrightarrow>
     (if c = CHR 0x0A \<or> c = CHR 0x00 then nl_fits [] cs else length pend < 4096 \<and> nl_fits (pend @ [c]) cs)"

definition nl_encode :: "char list \<Rightarrow> char list" where
  "nl_encode s = s @ [CHR 0x0A]"

definition nl_ok :: "char list \<Rightarrow> bool" where
  "nl_ok s \<longleftrightarrow> s \<noteq> [] \<and> length s < 4095 \<and> CHR 0x0A \<notin> set s \<and> CHR 0x00 \<notin> set s"

definition nl_holds :: "NewLineMsg \<Rightarrow> char list \<Rightarrow> bool" where
  "nl_holds m s \<longleftrightarrow> content_holds 4096 (nm_iob m) s"

definition nl_rep :: "NewLineMsgParser \<Rightarrow> char list \<Rightarrow> bool" where
  "nl_rep p pend \<longleftrightarrow> nl_holds (nmp_msg p) pend"

lemma nl_run_append:
  "nl_run a (xs @ ys) = (fst (nl_run a xs) @ fst (nl_run (snd (nl_run a xs)) ys), snd (nl_run (snd (nl_run a xs)) ys))"
  by (induction a xs rule: nl_run.induct) simp_all

lemma nl_fits_append: "nl_fits a (xs @ ys) \<longleftrightarrow> nl_fits a xs \<and> nl_fits (snd (nl_run a xs)) ys"
  by (induction a xs rule: nl_run.induct) simp_all

lemma nl_run_length: "length (fst (nl_run a xs)) \<le> length xs"
  by (induction a xs rule: nl_run.induct) auto

lemma nl_run_text:
  "CHR 0x0A \<notin> set s \<Longrightarrow> CHR 0x00 \<notin> set s \<Longrightarrow> nl_run a s = ([], a @ s) \<and> (length a + length s \<le> 4096 \<longrightarrow> nl_fits a s)"
  by (induction s arbitrary: a) auto

lemma nl_run_encode:
  assumes "nl_ok s"
  shows "nl_run [] (nl_encode s) = ([s], [])" "nl_fits [] (nl_encode s)"
  using assms nl_run_text [of s "[]"] by (simp_all add: nl_encode_def nl_run_append nl_fits_append nl_ok_def)

lemma iob_data_head:
  assumes "iob_ok b" "iob_data b = Some ch # d"
  shows "1 \<le> buffer_remaining b" "mem_get (mem_p b) (IOBuffer_data b) = Inr ch"
proof -
  show r: "1 \<le> buffer_remaining b" using length_iob_data [OF assms(1)] assms(2) by simp
  from assms have "nat (buffer_ptr b) < length (mem_p b)" by (auto simp: iob_data_def iob_ok_def)
  then have "iob_data b = take (nat (buffer_remaining b))
      (mem_p b ! nat (buffer_ptr b) # drop (Suc (nat (buffer_ptr b))) (mem_p b))"
    by (simp add: iob_data_def Cons_nth_drop_Suc)
  with assms(2) r have "mem_p b ! nat (buffer_ptr b) = Some ch"
    by (cases "nat (buffer_remaining b)") auto
  with \<open>nat (buffer_ptr b) < length (mem_p b)\<close> show "mem_get (mem_p b) (IOBuffer_data b) = Inr ch"
    using assms(1) by (simp add: mem_get_def IOBuffer_data_def iob_ok_def)
qed

lemma iob_pop_front:
  assumes "iob_ok b" "iob_data b = Some ch # d"
  shows "\<exists>b'. IOBuffer_consume_pop_front b = Inr (ch, b') \<and> iob_ok b' \<and> iob_data b' = d \<and>
    buffer_capacity b' = buffer_capacity b \<and> (d = [] \<longrightarrow> buffer_ptr b' = 0)"
  using iob_data_head [OF assms] IOBuffer_consume_ok(1) [OF assms(1), of 1] assms(2) length_iob_data [OF assms(1)]
  by (auto simp: INT_MAX_def IOBuffer_consume_pop_front_def)

lemma newline_msg_new_holds: "\<exists>m. newline_msg_new = Inr m \<and> nl_holds m []"
  using content_new [of 4096]
  by (auto simp: newline_msg_new_def newline_msg_init_def nl_holds_def IOBuffer_new_def
      IOBUFFER_DEFAULT_CAPACITY_def INT_MAX_def)

lemma newline_push_holds:
  assumes "nl_holds m s" "length s < 4096"
  shows "\<exists>m'. newline_push m c = Inr m' \<and> nl_holds m' (s @ [c])"
  using content_push [of 4096 "nm_iob m" s c] assms
  by (auto simp: newline_push_def newline_msg_get_content_def nl_holds_def)

lemma newline_loop_sim:
  assumes "nl_holds m pend" "iob_ok iob" "iob_data iob = map Some c" "nl_fits pend c" "length c < n"
    "c = [] \<longrightarrow> buffer_ptr iob = 0"
  shows "\<exists>ms m1 iob1. list_all2 nl_holds ms (fst (nl_run pend c)) \<and> nl_holds m1 (snd (nl_run pend c)) \<and>
    drained iob iob1 \<and> (\<forall>(h :: NewLineMsg \<Rightarrow> int \<Rightarrow> 's \<Rightarrow> 's res) s. newline_loop n h m iob s = rbind (fold_res (\<lambda>m. h m 0) ms s) (\<lambda>s1. Inr (m1, iob1, s1)))"
  using assms
proof (induction c arbitrary: pend m iob n)
  case Nil
  then obtain k where "n = Suc k" by (cases n) auto
  moreover have "IOBuffer_empty iob" using length_iob_data [OF Nil(2)] Nil(3) by (simp add: IOBuffer_empty_def)
  ultimately show ?case using Nil(1-3,6)
    by (intro exI [of _ "[]"] exI [of _ m] exI [of _ iob]) (simp add: drained_def iob_holds_def)
next
  case (Cons ch c)
  then obtain k where k: "n = Suc k" "length c < k" by (cases n) auto
  have ne: "\<not> IOBuffer_empty iob" using length_iob_data [OF Cons.prems(2)] Cons.prems(3) by (simp add: IOBuffer_empty_def)
  from iob_pop_front [OF Cons.prems(2), of ch "map Some c"] Cons.prems(3) obtain iob1 where
    iob1: "IOBuffer_consume_pop_front iob = Inr (ch, iob1)" "iob_ok iob1" "iob_data iob1 = map Some c"
    "c = [] \<longrightarrow> buffer_ptr iob1 = 0" "buffer_capacity iob1 = buffer_capacity iob" by auto
  show ?case
  proof (cases "ch = CHR 0x0A \<or> ch = CHR 0x00")
    case True
    from newline_msg_new_holds obtain m0 where m0: "newline_msg_new = Inr m0" "nl_holds m0 []" by blast
    from Cons.IH [OF m0(2) iob1(2,3) _ k(2) iob1(4)] Cons.prems(4) True obtain ms m1 iob2 where
      ih: "list_all2 nl_holds ms (fst (nl_run [] c))" "nl_holds m1 (snd (nl_run [] c))" "drained iob1 iob2"
      "\<And>(h :: NewLineMsg \<Rightarrow> int \<Rightarrow> 's \<Rightarrow> 's res) s. newline_loop k h m0 iob1 s = rbind (fold_res (\<lambda>m. h m 0) ms s) (\<lambda>s1. Inr (m1, iob2, s1))" by auto
    have "newline_loop k h m0 iob1 = (\<lambda>s. rbind (fold_res (\<lambda>m. h m 0) ms s) (\<lambda>s1. Inr (m1, iob2, s1)))"
      for h :: "NewLineMsg \<Rightarrow> int \<Rightarrow> 's \<Rightarrow> 's res" by (rule ext) (rule ih(4))
    then have "newline_loop n h m iob s = rbind (fold_res (\<lambda>m. h m 0) (m # ms) s) (\<lambda>s1. Inr (m1, iob2, s1))"
      for h :: "NewLineMsg \<Rightarrow> int \<Rightarrow> 's \<Rightarrow> 's res" and s
      unfolding k(1) using ne iob1(1) True by (simp add: m0(1) rbind_assoc)
    with True ih(1-3) iob1(5) Cons.prems(1) show ?thesis
      by (intro exI [of _ "m # ms"] exI [of _ m1] exI [of _ iob2]) (simp add: drained_def)
  next
    case False
    from newline_push_holds [OF Cons.prems(1), of ch] Cons.prems(4) False obtain m0 where
      m0: "newline_push m ch = Inr m0" "nl_holds m0 (pend @ [ch])" by auto
    from Cons.IH [OF m0(2) iob1(2,3) _ k(2) iob1(4)] Cons.prems(4) False obtain ms m1 iob2 where
      ih: "list_all2 nl_holds ms (fst (nl_run (pend @ [ch]) c))" "nl_holds m1 (snd (nl_run (pend @ [ch]) c))" "drained iob1 iob2"
      "\<And>(h :: NewLineMsg \<Rightarrow> int \<Rightarrow> 's \<Rightarrow> 's res) s. newline_loop k h m0 iob1 s = rbind (fold_res (\<lambda>m. h m 0) ms s) (\<lambda>s1. Inr (m1, iob2, s1))" by auto
    have "newline_loop n h m iob s = rbind (fold_res (\<lambda>m. h m 0) ms s) (\<lambda>s1. Inr (m1, iob2, s1))"
      for h :: "NewLineMsg \<Rightarrow> int \<Rightarrow> 's \<Rightarrow> 's res" and s
      unfolding k(1) using ne iob1(1) False by (simp add: m0(1) ih(4))
    with False ih(1-3) iob1(5) show ?thesis
      by (intro exI [of _ ms] exI [of _ m1] exI [of _ iob2]) (simp add: drained_def)
  qed
qed

lemma newline_consume_law:
  assumes "nl_rep p a" "iob_holds iob c" "c \<noteq> []" "nl_fits a c"
  shows "\<exists>ms p1 iob1. list_all2 nl_holds ms (fst (nl_run a c)) \<and> nl_rep p1 (snd (nl_run a c)) \<and>
    drained iob iob1 \<and> (\<forall>(h :: NewLineMsg \<Rightarrow> int \<Rightarrow> 's \<Rightarrow> 's res) s.
       newline_msg_parser_consume h p iob s = rbind (fold_res (\<lambda>m. h m 0) ms s) (\<lambda>s1. Inr (p1, iob1, s1)))"
proof -
  have n: "nat (IOBuffer_data_len iob) = length c"
    using iob_holds_remaining [OF assms(2)] by (simp add: IOBuffer_data_len_def)
  from newline_loop_sim [of "nmp_msg p" a iob c "Suc (length c)", where 's = 's] assms obtain ms m1 iob1 where
    "list_all2 nl_holds ms (fst (nl_run a c))" "nl_holds m1 (snd (nl_run a c))" "drained iob iob1"
    "\<And>(h :: NewLineMsg \<Rightarrow> int \<Rightarrow> 's \<Rightarrow> 's res) s. newline_loop (Suc (length c)) h (nmp_msg p) iob s =
       rbind (fold_res (\<lambda>m. h m 0) ms s) (\<lambda>s1. Inr (m1, iob1, s1))"
    by (auto simp: nl_rep_def iob_holds_def)
  then show ?thesis
    by (intro exI [of _ ms] exI [of _ "p\<lparr>nmp_msg := m1\<rparr>"] exI [of _ iob1])
      (simp add: newline_msg_parser_consume_def n nl_rep_def rbind_assoc del: newline_loop.simps)
qed

lemma sprintf_holds:
  assumes "0 < n" "n < INT_MAX" "out \<noteq> []" "int (length out) < n"
  shows "\<exists>iob iob1. IOBuffer_new_with_capacity n = Inr iob \<and> IOBuffer_sprintf iob out = Inr iob1 \<and> iob_holds iob1 out"
proof -
  from assms(1) have "0 \<le> n" by simp
  from IOBuffer_new_ok [OF this assms(2)] obtain iob where
    iob: "IOBuffer_new_with_capacity n = Inr iob" "iob_ok iob" "iob_data iob = []" "buffer_ptr iob = 0"
    "buffer_remaining iob = 0" "buffer_capacity iob = n" by blast
  from IOBuffer_sprintf_fits [OF iob(2) assms(3)] assms(4) iob show ?thesis
    by (auto simp: IOBuffer_space_len_def iob_holds_def)
qed

lemma newline_serialize_text:
  assumes "nm_iob m = Some b" "IOBuffer_cstr b = Inr s" "nl_ok s"
  shows "\<exists>iob. newline_msg_serialize m = Inr iob \<and> iob_holds iob (nl_encode s)"
proof -
  from sprintf_holds [of 4096 "nl_encode s"] assms(3) obtain iob iob1 where
    "IOBuffer_new = Inr iob" "IOBuffer_sprintf iob (nl_encode s) = Inr iob1" "iob_holds iob1 (nl_encode s)"
    by (auto simp: nl_ok_def nl_encode_def INT_MAX_def IOBuffer_new_def IOBUFFER_DEFAULT_CAPACITY_def)
  with assms(1,2) show ?thesis unfolding newline_msg_serialize_def \<open>IOBuffer_new = Inr iob\<close> by (simp add: nl_encode_def)
qed

lemma newline_content_text: "\<lbrakk> nl_holds m s; nl_ok s \<rbrakk> \<Longrightarrow> \<exists>b. nm_iob m = Some b \<and> IOBuffer_cstr b = Inr s"
  using content_cstr by (force simp: nl_holds_def nl_ok_def)

lemma newline_serialize_law:
  "\<lbrakk> nl_holds m s; nl_ok s \<rbrakk> \<Longrightarrow> \<exists>iob. newline_msg_serialize m = Inr iob \<and> iob_holds iob (nl_encode s)"
  using newline_content_text newline_serialize_text by blast

interpretation nlf: msg_format nl_run "[]" nl_fits nl_encode nl_ok nl_rep nl_holds
  newline_msg_parser_consume newline_msg_serialize
  by unfold_locales
    (fact nl_fits_append nl_run_length nl_run_encode newline_consume_law newline_serialize_law | simp add: nl_run_append)+

lemma newline_parser_new_rep: "\<exists>p. newline_msg_parser_new = Inr p \<and> nl_rep p []"
proof -
  from newline_msg_new_holds obtain m where m: "newline_msg_new = Inr m" "nl_holds m []" by blast
  obtain b where b: "IOBuffer_new = Inr b" using sprintf_holds [of 4096 "''x''"]
    by (auto simp: IOBuffer_new_def IOBUFFER_DEFAULT_CAPACITY_def INT_MAX_def)
  show ?thesis unfolding newline_msg_parser_new_def newline_msg_parser_init_def m(1) b
    using m(2) by (simp add: nl_rep_def)
qed

section \<open>The demo format\<close>

text \<open>
  The demo parser as an automaton on strings. A text in progress survives a byte that cannot be part
  of it: in recovery the parser keeps what it has, until the end of the buffer (\<open>is_last\<close>).
\<close>

datatype dm_state = DIdle | DBody "char list" | DRecover "char list"

fun dm_step :: "dm_state \<Rightarrow> char \<Rightarrow> bool \<Rightarrow> char list list \<times> dm_state" where
  "dm_step DIdle c is_last = ([], if c = CH_STX then DBody [] else DIdle)"
| "dm_step (DBody s) c is_last =
     (if isprint c then ([], DBody (s @ [c])) else if c = CH_ETX then ([s], DIdle) else ([], DRecover s))"
| "dm_step (DRecover s) c is_last =
     ([], if is_last then DRecover [] else if c = CH_STX then DBody s else DRecover s)"

fun dm_run :: "dm_state \<Rightarrow> char list \<Rightarrow> char list list \<times> dm_state" where
  "dm_run a [] = ([], a)"
| "dm_run a (c # cs) =
     (fst (dm_step a c (cs = [])) @ fst (dm_run (snd (dm_step a c (cs = []))) cs),
      snd (dm_run (snd (dm_step a c (cs = []))) cs))"

text \<open>There is room for every byte of a text.\<close>

definition dm_room1 :: "dm_state \<Rightarrow> char \<Rightarrow> bool" where
  "dm_room1 a c \<longleftrightarrow> (case a of DBody s \<Rightarrow> isprint c \<longrightarrow> length s < 1024 | _ \<Rightarrow> True)"

fun dm_room :: "dm_state \<Rightarrow> char list \<Rightarrow> bool" where
  "dm_room a [] \<longleftrightarrow> True"
| "dm_room a (c # cs) \<longleftrightarrow> dm_room1 a c \<and> dm_room (snd (dm_step a c (cs = []))) cs"

text \<open>The texts completed before a byte of a text finds no room.\<close>

fun dm_done :: "dm_state \<Rightarrow> char list \<Rightarrow> char list list" where
  "dm_done a [] = []"
| "dm_done a (c # cs) =
     (if dm_room1 a c
      then fst (dm_step a c (cs = [])) @ dm_done (snd (dm_step a c (cs = []))) cs
      else [])"

text \<open>Input with which the parser never recovers.\<close>

definition dm_fits1 :: "dm_state \<Rightarrow> char \<Rightarrow> bool" where
  "dm_fits1 a c \<longleftrightarrow>
     (case a of DIdle \<Rightarrow> True | DBody s \<Rightarrow> isprint c \<and> length s < 1024 \<or> c = CH_ETX | DRecover s \<Rightarrow> False)"

fun dm_fits :: "dm_state \<Rightarrow> char list \<Rightarrow> bool" where
  "dm_fits a [] \<longleftrightarrow> True"
| "dm_fits a (c # cs) \<longleftrightarrow> dm_fits1 a c \<and> dm_fits (snd (dm_step a c False)) cs"

definition dm_encode :: "char list \<Rightarrow> char list" where
  "dm_encode s = CH_STX # s @ [CH_ETX]"

definition dm_ok :: "char list \<Rightarrow> bool" where
  "dm_ok s \<longleftrightarrow> s \<noteq> [] \<and> length s \<le> 1024 \<and> list_all isprint s"

definition dm_holds :: "DemoMsg \<Rightarrow> char list \<Rightarrow> bool" where
  "dm_holds m s \<longleftrightarrow> content_holds 1024 (dm_body m) s"

definition dm_rep :: "DemoMsgParser \<Rightarrow> dm_state \<Rightarrow> bool" where
  "dm_rep p a \<longleftrightarrow>
     (case a of
        DIdle \<Rightarrow> m_state p = STATE_IDLE \<and> (\<forall>m. m_current_message p = Some m \<longrightarrow> dm_holds m [])
      | DBody s \<Rightarrow> m_state p = STATE_BODY \<and> (\<exists>m. m_current_message p = Some m \<and> dm_holds m s)
      | DRecover s \<Rightarrow> m_state p = STATE_ERROR_RECOVERY \<and> (\<exists>m. m_current_message p = Some m \<and> dm_holds m s))"

lemma isprint_control: "\<not> isprint CH_ETX" "\<not> isprint CH_STX" "\<not> isprint (CHR 0x00)"
  by (simp_all add: isprint_def CH_ETX_def CH_STX_def)

lemma dm_fits1_step: "NO_MATCH False l \<Longrightarrow> dm_fits1 a c \<Longrightarrow> dm_step a c l = dm_step a c False"
  by (cases a) (simp_all add: dm_fits1_def)

lemma dm_fits1_room: "dm_fits1 a c \<Longrightarrow> dm_room1 a c"
  by (cases a) (auto simp: dm_fits1_def dm_room1_def isprint_control)

lemma dm_fits_room: "dm_fits a cs \<Longrightarrow> dm_room a cs"
  by (induction cs arbitrary: a) (auto simp: dm_fits1_room dm_fits1_step)

lemma dm_run_append:
  "dm_fits a xs \<Longrightarrow>
   dm_run a (xs @ ys) = (fst (dm_run a xs) @ fst (dm_run (snd (dm_run a xs)) ys), snd (dm_run (snd (dm_run a xs)) ys))"
  by (induction xs arbitrary: a) (simp_all add: dm_fits1_step)

lemma dm_run_length: "length (fst (dm_run a xs)) \<le> length xs"
proof (induction xs arbitrary: a)
  case (Cons c cs)
  have "length (fst (dm_step a c (cs = []))) \<le> 1" by (cases a) simp_all
  with Cons [of "snd (dm_step a c (cs = []))"] show ?case by simp
qed simp

lemma dm_done_room: "dm_room a cs \<Longrightarrow> dm_done a cs = fst (dm_run a cs)"
  by (induction cs arbitrary: a) simp_all

lemma dm_fits_append: "dm_fits a (xs @ ys) \<longleftrightarrow> dm_fits a xs \<and> dm_fits (snd (dm_run a xs)) ys"
  by (induction xs arbitrary: a) (simp_all add: dm_fits1_step cong: conj_cong)

lemma dm_run_text:
  assumes "list_all isprint s" "length a + length s \<le> 1024"
  shows "dm_run (DBody a) s = ([], DBody (a @ s)) \<and> dm_fits (DBody a) s"
  using assms by (induction s arbitrary: a) (simp_all add: dm_fits1_def)

lemma dm_run_encode:
  assumes "dm_ok s"
  shows "dm_run DIdle (dm_encode s) = ([s], DIdle)" "dm_fits DIdle (dm_encode s)"
  using assms dm_run_text [of s "[]"]
  by (simp_all add: dm_encode_def dm_ok_def dm_run_append dm_fits_append dm_fits1_def isprint_control)

lemma demo_msg_new_holds: "\<exists>m. demo_msg_new = Inr m \<and> dm_holds m []"
  using content_new [of 1024] by (auto simp: demo_msg_new_def dm_holds_def INT_MAX_def)

lemma IOBuffer_consume_mem: "IOBuffer_consume b n = Inr b' \<Longrightarrow> mem_p b' = mem_p b"
  by (auto simp: IOBuffer_consume_def Let_def rbind_eq_Inr split: if_splits)

lemma demo_byte_switch:
  assumes "iob_ok iob" "iob_data iob = Some ch # d" "buffer_ptr iob = off + int i"
  shows "\<exists>iob1. iob_ok iob1 \<and> iob_data iob1 = d \<and> (d \<noteq> [] \<longrightarrow> buffer_ptr iob1 = off + int (Suc i)) \<and>
    (d = [] \<longrightarrow> buffer_ptr iob1 = 0) \<and> buffer_capacity iob1 = buffer_capacity iob \<and> (\<forall>(h :: DemoMsg \<Rightarrow> int \<Rightarrow> 's \<Rightarrow> 's res) len p s. demo_byte h off len i (p, iob, s) =
       rbind (demo_switch h ch (Suc i = len) p s) (\<lambda>(p1, s1). Inr (p1, iob1, s1)))"
proof -
  note h = iob_data_head [OF assms(1,2)]
  from IOBuffer_consume_ok(1) [OF assms(1), of 1] h(1) assms(2) obtain iob1 where
    iob1: "IOBuffer_consume iob 1 = Inr iob1" "iob_ok iob1" "iob_data iob1 = d" "buffer_capacity iob1 = buffer_capacity iob"
    "buffer_ptr iob1 = (if 1 = buffer_remaining iob then 0 else buffer_ptr iob + 1)" by (auto simp: INT_MAX_def)
  moreover have "mem_get (mem_p iob1) (off + int i) = Inr ch"
    using h(2) assms(3) IOBuffer_consume_mem [OF iob1(1)] by (simp add: IOBuffer_data_def)
  moreover have "d \<noteq> [] \<Longrightarrow> buffer_remaining iob \<noteq> 1" "d = [] \<Longrightarrow> buffer_remaining iob = 1"
    using length_iob_data [OF assms(1)] assms(2) by auto
  ultimately show ?thesis
    using h(2) assms(3) by (intro exI [of _ iob1]) (simp add: demo_byte_def c_assert_def)
qed

lemma demo_switch_sim:
  assumes "dm_rep p a" "m_current_message p = Some m" "dm_room1 a ch"
  shows "\<exists>ms p1. list_all2 dm_holds ms (fst (dm_step a ch l)) \<and> dm_rep p1 (snd (dm_step a ch l)) \<and>
    m_current_message p1 \<noteq> None \<and>
    (\<forall>(h :: DemoMsg \<Rightarrow> int \<Rightarrow> 's \<Rightarrow> 's res) s.
       demo_switch h ch l p s = rbind (fold_res (\<lambda>m. h m 0) ms s) (\<lambda>s1. Inr (p1, s1)))"
proof -
  from demo_msg_new_holds obtain m0 where m0: "demo_msg_new = Inr m0" "dm_holds m0 []" by blast
  show ?thesis
  proof (cases a)
    case DIdle
    with assms show ?thesis
      by (intro exI [of _ "[]"] exI [of _ "if ch = CH_STX then p\<lparr>m_state := STATE_BODY\<rparr> else p"])
        (simp add: dm_rep_def demo_switch_def)
  next
    case (DBody s)
    with assms have p: "m_state p = STATE_BODY" "dm_holds m s" by (simp_all add: dm_rep_def)
    consider "isprint ch" | "\<not> isprint ch" "ch = CH_ETX" | "\<not> isprint ch" "ch \<noteq> CH_ETX" by blast
    then show ?thesis
    proof cases
      case 1
      with p(2) DBody assms(3) content_push [of 1024 "dm_body m" s ch] obtain iob iob1 where
        "dm_body m = Some iob" "IOBuffer_commit_push_back iob ch = Inr iob1" "content_holds 1024 (Some iob1) (s @ [ch])"
        by (auto simp: dm_holds_def dm_room1_def)
      with 1 DBody p assms(2) show ?thesis
        by (intro exI [of _ "[]"] exI [of _ "p\<lparr>m_current_message := Some (m\<lparr>dm_body := Some iob1\<rparr>)\<rparr>"])
          (simp add: dm_rep_def demo_switch_def demo_current_def body_of_def dm_holds_def)
    next
      case 2
      with DBody p assms(2) m0(2) show ?thesis
        by (intro exI [of _ "[m]"] exI [of _ "p\<lparr>m_current_message := Some m0, m_state := STATE_IDLE\<rparr>"])
          (simp add: dm_rep_def demo_switch_def demo_current_def m0(1) rbind_assoc)
    next
      case 3
      with DBody p assms(2) show ?thesis
        by (intro exI [of _ "[]"] exI [of _ "p\<lparr>m_state := STATE_ERROR_RECOVERY\<rparr>"])
          (simp add: dm_rep_def demo_switch_def)
    qed
  next
    case (DRecover s)
    with assms m0(2) show ?thesis
      by (intro exI [of _ "[]"] exI [of _ "if l then p\<lparr>m_current_message := Some m0\<rparr>
          else if ch = CH_STX then p\<lparr>m_state := STATE_BODY\<rparr> else p"])
        (simp add: dm_rep_def demo_switch_def m0(1))
  qed
qed

lemma demo_switch_full:
  assumes "dm_rep p a" "\<not> dm_room1 a ch"
  shows "demo_switch h ch l p s = Inl Assert_fail"
proof -
  from assms(2) obtain t where a: "a = DBody t" "isprint ch" "1024 \<le> length t"
    by (cases a) (auto simp: dm_room1_def)
  with assms(1) obtain m iob where
    m: "m_state p = STATE_BODY" "m_current_message p = Some m" "dm_body m = Some iob"
    "iob_holds iob t" "buffer_capacity iob = 1024"
    by (auto simp: dm_rep_def dm_holds_def content_holds_def)
  then have "IOBuffer_commit_push_back iob ch = Inl Assert_fail"
    using iob_holds_space_len [OF m(4)] a(3)
    by (simp add: IOBuffer_commit_push_back_def IOBuffer_data_add_full)
  with m a(2) show ?thesis by (simp add: demo_switch_def demo_current_def body_of_def)
qed

lemma demo_loop_sim:
  assumes "dm_rep p a" "m_current_message p \<noteq> None" "iob_ok iob" "iob_data iob = map Some c"
    "c \<noteq> [] \<longrightarrow> buffer_ptr iob = off + int i" "len = i + length c" "c = [] \<longrightarrow> buffer_ptr iob = 0"
  shows "\<exists>ms p1 iob1. list_all2 dm_holds ms (dm_done a c) \<and>
    (dm_room a c \<longrightarrow> dm_rep p1 (snd (dm_run a c)) \<and> drained iob iob1) \<and>
    (\<forall>(h :: DemoMsg \<Rightarrow> int \<Rightarrow> 's \<Rightarrow> 's res) s. fold_res (demo_byte h off len) [i..<len] (p, iob, s) =
       rbind (fold_res (\<lambda>m. h m 0) ms s) (\<lambda>s1. if dm_room a c then Inr (p1, iob1, s1) else Inl Assert_fail))"
  using assms
proof (induction c arbitrary: a p iob i)
  case Nil
  then show ?case
    by (intro exI [of _ "[]"] exI [of _ p] exI [of _ iob]) (simp add: drained_def iob_holds_def)
next
  case (Cons ch c)
  from Cons.prems obtain m where m: "m_current_message p = Some m" by blast
  have l: "(Suc i = len) = (c = [])" using Cons.prems(6) by auto
  have u: "[i..<len] = i # [Suc i..<len]" using Cons.prems(6) by (intro upt_conv_Cons) simp
  from demo_byte_switch [where 's = 's, OF Cons.prems(3), of ch "map Some c" off i] Cons.prems(4,5) obtain iob1 where
    iob1: "iob_ok iob1" "iob_data iob1 = map Some c" "c \<noteq> [] \<longrightarrow> buffer_ptr iob1 = off + int (Suc i)"
    "c = [] \<longrightarrow> buffer_ptr iob1 = 0" "buffer_capacity iob1 = buffer_capacity iob"
    and b: "\<And>(h :: DemoMsg \<Rightarrow> int \<Rightarrow> 's \<Rightarrow> 's res) n p s. demo_byte h off n i (p, iob, s) =
      rbind (demo_switch h ch (Suc i = n) p s) (\<lambda>(p1, s1). Inr (p1, iob1, s1))" by auto
  show ?case
  proof (cases "dm_room1 a ch")
    case False
    then show ?thesis
      by (intro exI [of _ "[]"]) (simp add: u b demo_switch_full [OF Cons.prems(1)])
  next
    case True
    from demo_switch_sim [where 's = 's, OF Cons.prems(1) m True, of "c = []"] obtain ms p1 where
      sw: "list_all2 dm_holds ms (fst (dm_step a ch (c = [])))" "dm_rep p1 (snd (dm_step a ch (c = [])))"
      "m_current_message p1 \<noteq> None" and s: "\<And>(h :: DemoMsg \<Rightarrow> int \<Rightarrow> 's \<Rightarrow> 's res) s.
        demo_switch h ch (c = []) p s = rbind (fold_res (\<lambda>m. h m 0) ms s) (\<lambda>s1. Inr (p1, s1))" by auto
    let ?a = "snd (dm_step a ch (c = []))"
    from Cons.IH [OF sw(2,3) iob1(1-3) _ iob1(4)] Cons.prems(6) obtain ms' p2 iob2 where
      ih: "list_all2 dm_holds ms' (dm_done ?a c)"
      "dm_room ?a c \<longrightarrow> dm_rep p2 (snd (dm_run ?a c)) \<and> drained iob1 iob2"
      and f: "\<And>(h :: DemoMsg \<Rightarrow> int \<Rightarrow> 's \<Rightarrow> 's res) s.
        fold_res (demo_byte h off len) [Suc i..<len] (p1, iob1, s) =
        rbind (fold_res (\<lambda>m. h m 0) ms' s) (\<lambda>s1. if dm_room ?a c then Inr (p2, iob2, s1) else Inl Assert_fail)"
      by auto
    have "fold_res (demo_byte h off len) [i..<len] (p, iob, s) =
      rbind (fold_res (\<lambda>m. h m 0) (ms @ ms') s)
        (\<lambda>s1. if dm_room ?a c then Inr (p2, iob2, s1) else Inl Assert_fail)"
      for h :: "DemoMsg \<Rightarrow> int \<Rightarrow> 's \<Rightarrow> 's res" and s
      unfolding u by (simp add: b l s f rbind_assoc fold_res_append)
    with sw(1) ih iob1(5) True show ?thesis
      by (intro exI [of _ "ms @ ms'"] exI [of _ p2] exI [of _ iob2]) (simp add: list_all2_appendI drained_def)
  qed
qed

lemma demo_current_msg:
  assumes "dm_rep p a"
  shows "\<exists>p1. (case m_current_message p of
      None \<Rightarrow> rbind demo_msg_new (\<lambda>m. Inr (p\<lparr>m_current_message := Some m\<rparr>)) | Some m \<Rightarrow> Inr p) = Inr p1 \<and>
    dm_rep p1 a \<and> m_current_message p1 \<noteq> None"
proof -
  from demo_msg_new_holds obtain m0 where m0: "demo_msg_new = Inr m0" "dm_holds m0 []" by blast
  show ?thesis unfolding m0(1) using assms m0(2)
    by (cases a; cases "m_current_message p") (simp_all add: dm_rep_def)
qed

lemma demo_consume_outcome:
  assumes "dm_rep p a" "iob_holds iob c" "c \<noteq> []"
  shows "\<exists>ms p1 iob1. list_all2 dm_holds ms (dm_done a c) \<and>
    (dm_room a c \<longrightarrow> dm_rep p1 (snd (dm_run a c)) \<and> drained iob iob1) \<and>
    (\<forall>(h :: DemoMsg \<Rightarrow> int \<Rightarrow> 's \<Rightarrow> 's res) s. demo_msg_parser_consume h p iob s =
       rbind (fold_res (\<lambda>m. h m 0) ms s) (\<lambda>s1. if dm_room a c then Inr (p1, iob1, s1) else Inl Assert_fail))"
proof -
  have n: "IOBuffer_data_len iob = int (length c)"
    using iob_holds_remaining [OF assms(2)] by (simp add: IOBuffer_data_len_def)
  from demo_current_msg [OF assms(1)] obtain p0 where
    p0: "(case m_current_message p of
      None \<Rightarrow> rbind demo_msg_new (\<lambda>m. Inr (p\<lparr>m_current_message := Some m\<rparr>)) | Some m \<Rightarrow> Inr p) = Inr p0"
    "dm_rep p0 a" "m_current_message p0 \<noteq> None" by blast
  from demo_loop_sim [where 's = 's, OF p0(2,3), of iob c "IOBuffer_data iob" 0 "length c"] assms(2)
  show ?thesis
    unfolding demo_msg_parser_consume_def p0(1) using assms(3)
    by (simp add: n iob_holds_def IOBuffer_data_def c_assert_def Let_def)
qed

lemma demo_consume_run:
  assumes "dm_rep p a" "iob_holds iob c" "c \<noteq> []" "dm_room a c"
  shows "\<exists>ms p1 iob1. list_all2 dm_holds ms (fst (dm_run a c)) \<and> dm_rep p1 (snd (dm_run a c)) \<and>
    drained iob iob1 \<and> (\<forall>(h :: DemoMsg \<Rightarrow> int \<Rightarrow> 's \<Rightarrow> 's res) s.
       demo_msg_parser_consume h p iob s = rbind (fold_res (\<lambda>m. h m 0) ms s) (\<lambda>s1. Inr (p1, iob1, s1)))"
  using demo_consume_outcome [where 's = 's, OF assms(1-3)] assms(4) by (simp add: dm_done_room)

lemma dm_ok_text: "dm_ok s \<Longrightarrow> s \<noteq> [] \<and> length s \<le> 1024 \<and> CHR 0x00 \<notin> set s"
  using isprint_control(3) by (auto simp: dm_ok_def list_all_iff)

lemma demo_serialize_text:
  assumes "dm_body m = Some b" "IOBuffer_cstr b = Inr s" "IOBuffer_data_len b = int (length s)" "dm_ok s"
  shows "\<exists>iob. demo_msg_serialize m = Inr iob \<and> iob_holds iob (dm_encode s)"
  using sprintf_holds [of "int (length s) + 64" "dm_encode s"] dm_ok_text [OF assms(4)] assms(1-3)
  by (auto simp: demo_msg_serialize_def body_of_def dm_encode_def CH_STX_def CH_ETX_def INT_MAX_def)

lemma demo_content_text:
  "\<lbrakk> dm_holds m s; dm_ok s \<rbrakk> \<Longrightarrow>
   \<exists>b. dm_body m = Some b \<and> IOBuffer_cstr b = Inr s \<and> IOBuffer_data_len b = int (length s)"
  using content_cstr dm_ok_text unfolding dm_holds_def by blast

lemma demo_serialize_law:
  "\<lbrakk> dm_holds m s; dm_ok s \<rbrakk> \<Longrightarrow> \<exists>iob. demo_msg_serialize m = Inr iob \<and> iob_holds iob (dm_encode s)"
  using demo_content_text demo_serialize_text by blast

interpretation dmf: msg_format dm_run DIdle dm_fits dm_encode dm_ok dm_rep dm_holds
  demo_msg_parser_consume demo_msg_serialize
  by unfold_locales
    (fact dm_run_append dm_fits_append dm_run_length dm_run_encode demo_serialize_law
      | erule (2) demo_consume_run [OF _ _ _ dm_fits_room] | simp)+

section \<open>Properties\<close>

text \<open>
  Messages of the newline format come through a stream: when texts without a newline or a zero
  byte are written and the bytes arrive in pieces of any size, the reader gets messages with the same
  texts in the same order.
\<close>

lemma newline_stream_roundtrip:
  assumes "newline_msg_parser_new = Inr p" "list_all2 nl_holds ms ss" "list_all nl_ok ss"
    "list_all (\<lambda>c. c \<noteq> [] \<and> length c \<le> 4096) cs" "concat cs = concat (map nl_encode ss)"
  shows "\<exists>outs ms'. list_all2 (\<lambda>m out. mstream_write newline_msg_serialize m (int (length out)) = Inr out) ms outs \<and>
    concat cs = concat outs \<and>
    mstream_read_n (length ms) newline_msg_parser_consume (mstream_new fd, p, cs) = Inr (map Some ms') \<and>
    list_all2 nl_holds ms' ss"
proof (rule nlf.written_is_read [OF _ assms(2-5)])
  show "nl_rep p []" using newline_parser_new_rep unfolding assms(1) by simp
qed

text \<open>
  C8: The demo parser is the automaton \<open>dm_run\<close>, for every non-empty buffer and whatever the parser was
  doing before. If the texts fit their buffers of 1024 bytes, it hands to the callback the messages of
  the automaton, in order, consumes the buffer and ends in the automaton's state. Otherwise, as soon as
  a printable byte comes to a text that has 1024 bytes, an assertion of \<open>IOBuffer_data_add\<close> fails, after
  the callback has got the messages completed before (\<open>dm_done\<close>). After a byte that cannot be part of a
  text the parser keeps the text it has and appends the next one to it, unless the buffer ends first.
  Bytes from 0x80 on count as not printable.
\<close>

theorem demo_parser_automaton:
  assumes "dm_rep p a" "iob_holds iob c" "c \<noteq> []"
  shows "\<exists>ms p1 iob1. list_all2 dm_holds ms (dm_done a c) \<and>
    (dm_room a c \<longrightarrow> dm_done a c = fst (dm_run a c) \<and> dm_rep p1 (snd (dm_run a c)) \<and> drained iob iob1) \<and>
    (\<forall>(h :: DemoMsg \<Rightarrow> int \<Rightarrow> 's \<Rightarrow> 's res) s. demo_msg_parser_consume h p iob s =
       rbind (fold_res (\<lambda>m. h m 0) ms s) (\<lambda>s1. if dm_room a c then Inr (p1, iob1, s1) else Inl Assert_fail))"
  using demo_consume_outcome [OF assms] by (simp add: dm_done_room)

text \<open>
  The frames \<open>ab\<close>, broken by a byte 1, and \<open>cd\<close> come out as one message \<open>abcd\<close>; a frame of 1025 bytes
  aborts.
\<close>

lemma dm_body_long:
  "length s \<le> 1024 \<Longrightarrow>
   (dm_room (DBody s) (replicate n (CHR 0x61)) \<longleftrightarrow> length s + n \<le> 1024) \<and>
   dm_done (DBody s) (replicate n (CHR 0x61)) = []"
  by (induction n arbitrary: s) (auto simp: dm_room1_def isprint_def)

theorem demo_parser_automaton_witness:
  "(\<exists>iob m p1 iob1. iob_holds iob [CH_STX, CHR 0x61, CHR 0x62, CHR 0x01, CHR 0x78, CH_STX, CHR 0x63, CHR 0x64, CH_ETX] \<and>
    dm_holds m [CHR 0x61, CHR 0x62, CHR 0x63, CHR 0x64] \<and> dm_rep p1 DIdle \<and>
    demo_msg_parser_consume (\<lambda>m e s. Inr (s @ [m])) demo_msg_parser_new iob [] = Inr (p1, iob1, [m])) \<and>
   (\<exists>iob. iob_holds iob (CH_STX # replicate 1025 (CHR 0x61)) \<and>
    demo_msg_parser_consume (\<lambda>m e s. Inr (s @ [m])) demo_msg_parser_new iob [] = Inl Assert_fail)"
proof
  let ?c = "[CH_STX, CHR 0x61, CHR 0x62, CHR 0x01, CHR 0x78, CH_STX, CHR 0x63, CHR 0x64, CH_ETX]"
  have p: "dm_rep demo_msg_parser_new DIdle" by (simp add: dm_rep_def demo_msg_parser_new_def)
  show "\<exists>iob m p1 iob1. iob_holds iob ?c \<and> dm_holds m [CHR 0x61, CHR 0x62, CHR 0x63, CHR 0x64] \<and> dm_rep p1 DIdle \<and>
    demo_msg_parser_consume (\<lambda>m e s. Inr (s @ [m])) demo_msg_parser_new iob [] = Inr (p1, iob1, [m])"
  proof -
    from read_into_holds [of ?c 64] obtain iob where iob: "iob_holds iob ?c" by (auto simp: INT_MAX_def)
    have r: "dm_run DIdle ?c = ([[CHR 0x61, CHR 0x62, CHR 0x63, CHR 0x64]], DIdle)" "dm_room DIdle ?c"
      by (simp_all add: isprint_def CH_STX_def CH_ETX_def dm_room1_def)
    from demo_parser_automaton [OF p iob, where 's = "DemoMsg list"] r(2) obtain ms p1 iob1 where
      "list_all2 dm_holds ms [[CHR 0x61, CHR 0x62, CHR 0x63, CHR 0x64]]" "dm_rep p1 DIdle"
      "demo_msg_parser_consume (\<lambda>m e s. Inr (s @ [m])) demo_msg_parser_new iob [] =
       rbind (fold_res (\<lambda>m s. Inr (s @ [m])) ms []) (\<lambda>s1. Inr (p1, iob1, s1))"
      unfolding r(1) by (auto simp del: dm_run.simps dm_room.simps dm_done.simps)
    with iob show ?thesis by (auto simp: list_all2_Cons2)
  qed
  let ?d = "CH_STX # replicate 1025 (CHR 0x61)"
  from read_into_holds [of ?d 2048] obtain iob where iob: "iob_holds iob ?d" by (auto simp: INT_MAX_def)
  have "\<not> dm_room DIdle ?d" "dm_done DIdle ?d = []"
    using dm_body_long [of "[]" 1025] by (simp_all add: dm_room1_def)
  then show "\<exists>iob. iob_holds iob ?d \<and>
    demo_msg_parser_consume (\<lambda>m e s. Inr (s @ [m])) demo_msg_parser_new iob [] = Inl Assert_fail"
    using demo_parser_automaton [OF p iob, where 's = "DemoMsg list"] iob by auto
qed

text \<open>
  C21: Messages of the demo format come through a stream: when non-empty printable texts of at most
  1024 bytes are written and the bytes arrive in pieces of at most 4096, the reader gets messages with
  the same texts in the same order. The empty text is excluded: its message has a body to which no byte
  was written, and \<open>demo_msg_serialize\<close> formats it.
\<close>

theorem demo_stream_roundtrip:
  assumes "list_all2 dm_holds ms ss" "list_all dm_ok ss"
    "list_all (\<lambda>c. c \<noteq> [] \<and> length c \<le> 4096) cs" "concat cs = concat (map dm_encode ss)"
  shows "\<exists>outs ms'. list_all2 (\<lambda>m out. mstream_write demo_msg_serialize m (int (length out)) = Inr out) ms outs \<and>
    concat cs = concat outs \<and>
    mstream_read_n (length ms) demo_msg_parser_consume (mstream_new fd, demo_msg_parser_new, cs) = Inr (map Some ms') \<and>
    list_all2 dm_holds ms' ss"
proof (rule dmf.written_is_read [OF _ assms])
  show "dm_rep demo_msg_parser_new DIdle" by (simp add: dm_rep_def demo_msg_parser_new_def)
qed

theorem demo_stream_roundtrip_witness:
  "\<exists>m m' out. dm_holds m ''a'' \<and> dm_ok ''a'' \<and>
    mstream_write demo_msg_serialize m (int (length out)) = Inr out \<and> out = [CH_STX, CHR 0x61, CH_ETX] \<and>
    mstream_read_n 1 demo_msg_parser_consume
      (mstream_new 5, demo_msg_parser_new, [[CH_STX], [CHR 0x61, CH_ETX]]) = Inr [Some m'] \<and> dm_holds m' ''a''"
proof -
  from content_new [of 1024] obtain b where "content_holds 1024 (Some b) []" by (auto simp: INT_MAX_def)
  from content_push [OF this, of "CHR 0x61"] obtain b1 where "content_holds 1024 (Some b1) ''a''" by auto
  then have m: "dm_holds \<lparr>dm_body = Some b1\<rparr> ''a''" by (simp add: dm_holds_def)
  have ok: "dm_ok ''a''" by (simp add: dm_ok_def isprint_def)
  from demo_stream_roundtrip [of "[\<lparr>dm_body = Some b1\<rparr>]" "[''a'']" "[[CH_STX], [CHR 0x61, CH_ETX]]" 5] m ok
  obtain outs ms' where
    "list_all2 (\<lambda>m out. mstream_write demo_msg_serialize m (int (length out)) = Inr out) [\<lparr>dm_body = Some b1\<rparr>] outs"
    "concat [[CH_STX], [CHR 0x61, CH_ETX]] = concat outs"
    "mstream_read_n 1 demo_msg_parser_consume
      (mstream_new 5, demo_msg_parser_new, [[CH_STX], [CHR 0x61, CH_ETX]]) = Inr (map Some ms')"
    "list_all2 dm_holds ms' [''a'']" by (auto simp: dm_encode_def)
  with m ok show ?thesis by (auto simp: list_all2_Cons1 list_all2_Cons2)
qed

end
