(* ===== verification/Echo_Server.thy ===== *)
theory Echo_Server
  imports Tcp_Stream App_Messages
begin

text \<open>
  The sample server: message streams over TCP streams (\<^verbatim>\<open>apps/async_msg_stream/\<close>), the application that
  answers every message (\<^verbatim>\<open>apps/server_apps/echo_app.c\<close>) and the server that makes an application for
  every connection (\<^verbatim>\<open>apps/server_process/server_ctx.c\<close>).

  The record \<open>msg_ops\<close> stands for the macros of \<^verbatim>\<open>apps/msg/msg_selection_header.h\<close>, which select one of
  the two message formats. The world of the TCP layer is extended by message streams, applications
  and the server. \<open>server_call\<close> says what each function pointer does that the run loop may call. What
  \<open>malloc\<close> leaves in the block of a new TCP stream is the argument \<open>blk\<close>.

  A callback gets a \<open>void\<close> pointer that it uses as an object of a certain type, after the macros of
  \<^verbatim>\<open>rbl/check_tag.h\<close> have looked at the tag of that object. The argument \<open>tc\<close> is what happens when it is of
  another type: \<open>Assert_fail\<close> when the checks are compiled in, \<open>Bad_pointer\<close> when they are not.
\<close>

section \<open>Message formats\<close>

record ('m, 'p) msg_ops =
  op_new :: "'m res"
  op_get_content :: "'m \<Rightarrow> IOBuffer option"
  op_set_content :: "'m \<Rightarrow> IOBuffer option \<Rightarrow> 'm"
  op_serialize :: "'m \<Rightarrow> IOBuffer res"
  op_parser_new :: "'p res"
  op_consume :: "('m \<Rightarrow> int \<Rightarrow> 'm List \<Rightarrow> 'm List res) \<Rightarrow> 'p \<Rightarrow> IOBuffer \<Rightarrow> 'm List \<Rightarrow> ('p \<times> IOBuffer \<times> 'm List) res"

definition newline_ops :: "(NewLineMsg, NewLineMsgParser) msg_ops" where
  "newline_ops =
     \<lparr>op_new = newline_msg_new, op_get_content = newline_msg_get_content, op_set_content = newline_msg_set_content,
      op_serialize = newline_msg_serialize, op_parser_new = newline_msg_parser_new,
      op_consume = newline_msg_parser_consume\<rparr>"

definition demo_ops :: "(DemoMsg, DemoMsgParser) msg_ops" where
  "demo_ops =
     \<lparr>op_new = demo_msg_new, op_get_content = demo_msg_get_content, op_set_content = demo_msg_set_content,
      op_serialize = demo_msg_serialize, op_parser_new = Inr demo_msg_parser_new,
      op_consume = demo_msg_parser_consume\<rparr>"

section \<open>The state\<close>

record ('m, 'p) MsgStream =
  ms_tcp :: nat
  ms_parser :: "'p option"
  ms_read_cb :: "fn_ptr option"
  ms_read_arg :: "obj option"
  ms_input :: "nat option"
  ms_list :: "'m List"
  ms_output :: "nat option"
  ms_write_cb :: "fn_ptr option"
  ms_write_arg :: "obj option"

text \<open>The callback of an application is set when it is run, before anything reads it.\<close>

record EchoApp =
  app_stream :: nat
  done_cb :: "fn_ptr option"
  done_arg :: "obj option"

record ServerCtx =
  sv_listener :: "nat option"
  sv_state :: l_state
  connection_list :: "nat List"

record ('m, 'p) app_world = tcp_world +
  msgs :: "('m, 'p) MsgStream list"
  apps :: "EchoApp option list"
  server :: ServerCtx

type_synonym ('m, 'p) app_state = "tcp_loop \<times> ('m, 'p) app_world"
type_synonym ('m, 'p) app_io = "fn_ptr \<Rightarrow> obj option \<Rightarrow> int \<Rightarrow> ('m, 'p) app_state \<Rightarrow> ('m, 'p) app_state res"
type_synonym ('m, 'p) app_rd =
  "fn_ptr \<Rightarrow> obj option \<Rightarrow> 'm option \<Rightarrow> int \<Rightarrow> ('m, 'p) app_state \<Rightarrow> ('m, 'p) app_state res"

definition msg_at :: "('m, 'p) app_world \<Rightarrow> nat \<Rightarrow> ('m, 'p) MsgStream res" where
  "msg_at w i = (if i < length (msgs w) then Inr (msgs w ! i) else Inl Bad_pointer)"

definition put_msg :: "('m, 'p) app_world \<Rightarrow> nat \<Rightarrow> ('m, 'p) MsgStream \<Rightarrow> ('m, 'p) app_world" where
  "put_msg w i s = w\<lparr>msgs := (msgs w)[i := s]\<rparr>"

definition app_at :: "('m, 'p) app_world \<Rightarrow> nat \<Rightarrow> EchoApp res" where
  "app_at w a =
     (if a < length (apps w) then (case apps w ! a of None \<Rightarrow> Inl Bad_pointer | Some app \<Rightarrow> Inr app) else Inl Bad_pointer)"

definition put_app :: "('m, 'p) app_world \<Rightarrow> nat \<Rightarrow> EchoApp option \<Rightarrow> ('m, 'p) app_world" where
  "put_app w a app = w\<lparr>apps := (apps w)[a := app]\<rparr>"

definition post :: "fn_ptr \<Rightarrow> obj \<Rightarrow> ('m, 'p) app_state \<Rightarrow> ('m, 'p) app_state res" where
  "post f x st = rbind (kq_runloop_post (fst st) (Some f) (Some (Arg x))) (\<lambda>rl. Inr (rl, snd st))"

section \<open>Message streams\<close>

definition msg_stream_init ::
  "('m, 'p) msg_ops \<Rightarrow> TcpStream \<Rightarrow> int \<Rightarrow> ('m, 'p) app_state \<Rightarrow> (('m, 'p) MsgStream \<times> ('m, 'p) app_state) res" where
  "msg_stream_init ops blk fd st =
     rbind (tcp_stream_new blk fd st) (\<lambda>(t, st1).
     rbind (op_parser_new ops) (\<lambda>p.
     Inr (\<lparr>ms_tcp = t, ms_parser = Some p, ms_read_cb = None, ms_read_arg = None, ms_input = None, ms_list = List_new,
           ms_output = None, ms_write_cb = None, ms_write_arg = None\<rparr>, st1)))"

definition msg_stream_new ::
  "('m, 'p) msg_ops \<Rightarrow> TcpStream \<Rightarrow> int \<Rightarrow> ('m, 'p) app_state \<Rightarrow> (nat \<times> ('m, 'p) app_state) res" where
  "msg_stream_new ops blk fd st =
     rbind (msg_stream_init ops blk fd st) (\<lambda>(s, st1).
     Inr (length (msgs (snd st1)), fst st1, (snd st1)\<lparr>msgs := msgs (snd st1) @ [s]\<rparr>))"

definition free_buf :: "('m, 'p) app_world \<Rightarrow> nat option \<Rightarrow> ('m, 'p) app_world res" where
  "free_buf w r =
     (case r of
        None \<Rightarrow> Inr w
      | Some b \<Rightarrow> rbind (buf_at w (Some b)) (\<lambda>_. Inr (w\<lparr>bufs := (bufs w)[b := None]\<rparr>)))"

definition msg_stream_free :: "nat \<Rightarrow> ('m, 'p) app_state \<Rightarrow> ('m, 'p) app_state res" where
  "msg_stream_free i st =
     rbind (msg_at (snd st) i) (\<lambda>s.
     rbind (tcp_stream_free (ms_tcp s) st) (\<lambda>st1.
     rbind (if ms_parser s = None then Inl Bad_pointer else Inr ()) (\<lambda>_.
     rbind (free_buf (put_msg (snd st1) i (s\<lparr>ms_parser := None\<rparr>)) (ms_input s)) (\<lambda>w1.
     rbind (free_buf w1 (ms_output s)) (\<lambda>w2. Inr (fst st1, w2))))))"

definition msg_invoke_write_callback :: "('m, 'p) app_io \<Rightarrow> nat \<Rightarrow> int \<Rightarrow> ('m, 'p) app_state \<Rightarrow> ('m, 'p) app_state res" where
  "msg_invoke_write_callback mw i error st =
     rbind (msg_at (snd st) i) (\<lambda>s.
     case ms_write_cb s of
       None \<Rightarrow> Inl Null_deref
     | Some cb \<Rightarrow>
         mw cb (ms_write_arg s) error (fst st, put_msg (snd st) i (s\<lparr>ms_write_cb := None, ms_write_arg := None\<rparr>)))"

definition tcp_write_callback :: "('m, 'p) app_io \<Rightarrow> nat \<Rightarrow> int \<Rightarrow> ('m, 'p) app_state \<Rightarrow> ('m, 'p) app_state res" where
  "tcp_write_callback mw i error st =
     rbind (msg_at (snd st) i) (\<lambda>s.
     msg_invoke_write_callback mw i error (fst st, put_msg (snd st) i (s\<lparr>ms_output := None\<rparr>)))"

definition tcp_wcall :: "c_error \<Rightarrow> ('m, 'p) app_io \<Rightarrow> ('m, 'p) app_io" where
  "tcp_wcall tc mw cb arg error st =
     (case (cb, arg) of
        (Tcp_write_callback, Some (Msg_ref i)) \<Rightarrow> tcp_write_callback mw i error st
      | _ \<Rightarrow> Inl tc)"

definition msg_stream_write ::
  "c_error \<Rightarrow> ('m, 'p) msg_ops \<Rightarrow> ('m, 'p) app_io \<Rightarrow> nat \<Rightarrow> 'm \<Rightarrow> fn_ptr option \<Rightarrow> obj option \<Rightarrow>
   ('m, 'p) app_state \<Rightarrow> ('m, 'p) app_state res" where
  "msg_stream_write tc ops mw i m write_cb arg st =
     rbind (msg_at (snd st) i) (\<lambda>s.
     rbind (c_assert (ms_write_cb s = None)) (\<lambda>_.
     rbind (c_assert (ms_write_arg s = None)) (\<lambda>_.
     rbind (c_assert (ms_output s = None)) (\<lambda>_.
     rbind (op_serialize ops m) (\<lambda>iob.
     case new_buf (snd st) iob of (b, w1) \<Rightarrow>
     tcp_write (tcp_wcall tc mw) (ms_tcp s) (Some b) (Some Tcp_write_callback) (Some (Msg_ref i))
       (fst st, put_msg w1 i (s\<lparr>ms_output := Some b, ms_write_cb := write_cb, ms_write_arg := arg\<rparr>)))))))"

definition msg_invoke_read_callback ::
  "('m, 'p) app_rd \<Rightarrow> nat \<Rightarrow> 'm option \<Rightarrow> int \<Rightarrow> ('m, 'p) app_state \<Rightarrow> ('m, 'p) app_state res" where
  "msg_invoke_read_callback mr i new_msg error st =
     rbind (msg_at (snd st) i) (\<lambda>s.
     case ms_read_cb s of
       None \<Rightarrow> Inl Null_deref
     | Some cb \<Rightarrow>
         mr cb (ms_read_arg s) new_msg error (fst st, put_msg (snd st) i (s\<lparr>ms_read_cb := None, ms_read_arg := None\<rparr>)))"

definition new_message_callback :: "'m \<Rightarrow> int \<Rightarrow> 'm List \<Rightarrow> 'm List res" where
  "new_message_callback new_msg error lst = (if error = 0 then List_add_back lst new_msg else Inr lst)"

definition tcp_read_callback ::
  "('m, 'p) msg_ops \<Rightarrow> ('m, 'p) app_rd \<Rightarrow> nat \<Rightarrow> int \<Rightarrow> ('m, 'p) app_state \<Rightarrow> ('m, 'p) app_state res" where
  "tcp_read_callback ops mr i error st =
     rbind (msg_at (snd st) i) (\<lambda>s.
     if error = 0 then
       rbind (buf_at (snd st) (ms_input s)) (\<lambda>(b, iob).
       rbind (c_assert (IOBuffer_data_len iob \<noteq> 0)) (\<lambda>_.
       case ms_parser s of
         None \<Rightarrow> Inl Bad_pointer
       | Some p \<Rightarrow>
           rbind (op_consume ops new_message_callback p iob (ms_list s)) (\<lambda>(p1, iob1, lst).
           rbind (c_assert (IOBuffer_data_len iob1 = 0)) (\<lambda>_.
           let s1 = s\<lparr>ms_parser := Some p1, ms_list := lst\<rparr>;
               w1 = put_buf (snd st) b iob1 in
           if List_size lst \<noteq> 0 then
             rbind (List_remove_first lst) (\<lambda>(m, lst1).
             msg_invoke_read_callback mr i m error (fst st, put_msg w1 i (s1\<lparr>ms_list := lst1\<rparr>)))
           else post Msg_postable_read (Msg_ref i) (fst st, put_msg w1 i s1)))))
     else msg_invoke_read_callback mr i None error st)"

definition tcp_rcall :: "c_error \<Rightarrow> ('m, 'p) msg_ops \<Rightarrow> ('m, 'p) app_rd \<Rightarrow> ('m, 'p) app_io" where
  "tcp_rcall tc ops mr cb arg error st =
     (case (cb, arg) of
        (Tcp_read_callback, Some (Msg_ref i)) \<Rightarrow> tcp_read_callback ops mr i error st
      | _ \<Rightarrow> Inl tc)"

definition msg_try_read ::
  "c_error \<Rightarrow> ('m, 'p) msg_ops \<Rightarrow> ('m, 'p) app_rd \<Rightarrow> nat \<Rightarrow> ('m, 'p) app_state \<Rightarrow> ('m, 'p) app_state res" where
  "msg_try_read tc ops mr i st =
     rbind (msg_at (snd st) i) (\<lambda>s.
     tcp_read (tcp_rcall tc ops mr) (ms_tcp s) (ms_input s) (Some Tcp_read_callback) (Some (Msg_ref i)) st)"

definition msg_postable_read ::
  "c_error \<Rightarrow> ('m, 'p) msg_ops \<Rightarrow> ('m, 'p) app_rd \<Rightarrow> nat \<Rightarrow> ('m, 'p) app_state \<Rightarrow> ('m, 'p) app_state res" where
  "msg_postable_read tc ops mr i st = msg_try_read tc ops mr i st"

definition msg_input_buffer :: "('m, 'p) MsgStream \<Rightarrow> ('m, 'p) app_world \<Rightarrow> (nat \<times> ('m, 'p) app_world) res" where
  "msg_input_buffer s w =
     (case ms_input s of
        None \<Rightarrow> rbind IOBuffer_new (\<lambda>iob. Inr (new_buf w iob))
      | Some b \<Rightarrow> Inr (b, w))"

definition msg_stream_read ::
  "c_error \<Rightarrow> ('m, 'p) msg_ops \<Rightarrow> ('m, 'p) app_rd \<Rightarrow> nat \<Rightarrow> fn_ptr option \<Rightarrow> obj option \<Rightarrow>
   ('m, 'p) app_state \<Rightarrow> ('m, 'p) app_state res" where
  "msg_stream_read tc ops mr i cb arg st =
     rbind (msg_at (snd st) i) (\<lambda>s.
     rbind (c_assert (ms_read_cb s = None)) (\<lambda>_.
     rbind (msg_input_buffer s (snd st)) (\<lambda>(b, w1).
     let s1 = s\<lparr>ms_input := Some b, ms_read_cb := cb, ms_read_arg := arg\<rparr> in
     if List_size (ms_list s1) \<noteq> 0 then
       rbind (List_remove_first (ms_list s1)) (\<lambda>(m, lst).
       msg_invoke_read_callback mr i m 0 (fst st, put_msg w1 i (s1\<lparr>ms_list := lst\<rparr>)))
     else
       tcp_read (tcp_rcall tc ops mr) (ms_tcp s1) (Some b) (Some Tcp_read_callback) (Some (Msg_ref i)) (fst st, put_msg w1 i s1))))"

section \<open>The application\<close>

definition echo_app_init ::
  "('m, 'p) msg_ops \<Rightarrow> TcpStream \<Rightarrow> int \<Rightarrow> ('m, 'p) app_state \<Rightarrow> (EchoApp \<times> ('m, 'p) app_state) res" where
  "echo_app_init ops blk fd st =
     rbind (msg_stream_new ops blk fd st) (\<lambda>(i, st1). Inr (\<lparr>app_stream = i, done_cb = None, done_arg = None\<rparr>, st1))"

definition echo_app_new ::
  "('m, 'p) msg_ops \<Rightarrow> TcpStream \<Rightarrow> int \<Rightarrow> ('m, 'p) app_state \<Rightarrow> (nat \<times> ('m, 'p) app_state) res" where
  "echo_app_new ops blk fd st =
     rbind (echo_app_init ops blk fd st) (\<lambda>(app, st1).
     Inr (length (apps (snd st1)), fst st1, (snd st1)\<lparr>apps := apps (snd st1) @ [Some app]\<rparr>))"

definition echo_app_free :: "nat \<Rightarrow> ('m, 'p) app_state \<Rightarrow> ('m, 'p) app_state res" where
  "echo_app_free a st =
     rbind (app_at (snd st) a) (\<lambda>app.
     rbind (msg_stream_free (app_stream app) st) (\<lambda>st1. Inr (fst st1, put_app (snd st1) a None)))"

definition echo_app_run ::
  "nat \<Rightarrow> fn_ptr option \<Rightarrow> obj option \<Rightarrow> ('m, 'p) app_state \<Rightarrow> ('m, 'p) app_state res" where
  "echo_app_run a cb arg st =
     rbind (app_at (snd st) a) (\<lambda>app.
     post App_postable_read (App_ref a) (fst st, put_app (snd st) a (Some (app\<lparr>done_cb := cb, done_arg := arg\<rparr>))))"

definition process_input_message :: "('m, 'p) msg_ops \<Rightarrow> 'm \<Rightarrow> 'm res" where
  "process_input_message ops input_msg =
     rbind (op_new ops) (\<lambda>response.
     case op_get_content ops input_msg of
       None \<Rightarrow> Inl Null_deref
     | Some iob \<Rightarrow>
         rbind (IOBuffer_cstr iob) (\<lambda>s.
         rbind (IOBuffer_from_cstring (c_string (''ServerResponse:['' @ s @ '']''))) (\<lambda>content.
         Inr (op_set_content ops response (Some content)))))"

definition app_instance_done_cb :: "nat \<Rightarrow> int \<Rightarrow> ('m, 'p) app_state \<Rightarrow> ('m, 'p) app_state res" where
  "app_instance_done_cb a error st =
     (let sv = server (snd st) in
      rbind (List_find (connection_list sv) a) (\<lambda>itr.
      rbind (c_assert (itr \<noteq> None)) (\<lambda>_.
      rbind (List_itr_remove (connection_list sv) itr) (\<lambda>lst.
      echo_app_free a (fst st, (snd st)\<lparr>server := sv\<lparr>connection_list := lst\<rparr>\<rparr>)))))"

definition invoke_done_callback :: "c_error \<Rightarrow> nat \<Rightarrow> int \<Rightarrow> ('m, 'p) app_state \<Rightarrow> ('m, 'p) app_state res" where
  "invoke_done_callback tc a error st =
     rbind (app_at (snd st) a) (\<lambda>app.
     let st1 = (fst st, put_app (snd st) a (Some (app\<lparr>done_cb := None, done_arg := None\<rparr>))) in
     case done_cb app of
       None \<Rightarrow> Inl Null_deref
     | Some App_instance_done_cb \<Rightarrow>
         (case done_arg app of Some Server_ref \<Rightarrow> app_instance_done_cb a error st1 | _ \<Rightarrow> Inl tc)
     | _ \<Rightarrow> Inl tc)"

definition msg_write_callback :: "nat \<Rightarrow> int \<Rightarrow> ('m, 'p) app_state \<Rightarrow> ('m, 'p) app_state res" where
  "msg_write_callback a error st = rbind (app_at (snd st) a) (\<lambda>_. post App_postable_read (App_ref a) st)"

definition echo_mw :: "c_error \<Rightarrow> ('m, 'p) app_io" where
  "echo_mw tc cb arg error st =
     (case (cb, arg) of
        (Msg_write_callback, Some (App_ref a)) \<Rightarrow> msg_write_callback a error st
      | _ \<Rightarrow> Inl tc)"

definition msg_read_callback ::
  "c_error \<Rightarrow> ('m, 'p) msg_ops \<Rightarrow> nat \<Rightarrow> 'm option \<Rightarrow> int \<Rightarrow> ('m, 'p) app_state \<Rightarrow> ('m, 'p) app_state res" where
  "msg_read_callback tc ops a msg error st =
     rbind (app_at (snd st) a) (\<lambda>app.
     if error \<noteq> 0 then invoke_done_callback tc a error st
     else
       (case msg of
          None \<Rightarrow> Inl Assert_fail
        | Some m \<Rightarrow>
            rbind (process_input_message ops m) (\<lambda>response.
            msg_stream_write tc ops (echo_mw tc) (app_stream app) response (Some Msg_write_callback) (Some (App_ref a)) st)))"

definition echo_mr :: "c_error \<Rightarrow> ('m, 'p) msg_ops \<Rightarrow> ('m, 'p) app_rd" where
  "echo_mr tc ops cb arg msg error st =
     (case (cb, arg) of
        (Msg_read_callback, Some (App_ref a)) \<Rightarrow> msg_read_callback tc ops a msg error st
      | _ \<Rightarrow> Inl tc)"

definition app_postable_read :: "c_error \<Rightarrow> ('m, 'p) msg_ops \<Rightarrow> nat \<Rightarrow> ('m, 'p) app_state \<Rightarrow> ('m, 'p) app_state res" where
  "app_postable_read tc ops a st =
     rbind (app_at (snd st) a) (\<lambda>app.
     msg_stream_read tc ops (echo_mr tc ops) (app_stream app) (Some Msg_read_callback) (Some (App_ref a)) st)"

section \<open>The server\<close>

definition server_ctx_init :: "int \<Rightarrow> ('m, 'p) app_state \<Rightarrow> ('m, 'p) app_state res" where
  "server_ctx_init fd st =
     rbind (tcp_listener_new fd st) (\<lambda>(l, st1).
     Inr (fst st1, (snd st1)\<lparr>server := \<lparr>sv_listener = Some l, sv_state = L_STATE_INITIAL, connection_list = List_new\<rparr>\<rparr>))"

definition server_ctx_new :: "int \<Rightarrow> ('m, 'p) app_state \<Rightarrow> ('m, 'p) app_state res" where
  "server_ctx_new fd st = server_ctx_init fd st"

text \<open>The applications that are still connected are freed without their streams.\<close>

definition server_ctx_deinit :: "int \<Rightarrow> ('m, 'p) app_state \<Rightarrow> ('m, 'p) app_world res" where
  "server_ctx_deinit status st =
     rbind (kq_runloop_free status (fst st)) (\<lambda>_.
     List_safe_free (connection_list (server (snd st)))
       (Some (\<lambda>a w. rbind (app_at w a) (\<lambda>_. Inr (put_app w a None))))
       ((snd st)\<lparr>server := (server (snd st))\<lparr>sv_listener := None\<rparr>\<rparr>))"

definition server_ctx_run :: "('m, 'p) app_state \<Rightarrow> ('m, 'p) app_state res" where
  "server_ctx_run st = post Postable_start Server_ref st"

definition add_connection :: "nat \<Rightarrow> ('m, 'p) app_state \<Rightarrow> ('m, 'p) app_state res" where
  "add_connection a st =
     (let sv = server (snd st) in
      rbind (List_add_back (connection_list sv) a) (\<lambda>lst.
      echo_app_run a (Some App_instance_done_cb) (Some Server_ref)
        (fst st, (snd st)\<lparr>server := sv\<lparr>connection_list := lst\<rparr>\<rparr>)))"

definition handle_new_socket ::
  "('m, 'p) msg_ops \<Rightarrow> TcpStream \<Rightarrow> int \<Rightarrow> int \<Rightarrow> ('m, 'p) app_state \<Rightarrow> ('m, 'p) app_state res" where
  "handle_new_socket ops blk new_sock error st =
     rbind (c_assert (new_sock \<noteq> 0)) (\<lambda>_.
     rbind (echo_app_new ops blk new_sock st) (\<lambda>(a, st1).
     rbind (if error = 0 then add_connection a st1 else Inr st1) (\<lambda>st2.
     post Postable_start Server_ref st2)))"

definition server_acall ::
  "c_error \<Rightarrow> ('m, 'p) msg_ops \<Rightarrow> TcpStream \<Rightarrow> fn_ptr \<Rightarrow> obj option \<Rightarrow> int \<Rightarrow> int \<Rightarrow> ('m, 'p) app_state \<Rightarrow> ('m, 'p) app_state res" where
  "server_acall tc ops blk cb arg new_sock error st =
     (case (cb, arg) of
        (Handle_new_socket, Some Server_ref) \<Rightarrow> handle_new_socket ops blk new_sock error st
      | _ \<Rightarrow> Inl tc)"

definition postable_start ::
  "c_error \<Rightarrow> ('m, 'p) msg_ops \<Rightarrow> TcpStream \<Rightarrow> ('m, 'p) app_state \<Rightarrow> ('m, 'p) app_state res" where
  "postable_start tc ops blk st =
     (case sv_listener (server (snd st)) of
        None \<Rightarrow> Inl Null_deref
      | Some l \<Rightarrow> tcp_accept (server_acall tc ops blk) l (Some Handle_new_socket) (Some Server_ref) st)"

section \<open>What the loop calls\<close>

definition server_call :: "c_error \<Rightarrow> ('m, 'p) msg_ops \<Rightarrow> TcpStream \<Rightarrow> (fn_ptr, obj, ('m, 'p) app_world) kq_call" where
  "server_call tc ops blk f arg st =
     (case (f, arg) of
        (Read_ready_callback, Some (Arg (Tcp_ref t))) \<Rightarrow> read_ready_callback (tcp_rcall tc ops (echo_mr tc ops)) t st
      | (Postable_reader, Some (Arg (Tcp_ref t))) \<Rightarrow> tcp_postable_reader (tcp_rcall tc ops (echo_mr tc ops)) t st
      | (Postable_try_write, Some (Arg (Tcp_ref t))) \<Rightarrow> postable_try_write (tcp_wcall tc (echo_mw tc)) t st
      | (Wrtr_cb, Some (Arg (Tcp_ref t))) \<Rightarrow> wrtr_cb (tcp_wcall tc (echo_mw tc)) t st
      | (Postable_try_accept, Some (Arg (Listener_ref l))) \<Rightarrow> postable_try_accept (server_acall tc ops blk) l st
      | (On_accept_ready, Some (Arg (Listener_ref l))) \<Rightarrow> on_accept_ready (server_acall tc ops blk) l st
      | (Msg_postable_read, Some (Arg (Msg_ref i))) \<Rightarrow> msg_postable_read tc ops (echo_mr tc ops) i st
      | (App_postable_read, Some (Arg (App_ref a))) \<Rightarrow> app_postable_read tc ops a st
      | (Postable_start, Some (Arg Server_ref)) \<Rightarrow> postable_start tc ops blk st
      | _ \<Rightarrow> Inl tc)"

end
