(* ===== verification/Kqueue_Safety.thy ===== *)
theory Kqueue_Safety
  imports Kqueue_Watchers
begin

unbundle bit_operations_syntax

text \<open>
  The events of the kqueue and the watchers of the table. The invariant \<open>kq_ok\<close> says that an enabled
  event carries a watcher, and that a watcher that an event carries is in use and is the one the event
  was registered for. It is kept by every call that a client may make (\<open>proper\<close>), by posting and by
  the delivery of events, so that the loop never calls a handler through a pointer that is \<open>NULL\<close> or
  refers to a watcher that was freed before the wait.
\<close>

section \<open>The invariant\<close>

fun owns :: "('c, 'a) kvariant \<Rightarrow> nat \<Rightarrow> kident \<times> kfilter \<Rightarrow> bool" where
  "owns (Stream_ev w) p key \<longleftrightarrow> fst key = Fd (ks_fd w) \<and> (snd key = EVFILT_READ \<or> snd key = EVFILT_WRITE)"
| "owns (Listener_ev l) p key \<longleftrightarrow> key = (Fd (kl_fd l), EVFILT_READ)"
| "owns (Timer_ev t) p key \<longleftrightarrow> key = (Ptr p, EVFILT_TIMER)"
| "owns (Uevent_ev u) p key \<longleftrightarrow> key = (Ptr p, EVFILT_USER)"

fun handler_of :: "('c, 'a) kvariant \<Rightarrow> khandler" where
  "handler_of (Stream_ev w) = Stream_handler"
| "handler_of (Listener_ev l) = Listener_handler"
| "handler_of (Timer_ev t) = Timer_handler"
| "handler_of (Uevent_ev u) = Uevent_handler"

definition watching :: "('c, 'a) kq_loop \<Rightarrow> nat \<Rightarrow> ('c, 'a) kvariant \<Rightarrow> bool" where
  "watching rl p v \<longleftrightarrow>
     p \<in> et_used (kq_table rl) \<and> ev_at rl p = Inr \<lparr>ev_handler = Some (handler_of v), ev_variant = v\<rparr>"

definition backed :: "('c, 'a) kq_loop \<Rightarrow> kident \<times> kfilter \<Rightarrow> knote \<Rightarrow> bool" where
  "backed rl key kn \<longleftrightarrow>
     (kn_enabled kn \<longrightarrow> kn_udata kn \<noteq> None) \<and>
     (\<forall>p. kn_udata kn = Some p \<longrightarrow> (\<exists>v. watching rl p v \<and> owns v p key))"

definition kq_ok :: "('c, 'a) kq_loop \<Rightarrow> bool" where
  "kq_ok rl \<longleftrightarrow>
     et_ok (kq_table rl) \<and> (\<forall>p \<in> et_used (kq_table rl). \<exists>v. watching rl p v) \<and>
     (\<forall>key kn. knotes rl key = Some kn \<longrightarrow> backed rl key kn)"

lemma backed_mono:
  assumes "\<And>q u. watching rl q u \<Longrightarrow> \<exists>u'. watching rl' q u' \<and> (\<forall>key. owns u q key \<longrightarrow> owns u' q key)"
  shows "backed rl key kn \<Longrightarrow> backed rl' key kn"
  using assms unfolding backed_def by meson

lemma kq_okI:
  assumes "et_ok (kq_table rl)" "\<And>p. p \<in> et_used (kq_table rl) \<Longrightarrow> \<exists>v. watching rl p v"
    "\<And>key kn. knotes rl key = Some kn \<Longrightarrow> backed rl key kn"
  shows "kq_ok rl"
  using assms unfolding kq_ok_def by blast

lemma kq_okD:
  assumes "kq_ok rl"
  shows "et_ok (kq_table rl)" "p \<in> et_used (kq_table rl) \<Longrightarrow> \<exists>v. watching rl p v"
    "knotes rl key = Some kn \<Longrightarrow> backed rl key kn"
  using assms unfolding kq_ok_def by blast+

lemma watching_unique: "watching rl p v \<Longrightarrow> watching rl p v' \<Longrightarrow> v' = v"
  by (auto simp: watching_def)

lemma watching_at:
  "watching rl p (Stream_ev w) \<Longrightarrow> stream_at rl p = Inr w"
  "watching rl p (Listener_ev l) \<Longrightarrow> listener_at rl p = Inr l"
  "watching rl p (Timer_ev t) \<Longrightarrow> timer_at rl p = Inr t"
  "watching rl p (Uevent_ev u) \<Longrightarrow> uevent_at rl p = Inr u"
  by (simp_all add: watching_def stream_at_def listener_at_def timer_at_def uevent_at_def)

text \<open>A change that keeps the invariant.\<close>

definition change_ok :: "('c, 'a) kq_loop \<Rightarrow> kevent \<Rightarrow> bool" where
  "change_ok rl c \<longleftrightarrow>
     (ke_flags c AND EV_DELETE = 0 \<longrightarrow>
        (ke_flags c AND EV_DISABLE = 0 \<longrightarrow> ke_udata c \<noteq> None) \<and>
        (\<forall>p. ke_udata c = Some p \<longrightarrow> (\<exists>v. watching rl p v \<and> owns v p (ke_ident c, ke_filter c))))"

lemma watching_knotes [simp]: "watching (rl\<lparr>knotes := k\<rparr>) = watching rl" "backed (rl\<lparr>knotes := k\<rparr>) = backed rl"
  by (simp_all add: watching_def backed_def ev_at_def fun_eq_iff)

lemma kevent_change_ok:
  assumes "kq_ok rl" "change_ok rl c" "kevent_change (knotes rl) c = Some k"
  shows "kq_ok (rl\<lparr>knotes := k\<rparr>)"
proof -
  have "backed rl key kn" if "k key = Some kn" for key kn
  proof (cases "knotes rl key = Some kn")
    case True
    with assms(1) show ?thesis by (rule kq_okD(3))
  next
    case False
    with assms(3) that have "key = (ke_ident c, ke_filter c)" "kn_udata kn = ke_udata c"
      "kn_enabled kn = (ke_flags c AND EV_DISABLE = 0)" "ke_flags c AND EV_DELETE = 0"
      by (auto simp: kevent_change_def Let_def split: if_splits)
    with assms(2) show ?thesis unfolding change_ok_def backed_def by metis
  qed
  note b = this
  show ?thesis
  proof (rule kq_okI)
    show "et_ok (kq_table (rl\<lparr>knotes := k\<rparr>))" using kq_okD(1) [OF assms(1)] by simp
    show "\<exists>v. watching (rl\<lparr>knotes := k\<rparr>) q v" if "q \<in> et_used (kq_table (rl\<lparr>knotes := k\<rparr>))" for q
      using that kq_okD(2) [OF assms(1), of q] by simp
    show "backed (rl\<lparr>knotes := k\<rparr>) key kn" if "knotes (rl\<lparr>knotes := k\<rparr>) key = Some kn" for key kn
      using that b by simp
  qed
qed

lemma kevent_changes_ok:
  assumes "kq_ok rl" "list_all (change_ok rl) cs"
  shows "kq_ok (rl\<lparr>knotes := kevent_changes (knotes rl) cs\<rparr>)"
  using assms
proof (induction cs arbitrary: rl)
  case (Cons c cs)
  show ?case
  proof (cases "kevent_change (knotes rl) c")
    case (Some k)
    then have "kq_ok (rl\<lparr>knotes := k\<rparr>)" using kevent_change_ok Cons.prems by auto
    moreover have "list_all (change_ok (rl\<lparr>knotes := k\<rparr>)) cs" using Cons.prems(2) by (auto simp: change_ok_def list_all_iff)
    ultimately show ?thesis using Cons.IH [of "rl\<lparr>knotes := k\<rparr>"] Some by simp
  qed (use Cons.prems in simp)
qed simp

lemma kq_kevent_ok: "kq_ok rl \<Longrightarrow> list_all (change_ok rl) cs \<Longrightarrow> kq_ok (kq_kevent rl cs)"
  by (simp add: kq_kevent_def kevent_changes_ok)

lemma kq_kevent_table [simp]:
  "kq_table (kq_kevent rl cs) = kq_table rl" "watching (kq_kevent rl cs) = watching rl"
  "kq_ready (kq_kevent rl cs) = kq_ready rl"
  by (simp_all add: kq_kevent_def)

text \<open>Changing the fields of a watcher, without its descriptor, keeps the invariant.\<close>

lemma put_ev_ok:
  assumes "kq_ok rl" "watching rl p v" "\<And>key. owns v p key \<Longrightarrow> owns v' p key"
  shows "\<exists>rl'. put_ev rl p \<lparr>ev_handler = Some (handler_of v'), ev_variant = v'\<rparr> = Inr rl' \<and> kq_ok rl' \<and>
    watching rl' p v' \<and> (\<forall>q u. q \<noteq> p \<longrightarrow> watching rl' q u = watching rl q u) \<and>
    knotes rl' = knotes rl \<and> et_used (kq_table rl') = et_used (kq_table rl)"
proof -
  from kq_okD(1) [OF assms(1)] assms(2) have "et_ok (kq_table rl)" "p \<in> et_used (kq_table rl)"
    by (auto simp: watching_def)
  from et.store_law [OF this, of "\<lparr>ev_handler = Some (handler_of v'), ev_variant = v'\<rparr>"] obtain et where
    et: "set_event (kq_table rl) p \<lparr>ev_handler = Some (handler_of v'), ev_variant = v'\<rparr> = Inr et" "et_ok et"
    "et_used et = et_used (kq_table rl)" "event_at et p = Inr \<lparr>ev_handler = Some (handler_of v'), ev_variant = v'\<rparr>"
    "\<And>q. q \<noteq> p \<Longrightarrow> event_at et q = event_at (kq_table rl) q" by blast
  let ?rl = "rl\<lparr>kq_table := et\<rparr>"
  have w: "watching ?rl p v'" "q \<noteq> p \<Longrightarrow> watching ?rl q u = watching rl q u" for q u
    using et assms(2) by (auto simp: watching_def ev_at_def)
  have "\<exists>u'. watching ?rl q u' \<and> (\<forall>key. owns u q key \<longrightarrow> owns u' q key)" if "watching rl q u" for q u
    using w that assms(2,3) watching_unique [OF assms(2)] by (cases "q = p") blast+
  note m = this backed_mono [OF this]
  have "kq_ok ?rl"
  proof (rule kq_okI)
    show "\<exists>v. watching ?rl q v" if "q \<in> et_used (kq_table ?rl)" for q
    proof -
      from that have "q \<in> et_used (kq_table rl)" by (simp add: et(3))
      from kq_okD(2) [OF assms(1) this] m(1) show ?thesis by blast
    qed
    show "backed ?rl key kn" if "knotes ?rl key = Some kn" for key kn
      using that kq_okD(3) [OF assms(1), of key kn] m(2) by simp
  qed (simp add: et(2))
  then show ?thesis using et(1,3) w by (auto simp: put_ev_def)
qed

lemma put_variant_ok:
  assumes "kq_ok rl" "watching rl p v" "\<And>key. owns v p key \<Longrightarrow> owns v' p key" "handler_of v' = handler_of v"
  shows "\<exists>rl'. put_variant rl p v' = Inr rl' \<and> kq_ok rl' \<and> watching rl' p v' \<and>
    (\<forall>q u. q \<noteq> p \<longrightarrow> watching rl' q u = watching rl q u) \<and> knotes rl' = knotes rl \<and>
    et_used (kq_table rl') = et_used (kq_table rl)"
proof -
  from assms(2) have "ev_at rl p = Inr \<lparr>ev_handler = Some (handler_of v), ev_variant = v\<rparr>" by (simp add: watching_def)
  with put_ev_ok [OF assms(1,2), of v'] assms(3,4) show ?thesis by (simp add: put_variant_def)
qed

lemma new_ev_ok:
  assumes "kq_ok rl" "card (et_used (kq_table rl)) < EVT_MAX"
  shows "\<exists>p rl'. new_ev rl \<lparr>ev_handler = Some (handler_of v), ev_variant = v\<rparr> = Inr (p, rl') \<and> kq_ok rl' \<and>
    watching rl' p v \<and> p \<notin> et_used (kq_table rl) \<and> et_used (kq_table rl') = insert p (et_used (kq_table rl)) \<and>
    knotes rl' = knotes rl \<and> (\<forall>q u. watching rl q u \<longrightarrow> watching rl' q u)"
proof -
  from assms(1) have ok: "et_ok (kq_table rl)" by (rule kq_okD)
  from et.alloc_store [OF ok assms(2), of "\<lparr>ev_handler = Some (handler_of v), ev_variant = v\<rparr>"] obtain p t1 t2 where
    t: "event_table_get_entry (kq_table rl) = Inr (p, t1)" "set_event t1 p \<lparr>ev_handler = Some (handler_of v), ev_variant = v\<rparr> = Inr t2"
    "et_ok t2" "p \<notin> et_used (kq_table rl)" "et_used t2 = insert p (et_used (kq_table rl))"
    "event_at t2 p = Inr \<lparr>ev_handler = Some (handler_of v), ev_variant = v\<rparr>"
    "\<And>q. q \<in> et_used (kq_table rl) \<Longrightarrow> event_at t2 q = event_at (kq_table rl) q" by blast
  let ?rl = "rl\<lparr>kq_table := t2\<rparr>"
  have w: "watching ?rl p v" "\<And>q u. watching rl q u \<Longrightarrow> watching ?rl q u"
    using t by (auto simp: watching_def ev_at_def)
  have m: "backed rl key kn \<Longrightarrow> backed ?rl key kn" for key kn
    using w(2) backed_mono [of rl ?rl key kn] by blast
  have "kq_ok ?rl"
  proof (rule kq_okI)
    show "\<exists>v. watching ?rl q v" if "q \<in> et_used (kq_table ?rl)" for q
    proof (cases "q = p")
      case False
      with that t(5) have "q \<in> et_used (kq_table rl)" by simp
      from kq_okD(2) [OF assms(1) this] w(2) show ?thesis by blast
    qed (use w(1) in blast)
    show "backed ?rl key kn" if "knotes ?rl key = Some kn" for key kn
      using that kq_okD(3) [OF assms(1), of key kn] m by simp
  qed (simp add: t(3))
  moreover have "new_ev rl \<lparr>ev_handler = Some (handler_of v), ev_variant = v\<rparr> = Inr (p, ?rl)"
    using t(1,2) by (simp add: new_ev_def put_ev_def)
  ultimately show ?thesis using t(4,5) w by (intro exI [of _ p] exI [of _ ?rl]) simp
qed

lemma release_ev_ok:
  assumes "kq_ok rl" "watching rl p v" "\<And>key kn. knotes rl key = Some kn \<Longrightarrow> kn_udata kn \<noteq> Some p"
  shows "\<exists>rl'. release_ev rl p = Inr rl' \<and> kq_ok rl' \<and> et_used (kq_table rl') = et_used (kq_table rl) - {p} \<and>
    knotes rl' = knotes rl \<and> (\<forall>q u. q \<noteq> p \<longrightarrow> watching rl' q u = watching rl q u)"
proof -
  from kq_okD(1) [OF assms(1)] assms(2) have "et_ok (kq_table rl)" "p \<in> et_used (kq_table rl)"
    by (auto simp: watching_def)
  from et.release_law [OF this] obtain et where
    et: "event_table_release_entry (kq_table rl) p = Inr et" "et_ok et" "et_used et = et_used (kq_table rl) - {p}"
    "\<And>q. event_at et q = event_at (kq_table rl) q" by blast
  have w: "q \<noteq> p \<Longrightarrow> watching (rl\<lparr>kq_table := et\<rparr>) q u = watching rl q u" for q u
    using et(3,4) by (auto simp: watching_def ev_at_def)
  have "backed (rl\<lparr>kq_table := et\<rparr>) key kn" if "knotes rl key = Some kn" for key kn
    using kq_okD(3) [OF assms(1) that] assms(3) [OF that] w unfolding backed_def by metis
  note b = this
  have "kq_ok (rl\<lparr>kq_table := et\<rparr>)"
  proof (rule kq_okI)
    show "\<exists>v. watching (rl\<lparr>kq_table := et\<rparr>) q v" if "q \<in> et_used (kq_table (rl\<lparr>kq_table := et\<rparr>))" for q
      using that kq_okD(2) [OF assms(1), of q] w [of q] et(3) by simp
    show "backed (rl\<lparr>kq_table := et\<rparr>) key kn" if "knotes (rl\<lparr>kq_table := et\<rparr>) key = Some kn" for key kn
      using that b by simp
  qed (simp add: et(2))
  then show ?thesis using et w by (auto simp: release_ev_def)
qed

lemma kq_close_fd_watching [simp]:
  "watching (kq_close_fd rl fd) = watching rl" "kq_table (kq_close_fd rl fd) = kq_table rl"
  "fst key = Fd fd \<Longrightarrow> knotes (kq_close_fd rl fd) key = None"
  by (simp_all add: kq_close_fd_def watching_def ev_at_def fun_eq_iff)

lemma kq_close_fd_ok: "kq_ok rl \<Longrightarrow> kq_ok (kq_close_fd rl fd)"
proof (rule kq_okI)
  assume ok: "kq_ok rl"
  show "et_ok (kq_table (kq_close_fd rl fd))" using kq_okD(1) [OF ok] by simp
  show "\<exists>v. watching (kq_close_fd rl fd) q v" if "q \<in> et_used (kq_table (kq_close_fd rl fd))" for q
    using that kq_okD(2) [OF ok, of q] by simp
  show "backed (kq_close_fd rl fd) key kn" if "knotes (kq_close_fd rl fd) key = Some kn" for key kn
  proof -
    have "knotes rl key = Some kn" using that by (simp add: kq_close_fd_def split: if_splits)
    from kq_okD(3) [OF ok this] show ?thesis by (simp add: backed_def)
  qed
qed

section \<open>Every proper call keeps the invariant\<close>

datatype ('c, 'a) kq_op =
    Stream_new int
  | Stream_register nat
  | Stream_deregister nat
  | Stream_free nat
  | Arm_both nat "'c option" "'a post_arg option" "'c option" "'a post_arg option"
  | Arm_read nat "'c option" "'a post_arg option"
  | Arm_write nat "'c option" "'a post_arg option"
  | Disarm_read nat
  | Disarm_write nat
  | Timer_set "'c option" "'a post_arg option" int bool
  | Timer_register nat "'c option" "'a post_arg option" int bool
  | Timer_update nat int bool
  | Timer_disarm nat
  | Timer_rearm nat
  | Timer_deregister nat
  | Timer_clear nat
  | Listener_new int
  | Listener_register nat "'c option" "'a post_arg option"
  | Listener_arm nat "'c option" "'a post_arg option"
  | Listener_rearm nat
  | Listener_disarm nat
  | Listener_deregister nat
  | Listener_free nat
  | Uevent_new
  | Uevent_register nat
  | Uevent_arm nat "'c option" "'a post_arg option"
  | Uevent_disarm nat
  | Uevent_fire nat

fun kq_exec :: "('c, 'a) kq_op \<Rightarrow> ('c, 'a) kq_loop \<Rightarrow> ('c, 'a) kq_loop res" where
  "kq_exec (Stream_new fd) rl = rbind (kq_stream_new rl fd) (\<lambda>(p, rl1). Inr rl1)"
| "kq_exec (Stream_register p) rl = kq_stream_register rl p"
| "kq_exec (Stream_deregister p) rl = kq_stream_deregister rl p"
| "kq_exec (Stream_free p) rl = kq_stream_free rl p"
| "kq_exec (Arm_both p rcb ra wcb wa) rl = kq_stream_arm_both rl p rcb ra wcb wa"
| "kq_exec (Arm_read p cb a) rl = kq_stream_arm_read rl p cb a"
| "kq_exec (Arm_write p cb a) rl = kq_stream_arm_write rl p cb a"
| "kq_exec (Disarm_read p) rl = kq_stream_disarm_read rl p"
| "kq_exec (Disarm_write p) rl = kq_stream_disarm_write rl p"
| "kq_exec (Timer_set cb a ms r) rl = rbind (kq_timer_set rl cb a ms r) (\<lambda>(p, rl1). Inr rl1)"
| "kq_exec (Timer_register p cb a ms r) rl = kq_timer_register rl p cb a ms r"
| "kq_exec (Timer_update p ms r) rl = Inr (kq_timer_update rl p ms r)"
| "kq_exec (Timer_disarm p) rl = Inr (kq_timer_disarm rl p)"
| "kq_exec (Timer_rearm p) rl = kq_timer_rearm rl p"
| "kq_exec (Timer_deregister p) rl = Inr (kq_timer_deregister rl p)"
| "kq_exec (Timer_clear p) rl = kq_timer_clear rl p"
| "kq_exec (Listener_new fd) rl = rbind (kq_listener_new rl fd) (\<lambda>(p, rl1). Inr rl1)"
| "kq_exec (Listener_register p cb a) rl = kq_listener_register rl p cb a"
| "kq_exec (Listener_arm p cb a) rl = kq_listener_arm rl p cb a"
| "kq_exec (Listener_rearm p) rl = kq_listener_rearm rl p"
| "kq_exec (Listener_disarm p) rl = kq_listener_disarm rl p"
| "kq_exec (Listener_deregister p) rl = kq_listener_deregister rl p"
| "kq_exec (Listener_free p) rl = kq_listener_free rl p"
| "kq_exec Uevent_new rl = rbind (kq_user_event_new rl) (\<lambda>(p, rl1). Inr rl1)"
| "kq_exec (Uevent_register p) rl = Inr (kq_user_event_register rl p)"
| "kq_exec (Uevent_arm p cb a) rl = kq_user_event_arm rl p cb a"
| "kq_exec (Uevent_disarm p) rl = Inr (kq_user_event_disarm rl p)"
| "kq_exec (Uevent_fire p) rl = Inr (kq_user_event_fire rl p)"

text \<open>A client makes a call on a watcher that is in use and of the right kind, and a new watcher fits.\<close>

definition kq_room :: "('c, 'a) kq_loop \<Rightarrow> bool" where
  "kq_room rl \<longleftrightarrow> card (et_used (kq_table rl)) < EVT_MAX"

definition streams :: "('c, 'a) kq_loop \<Rightarrow> nat \<Rightarrow> bool" where
  "streams rl p \<longleftrightarrow> (\<exists>w. watching rl p (Stream_ev w))"

definition timers :: "('c, 'a) kq_loop \<Rightarrow> nat \<Rightarrow> bool" where
  "timers rl p \<longleftrightarrow> (\<exists>w. watching rl p (Timer_ev w))"

definition listeners :: "('c, 'a) kq_loop \<Rightarrow> nat \<Rightarrow> bool" where
  "listeners rl p \<longleftrightarrow> (\<exists>w. watching rl p (Listener_ev w))"

definition uevents :: "('c, 'a) kq_loop \<Rightarrow> nat \<Rightarrow> bool" where
  "uevents rl p \<longleftrightarrow> (\<exists>w. watching rl p (Uevent_ev w))"

fun proper :: "('c, 'a) kq_op \<Rightarrow> ('c, 'a) kq_loop \<Rightarrow> bool" where
  "proper (Stream_new fd) rl = kq_room rl"
| "proper (Stream_register p) rl = streams rl p"
| "proper (Stream_deregister p) rl = streams rl p"
| "proper (Stream_free p) rl = streams rl p"
| "proper (Arm_both p rcb ra wcb wa) rl = streams rl p"
| "proper (Arm_read p cb a) rl = streams rl p"
| "proper (Arm_write p cb a) rl = streams rl p"
| "proper (Disarm_read p) rl = streams rl p"
| "proper (Disarm_write p) rl = streams rl p"
| "proper (Timer_set cb a ms r) rl = kq_room rl"
| "proper (Timer_register p cb a ms r) rl = timers rl p"
| "proper (Timer_update p ms r) rl = timers rl p"
| "proper (Timer_disarm p) rl = timers rl p"
| "proper (Timer_rearm p) rl = timers rl p"
| "proper (Timer_deregister p) rl = timers rl p"
| "proper (Timer_clear p) rl = timers rl p"
| "proper (Listener_new fd) rl = kq_room rl"
| "proper (Listener_register p cb a) rl = listeners rl p"
| "proper (Listener_arm p cb a) rl = listeners rl p"
| "proper (Listener_rearm p) rl = listeners rl p"
| "proper (Listener_disarm p) rl = listeners rl p"
| "proper (Listener_deregister p) rl = listeners rl p"
| "proper (Listener_free p) rl = listeners rl p"
| "proper Uevent_new rl = kq_room rl"
| "proper (Uevent_register p) rl = uevents rl p"
| "proper (Uevent_arm p cb a) rl = uevents rl p"
| "proper (Uevent_disarm p) rl = uevents rl p"
| "proper (Uevent_fire p) rl = uevents rl p"

definition fine :: "('c, 'a) kq_loop res \<Rightarrow> bool" where
  "fine r \<longleftrightarrow> (\<exists>rl. r = Inr rl \<and> kq_ok rl)"

lemma fine_kevent: "kq_ok rl \<Longrightarrow> list_all (change_ok rl) cs \<Longrightarrow> fine (Inr (kq_kevent rl cs))"
  by (simp add: fine_def kq_kevent_ok)

lemma change_ok_add:
  assumes "watching rl p v" "owns v p (i, f)"
  shows "change_ok rl (EV_SET i f fl ff d (Some p))"
  using assms unfolding change_ok_def EV_SET_def by auto

lemma change_ok_None:
  "change_ok rl (EV_SET i f (EV_DELETE OR EV_RECEIPT) ff d None)"
  "change_ok rl (EV_SET i f (EV_ADD OR EV_DISABLE OR EV_RECEIPT) ff d None)"
  by (simp_all add: change_ok_def EV_SET_def ev_flags)

lemma fine_put_variant:
  assumes "kq_ok rl" "watching rl p v" "\<And>key. owns v p key \<Longrightarrow> owns v' p key" "handler_of v' = handler_of v"
    "\<And>rl'. kq_ok rl' \<Longrightarrow> watching rl' p v' \<Longrightarrow> fine (f rl')"
  shows "fine (rbind (put_variant rl p v') f)"
  using put_variant_ok [OF assms(1-4)] assms(5) by auto

lemma fine_put_ev:
  assumes "kq_ok rl" "watching rl p v" "\<And>key. owns v p key \<Longrightarrow> owns v' p key"
    "\<And>rl'. kq_ok rl' \<Longrightarrow> watching rl' p v' \<Longrightarrow> fine (f rl')"
  shows "fine (rbind (put_ev rl p \<lparr>ev_handler = Some (handler_of v'), ev_variant = v'\<rparr>) f)"
  using put_ev_ok [OF assms(1-3)] assms(4) by auto

lemma fine_new:
  assumes "kq_ok rl" "kq_room rl" "\<And>p rl'. kq_ok rl' \<Longrightarrow> watching rl' p v \<Longrightarrow> fine (f p rl')"
  shows "fine (rbind (new_ev rl \<lparr>ev_handler = Some (handler_of v), ev_variant = v\<rparr>) (\<lambda>(p, rl1). f p rl1))"
  using new_ev_ok [OF assms(1), of v] assms(2,3) by (auto simp: kq_room_def)

lemmas kqh_fd_defs = kqh_readerwriter_register_def kqh_readerwriter_cancel_def kqh_writer_register_def
  kqh_writer_pause_def kqh_reader_register_def kqh_reader_pause_def
  kqh_listener_register_def kqh_listener_cancel_def kqh_listener_pause_def

lemmas kqh_ptr_defs = kqh_timer_register_def kqh_timer_cancel_def kqh_timer_pause_def
  kqh_user_event_register_def kqh_user_event_trigger_def kqh_user_event_pause_def

lemma kqh_stream_fine:
  assumes "kq_ok rl" "watching rl p (Stream_ev w)"
  shows "fine (kqh_readerwriter_register rl p)" "fine (kqh_readerwriter_cancel rl p)"
    "fine (kqh_writer_register rl p)" "fine (kqh_writer_pause rl p)"
    "fine (kqh_reader_register rl p)" "fine (kqh_reader_pause rl p)"
  using assms
  by (auto simp: kqh_fd_defs watching_at(1) Let_def intro!: fine_kevent change_ok_add change_ok_None)

lemma kqh_listener_fine:
  assumes "kq_ok rl" "watching rl p (Listener_ev w)"
  shows "fine (kqh_listener_register rl p)" "fine (kqh_listener_cancel rl p)" "fine (kqh_listener_pause rl p)"
  using assms
  by (auto simp: kqh_fd_defs watching_at(2) Let_def intro!: fine_kevent change_ok_add change_ok_None)

lemma kqh_timer_fine:
  assumes "kq_ok rl" "watching rl p (Timer_ev w)"
  shows "fine (Inr (kqh_timer_register rl p b ms))" "fine (Inr (kqh_timer_cancel rl p))" "fine (Inr (kqh_timer_pause rl p))"
  using assms by (auto simp: kqh_ptr_defs intro!: fine_kevent change_ok_add change_ok_None)

lemma kqh_uevent_fine:
  assumes "kq_ok rl" "watching rl p (Uevent_ev w)"
  shows "fine (Inr (kqh_user_event_register rl p))" "fine (Inr (kqh_user_event_trigger rl p d))"
    "fine (Inr (kqh_user_event_pause rl p))"
  using assms by (auto simp: kqh_ptr_defs intro!: fine_kevent change_ok_add change_ok_None)

lemma released:
  assumes "kq_ok rl" "watching rl p v" "\<And>key. owns v p key \<Longrightarrow> knotes rl key = None"
  shows "fine (release_ev rl p)"
proof -
  have "kn_udata kn \<noteq> Some p" if "knotes rl key = Some kn" for key kn
  proof
    assume "kn_udata kn = Some p"
    with kq_okD(3) [OF assms(1) that] obtain u where "watching rl p u" "owns u p key" by (auto simp: backed_def)
    with watching_unique [OF assms(2)] assms(3) [of key] that show False by auto
  qed
  then have "\<exists>rl'. release_ev rl p = Inr rl' \<and> kq_ok rl'" using release_ev_ok [OF assms(1,2)] by blast
  then show ?thesis by (simp add: fine_def)
qed

lemma closed_released:
  assumes "kq_ok rl" "watching rl p v" "\<And>key. owns v p key \<Longrightarrow> fst key = Fd fd"
  shows "fine (release_ev (kq_close_fd rl fd) p)"
  using assms by (intro released [of _ p v]) (simp_all add: kq_close_fd_ok)

lemma stream_fine:
  assumes ok: "kq_ok rl" and w: "watching rl p (Stream_ev w)"
  shows "fine (kq_stream_arm_both rl p rcb ra wcb wa)" "fine (kq_stream_arm_read rl p cb a)"
    "fine (kq_stream_arm_write rl p cb a)" "fine (kq_stream_disarm_read rl p)" "fine (kq_stream_disarm_write rl p)"
    "fine (kq_stream_free rl p)"
proof -
  show "fine (kq_stream_arm_both rl p rcb ra wcb wa)" "fine (kq_stream_arm_read rl p cb a)"
    "fine (kq_stream_arm_write rl p cb a)" "fine (kq_stream_disarm_read rl p)" "fine (kq_stream_disarm_write rl p)"
    unfolding kq_stream_arm_both_def kq_stream_arm_read_def kq_stream_arm_write_def kq_stream_disarm_read_def
      kq_stream_disarm_write_def watching_at(1) [OF w] rbind_Inr
    by (rule fine_put_variant [OF ok w], simp_all, rule kqh_stream_fine, assumption+)+
  from kqh_stream_fine(2) [OF ok w] obtain rl1 where
    rl1: "kqh_readerwriter_cancel rl p = Inr rl1" "kq_ok rl1" by (auto simp: fine_def)
  moreover have "watching rl1 = watching rl"
    using rl1(1) watching_at(1) [OF w] by (auto simp: kqh_readerwriter_cancel_def Let_def)
  ultimately show "fine (kq_stream_free rl p)"
    using closed_released [of rl1 p "Stream_ev w" "ks_fd w"] watching_at(1) [of rl1 p w] w
    by (simp add: kq_stream_free_def kq_stream_deregister_def)
qed

lemma timer_fine:
  assumes ok: "kq_ok rl" and w: "watching rl p (Timer_ev w)"
  shows "fine (kq_timer_register rl p cb a ms r)" "fine (kq_timer_rearm rl p)" "fine (kq_timer_clear rl p)"
proof -
  have "fine (rbind (put_ev rl p \<lparr>ev_handler = Some (handler_of (Timer_ev t)), ev_variant = Timer_ev t\<rparr>)
      (\<lambda>rl1. Inr (kqh_timer_register rl1 p b ms)))" for t b
    by (rule fine_put_ev [OF ok w]) (auto intro: kqh_timer_fine)
  then show "fine (kq_timer_register rl p cb a ms r)"
    using watching_at(3) [OF w] by (simp add: kq_timer_register_def)
  show "fine (kq_timer_rearm rl p)"
    using watching_at(3) [OF w] kqh_timer_fine(1) [OF ok w] by (simp add: kq_timer_rearm_def)
  have "kq_ok (kqh_timer_cancel rl p)" using kqh_timer_fine(2) [OF ok w] by (simp add: fine_def)
  moreover have "watching (kqh_timer_cancel rl p) p (Timer_ev w)" using w by (simp add: kqh_timer_cancel_def)
  moreover have "knotes (kqh_timer_cancel rl p) (Ptr p, EVFILT_TIMER) = None"
    by (simp add: kqh_timer_cancel_def kq_kevent_def kevent_change_def EV_SET_def ev_flags Let_def)
  ultimately show "fine (kq_timer_clear rl p)"
    unfolding kq_timer_clear_def kq_timer_free_def kq_timer_deregister_def by (intro released) auto
qed

lemma listener_fine:
  assumes ok: "kq_ok rl" and w: "watching rl p (Listener_ev w)"
  shows "fine (kq_listener_register rl p cb a)" "fine (kq_listener_arm rl p cb a)" "fine (kq_listener_free rl p)"
proof -
  have "fine (rbind (put_ev rl p \<lparr>ev_handler = Some (handler_of (Listener_ev t)), ev_variant = Listener_ev t\<rparr>)
      (\<lambda>rl1. kqh_listener_register rl1 p))" if "kl_fd t = kl_fd w" for t
    by (rule fine_put_ev [OF ok w]) (use that in \<open>auto intro: kqh_listener_fine\<close>)
  then show "fine (kq_listener_register rl p cb a)"
    using watching_at(2) [OF w] by (simp add: kq_listener_register_def)
  show "fine (kq_listener_arm rl p cb a)"
    unfolding kq_listener_arm_def watching_at(2) [OF w] rbind_Inr
    by (rule fine_put_variant [OF ok w], simp_all, rule kqh_listener_fine, assumption+)
  show "fine (kq_listener_free rl p)"
    using closed_released [OF ok w, of "kl_fd w"] watching_at(2) [OF w] by (simp add: kq_listener_free_def)
qed

lemma uevent_fine:
  assumes ok: "kq_ok rl" and w: "watching rl p (Uevent_ev w)"
  shows "fine (kq_user_event_arm rl p cb a)"
  unfolding kq_user_event_arm_def watching_at(4) [OF w] rbind_Inr
  by (rule fine_put_variant [OF ok w], simp_all, rule kqh_uevent_fine, assumption+)

lemma new_fine:
  assumes "kq_ok rl" "kq_room rl"
  shows "fine (rbind (kq_stream_new rl fd) (\<lambda>(p, rl1). Inr rl1))"
    "fine (rbind (kq_listener_new rl fd) (\<lambda>(p, rl1). Inr rl1))"
    "fine (rbind (kq_user_event_new rl) (\<lambda>(p, rl1). Inr rl1))"
    "fine (rbind (kq_timer_set rl cb a ms r) (\<lambda>(p, rl1). Inr rl1))"
proof -
  note n = fine_new [OF assms, where f = "\<lambda>p rl1. Inr rl1"]
  from n [of "Stream_ev t" for t] show "fine (rbind (kq_stream_new rl fd) (\<lambda>(p, rl1). Inr rl1))"
    by (simp add: kq_stream_new_def kq_stream_init_def fine_def)
  from n [of "Listener_ev t" for t] show "fine (rbind (kq_listener_new rl fd) (\<lambda>(p, rl1). Inr rl1))"
    by (simp add: kq_listener_new_def kq_listener_init_def fine_def)
  from n [of "Uevent_ev t" for t] show "fine (rbind (kq_user_event_new rl) (\<lambda>(p, rl1). Inr rl1))"
    by (simp add: kq_user_event_new_def kq_user_event_init_def fine_def)
  have "fine (rbind (kq_timer_register rl1 p cb a ms r) Inr)" if "kq_ok rl1" "watching rl1 p (Timer_ev t)" for rl1 p t
    using timer_fine(1) [OF that] by simp
  then show "fine (rbind (kq_timer_set rl cb a ms r) (\<lambda>(p, rl1). Inr rl1))"
    using fine_new [OF assms, where v = "Timer_ev t" and f = "\<lambda>p rl1. kq_timer_register rl1 p cb a ms r" for t]
    by (simp add: kq_timer_set_def kq_timer_new_def kq_timer_init_def rbind_assoc case_prod_unfold)
qed

lemma kq_exec_fine: "kq_ok rl \<Longrightarrow> proper op rl \<Longrightarrow> fine (kq_exec op rl)"
  by (cases op)
    (auto simp: streams_def timers_def listeners_def uevents_def new_fine kq_stream_register_def
      kq_stream_deregister_def kq_timer_update_def kq_timer_disarm_def kq_timer_deregister_def kq_listener_rearm_def
      kq_listener_disarm_def kq_listener_deregister_def kq_user_event_register_def kq_user_event_disarm_def
      kq_user_event_fire_def intro: stream_fine timer_fine listener_fine uevent_fine kqh_stream_fine kqh_timer_fine
      kqh_listener_fine kqh_uevent_fine)

section \<open>Delivery\<close>

text \<open>The states of a loop: those after proper calls and deliveries.\<close>

inductive kq_reach :: "('c, 'a) kq_loop \<Rightarrow> bool" where
  kq_start: "kq_runloop_new fd = Inr rl \<Longrightarrow> kq_reach rl"
| kq_step: "kq_reach rl \<Longrightarrow> proper op rl \<Longrightarrow> kq_exec op rl = Inr rl' \<Longrightarrow> kq_reach rl'"
| kq_delivery: "kq_reach rl \<Longrightarrow> kq_reach (rl\<lparr>knotes := snd (kevent_wait (knotes rl) keys)\<rparr>)"

lemma kevent_wait_backed:
  assumes "\<And>key kn. k key = Some kn \<Longrightarrow> backed rl key kn"
  shows "(\<forall>key kn. snd (kevent_wait k keys) key = Some kn \<longrightarrow> backed rl key kn) \<and>
    (\<forall>(key, u) \<in> set (fst (kevent_wait k keys)). \<exists>p v. u = Some p \<and> watching rl p v \<and> owns v p key)"
  using assms
proof (induction keys arbitrary: k)
  case (Cons key keys)
  show ?case
  proof (cases "k key")
    case (Some kn)
    show ?thesis
    proof (cases "kn_active key kn")
      case True
      let ?k = "if kn_oneshot kn then k(key := None) else if kn_dispatch kn then k(key \<mapsto> kn\<lparr>kn_enabled := False\<rparr>) else k"
      have b: "backed rl key kn" using Cons.prems Some .
      have "backed rl key' kn'" if "?k key' = Some kn'" for key' kn'
        using that Cons.prems [of key' kn'] b by (cases "key' = key") (auto simp: backed_def split: if_splits)
      note ih = Cons.IH [OF this]
      from b True obtain p v where "kn_udata kn = Some p" "watching rl p v" "owns v p key"
        by (auto simp: backed_def kn_active_def)
      with ih Some True show ?thesis by (auto simp: Let_def case_prod_unfold simp del: fun_upd_apply)
    qed (use Cons.IH [OF Cons.prems] Some in simp)
  qed (use Cons.IH [OF Cons.prems] in simp)
qed simp

lemma kq_reach_ok: "kq_reach rl \<Longrightarrow> kq_ok rl"
proof (induction rule: kq_reach.induct)
  case (kq_start fd rl)
  obtain et :: "('a, 'b) RunloopEvent EventTable" where et: "event_table_new = Inr et" "et_ok et" "et_used et = {}"
    using et.new_law by blast
  from kq_start et(2,3) show ?case unfolding kq_runloop_new_def kq_runloop_init_def et(1)
    by (intro kq_okI) (auto simp: rbind_eq_Inr)
next
  case (kq_step rl op rl')
  then show ?case using kq_exec_fine [of rl op] by (auto simp: fine_def)
next
  case (kq_delivery rl keys)
  note w = kevent_wait_backed [of "knotes rl" rl keys, OF kq_okD(3) [OF kq_delivery.IH]]
  show ?case
  proof (rule kq_okI)
    show "et_ok (kq_table (rl\<lparr>knotes := snd (kevent_wait (knotes rl) keys)\<rparr>))" using kq_okD(1) [OF kq_delivery.IH] by simp
  qed (use w kq_okD(2) [OF kq_delivery.IH] in \<open>simp_all, blast\<close>)
qed

section \<open>New loops and new watchers\<close>

lemma kq_runloop_new_ok:
  assumes "fd \<noteq> -1"
  shows "\<exists>rl. kq_runloop_new fd = Inr rl \<and> kq_ok rl \<and> et_used (kq_table rl) = {} \<and> knotes rl = Map.empty \<and>
    fl_rep (kq_ready rl) [] \<and> fl_room (kq_ready rl) = 2047"
proof -
  obtain et :: "('a, 'b) RunloopEvent EventTable" where et: "event_table_new = Inr et" "et_used et = {}"
    using et.new_law by blast
  from functor_list_new_rep [of runloop_READY_LIST_MAX] obtain lst :: "('a, 'b post_arg) Functor FunctorList" where
    lst: "functor_list_new runloop_READY_LIST_MAX = Inr lst" "fl_rep lst []" "fl_room lst = 2047"
    by (auto simp: runloop_READY_LIST_MAX_def runloop_MAX_FDS_def)
  have "kq_runloop_new fd = Inr rl \<Longrightarrow> kq_ok rl" for rl :: "('a, 'b) kq_loop" by (rule kq_reach_ok [OF kq_start])
  with assms lst et(2) show ?thesis
    unfolding kq_runloop_new_def kq_runloop_init_def et(1) by auto
qed

lemma new_loop_reach:
  assumes "fd \<noteq> -1"
  shows "\<exists>rl. kq_runloop_new fd = Inr rl \<and> kq_reach rl \<and> et_used (kq_table rl) = {} \<and> knotes rl = Map.empty \<and> kq_room rl"
  using kq_runloop_new_ok [OF assms] kq_start [of fd] by (fastforce simp: kq_room_def EVT_MAX_def)

lemma new_stream_reach:
  assumes "kq_reach rl" "kq_room rl"
  shows "\<exists>p rl' w. kq_stream_new rl fd = Inr (p, rl') \<and> kq_reach rl' \<and> watching rl' p (Stream_ev w) \<and> ks_fd w = fd \<and>
    knotes rl' = knotes rl"
proof -
  let ?w = "\<lparr>ks_fd = fd, ks_mask = 0, ks_read_cb = None, ks_read_arg = None, ks_write_cb = None, ks_write_arg = None\<rparr>"
  from new_ev_ok [OF kq_reach_ok [OF assms(1)], of "Stream_ev ?w"] assms(2) obtain p rl' where
    p: "kq_stream_new rl fd = Inr (p, rl')" "watching rl' p (Stream_ev ?w)" "knotes rl' = knotes rl"
    by (auto simp: kq_stream_new_def kq_stream_init_def kq_room_def)
  with kq_step [OF assms(1), of "Stream_new fd" rl'] assms(2) have "kq_reach rl'" by simp
  with p show ?thesis by (intro exI [of _ p] exI [of _ rl'] exI [of _ ?w]) simp
qed

lemma new_timer_reach:
  assumes "kq_reach rl" "kq_room rl"
  shows "\<exists>p rl'. kq_timer_set rl cb a ms r = Inr (p, rl') \<and> kq_reach rl' \<and> p \<notin> et_used (kq_table rl) \<and>
    et_used (kq_table rl') = insert p (et_used (kq_table rl)) \<and> (\<forall>q u. watching rl q u \<longrightarrow> watching rl' q u) \<and>
    watching rl' p (Timer_ev \<lparr>kt_interval = ms, kt_repeating = r, kt_postable = cb, kt_arg = a\<rparr>)"
proof -
  let ?t = "\<lparr>kt_interval = 0, kt_repeating = False, kt_postable = None, kt_arg = None\<rparr>"
    and ?u = "\<lparr>kt_interval = ms, kt_repeating = r, kt_postable = cb, kt_arg = a\<rparr>"
  from new_ev_ok [OF kq_reach_ok [OF assms(1)], of "Timer_ev ?t"] assms(2) obtain p rl1 where
    p: "kq_timer_new rl = Inr (p, rl1)" "kq_ok rl1" "watching rl1 p (Timer_ev ?t)" "p \<notin> et_used (kq_table rl)"
    "et_used (kq_table rl1) = insert p (et_used (kq_table rl))" "\<And>q u. watching rl q u \<Longrightarrow> watching rl1 q u"
    by (auto simp: kq_timer_new_def kq_timer_init_def kq_room_def)
  from put_ev_ok [OF p(2,3), of "Timer_ev ?u"] obtain rl2 where
    rl2: "put_ev rl1 p \<lparr>ev_handler = Some Timer_handler, ev_variant = Timer_ev ?u\<rparr> = Inr rl2" "watching rl2 p (Timer_ev ?u)"
    "\<And>q v. q \<noteq> p \<Longrightarrow> watching rl2 q v = watching rl1 q v" "et_used (kq_table rl2) = et_used (kq_table rl1)" by auto
  let ?rl = "kqh_timer_register rl2 p (\<not> r) ms"
  have set: "kq_timer_set rl cb a ms r = Inr (p, ?rl)"
    using p(1) rl2(1) watching_at(3) [OF p(3)] by (simp add: kq_timer_set_def kq_timer_register_def)
  with kq_step [OF assms(1), of "Timer_set cb a ms r" ?rl] assms(2) have "kq_reach ?rl" by simp
  moreover have "watching rl q u \<Longrightarrow> watching ?rl q u" for q u
    using p(4,6) rl2(3) [of q u] by (cases "q = p") (auto simp: watching_def kqh_timer_register_def)
  ultimately show ?thesis using set p(4,5) rl2(2,4) by (auto simp: kqh_timer_register_def)
qed

section \<open>Properties\<close>

text \<open>
  C5: In every state that a client reaches with calls on watchers in use, from a new loop and with any
  deliveries in between, every event that a wait reports carries a watcher that is in use, has the
  handler of its kind and was registered for that event, so that the loop neither follows a \<open>NULL\<close>
  pointer nor calls the handler of a watcher that was freed. The calls themselves never fail.
\<close>

theorem kqueue_events_have_watchers:
  assumes "kq_reach rl"
  shows "(\<forall>(key, u) \<in> set (fst (kevent_wait (knotes rl) keys)).
      \<exists>p v. u = Some p \<and> p \<in> et_used (kq_table rl) \<and>
        ev_at rl p = Inr \<lparr>ev_handler = Some (handler_of v), ev_variant = v\<rparr> \<and> owns v p key) \<and>
    (proper op rl \<longrightarrow> (\<exists>rl'. kq_exec op rl = Inr rl' \<and> kq_reach rl'))"
proof
  from assms have ok: "kq_ok rl" by (rule kq_reach_ok)
  show "\<forall>(key, u) \<in> set (fst (kevent_wait (knotes rl) keys)).
      \<exists>p v. u = Some p \<and> p \<in> et_used (kq_table rl) \<and>
        ev_at rl p = Inr \<lparr>ev_handler = Some (handler_of v), ev_variant = v\<rparr> \<and> owns v p key"
    using kevent_wait_backed [of "knotes rl" rl keys, OF kq_okD(3) [OF ok]] by (fastforce simp: watching_def)
  show "proper op rl \<longrightarrow> (\<exists>rl'. kq_exec op rl = Inr rl' \<and> kq_reach rl')"
    using kq_exec_fine [OF ok, of op] kq_step [OF assms, of op] by (auto simp: fine_def)
qed

theorem kqueue_events_have_watchers_witness:
  "\<exists>(rl :: (nat, nat) kq_loop) rl1 rl2 p. kq_runloop_new 3 = Inr rl \<and> kq_stream_new rl 5 = Inr (p, rl1) \<and>
     kq_exec (Stream_register p) rl1 = Inr rl2 \<and>
     fst (kevent_wait (knotes rl2) [(Fd 5, EVFILT_READ)]) = [((Fd 5, EVFILT_READ), Some p)] \<and>
     p \<in> et_used (kq_table rl2) \<and> (\<exists>rl3. kq_exec (Disarm_read p) rl2 = Inr rl3)"
proof -
  obtain rl :: "(nat, nat) kq_loop" where rl: "kq_runloop_new 3 = Inr rl" "kq_reach rl" "kq_room rl"
    using new_loop_reach [of 3] by auto
  from new_stream_reach [OF rl(2,3), of 5] obtain p rl1 w where
    p: "kq_stream_new rl 5 = Inr (p, rl1)" "kq_reach rl1" "watching rl1 p (Stream_ev w)" "ks_fd w = 5" by blast
  then have "proper (Stream_register p) rl1" by (auto simp: streams_def)
  with kqueue_events_have_watchers [OF p(2), of _ "Stream_register p"] obtain rl2 where
    rl2: "kq_exec (Stream_register p) rl1 = Inr rl2" "kq_reach rl2" by auto
  moreover have k: "rl2 = kq_kevent rl1
      [EV_SET (Fd 5) EVFILT_READ (EV_ADD OR EV_ENABLE OR EV_DISPATCH OR EV_RECEIPT) 0 0 (Some p),
       EV_SET (Fd 5) EVFILT_WRITE (EV_ADD OR EV_ENABLE OR EV_DISPATCH OR EV_RECEIPT) 0 0 (Some p)]"
    using rl2(1) p(4) watching_at(1) [OF p(3)]
    by (simp add: kq_stream_register_def kqh_readerwriter_register_def Let_def)
  then have e: "fst (kevent_wait (knotes rl2) [(Fd 5, EVFILT_READ)]) = [((Fd 5, EVFILT_READ), Some p)]"
    by (simp add: kq_kevent_def kevent_change_def EV_SET_def ev_flags Let_def kn_active_def)
  moreover from k p(3) have "proper (Disarm_read p) rl2" by (auto simp: streams_def)
  ultimately show ?thesis
    using kqueue_events_have_watchers [OF rl2(2), of "[(Fd 5, EVFILT_READ)]" "Disarm_read p"] rl(1) p(1) by auto
qed

end
