(* ===== verification/Kqueue_Behaviour.thy ===== *)
theory Kqueue_Behaviour
  imports Kqueue_Safety Runloop
begin

unbundle bit_operations_syntax

text \<open>
  What the watchers of the kqueue run loop do: which filters of a stream are enabled, what happens to a
  user event that was fired, to a timer that was updated and to one that is cleared while its event
  waits to be handled; and the comparison with the epoll run loop on posted work.
\<close>

section \<open>Single changes\<close>

text \<open>An event is enabled for a watcher.\<close>

definition enabled_for :: "('c, 'a) kq_loop \<Rightarrow> nat \<Rightarrow> kident \<times> kfilter \<Rightarrow> bool" where
  "enabled_for rl p key \<longleftrightarrow> (\<exists>kn. knotes rl key = Some kn \<and> kn_enabled kn \<and> kn_udata kn = Some p)"

lemma kevent_changes_add:
  "kevent_change k (EV_SET (Fd i) f (EV_ADD OR EV_ENABLE OR EV_DISPATCH OR EV_RECEIPT) 0 0 u) =
     Some (k((Fd i, f) \<mapsto> \<lparr>kn_enabled = True, kn_dispatch = True, kn_oneshot = False, kn_data = 0, kn_udata = u,
       kn_triggered = (case k (Fd i, f) of None \<Rightarrow> False | Some kn \<Rightarrow> kn_triggered kn)\<rparr>))"
  "kevent_change k (EV_SET (Fd i) f (EV_ADD OR EV_ENABLE OR EV_RECEIPT) 0 0 u) =
     Some (k((Fd i, f) \<mapsto> \<lparr>kn_enabled = True, kn_dispatch = False, kn_oneshot = False, kn_data = 0, kn_udata = u,
       kn_triggered = (case k (Fd i, f) of None \<Rightarrow> False | Some kn \<Rightarrow> kn_triggered kn)\<rparr>))"
  "kevent_change k (EV_SET (Fd i) f (EV_ADD OR EV_DISABLE OR EV_RECEIPT) 0 0 u) =
     Some (k((Fd i, f) \<mapsto> \<lparr>kn_enabled = False, kn_dispatch = False, kn_oneshot = False, kn_data = 0, kn_udata = u,
       kn_triggered = (case k (Fd i, f) of None \<Rightarrow> False | Some kn \<Rightarrow> kn_triggered kn)\<rparr>))"
  by (simp_all add: kevent_change_def EV_SET_def ev_flags Let_def)

section \<open>Streams\<close>

datatype ('c, 'a) stream_op =
    S_register
  | S_arm_both "'c option" "'a post_arg option" "'c option" "'a post_arg option"
  | S_arm_read "'c option" "'a post_arg option"
  | S_arm_write "'c option" "'a post_arg option"
  | S_disarm_read
  | S_disarm_write

fun stream_exec :: "nat \<Rightarrow> ('c, 'a) stream_op \<Rightarrow> ('c, 'a) kq_loop \<Rightarrow> ('c, 'a) kq_loop res" where
  "stream_exec p S_register rl = kq_stream_register rl p"
| "stream_exec p (S_arm_both rcb ra wcb wa) rl = kq_stream_arm_both rl p rcb ra wcb wa"
| "stream_exec p (S_arm_read cb a) rl = kq_stream_arm_read rl p cb a"
| "stream_exec p (S_arm_write cb a) rl = kq_stream_arm_write rl p cb a"
| "stream_exec p S_disarm_read rl = kq_stream_disarm_read rl p"
| "stream_exec p S_disarm_write rl = kq_stream_disarm_write rl p"

text \<open>What the calls promise: whether reading and writing are enabled, and the callbacks.\<close>

record ('c, 'a) stream_spec =
  reading :: bool
  writing :: bool
  reader :: "'c option \<times> 'a post_arg option"
  writer :: "'c option \<times> 'a post_arg option"

definition give :: "'c option \<Rightarrow> 'd option \<Rightarrow> 'c option \<times> 'd option \<Rightarrow> 'c option \<times> 'd option" where
  "give c a old = (set_given c (fst old), set_given a (snd old))"

fun stream_promise :: "('c, 'a) stream_op \<Rightarrow> ('c, 'a) stream_spec \<Rightarrow> ('c, 'a) stream_spec" where
  "stream_promise S_register x = x\<lparr>reading := True, writing := True\<rparr>"
| "stream_promise (S_arm_both rcb ra wcb wa) x =
     x\<lparr>reading := True, writing := True, reader := give rcb ra (reader x), writer := give wcb wa (writer x)\<rparr>"
| "stream_promise (S_arm_read cb a) x = x\<lparr>reading := True, reader := give cb a (reader x)\<rparr>"
| "stream_promise (S_arm_write cb a) x = x\<lparr>writing := True, writer := give cb a (writer x)\<rparr>"
| "stream_promise S_disarm_read x = x\<lparr>reading := False, reader := (None, None)\<rparr>"
| "stream_promise S_disarm_write x = x\<lparr>writing := False, writer := (None, None)\<rparr>"

definition stream_abs :: "('c, 'a) kq_loop \<Rightarrow> nat \<Rightarrow> ('c, 'a) kStream \<Rightarrow> ('c, 'a) stream_spec" where
  "stream_abs rl p w =
     \<lparr>reading = enabled_for rl p (Fd (ks_fd w), EVFILT_READ), writing = enabled_for rl p (Fd (ks_fd w), EVFILT_WRITE),
      reader = (ks_read_cb w, ks_read_arg w), writer = (ks_write_cb w, ks_write_arg w)\<rparr>"

lemmas stream_op_defs = kq_stream_register_def kq_stream_arm_both_def kq_stream_arm_read_def
  kq_stream_arm_write_def kq_stream_disarm_read_def kq_stream_disarm_write_def

lemma stream_helper_knotes:
  assumes "watching rl p (Stream_ev w)"
  shows
    "kqh_readerwriter_register rl p = Inr rl' \<Longrightarrow> watching rl' = watching rl \<and>
       stream_abs rl' p w = (stream_abs rl p w)\<lparr>reading := True, writing := True\<rparr>"
    "kqh_reader_register rl p = Inr rl' \<Longrightarrow> watching rl' = watching rl \<and> stream_abs rl' p w = (stream_abs rl p w)\<lparr>reading := True\<rparr>"
    "kqh_writer_register rl p = Inr rl' \<Longrightarrow> watching rl' = watching rl \<and> stream_abs rl' p w = (stream_abs rl p w)\<lparr>writing := True\<rparr>"
    "kqh_reader_pause rl p = Inr rl' \<Longrightarrow> watching rl' = watching rl \<and> stream_abs rl' p w = (stream_abs rl p w)\<lparr>reading := False\<rparr>"
    "kqh_writer_pause rl p = Inr rl' \<Longrightarrow> watching rl' = watching rl \<and> stream_abs rl' p w = (stream_abs rl p w)\<lparr>writing := False\<rparr>"
  using watching_at(1) [OF assms]
  by (auto simp: kqh_fd_defs Let_def kq_kevent_def kevent_changes_add stream_abs_def enabled_for_def)

text \<open>A call that changes the callbacks and then the filters.\<close>

lemma stream_call:
  assumes ok: "kq_ok rl" and w: "watching rl p (Stream_ev w)" and fd: "ks_fd w' = ks_fd w"
    and h: "\<And>rl1. kq_ok rl1 \<Longrightarrow> watching rl1 p (Stream_ev w') \<Longrightarrow> fine (h rl1)"
    and e: "\<And>rl1 rl2. watching rl1 p (Stream_ev w') \<Longrightarrow> h rl1 = Inr rl2 \<Longrightarrow>
      watching rl2 = watching rl1 \<and> stream_abs rl2 p w' = g (stream_abs rl1 p w')"
  shows "\<exists>rl' v. rbind (put_variant rl p (Stream_ev w')) h = Inr rl' \<and> kq_ok rl' \<and> watching rl' p (Stream_ev v) \<and>
    ks_fd v = ks_fd w \<and> stream_abs rl' p v = g ((stream_abs rl p w)\<lparr>reader := (ks_read_cb w', ks_read_arg w'),
      writer := (ks_write_cb w', ks_write_arg w')\<rparr>)"
proof -
  from put_variant_ok [OF ok w, of "Stream_ev w'"] fd obtain rl1 where
    rl1: "put_variant rl p (Stream_ev w') = Inr rl1" "kq_ok rl1" "watching rl1 p (Stream_ev w')" "knotes rl1 = knotes rl"
    by auto
  from h [OF rl1(2,3)] obtain rl2 where rl2: "h rl1 = Inr rl2" "kq_ok rl2" by (auto simp: fine_def)
  moreover have "stream_abs rl1 p w' = (stream_abs rl p w)\<lparr>reader := (ks_read_cb w', ks_read_arg w'),
      writer := (ks_write_cb w', ks_write_arg w')\<rparr>"
    using rl1(4) fd by (simp add: stream_abs_def enabled_for_def)
  ultimately show ?thesis using e [OF rl1(3) rl2(1)] rl1(1,3) fd by (intro exI [of _ rl2] exI [of _ w']) simp
qed

lemma stream_exec_promise:
  assumes ok: "kq_ok rl" and w: "watching rl p (Stream_ev w)"
  shows "\<exists>rl' v. stream_exec p op rl = Inr rl' \<and> kq_ok rl' \<and> watching rl' p (Stream_ev v) \<and> ks_fd v = ks_fd w \<and>
    stream_abs rl' p v = stream_promise op (stream_abs rl p w)"
proof (cases op)
  case S_register
  from kqh_stream_fine(1) [OF ok w] obtain rl' where
    "kqh_readerwriter_register rl p = Inr rl'" "kq_ok rl'" by (auto simp: fine_def)
  with stream_helper_knotes(1) [OF w] w S_register show ?thesis by (auto simp: kq_stream_register_def)
next
  case (S_arm_both rcb ra wcb wa)
  show ?thesis
    using stream_call [OF ok w _ kqh_stream_fine(1) stream_helper_knotes(1), where w' = "w\<lparr>
      ks_read_cb := set_given rcb (ks_read_cb w), ks_read_arg := set_given ra (ks_read_arg w),
      ks_write_cb := set_given wcb (ks_write_cb w), ks_write_arg := set_given wa (ks_write_arg w)\<rparr>"]
    by (simp add: S_arm_both kq_stream_arm_both_def watching_at(1) [OF w] give_def stream_abs_def)
next
  case (S_arm_read cb a)
  show ?thesis
    using stream_call [OF ok w _ kqh_stream_fine(5) stream_helper_knotes(2), where w' = "w\<lparr>
      ks_read_cb := set_given cb (ks_read_cb w), ks_read_arg := set_given a (ks_read_arg w)\<rparr>"]
    by (simp add: S_arm_read kq_stream_arm_read_def watching_at(1) [OF w] give_def stream_abs_def)
next
  case (S_arm_write cb a)
  show ?thesis
    using stream_call [OF ok w _ kqh_stream_fine(3) stream_helper_knotes(3), where w' = "w\<lparr>
      ks_write_cb := set_given cb (ks_write_cb w), ks_write_arg := set_given a (ks_write_arg w)\<rparr>"]
    by (simp add: S_arm_write kq_stream_arm_write_def watching_at(1) [OF w] give_def stream_abs_def)
next
  case S_disarm_read
  show ?thesis
    using stream_call [OF ok w _ kqh_stream_fine(6) stream_helper_knotes(4), where w' = "w\<lparr>
      ks_read_cb := None, ks_read_arg := None\<rparr>"]
    by (simp add: S_disarm_read kq_stream_disarm_read_def watching_at(1) [OF w] stream_abs_def)
next
  case S_disarm_write
  show ?thesis
    using stream_call [OF ok w _ kqh_stream_fine(4) stream_helper_knotes(5), where w' = "w\<lparr>
      ks_mask := 0, ks_write_cb := None, ks_write_arg := None\<rparr>"]
    by (simp add: S_disarm_write kq_stream_disarm_write_def watching_at(1) [OF w] stream_abs_def)
qed

lemma stream_exec_all:
  assumes "kq_ok rl" "watching rl p (Stream_ev w)"
  shows "\<exists>rl' v. fold_res (stream_exec p) ops rl = Inr rl' \<and> kq_ok rl' \<and> watching rl' p (Stream_ev v) \<and>
    ks_fd v = ks_fd w \<and> stream_abs rl' p v = fold stream_promise ops (stream_abs rl p w)"
  using assms
proof (induction ops arbitrary: rl w)
  case (Cons op ops)
  from stream_exec_promise [OF Cons.prems, of op] obtain rl1 v where
    v: "stream_exec p op rl = Inr rl1" "kq_ok rl1" "watching rl1 p (Stream_ev v)" "ks_fd v = ks_fd w"
    "stream_abs rl1 p v = stream_promise op (stream_abs rl p w)" by blast
  from Cons.IH [OF v(2,3)] v(1,4,5) show ?case by simp
qed auto

section \<open>User events\<close>

text \<open>What may happen to a user event after it was fired: calls that should stop it, and deliveries.\<close>

datatype uevent_act = U_disarm | U_deregister | U_deliver "(kident \<times> kfilter) list"

fun uevent_after :: "nat \<Rightarrow> uevent_act \<Rightarrow> ('c, 'a) kq_loop \<Rightarrow> ('c, 'a) kq_loop" where
  "uevent_after p U_disarm rl = kq_user_event_disarm rl p"
| "uevent_after p U_deregister rl = kq_user_event_deregister rl p"
| "uevent_after p (U_deliver keys) rl = rl\<lparr>knotes := snd (kevent_wait (knotes rl) keys)\<rparr>"

definition fired :: "nat \<Rightarrow> ('c, 'a) kq_loop \<Rightarrow> bool" where
  "fired p rl \<longleftrightarrow> (\<exists>kn. knotes rl (Ptr p, EVFILT_USER) = Some kn \<and> kn_enabled kn \<and> kn_triggered kn \<and>
     \<not> kn_oneshot kn \<and> \<not> kn_dispatch kn \<and> kn_udata kn = Some p)"

lemma kevent_wait_keeps:
  assumes "k key = Some kn" "\<not> kn_oneshot kn" "\<not> kn_dispatch kn"
  shows "snd (kevent_wait k keys) key = Some kn"
  using assms(1)
proof (induction keys arbitrary: k)
  case (Cons key' keys)
  then show ?case
    by (cases "key' = key") (simp_all add: assms(2,3) Let_def case_prod_unfold split: option.split)
qed simp

lemma uevent_after_fired:
  assumes "fired p rl"
  shows "fired p (uevent_after p act rl)"
proof (cases act)
  case U_disarm
  with assms show ?thesis
    by (auto simp: fired_def kq_user_event_disarm_def kqh_user_event_pause_def kq_kevent_def kevent_change_def EV_SET_def
        Let_def split: option.splits)
next
  case (U_deliver keys)
  from assms obtain kn where "knotes rl (Ptr p, EVFILT_USER) = Some kn" "kn_enabled kn" "kn_triggered kn"
    "\<not> kn_oneshot kn" "\<not> kn_dispatch kn" "kn_udata kn = Some p" by (auto simp: fired_def)
  with kevent_wait_keeps [of "knotes rl"] U_deliver show ?thesis by (auto simp: fired_def)
qed (use assms in \<open>simp add: kq_user_event_deregister_def\<close>)

lemma fire_fired: "fired p (kq_user_event_fire rl p)"
  by (simp add: fired_def kq_user_event_fire_def kqh_user_event_trigger_def kq_kevent_def kevent_change_def EV_SET_def
      ev_flags Let_def)

lemma fired_reported:
  assumes "fired p rl"
  shows "kevent_wait (knotes rl) [(Ptr p, EVFILT_USER)] = ([((Ptr p, EVFILT_USER), Some p)], knotes rl)"
  using assms by (auto simp: fired_def kn_active_def)

section \<open>Posted work\<close>

definition kq_post_functor :: "('c, 'a post_arg) Functor \<Rightarrow> ('c, 'a) kq_loop \<Rightarrow> ('c, 'a) kq_loop res" where
  "kq_post_functor f rl = kq_runloop_post rl (fn f) (fn_arg f)"

definition kq_same_loop :: "('c, 'a) kq_loop \<Rightarrow> ('c, 'a) kq_loop \<Rightarrow> bool" where
  "kq_same_loop rl rl' \<longleftrightarrow>
     kq_table rl' = kq_table rl \<and> knotes rl' = knotes rl \<and> kq_closed rl' = kq_closed rl \<and>
     kqueue_fd rl' = kqueue_fd rl \<and> kq_closed_fds rl' = kq_closed_fds rl"

interpretation krd: ready_loop kq_ready "\<lambda>lst rl. rl\<lparr>kq_ready := lst\<rparr>" "\<lambda>b rl. rl\<lparr>kq_executing := b\<rparr>"
  kq_same_loop kq_post_functor kq_run_ready
proof (unfold_locales, goal_cases)
  case (7 l q f)
  then obtain c a where f: "f = \<lparr>fn = Some c, fn_arg = Some a\<rparr>" by (cases f) (auto simp: postable_def)
  from functor_list_add_rep(1) [OF 7(1,2), of f] show ?case
    by (auto simp: kq_post_functor_def kq_runloop_post_def f)
qed (auto simp: kq_same_loop_def)

text \<open>Two results agree: the same error, or loops with the same ready list and the same state of the client.\<close>

definition alike ::
  "('w, 'c, 'a post_arg) Runloop \<Rightarrow> ('c, 'a) kq_loop \<Rightarrow> (('w, 'c, 'a post_arg) Runloop \<times> 's) res \<Rightarrow>
   (('c, 'a) kq_loop \<times> 's) res \<Rightarrow> bool" where
  "alike rl kl r k \<longleftrightarrow>
     (\<exists>e. r = Inl e \<and> k = Inl e) \<or>
     (\<exists>rl' kl' s. r = Inr (rl', s) \<and> k = Inr (kl', s) \<and> ready_list rl' = kq_ready kl' \<and>
        same_loop rl rl' \<and> kq_same_loop kl kl')"

lemma post_alike:
  assumes "ready_list rl = kq_ready kl"
  shows "alike rl kl (rbind (fold_res post_functor ps rl) (\<lambda>rl'. Inr (rl', s)))
    (rbind (fold_res kq_post_functor ps kl) (\<lambda>kl'. Inr (kl', s)))"
  using assms
proof (induction ps arbitrary: rl kl)
  case (Cons p ps)
  show ?case
  proof (cases "fn p = None \<or> fn_arg p = None")
    case True
    then show ?thesis
      by (auto simp: alike_def post_functor_def kq_post_functor_def runloop_post_def kq_runloop_post_def c_assert_def)
  next
    case False
    show ?thesis
    proof (cases "functor_list_add (kq_ready kl) \<lparr>fn = fn p, fn_arg = fn_arg p\<rparr>")
      case (Inl e)
      with False Cons.prems show ?thesis
        by (simp add: alike_def post_functor_def kq_post_functor_def runloop_post_def kq_runloop_post_def)
    next
      case (Inr lst)
      with False Cons.prems have "post_functor p rl = Inr (rl\<lparr>ready_list := lst\<rparr>)"
        "kq_post_functor p kl = Inr (kl\<lparr>kq_ready := lst\<rparr>)"
        by (simp_all add: post_functor_def kq_post_functor_def runloop_post_def kq_runloop_post_def)
      with Cons.IH [of "rl\<lparr>ready_list := lst\<rparr>" "kl\<lparr>kq_ready := lst\<rparr>"] show ?thesis
        by (simp add: alike_def same_loop_def kq_same_loop_def)
    qed
  qed
qed (simp add: alike_def same_loop_def kq_same_loop_def)

lemma alike_from:
  assumes "alike rl1 kl1 r k" "same_loop rl rl1" "kq_same_loop kl kl1"
  shows "alike rl kl r k"
  using assms rdy.same_trans krd.same_trans unfolding alike_def by blast

lemma alike_Inr: "ready_list rl = kq_ready kl \<Longrightarrow> alike rl kl (Inr (rl, s)) (Inr (kl, s))"
  by (simp add: alike_def same_loop_def kq_same_loop_def)

lemma alike_bind:
  assumes "alike rl kl r k"
    "\<And>rl' kl' s. ready_list rl' = kq_ready kl' \<Longrightarrow> alike rl' kl' (f (rl', s)) (g (kl', s))"
  shows "alike rl kl (rbind r f) (rbind k g)"
proof -
  from assms(1) consider e where "r = Inl e" "k = Inl e"
    | rl' kl' s where "r = Inr (rl', s)" "k = Inr (kl', s)" "ready_list rl' = kq_ready kl'" "same_loop rl rl'"
      "kq_same_loop kl kl'" unfolding alike_def by blast
  then show ?thesis
  proof cases
    case 2
    with alike_from [OF assms(2) [OF 2(3)] 2(4,5)] show ?thesis by simp
  qed (simp add: alike_def)
qed

lemma call_alike:
  assumes "ready_list rl = kq_ready kl"
  shows "alike rl kl (Functor_call (posting post_functor act) f (rl, s)) (Functor_call (posting kq_post_functor act) f (kl, s))"
  using post_alike [OF assms] by (cases "fn f") (simp_all add: Functor_call_def posting_def alike_def)

lemma run_ready_alike:
  fixes rl :: "('w, 'c, 'a post_arg) Runloop"
  assumes "ready_list rl = kq_ready kl"
  shows "alike rl kl (run_ready n (posting post_functor act) (rl, s)) (kq_run_ready n (posting kq_post_functor act) (kl, s))"
  using assms
proof (induction n arbitrary: rl kl s)
  case (Suc n)
  have step: "alike rl kl
      (rbind (Functor_call (posting post_functor act) f (rl\<lparr>ready_list := lst, runloop_executing := True\<rparr>, s))
        (\<lambda>(rl, s). run_ready n (posting post_functor act) (rl\<lparr>runloop_executing := False\<rparr>, s)))
      (rbind (Functor_call (posting kq_post_functor act) f (kl\<lparr>kq_ready := lst, kq_executing := True\<rparr>, s))
        (\<lambda>(rl, s). kq_run_ready n (posting kq_post_functor act) (rl\<lparr>kq_executing := False\<rparr>, s)))" for f lst
  proof (rule alike_bind)
    show "alike rl kl (Functor_call (posting post_functor act) f (rl\<lparr>ready_list := lst, runloop_executing := True\<rparr>, s))
      (Functor_call (posting kq_post_functor act) f (kl\<lparr>kq_ready := lst, kq_executing := True\<rparr>, s))"
      by (rule alike_from [OF call_alike]) (simp_all add: same_loop_def kq_same_loop_def)
    show "alike rl' kl' (case (rl', s) of (rl, s) \<Rightarrow> run_ready n (posting post_functor act) (rl\<lparr>runloop_executing := False\<rparr>, s))
        (case (kl', s) of (rl, s) \<Rightarrow> kq_run_ready n (posting kq_post_functor act) (rl\<lparr>kq_executing := False\<rparr>, s))"
      if "ready_list rl' = kq_ready kl'" for rl' :: "('w, 'c, 'a post_arg) Runloop" and kl' s
      unfolding case_prod_conv by (rule alike_from [OF Suc.IH]) (simp_all add: that same_loop_def kq_same_loop_def)
  qed
  show ?case
  proof (cases "functor_list_size (kq_ready kl)")
    case (Inr k)
    with Suc.prems step show ?thesis
      by (cases "functor_list_remove (kq_ready kl)")
        (auto simp: rdy.run_Suc krd.run_Suc alike_Inr alike_def [of _ _ "Inl _"] simp del: run_ready.simps kq_run_ready.simps)
  qed (use Suc.prems in \<open>simp add: alike_def\<close>)
qed (simp add: alike_def)

text \<open>The client's view of a run of a loop: its result and the state of the client.\<close>

definition outcome :: "(int \<times> 'l \<times> 's) res \<Rightarrow> (int \<times> 's) res" where
  "outcome r = rbind r (\<lambda>(i, l, s). Inr (i, s))"

section \<open>Properties\<close>

text \<open>
  C9: With nothing to watch, the epoll loop and the kqueue loop do the same: from the same list of posted
  functions, which may post further ones, both return the same value and leave the client in the same
  state, or stop with the same error (an overflowing list or a \<open>NULL\<close> function), for every bound on the
  number of passes.
\<close>

theorem loops_agree_on_posted_work:
  fixes rl :: "('w, 'c, 'a post_arg) Runloop"
  assumes "ready_list rl = kq_ready kl" "FdTable_size (rl_table rl) = 0" "event_table_number_in_use (kq_table kl) = 0"
  shows "outcome (runloop_run n wfd handler (posting post_functor act) [] (rl, s)) =
    outcome (kq_runloop_run n (posting kq_post_functor act) [] (kl, s))"
  using assms
proof (induction n arbitrary: rl kl s)
  case (Suc n)
  show ?case
  proof (cases "functor_list_size (kq_ready kl)")
    case (Inr k)
    note a = run_ready_alike [OF Suc.prems(1), of n act s]
    then consider e where "run_ready n (posting post_functor act) (rl, s) = Inl e"
        "kq_run_ready n (posting kq_post_functor act) (kl, s) = Inl e"
      | rl' kl' s' where "run_ready n (posting post_functor act) (rl, s) = Inr (rl', s')"
        "kq_run_ready n (posting kq_post_functor act) (kl, s) = Inr (kl', s')" "ready_list rl' = kq_ready kl'"
        "same_loop rl rl'" "kq_same_loop kl kl'" unfolding alike_def by blast
    then show ?thesis
    proof cases
      case 2
      with Suc.prems Suc.IH [of rl' kl' s'] Inr show ?thesis by (auto simp: outcome_def same_loop_def kq_same_loop_def)
    qed (use Suc.prems Inr in \<open>auto simp: outcome_def\<close>)
  qed (use Suc.prems in \<open>simp add: outcome_def\<close>)
qed (simp add: outcome_def)

theorem loops_agree_on_posted_work_witness:
  "\<exists>(rl :: (nat, nat, nat post_arg) Runloop) (kl :: (nat, nat) kq_loop).
     rbind (runloop_new 3) (post_functor \<lparr>fn = Some 1, fn_arg = Some (Arg 0)\<rparr>) = Inr rl \<and>
     rbind (kq_runloop_new 3) (kq_post_functor \<lparr>fn = Some 1, fn_arg = Some (Arg 0)\<rparr>) = Inr kl \<and>
     outcome (runloop_run 4 (\<lambda>w s. Inr 0) (\<lambda>w m st. Inr st) (posting post_functor (\<lambda>c a s. ([], c # s))) [] (rl, [])) =
       outcome (kq_runloop_run 4 (posting kq_post_functor (\<lambda>c a s. ([], c # s))) [] (kl, []))"
proof -
  let ?f = "\<lparr>fn = Some (1 :: nat), fn_arg = Some (Arg (0 :: nat))\<rparr>"
  obtain kl :: "(nat, nat) kq_loop" where
    kl: "kq_runloop_new 3 = Inr kl" "kq_ok kl" "et_used (kq_table kl) = {}" "fl_rep (kq_ready kl) []" "fl_room (kq_ready kl) = 2047"
    using kq_runloop_new_ok [of 3] by auto
  obtain rl :: "(nat, nat, nat post_arg) Runloop" where
    rl: "runloop_new 3 = Inr rl" "rl_ok rl" "fd_watcher (rl_table rl) = Map.empty"
    using runloop_new_ok [of 3] by auto
  have same: "ready_list rl = kq_ready kl"
    using rl(1) kl(1) by (auto simp: runloop_new_def runloop_init_def kq_runloop_new_def kq_runloop_init_def rbind_eq_Inr)
  from krd.post_all [OF kl(4,5), of "[?f]"] obtain kl' where
    kl': "kq_post_functor ?f kl = Inr kl'" "kq_same_loop kl kl'" by (auto simp: postable_def rbind_eq_Inr)
  with post_alike [OF same, of "[?f]" "()"] obtain rl' where
    rl': "post_functor ?f rl = Inr rl'" "ready_list rl' = kq_ready kl'" "same_loop rl rl'"
    by (cases "post_functor ?f rl") (auto simp: alike_def)
  have "FdTable_size (rl_table rl') = 0" "event_table_number_in_use (kq_table kl') = 0"
    using rl(2,3) rl'(3) kl'(2) kl(3) ft.size_zero [of "rl_table rl"] number_in_use [OF kq_okD(1) [OF kl(2)]]
    by (auto simp: same_loop_def kq_same_loop_def rl_ok_def unat_eq_zero)
  from loops_agree_on_posted_work [OF rl'(2) this] rl(1) rl'(1) kl(1) kl'(1) show ?thesis by simp
qed

text \<open>
  C16: A stream of the kqueue loop does what its calls promise. After any sequence of registering,
  arming and disarming a new stream, in any state of the loop, the kernel reports readable (writable)
  for this stream exactly when the last call that concerns reading (writing) enabled it, the
  callbacks and arguments are those given last, and none of the calls fails.
\<close>

theorem kqueue_stream_refines:
  assumes "kq_reach rl" "kq_stream_new rl fd = Inr (p, rl1)" "kq_room rl"
  shows "\<exists>rl' w. fold_res (stream_exec p) ops rl1 = Inr rl' \<and> stream_at rl' p = Inr w \<and> ks_fd w = fd \<and>
    stream_abs rl' p w =
      fold stream_promise ops \<lparr>reading = False, writing = False, reader = (None, None), writer = (None, None)\<rparr>"
proof -
  let ?w = "\<lparr>ks_fd = fd, ks_mask = 0, ks_read_cb = None, ks_read_arg = None, ks_write_cb = None, ks_write_arg = None\<rparr>"
  from assms(1) have ok: "kq_ok rl" by (rule kq_reach_ok)
  from new_ev_ok [OF ok, of "Stream_ev ?w"] assms(2,3) have
    p: "kq_ok rl1" "watching rl1 p (Stream_ev ?w)" "p \<notin> et_used (kq_table rl)" "knotes rl1 = knotes rl"
    by (auto simp: kq_stream_new_def kq_stream_init_def kq_room_def)
  have "\<not> enabled_for rl1 p key" for key
    using kq_okD(3) [OF ok, of key] p(3,4) by (auto simp: enabled_for_def backed_def watching_def)
  then have "stream_abs rl1 p ?w = \<lparr>reading = False, writing = False, reader = (None, None), writer = (None, None)\<rparr>"
    by (simp add: stream_abs_def)
  with stream_exec_all [OF p(1,2), of ops] watching_at(1) show ?thesis by fastforce
qed

theorem kqueue_stream_refines_witness:
  "\<exists>(rl :: (nat, nat) kq_loop) rl1 rl2 p w. kq_runloop_new 3 = Inr rl \<and> kq_stream_new rl 5 = Inr (p, rl1) \<and>
     fold_res (stream_exec p) [S_register, S_arm_read (Some 1) (Some (Arg 0)), S_disarm_write] rl1 = Inr rl2 \<and>
     stream_at rl2 p = Inr w \<and> ks_read_cb w = Some 1 \<and> enabled_for rl2 p (Fd 5, EVFILT_READ) \<and>
     \<not> enabled_for rl2 p (Fd 5, EVFILT_WRITE)"
proof -
  obtain rl :: "(nat, nat) kq_loop" where rl: "kq_runloop_new 3 = Inr rl" "kq_reach rl" "kq_room rl"
    using new_loop_reach [of 3] by auto
  from new_stream_reach [OF rl(2,3), of 5] obtain p rl1 where p: "kq_stream_new rl 5 = Inr (p, rl1)" by blast
  from kqueue_stream_refines [OF rl(2) p rl(3), of "[S_register, S_arm_read (Some 1) (Some (Arg 0)), S_disarm_write]"]
  obtain rl2 w where "fold_res (stream_exec p) [S_register, S_arm_read (Some 1) (Some (Arg 0)), S_disarm_write] rl1 = Inr rl2"
    "stream_at rl2 p = Inr w" "ks_fd w = 5" "stream_abs rl2 p w =
      \<lparr>reading = True, writing = False, reader = (Some 1, Some (Arg 0)), writer = (None, None)\<rparr>"
    by (auto simp: give_def set_given_def simp del: fold_res.simps)
  with rl(1) p show ?thesis by (auto simp: stream_abs_def simp del: fold_res.simps)
qed

text \<open>
  A user event that was fired is never taken back: after any disarming, deregistering and any
  deliveries the next wait that looks at it reports it again. Disarming pauses a timer of the same
  address, deregistering does nothing, and the event is registered without being cleared on delivery.
\<close>

lemma fired_user_event_stays:
  "kevent_wait (knotes (fold (uevent_after p) acts (kq_user_event_fire rl p))) [(Ptr p, EVFILT_USER)] =
     ([((Ptr p, EVFILT_USER), Some p)], knotes (fold (uevent_after p) acts (kq_user_event_fire rl p)))"
proof -
  have "fired p (fold (uevent_after p) acts rl')" if "fired p rl'" for rl' :: "('a, 'b) kq_loop"
    using that by (induction acts arbitrary: rl') (simp_all add: uevent_after_fired)
  from fired_reported [OF this [OF fire_fired]] show ?thesis .
qed

text \<open>
  Updating a timer that was registered for one firing does not make it repeat. The kernel's timer
  is a repeating one with the new interval, but the watcher still says that it does not repeat, so
  that the handler of the first firing removes it before it calls the callback.
\<close>

lemma timer_update_does_not_repeat:
  assumes "watching rl p (Timer_ev t)" "\<not> kt_repeating t" "kt_postable t = Some cb"
  shows "(\<exists>kn. knotes (kq_timer_update rl p ms True) (Ptr p, EVFILT_TIMER) = Some kn \<and>
      kn_enabled kn \<and> \<not> kn_oneshot kn \<and> kn_data kn = ms) \<and>
    kq_dispatch call ((Ptr p, EVFILT_TIMER), Some p) (kq_timer_update rl p ms True, s) =
      call cb (kt_arg t) (rl\<lparr>knotes := (knotes rl)((Ptr p, EVFILT_TIMER) := None)\<rparr>, s)"
proof -
  let ?rl = "kq_timer_update rl p ms True"
  have k: "?rl = rl\<lparr>knotes := (knotes rl)((Ptr p, EVFILT_TIMER) \<mapsto>
      \<lparr>kn_enabled = True, kn_dispatch = False, kn_oneshot = False, kn_data = ms, kn_udata = Some p,
       kn_triggered = (case knotes rl (Ptr p, EVFILT_TIMER) of None \<Rightarrow> False | Some kn \<Rightarrow> kn_triggered kn)\<rparr>)\<rparr>"
    by (simp add: kq_timer_update_def kqh_timer_register_def kq_kevent_def kevent_change_def EV_SET_def ev_flags Let_def)
  have c: "kq_timer_deregister ?rl p = rl\<lparr>knotes := (knotes rl)((Ptr p, EVFILT_TIMER) := None)\<rparr>"
    unfolding k by (simp add: kq_timer_deregister_def kqh_timer_cancel_def kq_kevent_def kevent_change_def EV_SET_def
      ev_flags Let_def)
  have w: "watching ?rl p (Timer_ev t)" using assms(1) unfolding k by simp
  from w have "ev_at ?rl p = Inr \<lparr>ev_handler = Some Timer_handler, ev_variant = Timer_ev t\<rparr>" by (simp add: watching_def)
  with watching_at(3) [OF w] assms(2,3) c show ?thesis
    unfolding kq_dispatch_def by (simp add: kq_timer_handler_def) (simp add: k)
qed

text \<open>
  C37: A timer that is cleared while its event waits in the batch is called all the same: if the
  callback of one repeating timer clears another one whose event was reported by the same wait, the
  loop goes on to the handler of the freed watcher, which calls the callback that was cleared.
\<close>

theorem cleared_timer_still_called:
  assumes "kq_reach rl" "watching rl p (Timer_ev t)" "watching rl q (Timer_ev u)" "p \<noteq> q"
    "kt_repeating t" "kt_postable t = Some cb" "kt_repeating u" "kt_postable u = Some cb'"
    "\<And>rl s. call cb (kt_arg t) (rl, s) = rbind (kq_timer_clear rl q) (\<lambda>rl. Inr (rl, s))"
  shows "\<exists>rl1. kq_timer_clear rl q = Inr rl1 \<and> q \<notin> et_used (kq_table rl1) \<and>
    fold_res (kq_dispatch call) [((Ptr p, EVFILT_TIMER), Some p), ((Ptr q, EVFILT_TIMER), Some q)] (rl, s) =
      call cb' (kt_arg u) (rl1, s)"
proof -
  let ?rl = "kqh_timer_cancel rl q"
  from assms(1) have ok: "kq_ok rl" by (rule kq_reach_ok)
  have w: "watching ?rl q (Timer_ev u)" using assms(3) by (simp add: kqh_timer_cancel_def)
  from kqh_timer_fine(2) [OF ok assms(3)] have "kq_ok ?rl" by (simp add: fine_def)
  then have "et_ok (kq_table ?rl)" by (rule kq_okD)
  with et.release_law [of "kq_table ?rl" q] w obtain et where
    et: "event_table_release_entry (kq_table ?rl) q = Inr et" "et_used et = et_used (kq_table ?rl) - {q}"
    "event_at et q = event_at (kq_table ?rl) q" by (auto simp: watching_def)
  have clear: "kq_timer_clear rl q = Inr (?rl\<lparr>kq_table := et\<rparr>)"
    using et(1) by (simp add: kq_timer_clear_def kq_timer_free_def kq_timer_deregister_def release_ev_def)
  from w et(3) have "ev_at (?rl\<lparr>kq_table := et\<rparr>) q = Inr \<lparr>ev_handler = Some Timer_handler, ev_variant = Timer_ev u\<rparr>"
    by (simp add: watching_def ev_at_def)
  moreover have "ev_at rl p = Inr \<lparr>ev_handler = Some Timer_handler, ev_variant = Timer_ev t\<rparr>"
    using assms(2) by (simp add: watching_def)
  ultimately show ?thesis
    using clear et(2) assms(5-9)
    by (cases "call cb' (kt_arg u) (?rl\<lparr>kq_table := et\<rparr>, s)")
      (simp_all add: kq_dispatch_def kq_timer_handler_def timer_at_def)
qed

definition demo_kq_call :: "nat \<Rightarrow> (nat, nat, nat list) kq_call" where
  "demo_kq_call q c a st =
     (if c = 1 then rbind (kq_timer_clear (fst st) q) (\<lambda>rl. Inr (rl, snd st)) else Inr (fst st, snd st @ [c]))"

theorem cleared_timer_still_called_witness:
  "\<exists>(rl :: (nat, nat) kq_loop) rl1 rl2 rl3 p q. kq_runloop_new 3 = Inr rl \<and>
     kq_timer_set rl (Some 1) (Some (Arg 0)) 100 True = Inr (p, rl1) \<and>
     kq_timer_set rl1 (Some 2) (Some (Arg 0)) 100 True = Inr (q, rl2) \<and>
     fold_res (kq_dispatch (demo_kq_call q)) [((Ptr p, EVFILT_TIMER), Some p), ((Ptr q, EVFILT_TIMER), Some q)] (rl2, []) =
       Inr (rl3, [2]) \<and> q \<notin> et_used (kq_table rl3)"
proof -
  obtain rl :: "(nat, nat) kq_loop" where
    rl: "kq_runloop_new 3 = Inr rl" "kq_reach rl" "kq_room rl" "et_used (kq_table rl) = {}"
    using new_loop_reach [of 3] by auto
  from new_timer_reach [OF rl(2,3)] obtain p rl1 where
    p: "kq_timer_set rl (Some 1) (Some (Arg 0)) 100 True = Inr (p, rl1)" "kq_reach rl1" "et_used (kq_table rl1) = {p}"
    "watching rl1 p (Timer_ev \<lparr>kt_interval = 100, kt_repeating = True, kt_postable = Some 1, kt_arg = Some (Arg 0)\<rparr>)"
    using rl(4) by metis
  then have "kq_room rl1" by (simp add: kq_room_def EVT_MAX_def)
  from new_timer_reach [OF p(2) this] obtain q rl2 where
    q: "kq_timer_set rl1 (Some 2) (Some (Arg 0)) 100 True = Inr (q, rl2)" "kq_reach rl2" "p \<noteq> q"
    "watching rl2 p (Timer_ev \<lparr>kt_interval = 100, kt_repeating = True, kt_postable = Some 1, kt_arg = Some (Arg 0)\<rparr>)"
    "watching rl2 q (Timer_ev \<lparr>kt_interval = 100, kt_repeating = True, kt_postable = Some 2, kt_arg = Some (Arg 0)\<rparr>)"
    using p(3,4) by (metis singletonI)
  from cleared_timer_still_called [OF q(2,4,5,3), of 1 2 "demo_kq_call q" "[]"] rl(1) p(1) q(1)
  show ?thesis by (auto simp: demo_kq_call_def simp del: fold_res.simps)
qed

end
