(* ===== verification/Echo_Correct.thy ===== *)
theory Echo_Correct
  imports Echo_Server Kqueue_Behaviour
begin

text \<open>
  The sample server answers every message of a connection. The locale \<open>echo_format\<close> adds to \<open>msg_format\<close>
  what the application relies on, and both formats interpret it. The predicates \<open>conn_at\<close> and \<open>delivered\<close> say in which situation a connection
  is between two functions that the run loop calls; the lemmas say how each of these functions moves it on. The
  theorems about whole runs are in the theory \<open>Echo_Run\<close>.
\<close>

unbundle bit_operations_syntax

section \<open>The run loop\<close>

lemma kq_ok_same:
  assumes "kq_table rl' = kq_table rl" "knotes rl' = knotes rl"
  shows "kq_ok rl' = kq_ok rl" "watching rl' = watching rl" "stream_at rl' = stream_at rl" "ev_at rl' = ev_at rl"
  using assms by (simp_all add: kq_ok_def watching_def backed_def ev_at_def stream_at_def fun_eq_iff)

lemma kq_ok_upd [simp]:
  "kq_ok (rl\<lparr>kq_ready := l\<rparr>) = kq_ok rl" "watching (rl\<lparr>kq_ready := l\<rparr>) = watching rl"
  "kq_ok (rl\<lparr>kq_executing := b\<rparr>) = kq_ok rl" "watching (rl\<lparr>kq_executing := b\<rparr>) = watching rl"
  "kq_ok (rl\<lparr>events_count := k\<rparr>) = kq_ok rl" "watching (rl\<lparr>events_count := k\<rparr>) = watching rl"
  by (intro kq_ok_same; simp)+

lemma put_ready:
  "put_variant rl p v = Inr rl' \<Longrightarrow> kq_ready rl' = kq_ready rl \<and> kq_closed_fds rl' = kq_closed_fds rl"
  by (auto simp: put_variant_def put_ev_def rbind_eq_Inr)

text \<open>A functor posted to an empty ready list is the only one there.\<close>

lemma post_empty:
  assumes "fl_rep (kq_ready rl) []" "fl_room (kq_ready rl) = 2047"
  shows "\<exists>lst. kq_runloop_post rl (Some f) (Some x) = Inr (rl\<lparr>kq_ready := lst\<rparr>) \<and>
    fl_rep lst [\<lparr>fn = Some f, fn_arg = Some x\<rparr>] \<and> fl_room lst = 2047"
  using functor_list_add_rep(1) [OF assms(1), of "\<lparr>fn = Some f, fn_arg = Some x\<rparr>"] assms(2)
  by (auto simp: kq_runloop_post_def)

lemma arm_read_effect:
  assumes ok: "kq_ok rl" and w: "watching rl p (Stream_ev s)"
  shows "\<exists>rl'. kq_stream_arm_read rl p (Some cb) (Some x) = Inr rl' \<and> kq_ok rl' \<and> kq_ready rl' = kq_ready rl \<and>
    et_used (kq_table rl') = et_used (kq_table rl) \<and> kq_closed_fds rl' = kq_closed_fds rl \<and>
    watching rl' p (Stream_ev (s\<lparr>ks_read_cb := Some cb, ks_read_arg := Some x\<rparr>)) \<and>
    (\<exists>kn. knotes rl' (Fd (ks_fd s), EVFILT_READ) = Some kn \<and> kn_enabled kn \<and> \<not> kn_oneshot kn \<and> \<not> kn_dispatch kn \<and>
       kn_udata kn = Some p)"
proof -
  let ?s = "s\<lparr>ks_read_cb := Some cb, ks_read_arg := Some x\<rparr>"
  from put_variant_ok [OF ok w, of "Stream_ev ?s"] obtain rl1 where
    rl1: "put_variant rl p (Stream_ev ?s) = Inr rl1" "kq_ok rl1" "watching rl1 p (Stream_ev ?s)"
    "et_used (kq_table rl1) = et_used (kq_table rl)" by auto
  let ?c = "EV_SET (Fd (ks_fd s)) EVFILT_READ (EV_ADD OR EV_ENABLE OR EV_RECEIPT) 0 0 (Some p)"
  have r: "kqh_reader_register rl1 p = Inr (kq_kevent rl1 [?c])"
    using watching_at(1) [OF rl1(3)] by (simp add: kqh_reader_register_def Let_def)
  have "kq_ok (kq_kevent rl1 [?c])" using kqh_stream_fine(5) [OF rl1(2,3)] r by (auto simp: fine_def)
  moreover have "kq_stream_arm_read rl p (Some cb) (Some x) = Inr (kq_kevent rl1 [?c])"
    using rl1(1) r watching_at(1) [OF w] by (simp add: kq_stream_arm_read_def set_given_def)
  moreover have "knotes (kq_kevent rl1 [?c]) (Fd (ks_fd s), EVFILT_READ) = Some \<lparr>kn_enabled = True, kn_dispatch = False,
      kn_oneshot = False, kn_data = 0, kn_udata = Some p, kn_triggered = (case knotes rl1 (Fd (ks_fd s), EVFILT_READ) of
      None \<Rightarrow> False | Some kn \<Rightarrow> kn_triggered kn)\<rparr>"
    by (simp add: kq_kevent_def kevent_changes_add)
  ultimately show ?thesis using rl1(3,4) put_ready [OF rl1(1)] by (auto simp: kq_kevent_def)
qed

lemma stream_free_effect:
  assumes ok: "kq_ok rl" and w: "watching rl p (Stream_ev s)"
  shows "\<exists>rl'. kq_stream_free rl p = Inr rl' \<and> kq_ok rl' \<and> kq_ready rl' = kq_ready rl \<and>
    et_used (kq_table rl') = et_used (kq_table rl) - {p} \<and> stream_at rl' p = Inr s \<and>
    kq_closed_fds rl' = kq_closed_fds rl @ [ks_fd s]"
proof -
  from kqh_stream_fine(2) [OF ok w] obtain rl1 where
    rl1: "kqh_readerwriter_cancel rl p = Inr rl1" "kq_ok rl1" by (auto simp: fine_def)
  have k: "watching rl1 = watching rl" "kq_ready rl1 = kq_ready rl" "kq_table rl1 = kq_table rl" "kq_closed_fds rl1 = kq_closed_fds rl"
    using rl1(1) watching_at(1) [OF w] by (auto simp: kqh_readerwriter_cancel_def Let_def kq_kevent_def)
  let ?rl = "kq_close_fd rl1 (ks_fd s)"
  have ok2: "kq_ok ?rl" by (rule kq_close_fd_ok [OF rl1(2)])
  have w2: "watching ?rl p (Stream_ev s)" using w k(1) by simp
  have "kn_udata kn \<noteq> Some p" if "knotes ?rl key = Some kn" for key kn
  proof
    assume "kn_udata kn = Some p"
    with kq_okD(3) [OF ok2 that] obtain v where "watching ?rl p v" "owns v p key" by (auto simp: backed_def)
    moreover from this(1) have "v = Stream_ev s" by (rule watching_unique [OF w2])
    ultimately have "fst key = Fd (ks_fd s)" by auto
    with that show False by simp
  qed
  note nu = this
  from release_ev_ok [OF ok2 w2] nu obtain rl' where
    rl': "release_ev ?rl p = Inr rl'" "kq_ok rl'" "et_used (kq_table rl') = et_used (kq_table ?rl) - {p}" by blast
  from et.release_law [OF kq_okD(1) [OF ok2], of p] w2 obtain t where
    t: "event_table_release_entry (kq_table ?rl) p = Inr t" "\<And>q. event_at t q = event_at (kq_table ?rl) q"
    by (auto simp: watching_def)
  with rl'(1) have e: "rl' = ?rl\<lparr>kq_table := t\<rparr>" by (simp add: release_ev_def)
  have "stream_at rl' p = stream_at ?rl p" unfolding e by (simp add: stream_at_def ev_at_def t(2) del: kq_close_fd_watching)
  then have "stream_at rl' p = Inr s" using watching_at(1) [OF w2] by simp
  moreover have "kq_stream_free rl p = Inr rl'"
    using rl1(1) rl'(1) watching_at(1) [of rl1 p s] w k(1) by (simp add: kq_stream_free_def kq_stream_deregister_def)
  ultimately show ?thesis using rl'(2,3) k e by (auto simp: kq_close_fd_def)
qed

section \<open>Connections\<close>

text \<open>
  The watcher, descriptor, TCP stream, message stream and application of a connection, and what the
  rest of the server has: the watchers in use, the connections and the descriptors closed before.
\<close>

record conn =
  c_ev :: nat
  c_fd :: int
  c_tcp :: nat
  c_msg :: nat
  c_app :: nat
  c_used :: "nat set"
  c_conns :: "nat list"
  c_closed :: "int list"

definition linked :: "conn \<Rightarrow> ('m, 'p) app_state \<Rightarrow> bool" where
  "linked c st \<longleftrightarrow>
     kq_ok (fst st) \<and> fl_room (kq_ready (fst st)) = 2047 \<and> et_used (kq_table (fst st)) = c_used c \<and>
     kq_closed_fds (fst st) = c_closed c \<and>
     (\<exists>s. watching (fst st) (c_ev c) (Stream_ev s) \<and> ks_fd s = c_fd c \<and> ks_mask s = 0) \<and>
     c_tcp c < length (tcps (snd st)) \<and> rlstream (tcps (snd st) ! c_tcp c) = c_ev c \<and>
     stream_fd (tcps (snd st) ! c_tcp c) = c_fd c \<and>
     rd_state (tcp_reader (tcps (snd st) ! c_tcp c)) \<noteq> RD_STATE_ERROR \<and>
     rd_state (tcp_reader (tcps (snd st) ! c_tcp c)) \<noteq> RD_STATE_STOPPED \<and>
     c_msg c < length (msgs (snd st)) \<and> ms_tcp (msgs (snd st) ! c_msg c) = c_tcp c \<and>
     c_app c < length (apps (snd st)) \<and>
     apps (snd st) ! c_app c =
       Some \<lparr>app_stream = c_msg c, done_cb = Some App_instance_done_cb, done_arg = Some Server_ref\<rparr> \<and>
     List_ok (connection_list (server (snd st))) \<and> contents (connection_list (server (snd st))) = c_conns c \<and>
     c_app c \<in> set (c_conns c)"

definition queued :: "('p \<Rightarrow> 'x \<Rightarrow> bool) \<Rightarrow> ('m \<Rightarrow> char list \<Rightarrow> bool) \<Rightarrow> 'x \<Rightarrow> char list list \<Rightarrow> ('m, 'p) MsgStream \<Rightarrow> bool" where
  "queued rep holds x xs s \<longleftrightarrow>
     (\<exists>q. ms_parser s = Some q \<and> rep q x) \<and> List_ok (ms_list s) \<and> list_all2 holds (contents (ms_list s)) xs"

definition input_ok :: "IOBuffer option list \<Rightarrow> nat option \<Rightarrow> bool" where
  "input_ok bs r \<longleftrightarrow>
     (case r of
        None \<Rightarrow> True
      | Some b \<Rightarrow> b < length bs \<and> (\<exists>iob. bs ! b = Some iob \<and> iob_holds iob [] \<and> buffer_capacity iob = 4096))"

text \<open>Nobody reads, a read of the application waits to be tried, or the TCP stream waits for data.\<close>

datatype rmode = R_none | R_asked | R_pending

definition reads_as :: "conn \<Rightarrow> rmode \<Rightarrow> TcpReader \<Rightarrow> ('m, 'p) MsgStream \<Rightarrow> bool" where
  "reads_as c r tr s \<longleftrightarrow>
     (if r = R_none then ms_read_cb s = None
      else ms_read_cb s = Some Msg_read_callback \<and> ms_read_arg s = Some (App_ref (c_app c)) \<and> ms_input s \<noteq> None \<and>
        contents (ms_list s) = []) \<and>
     (if r = R_pending
      then rd_cb tr = Some Tcp_read_callback \<and> rd_arg tr = Some (Msg_ref (c_msg c)) \<and> rd_buffer tr = ms_input s
      else rd_cb tr = None \<and> rd_buffer tr = None)"

text \<open>The bytes that are still to be written.\<close>

definition writes_as :: "conn \<Rightarrow> char list \<Rightarrow> IOBuffer option list \<Rightarrow> TcpWriter \<Rightarrow> ('m, 'p) MsgStream \<Rightarrow> bool" where
  "writes_as c bs buffers tw s \<longleftrightarrow>
     (if bs = [] then wr_buffer tw = None \<and> wr_cb tw = None \<and> ms_output s = None \<and> ms_write_cb s = None \<and> ms_write_arg s = None
      else wr_cb tw = Some Tcp_write_callback \<and> wr_arg tw = Some (Msg_ref (c_msg c)) \<and> wr_buffer tw = ms_output s \<and>
        ms_write_cb s = Some Msg_write_callback \<and> ms_write_arg s = Some (App_ref (c_app c)) \<and> ms_output s \<noteq> ms_input s \<and>
        (\<exists>b iob. ms_output s = Some b \<and> b < length buffers \<and> buffers ! b = Some iob \<and> iob_ok iob \<and> iob_data iob = map Some bs))"

definition conn_at ::
  "('p \<Rightarrow> 'x \<Rightarrow> bool) \<Rightarrow> ('m \<Rightarrow> char list \<Rightarrow> bool) \<Rightarrow> conn \<Rightarrow> rmode \<Rightarrow> char list \<Rightarrow> 'x \<Rightarrow> char list list \<Rightarrow>
   ('m, 'p) app_state \<Rightarrow> bool" where
  "conn_at rep holds c r bs x xs st \<longleftrightarrow>
     linked c st \<and> queued rep holds x xs (msgs (snd st) ! c_msg c) \<and>
     input_ok (bufs (snd st)) (ms_input (msgs (snd st) ! c_msg c)) \<and>
     reads_as c r (tcp_reader (tcps (snd st) ! c_tcp c)) (msgs (snd st) ! c_msg c) \<and>
     writes_as c bs (bufs (snd st)) (tcp_writer (tcps (snd st) ! c_tcp c)) (msgs (snd st) ! c_msg c)"

text \<open>What is ready to run, and what is left of the socket.\<close>

definition ready_is :: "(fn_ptr \<times> obj) list \<Rightarrow> ('m, 'p) app_state \<Rightarrow> bool" where
  "ready_is q st \<longleftrightarrow> fl_rep (kq_ready (fst st)) (map (\<lambda>(f, x). \<lparr>fn = Some f, fn_arg = Some (Arg x)\<rparr>) q)"

definition writable :: "socket \<Rightarrow> bool" where
  "writable sk \<longleftrightarrow> (\<forall>r \<in> set (sk_writes sk). \<exists>n. r = Wr_bytes n \<and> n > 0)"

definition wrote :: "char list \<Rightarrow> socket \<Rightarrow> socket \<Rightarrow> bool" where
  "wrote out sk sk' \<longleftrightarrow> sk_sent sk' = sk_sent sk @ out \<and> sk_reads sk' = sk_reads sk \<and> (writable sk \<longrightarrow> writable sk')"

lemma wrote_trans: "wrote xs a b \<Longrightarrow> wrote ys b c \<Longrightarrow> wrote (xs @ ys) a c"
  by (simp add: wrote_def)

lemma wrote_refl [simp]: "wrote [] a a"
  by (simp add: wrote_def)

lemmas world_simps = put_tcp_def put_buf_def put_sock_def put_msg_def put_app_def tcp_at_def msg_at_def app_at_def
  buf_at_def new_buf_def

lemma linked_post:
  assumes "linked c (rl, w)" "ready_is [] (rl, w)"
  obtains lst where "kq_runloop_post rl (Some f) (Some (Arg y)) = Inr (rl\<lparr>kq_ready := lst\<rparr>)"
    "fl_rep lst [\<lparr>fn = Some f, fn_arg = Some (Arg y)\<rparr>]" "fl_room lst = 2047"
proof -
  have "fl_rep (kq_ready rl) []" "fl_room (kq_ready rl) = 2047" using assms by (simp_all add: linked_def ready_is_def)
  from post_empty [OF this, of f "Arg y"] that show thesis by blast
qed

lemma conn_linked: "conn_at rep holds c r bs x xs st \<Longrightarrow> linked c st"
  by (simp add: conn_at_def)

lemma sys_write_takes:
  assumes "writable sk" "bs \<noteq> []"
  shows "\<exists>n sk'. sys_write sk bs = (Wr_bytes n, sk') \<and> 0 < n \<and> n \<le> length bs \<and> wrote (take n bs) sk sk'"
proof (cases "sk_writes sk")
  case Nil
  with assms(2) show ?thesis by (auto simp: sys_write_def wrote_def writable_def)
next
  case (Cons r rest)
  with assms(1) obtain n where "r = Wr_bytes n" "n > 0" by (auto simp: writable_def)
  with Cons assms show ?thesis by (auto simp: sys_write_def wrote_def writable_def min_def)
qed

lemma mem_read_data:
  assumes "iob_ok iob" "iob_data iob = map Some bs"
  shows "mem_read (mem_p iob) (IOBuffer_data iob) (IOBuffer_data_len iob) = Inr bs"
  using iob_range [OF assms(1)] assms(2)
  by (auto simp: mem_read_def mem_range_def IOBuffer_data_def IOBuffer_data_len_def split: if_splits)

section \<open>Writing\<close>

lemma write_cb_chain:
  assumes "conn_at rep holds c R_none bs x xs (rl, w)" "bs \<noteq> []" "ready_is [] (rl, w)"
    "input_ok (bufs w') (ms_input (msgs w ! c_msg c))" "apps w' = apps w" "server w' = server w" "length (tcps w') = length (tcps w)"
    "msgs w' = msgs w" "tcps w' ! c_tcp c = (tcps w ! c_tcp c)\<lparr>tcp_writer := tw\<rparr>"
    "wr_buffer tw = None" "wr_cb tw = None"
  shows "\<exists>st'. tcp_write_callback (echo_mw tc) (c_msg c) 0 (rl, w') = Inr st' \<and> conn_at rep holds c R_none [] x xs st' \<and>
    ready_is [(App_postable_read, App_ref (c_app c))] st' \<and> socks (snd st') = socks w'"
proof -
  from linked_post [OF conn_linked [OF assms(1)] assms(3)] obtain lst where
    lst: "kq_runloop_post rl (Some App_postable_read) (Some (Arg (App_ref (c_app c)))) = Inr (rl\<lparr>kq_ready := lst\<rparr>)"
    "fl_rep lst [\<lparr>fn = Some App_postable_read, fn_arg = Some (Arg (App_ref (c_app c)))\<rparr>]" "fl_room lst = 2047"
    by blast
  show ?thesis
    using assms lst
    by (auto simp: conn_at_def linked_def queued_def reads_as_def writes_as_def ready_is_def tcp_write_callback_def
        msg_invoke_write_callback_def echo_mw_def msg_write_callback_def post_def world_simps)
qed

text \<open>The functor that goes on with a write, or with the next message when nothing is left to write.\<close>

definition go_on :: "conn \<Rightarrow> char list \<Rightarrow> (fn_ptr \<times> obj) list" where
  "go_on c bs =
     [if bs = [] then (App_postable_read, App_ref (c_app c)) else (Postable_try_write, Tcp_ref (c_tcp c))]"

definition sock_of :: "conn \<Rightarrow> ('m, 'p) app_state \<Rightarrow> socket" where
  "sock_of c st = socks (snd st) (c_fd c)"

text \<open>The world after a \<open>write\<close> that took bytes and left the buffer \<open>iob\<close>.\<close>

definition written :: "conn \<Rightarrow> socket \<Rightarrow> nat \<Rightarrow> IOBuffer \<Rightarrow> ('m, 'p) app_world \<Rightarrow> ('m, 'p) app_world" where
  "written c sk b iob w =
     put_tcp (put_buf (put_sock w (c_fd c) sk) b iob) (c_tcp c)
       ((tcps w ! c_tcp c)\<lparr>tcp_writer := (tcp_writer (tcps w ! c_tcp c))\<lparr>wr_state := WRT_STATE_READY\<rparr>\<rparr>)"

lemma write_effect:
  assumes at: "conn_at rep holds c R_none bs x xs (rl, w)" and bs: "bs \<noteq> []" and wr: "writable (sock_of c (rl, w))"
  obtains n sk b iob where "0 < n" "wrote (take n bs) (sock_of c (rl, w)) sk" "iob_ok iob" "iob_data iob = map Some (drop n bs)"
    "ms_output (msgs w ! c_msg c) = Some b" "ms_input (msgs w ! c_msg c) \<noteq> Some b" "b < length (bufs w)"
    "tcp_try_write wcall (c_tcp c) (rl, w) =
      (if drop n bs = [] then tcp_invoke_write_callback wcall (c_tcp c) 0 (rl, written c sk b iob w)
       else rbind (kq_runloop_post rl (Some Postable_try_write) (Some (Arg (Tcp_ref (c_tcp c))))) (\<lambda>rl. Inr (rl, written c sk b iob w)))"
proof -
  let ?s = "tcps w ! c_tcp c"
  from at bs obtain b iob where
    b: "wr_buffer (tcp_writer ?s) = Some b" "b < length (bufs w)" "bufs w ! b = Some iob" "iob_ok iob" "iob_data iob = map Some bs"
    and m: "ms_output (msgs w ! c_msg c) = Some b" "ms_input (msgs w ! c_msg c) \<noteq> Some b"
    and t: "c_tcp c < length (tcps w)" "stream_fd ?s = c_fd c" by (auto simp: conn_at_def linked_def writes_as_def)
  from sys_write_takes [OF wr bs] obtain n sk where
    n: "sys_write (socks w (c_fd c)) bs = (Wr_bytes n, sk)" "0 < n" "n \<le> length bs" "wrote (take n bs) (sock_of c (rl, w)) sk"
    by (auto simp: sock_of_def)
  have len: "buffer_remaining iob = int (length bs)" using length_iob_data [OF b(4)] b(5) by simp
  have "int (length bs) \<le> INT_MAX" using b(4) len by (simp add: iob_ok_def)
  with IOBuffer_consume_ok(1) [OF b(4), of "int n"] n(3) len obtain iob1 where
    iob1: "IOBuffer_consume iob (int n) = Inr iob1" "iob_ok iob1" "iob_data iob1 = map Some (drop n bs)"
    by (auto simp: b(5) drop_map)
  have "IOBuffer_data_len iob1 = 0 \<longleftrightarrow> drop n bs = []"
    using length_iob_data [OF iob1(2)] iob1(3) by (auto simp: IOBuffer_data_len_def)
  with t b(1-3) n(1,2) iob1(1) mem_read_data [OF b(4,5)] show thesis
    by (intro that [OF n(2,4) iob1(2,3) m b(2)]) (simp add: tcp_try_write_def written_def tcp_at_def buf_at_def Let_def)
qed

lemma written_last:
  assumes at: "conn_at rep holds c R_none bs x xs (rl, w)" and bs: "bs \<noteq> []" and rdy: "ready_is [] (rl, w)"
    and b: "ms_input (msgs w ! c_msg c) \<noteq> Some b"
  shows "\<exists>st'. tcp_invoke_write_callback (tcp_wcall tc (echo_mw tc)) (c_tcp c) 0 (rl, written c sk b iob w) = Inr st' \<and>
    conn_at rep holds c R_none [] x xs st' \<and> ready_is (go_on c []) st' \<and> sock_of c st' = sk"
proof -
  let ?s = "tcps w ! c_tcp c" and ?w = "written c sk b iob w"
  let ?tw = "(tcp_writer ?s)\<lparr>wr_state := WRT_STATE_READY, wr_cb := None, wr_arg := None, wr_buffer := None\<rparr>"
  let ?w1 = "put_tcp ?w (c_tcp c) (?s\<lparr>tcp_writer := ?tw\<rparr>)"
  have t: "c_tcp c < length (tcps w)" using at by (simp add: conn_at_def linked_def)
  have io: "input_ok (bufs ?w1) (ms_input (msgs w ! c_msg c))"
    using at b by (auto simp: conn_at_def input_ok_def written_def world_simps nth_list_update split: option.splits)
  from write_cb_chain [OF at bs rdy io, where tw = ?tw and tc = tc] t obtain st' where
    st': "tcp_write_callback (echo_mw tc) (c_msg c) 0 (rl, ?w1) = Inr st'" "conn_at rep holds c R_none [] x xs st'"
    "ready_is (go_on c []) st'" "socks (snd st') = socks ?w1" by (auto simp: written_def world_simps go_on_def)
  have "tcp_invoke_write_callback (tcp_wcall tc (echo_mw tc)) (c_tcp c) 0 (rl, ?w) = tcp_write_callback (echo_mw tc) (c_msg c) 0 (rl, ?w1)"
    using t at bs by (simp add: tcp_invoke_write_callback_def tcp_wcall_def conn_at_def writes_as_def written_def world_simps)
  with st' show ?thesis by (intro exI [of _ st']) (simp add: sock_of_def written_def world_simps)
qed

lemma try_write_step:
  assumes at: "conn_at rep holds c R_none bs x xs st" and bs: "bs \<noteq> []" and rdy: "ready_is [] st"
    and wr: "writable (sock_of c st)"
  shows "\<exists>st' out bs'. tcp_try_write (tcp_wcall tc (echo_mw tc)) (c_tcp c) st = Inr st' \<and> bs = out @ bs' \<and> out \<noteq> [] \<and>
    conn_at rep holds c R_none bs' x xs st' \<and> ready_is (go_on c bs') st' \<and> wrote out (sock_of c st) (sock_of c st')"
proof -
  obtain rl w where st: "st = (rl, w)" by fastforce
  obtain n sk b iob where
    n: "0 < n" "wrote (take n bs) (sock_of c (rl, w)) sk" "iob_ok iob" "iob_data iob = map Some (drop n bs)"
    and b: "ms_output (msgs w ! c_msg c) = Some b" "ms_input (msgs w ! c_msg c) \<noteq> Some b" "b < length (bufs w)"
    and step: "tcp_try_write (tcp_wcall tc (echo_mw tc)) (c_tcp c) (rl, w) =
      (if drop n bs = [] then tcp_invoke_write_callback (tcp_wcall tc (echo_mw tc)) (c_tcp c) 0 (rl, written c sk b iob w)
       else rbind (kq_runloop_post rl (Some Postable_try_write) (Some (Arg (Tcp_ref (c_tcp c))))) (\<lambda>rl. Inr (rl, written c sk b iob w)))"
    by (rule write_effect [OF at [unfolded st] bs wr [unfolded st]])
  show ?thesis
  proof (cases "drop n bs = []")
    case True
    from written_last [OF at [unfolded st] bs rdy [unfolded st] b(2), where sk = sk and iob = iob and tc = tc] obtain st' where
      "tcp_invoke_write_callback (tcp_wcall tc (echo_mw tc)) (c_tcp c) 0 (rl, written c sk b iob w) = Inr st'"
      "conn_at rep holds c R_none [] x xs st'" "ready_is (go_on c []) st'" "sock_of c st' = sk" by blast
    with step True n(2) bs show ?thesis by (intro exI [of _ st'] exI [of _ bs] exI [of _ "[]"]) (simp add: st)
  next
    case False
    from linked_post [OF conn_linked [OF at [unfolded st]] rdy [unfolded st]] obtain lst where
      lst: "kq_runloop_post rl (Some Postable_try_write) (Some (Arg (Tcp_ref (c_tcp c)))) = Inr (rl\<lparr>kq_ready := lst\<rparr>)"
      "fl_rep lst [\<lparr>fn = Some Postable_try_write, fn_arg = Some (Arg (Tcp_ref (c_tcp c)))\<rparr>]" "fl_room lst = 2047" by blast
    let ?st = "(rl\<lparr>kq_ready := lst\<rparr>, written c sk b iob w)"
    have "conn_at rep holds c R_none (drop n bs) x xs ?st"
      using at bs False lst(3) b n(3,4)
      by (auto simp: st conn_at_def linked_def reads_as_def writes_as_def input_ok_def written_def world_simps nth_list_update
          split: option.splits)
    moreover have "ready_is (go_on c (drop n bs)) ?st" using False lst(2) by (simp add: ready_is_def go_on_def)
    moreover have "sock_of c ?st = sk" by (simp add: sock_of_def written_def world_simps)
    ultimately show ?thesis
      using step False lst(1) n(1,2) bs
      by (intro exI [of _ ?st] exI [of _ "take n bs"] exI [of _ "drop n bs"]) (simp add: st)
  qed
qed

section \<open>Answering a message\<close>

definition server_response :: "char list \<Rightarrow> char list" where
  "server_response s = ''ServerResponse:['' @ s @ '']''"

text \<open>What the application relies on in a message format.\<close>

locale echo_format = msg_format +
  fixes ops :: "('m, 'p) msg_ops"
  assumes ops_consume: "op_consume ops = consume"
    and ops_serialize: "op_serialize ops = serialize"
    and ok_text: "ok s \<Longrightarrow> no_nul s \<and> length s < 5000"
    and get_law: "\<lbrakk> holds m s; ok s \<rbrakk> \<Longrightarrow> \<exists>iob. op_get_content ops m = Some iob \<and> IOBuffer_cstr iob = Inr s"
    and set_law: "\<lbrakk> iob_holds iob s; iob_terminated iob; ok s \<rbrakk> \<Longrightarrow>
        \<exists>m out. op_new ops = Inr m \<and> serialize (op_set_content ops m (Some iob)) = Inr out \<and> iob_holds out (encode s)"
    and parser_law: "\<exists>p. op_parser_new ops = Inr p \<and> rep p init"
begin

definition answerable :: "char list \<Rightarrow> bool" where
  "answerable s \<longleftrightarrow> ok s \<and> ok (server_response s)"

definition answer :: "char list \<Rightarrow> char list" where
  "answer s = encode (server_response s)"

lemma encode_not_Nil: "ok s \<Longrightarrow> encode s \<noteq> []"
  using run_encode(1) [of s] run_Nil [of init] by auto

lemma process_ok:
  assumes "holds m s" "answerable s"
  shows "\<exists>m' out. process_input_message ops m = Inr m' \<and> serialize m' = Inr out \<and> iob_holds out (answer s)"
proof -
  from assms have ok: "ok s" "ok (server_response s)" by (simp_all add: answerable_def)
  from get_law [OF assms(1) ok(1)] obtain iob where iob: "op_get_content ops m = Some iob" "IOBuffer_cstr iob = Inr s" by blast
  have t: "no_nul (server_response s)" "length (server_response s) < 5000" using ok_text [OF ok(2)] by auto
  with IOBuffer_from_buf_holds [of "server_response s"] obtain b where
    b: "IOBuffer_from_buf (map Some (server_response s)) = Inr b" "iob_holds b (server_response s)" "iob_terminated b"
    by (auto simp: INT_MAX_def server_response_def)
  from set_law [OF b(2,3) ok(2)] obtain m0 out where
    "op_new ops = Inr m0" "serialize (op_set_content ops m0 (Some b)) = Inr out" "iob_holds out (answer s)"
    by (auto simp: answer_def)
  moreover have "IOBuffer_from_cstring (c_string (''ServerResponse:['' @ s @ '']'')) = Inr b"
    using b(1) c_str_c_string [OF t(1)] by (simp add: IOBuffer_from_cstring_def server_response_def)
  ultimately show ?thesis using iob
    by (intro exI [of _ "op_set_content ops m0 (Some b)"] exI [of _ out]) (simp add: process_input_message_def)
qed

text \<open>The application answers a message: the answer is what the connection has to write.\<close>

lemma respond_starts:
  assumes at: "conn_at rep holds c R_none [] x xs (rl, w)" and m: "holds m s" "answerable s"
  shows "\<exists>w'. msg_read_callback tc ops (c_app c) (Some m) 0 (rl, w) = tcp_try_write (tcp_wcall tc (echo_mw tc)) (c_tcp c) (rl, w') \<and>
    conn_at rep holds c R_none (answer s) x xs (rl, w') \<and> socks w' = socks w"
proof -
  from process_ok [OF m] obtain m' iob where
    p: "process_input_message ops m = Inr m'" "serialize m' = Inr iob" "iob_holds iob (answer s)" by blast
  have ne: "answer s \<noteq> []" using encode_not_Nil m(2) by (simp add: answer_def answerable_def)
  let ?i = "c_msg c" and ?t = "c_tcp c" and ?b = "length (bufs w)"
  let ?s = "(msgs w ! ?i)\<lparr>ms_output := Some ?b, ms_write_cb := Some Msg_write_callback, ms_write_arg := Some (App_ref (c_app c))\<rparr>"
  let ?ts = "(tcps w ! ?t)\<lparr>tcp_writer := (tcp_writer (tcps w ! ?t))\<lparr>wr_buffer := Some ?b, wr_cb := Some Tcp_write_callback,
    wr_arg := Some (Msg_ref ?i)\<rparr>\<rparr>"
  let ?w = "put_tcp (put_msg (w\<lparr>bufs := bufs w @ [Some iob]\<rparr>) ?i ?s) ?t ?ts"
  have "conn_at rep holds c R_none (answer s) x xs (rl, ?w)"
    using at p(3) ne
    by (auto simp: conn_at_def linked_def queued_def reads_as_def writes_as_def input_ok_def world_simps iob_holds_def
        nth_append split: option.splits)
  moreover have "msg_read_callback tc ops (c_app c) (Some m) 0 (rl, w) = tcp_try_write (tcp_wcall tc (echo_mw tc)) ?t (rl, ?w)"
    using at p(1,2)
    by (auto simp: conn_at_def linked_def writes_as_def msg_read_callback_def msg_stream_write_def tcp_write_def
        is_write_pending_def ops_serialize world_simps c_assert_def)
  ultimately show ?thesis by (intro exI [of _ ?w]) (simp add: world_simps)
qed

lemma respond:
  assumes at: "conn_at rep holds c R_none [] x xs st" and rdy: "ready_is [] st" and wr: "writable (sock_of c st)"
    and m: "holds m s" "answerable s"
  shows "\<exists>st' out bs'. msg_read_callback tc ops (c_app c) (Some m) 0 st = Inr st' \<and> answer s = out @ bs' \<and>
    conn_at rep holds c R_none bs' x xs st' \<and> ready_is (go_on c bs') st' \<and> wrote out (sock_of c st) (sock_of c st')"
proof -
  obtain rl w where st: "st = (rl, w)" by fastforce
  from respond_starts [OF at [unfolded st] m] obtain w' where
    w': "msg_read_callback tc ops (c_app c) (Some m) 0 st = tcp_try_write (tcp_wcall tc (echo_mw tc)) (c_tcp c) (rl, w')"
    "conn_at rep holds c R_none (answer s) x xs (rl, w')" "socks w' = socks w" by (auto simp: st)
  have "answer s \<noteq> []" using encode_not_Nil m(2) by (simp add: answer_def answerable_def)
  from try_write_step [OF w'(2) this, where tc = tc] rdy wr w'(1,3) show ?thesis by (auto simp: ready_is_def sock_of_def st)
qed

end

section \<open>Reading\<close>

text \<open>The loop has something to run for the connection, which writes \<open>bs\<close> and has the texts \<open>xs\<close> to answer.\<close>

definition running ::
  "('p \<Rightarrow> 'x \<Rightarrow> bool) \<Rightarrow> ('m \<Rightarrow> char list \<Rightarrow> bool) \<Rightarrow> conn \<Rightarrow> char list \<Rightarrow> 'x \<Rightarrow> char list list \<Rightarrow>
   ('m, 'p) app_state \<Rightarrow> bool" where
  "running rep holds c bs x xs st \<longleftrightarrow>
     conn_at rep holds c R_none bs x xs st \<and> ready_is (go_on c bs) st \<or>
     bs = [] \<and> xs = [] \<and> conn_at rep holds c R_asked [] x [] st \<and> ready_is [(Msg_postable_read, Msg_ref (c_msg c))] st"

definition received :: "char list \<Rightarrow> rd_result list \<Rightarrow> socket \<Rightarrow> socket" where
  "received bs rest sk = sk\<lparr>sk_reads := rest, sk_received := sk_received sk @ bs\<rparr>"

lemma received_sock [simp]:
  "writable (received bs rest sk) = writable sk" "sk_sent (received bs rest sk) = sk_sent sk"
  "sk_reads (received bs rest sk) = rest"
  by (simp_all add: received_def writable_def)

lemma read_into_empty:
  assumes "iob_holds b []" "buffer_capacity b = 4096" "bs \<noteq> []" "length bs \<le> 4096"
  shows "\<exists>b'. read_into b bs = Inr b' \<and> iob_holds b' bs \<and> buffer_capacity b' = 4096"
proof -
  have "read_into b bs = IOBuffer_data_add b (map Some bs)"
    using assms iob_holds_space_len [OF assms(1)] by (simp add: read_into_def IOBuffer_data_add_def Let_def)
  with IOBuffer_data_add_holds [OF assms(1,3)] assms(2,4) show ?thesis by auto
qed

lemma pending_parts:
  assumes "conn_at rep holds c R_pending [] x [] (rl, w)"
  obtains b iob s where "c_tcp c < length (tcps w)" "stream_fd (tcps w ! c_tcp c) = c_fd c" "rlstream (tcps w ! c_tcp c) = c_ev c"
    "c_msg c < length (msgs w)" "rd_buffer (tcp_reader (tcps w ! c_tcp c)) = Some b"
    "rd_cb (tcp_reader (tcps w ! c_tcp c)) = Some Tcp_read_callback" "rd_arg (tcp_reader (tcps w ! c_tcp c)) = Some (Msg_ref (c_msg c))"
    "ms_input (msgs w ! c_msg c) = Some b" "b < length (bufs w)" "bufs w ! b = Some iob" "iob_holds iob []"
    "buffer_capacity iob = 4096" "watching rl (c_ev c) (Stream_ev s)" "ks_fd s = c_fd c" "ks_mask s = 0"
    "rd_state (tcp_reader (tcps w ! c_tcp c)) \<noteq> RD_STATE_ERROR" "rd_state (tcp_reader (tcps w ! c_tcp c)) \<noteq> RD_STATE_STOPPED"
    "kq_stream_get_fd rl (c_ev c) = Inr (c_fd c)" "IOBuffer_space_len iob = 4096"
proof -
  from assms obtain b iob s where
    "c_tcp c < length (tcps w)" "stream_fd (tcps w ! c_tcp c) = c_fd c" "rlstream (tcps w ! c_tcp c) = c_ev c"
    "c_msg c < length (msgs w)" "rd_buffer (tcp_reader (tcps w ! c_tcp c)) = Some b"
    "rd_cb (tcp_reader (tcps w ! c_tcp c)) = Some Tcp_read_callback" "rd_arg (tcp_reader (tcps w ! c_tcp c)) = Some (Msg_ref (c_msg c))"
    "ms_input (msgs w ! c_msg c) = Some b" "b < length (bufs w)" "bufs w ! b = Some iob" "iob_holds iob []"
    "buffer_capacity iob = 4096" "watching rl (c_ev c) (Stream_ev s)" "ks_fd s = c_fd c" "ks_mask s = 0"
    "rd_state (tcp_reader (tcps w ! c_tcp c)) \<noteq> RD_STATE_ERROR" "rd_state (tcp_reader (tcps w ! c_tcp c)) \<noteq> RD_STATE_STOPPED"
    by (auto simp: conn_at_def linked_def reads_as_def input_ok_def)
  moreover from this have "kq_stream_get_fd rl (c_ev c) = Inr (c_fd c)" "IOBuffer_space_len iob = 4096"
    using watching_at(1) [of rl "c_ev c" s] iob_holds_space_len [of iob "[]"] by (auto simp: kq_stream_get_fd_def)
  ultimately show ?thesis by (rule that)
qed

text \<open>Bytes that arrive are put into the input buffer, and the read of the TCP stream is over.\<close>

lemma try_read_bytes:
  assumes at: "conn_at rep holds c R_pending [] x [] (rl, w)" and cs: "cs \<noteq> []" "length cs \<le> 4096"
    and r: "sk_reads (sock_of c (rl, w)) = Rd_data cs # rest"
  shows "\<exists>b iob w'. tcp_try_read rcall (c_tcp c) (rl, w) = rcall Tcp_read_callback (Some (Msg_ref (c_msg c))) 0 (rl, w') \<and>
    linked c (rl, w') \<and> msgs w' = msgs w \<and> ms_input (msgs w ! c_msg c) = Some b \<and> b < length (bufs w') \<and>
    bufs w' ! b = Some iob \<and> iob_holds iob cs \<and> buffer_capacity iob = 4096 \<and>
    rd_buffer (tcp_reader (tcps w' ! c_tcp c)) = None \<and> rd_cb (tcp_reader (tcps w' ! c_tcp c)) = None \<and>
    writes_as c [] (bufs w') (tcp_writer (tcps w' ! c_tcp c)) (msgs w' ! c_msg c) \<and>
    sock_of c (rl, w') = received cs rest (sock_of c (rl, w))"
  using at
proof (rule pending_parts)
  fix b iob s
  assume t: "c_tcp c < length (tcps w)" "stream_fd (tcps w ! c_tcp c) = c_fd c" "rlstream (tcps w ! c_tcp c) = c_ev c"
    "c_msg c < length (msgs w)" "rd_buffer (tcp_reader (tcps w ! c_tcp c)) = Some b"
    "rd_cb (tcp_reader (tcps w ! c_tcp c)) = Some Tcp_read_callback" "rd_arg (tcp_reader (tcps w ! c_tcp c)) = Some (Msg_ref (c_msg c))"
    "ms_input (msgs w ! c_msg c) = Some b" "b < length (bufs w)" "bufs w ! b = Some iob" "iob_holds iob []"
    "buffer_capacity iob = 4096"
    "rd_state (tcp_reader (tcps w ! c_tcp c)) \<noteq> RD_STATE_ERROR" "rd_state (tcp_reader (tcps w ! c_tcp c)) \<noteq> RD_STATE_STOPPED"
    "kq_stream_get_fd rl (c_ev c) = Inr (c_fd c)" "IOBuffer_space_len iob = 4096"
  from read_into_empty [OF t(11,12) cs] obtain iob1 where
    iob1: "read_into iob cs = Inr iob1" "iob_holds iob1 cs" "buffer_capacity iob1 = 4096" by blast
  let ?s = "tcps w ! c_tcp c"
  let ?w1 = "put_buf (put_sock w (c_fd c) (received cs rest (socks w (c_fd c)))) b iob1"
  let ?w' = "put_tcp ?w1 (c_tcp c) (?s\<lparr>tcp_reader := (tcp_reader ?s)\<lparr>rd_state := RD_STATE_READY, rd_buffer := None,
    rd_cb := None, rd_arg := None\<rparr>\<rparr>)"
  have "sys_read (socks w (c_fd c)) 4096 = (Rd_data cs, received cs rest (socks w (c_fd c)))"
    using r cs(2) by (simp add: sys_read_def sock_of_def received_def)
  then have "tcp_try_read rcall (c_tcp c) (rl, w) = rcall Tcp_read_callback (Some (Msg_ref (c_msg c))) 0 (rl, ?w')"
    using t iob1(1) cs(1)
    by (simp add: tcp_try_read_def tcp_invoke_read_cb_def tcp_at_def buf_at_def c_assert_def put_tcp_def put_buf_def put_sock_def)
  moreover have "linked c (rl, ?w')" "writes_as c [] (bufs ?w') (tcp_writer (tcps ?w' ! c_tcp c)) (msgs ?w' ! c_msg c)"
    using at by (simp_all add: conn_at_def linked_def writes_as_def world_simps)
  ultimately show ?thesis
    using t iob1(2,3)
    by (intro exI [of _ b] exI [of _ iob1] exI [of _ ?w']) (simp add: world_simps sock_of_def)
qed

context echo_format
begin

definition answers :: "char list list \<Rightarrow> char list" where
  "answers ss = concat (map answer ss)"

lemma answers_simps [simp]: "answers [] = []" "answers (s # ss) = answer s @ answers ss" "answers (ss @ ts) = answers ss @ answers ts"
  by (simp_all add: answers_def)

text \<open>A step that wrote some of the bytes to be written and of the answers to the texts.\<close>

definition moved :: "conn \<Rightarrow> socket \<Rightarrow> 'a \<Rightarrow> char list \<Rightarrow> char list list \<Rightarrow> ('m, 'p) app_state \<Rightarrow> bool" where
  "moved c sk x pend texts st \<longleftrightarrow>
     (\<exists>out bs xs. running rep holds c bs x xs st \<and> wrote out sk (sock_of c st) \<and> length xs \<le> length texts \<and>
        pend @ answers texts = out @ bs @ answers xs \<and> list_all answerable xs)"

text \<open>What the parser makes of the bytes: new messages, an empty buffer and a new state.\<close>

lemma bytes_parsed:
  assumes q: "queued rep holds x [] s" and b: "b < length (bufs w)" "bufs w ! b = Some iob" "iob_holds iob cs"
      "buffer_capacity iob = 4096" "cs \<noteq> []" and f: "fits x cs"
  obtains p p1 iob1 L where "IOBuffer_data_len iob \<noteq> 0" "IOBuffer_data_len iob1 = 0" "rep p1 (snd (run x cs))" "List_ok L"
    "list_all2 holds (contents L) (fst (run x cs))" "input_ok (bufs (put_buf w b iob1)) (Some b)"
    "ms_parser s = Some p" "op_consume ops new_message_callback p iob (ms_list s) = Inr (p1, iob1, L)"
proof -
  from q obtain p where p: "ms_parser s = Some p" "rep p x" "List_ok (ms_list s)" "contents (ms_list s) = []"
    by (auto simp: queued_def)
  from consume_law [OF p(2) b(3,5) f] obtain ms p1 iob1 where
    ms: "list_all2 holds ms (fst (run x cs))" "rep p1 (snd (run x cs))" "drained iob iob1"
    "\<And>h s. consume h p iob s = rbind (fold_res (\<lambda>m. h m 0) ms s) (\<lambda>s1. Inr (p1, iob1, s1))" by blast
  have "int (length cs) \<le> 4096"
    using b(4) iob_holds_remaining [OF b(3)] b(3) by (simp add: iob_holds_def iob_ok_def)
  then have "int (length ms) \<le> INT_MAX"
    using run_length [of x cs] list_all2_lengthD [OF ms(1)] by (simp add: INT_MAX_def)
  with lq.add_all [OF p(3), of ms] p(4) obtain L where
    L: "fold_res (\<lambda>m. new_message_callback m 0) ms (ms_list s) = Inr L" "List_ok L" "contents L = ms"
    by (auto simp: new_message_callback_def [abs_def])
  show thesis
  proof (rule that [of iob1 p1 L p])
    show "IOBuffer_data_len iob \<noteq> 0" "IOBuffer_data_len iob1 = 0"
      using iob_holds_remaining [OF b(3)] b(5) ms(3) iob_holds_remaining [of iob1 "[]"]
      by (simp_all add: IOBuffer_data_len_def drained_def)
    show "input_ok (bufs (put_buf w b iob1)) (Some b)" using b(1,4) ms(3) by (simp add: input_ok_def world_simps drained_def)
    show "op_consume ops new_message_callback p iob (ms_list s) = Inr (p1, iob1, L)"
      using L(1) by (simp add: ops_consume ms(4))
  qed (use p(1) ms L in simp_all)
qed

text \<open>A connection whose read is over, with the bytes \<open>cs\<close> in its input buffer.\<close>

definition delivered :: "conn \<Rightarrow> 'a \<Rightarrow> char list \<Rightarrow> ('m, 'p) app_state \<Rightarrow> bool" where
  "delivered c x cs st \<longleftrightarrow>
     linked c st \<and> queued rep holds x [] (msgs (snd st) ! c_msg c) \<and>
     ms_read_cb (msgs (snd st) ! c_msg c) = Some Msg_read_callback \<and> ms_read_arg (msgs (snd st) ! c_msg c) = Some (App_ref (c_app c)) \<and>
     rd_buffer (tcp_reader (tcps (snd st) ! c_tcp c)) = None \<and> rd_cb (tcp_reader (tcps (snd st) ! c_tcp c)) = None \<and>
     (\<exists>b iob. ms_input (msgs (snd st) ! c_msg c) = Some b \<and> b < length (bufs (snd st)) \<and> bufs (snd st) ! b = Some iob \<and>
        iob_holds iob cs \<and> buffer_capacity iob = 4096) \<and> cs \<noteq> [] \<and>
     writes_as c [] (bufs (snd st)) (tcp_writer (tcps (snd st) ! c_tcp c)) (msgs (snd st) ! c_msg c)"

lemma first_message:
  assumes d: "delivered c x cs (rl, w)" and f: "fits x cs" and r: "fst (run x cs) = s # xs"
  shows "\<exists>w' m. tcp_read_callback ops (echo_mr tc ops) (c_msg c) 0 (rl, w) = msg_read_callback tc ops (c_app c) (Some m) 0 (rl, w') \<and>
    conn_at rep holds c R_none [] (snd (run x cs)) xs (rl, w') \<and> holds m s \<and> socks w' = socks w"
proof -
  let ?s = "msgs w ! c_msg c"
  from d obtain b iob where b: "ms_input ?s = Some b" "b < length (bufs w)" "bufs w ! b = Some iob" "iob_holds iob cs"
    "buffer_capacity iob = 4096" "cs \<noteq> []" and q: "queued rep holds x [] ?s" and m: "c_msg c < length (msgs w)"
    by (auto simp: delivered_def linked_def)
  obtain p p1 iob1 L where
    L: "IOBuffer_data_len iob \<noteq> 0" "IOBuffer_data_len iob1 = 0" "rep p1 (snd (run x cs))" "List_ok L"
    "list_all2 holds (contents L) (fst (run x cs))" "input_ok (bufs (put_buf w b iob1)) (Some b)"
    "ms_parser ?s = Some p" "op_consume ops new_message_callback p iob (ms_list ?s) = Inr (p1, iob1, L)"
    by (rule bytes_parsed [OF q b(2-6) f])
  from L(5) r obtain m0 ms' where ms: "contents L = m0 # ms'" "holds m0 s" "list_all2 holds ms' xs"
    by (auto simp: list_all2_Cons2)
  from lq.remove_first_law [OF L(4)] ms(1) obtain L' where
    L': "List_remove_first L = Inr (Some m0, L')" "List_ok L'" "contents L' = ms'" by auto
  have sz: "List_size L \<noteq> 0" using lq.size_law [OF L(4)] ms(1) by simp
  let ?w' = "put_msg (put_buf w b iob1) (c_msg c)
    (?s\<lparr>ms_parser := Some p1, ms_list := L', ms_read_cb := None, ms_read_arg := None\<rparr>)"
  have "conn_at rep holds c R_none [] (snd (run x cs)) xs (rl, ?w')"
    using d b(1) L(3,6) L'(2,3) ms(3) m
    by (simp add: delivered_def conn_at_def linked_def queued_def reads_as_def writes_as_def world_simps)
  moreover have "tcp_read_callback ops (echo_mr tc ops) (c_msg c) 0 (rl, w) = msg_read_callback tc ops (c_app c) (Some m0) 0 (rl, ?w')"
    using m b(1-3) L(1,2,7,8) L'(1) sz d
    by (simp add: delivered_def tcp_read_callback_def msg_invoke_read_callback_def echo_mr_def msg_at_def buf_at_def
        c_assert_def Let_def put_msg_def put_buf_def)
  ultimately show ?thesis using ms(2) by (intro exI [of _ ?w'] exI [of _ m0]) (simp add: world_simps)
qed

lemma no_message:
  assumes d: "delivered c x cs (rl, w)" and f: "fits x cs" and r: "fst (run x cs) = []" and rdy: "ready_is [] (rl, w)"
  shows "\<exists>st'. tcp_read_callback ops (echo_mr tc ops) (c_msg c) 0 (rl, w) = Inr st' \<and>
    conn_at rep holds c R_asked [] (snd (run x cs)) [] st' \<and> ready_is [(Msg_postable_read, Msg_ref (c_msg c))] st' \<and>
    socks (snd st') = socks w"
proof -
  let ?s = "msgs w ! c_msg c"
  from d obtain b iob where b: "ms_input ?s = Some b" "b < length (bufs w)" "bufs w ! b = Some iob" "iob_holds iob cs"
    "buffer_capacity iob = 4096" "cs \<noteq> []" and q: "queued rep holds x [] ?s" and m: "c_msg c < length (msgs w)" and lk: "linked c (rl, w)"
    by (auto simp: delivered_def linked_def)
  obtain p p1 iob1 L where
    L: "IOBuffer_data_len iob \<noteq> 0" "IOBuffer_data_len iob1 = 0" "rep p1 (snd (run x cs))" "List_ok L"
    "list_all2 holds (contents L) (fst (run x cs))" "input_ok (bufs (put_buf w b iob1)) (Some b)"
    "ms_parser ?s = Some p" "op_consume ops new_message_callback p iob (ms_list ?s) = Inr (p1, iob1, L)"
    by (rule bytes_parsed [OF q b(2-6) f])
  have c: "contents L = []" using L(5) r by simp
  have sz: "List_size L = 0" using lq.size_law [OF L(4)] c by simp
  from linked_post [OF lk rdy] obtain lst where
    lst: "kq_runloop_post rl (Some Msg_postable_read) (Some (Arg (Msg_ref (c_msg c)))) = Inr (rl\<lparr>kq_ready := lst\<rparr>)"
    "fl_rep lst [\<lparr>fn = Some Msg_postable_read, fn_arg = Some (Arg (Msg_ref (c_msg c)))\<rparr>]" "fl_room lst = 2047" by blast
  let ?st = "(rl\<lparr>kq_ready := lst\<rparr>, put_msg (put_buf w b iob1) (c_msg c) (?s\<lparr>ms_parser := Some p1, ms_list := L\<rparr>))"
  have "tcp_read_callback ops (echo_mr tc ops) (c_msg c) 0 (rl, w) = Inr ?st"
    using m b(1-3) L(1,2,7,8) sz lst(1)
    by (simp add: tcp_read_callback_def msg_at_def buf_at_def c_assert_def post_def Let_def)
  moreover have "conn_at rep holds c R_asked [] (snd (run x cs)) [] ?st"
    using d lst(3) b(1) L(3,4,6) c m
    by (simp add: delivered_def conn_at_def linked_def queued_def reads_as_def writes_as_def world_simps)
  ultimately show ?thesis using lst(2) by (intro exI [of _ ?st]) (simp add: ready_is_def world_simps)
qed

lemma parse_bytes:
  assumes d: "delivered c x cs (rl, w)" and rdy: "ready_is [] (rl, w)" and wr: "writable (sock_of c (rl, w))"
    and f: "fits x cs" "list_all answerable (fst (run x cs))"
  shows "\<exists>st'. tcp_read_callback ops (echo_mr tc ops) (c_msg c) 0 (rl, w) = Inr st' \<and>
    moved c (sock_of c (rl, w)) (snd (run x cs)) [] (fst (run x cs)) st'"
proof (cases "fst (run x cs)")
  case Nil
  from no_message [OF d f(1) Nil rdy, where tc = tc] obtain st' where
    st': "tcp_read_callback ops (echo_mr tc ops) (c_msg c) 0 (rl, w) = Inr st'" "conn_at rep holds c R_asked [] (snd (run x cs)) [] st'"
    "ready_is [(Msg_postable_read, Msg_ref (c_msg c))] st'" "sock_of c st' = sock_of c (rl, w)" by (auto simp: sock_of_def)
  then show ?thesis
    using Nil unfolding moved_def running_def by (intro exI [of _ st'] conjI exI [of _ "[]"]) auto
next
  case (Cons s xs)
  from first_message [OF d f(1) Cons] obtain w' m where
    w': "tcp_read_callback ops (echo_mr tc ops) (c_msg c) 0 (rl, w) = msg_read_callback tc ops (c_app c) (Some m) 0 (rl, w')"
    "conn_at rep holds c R_none [] (snd (run x cs)) xs (rl, w')" "holds m s" "socks w' = socks w" by blast
  from respond [OF w'(2) _ _ w'(3), where tc = tc] rdy wr w'(1,4) f(2) Cons obtain st' out bs where
    "tcp_read_callback ops (echo_mr tc ops) (c_msg c) 0 (rl, w) = Inr st'" "answer s = out @ bs"
    "conn_at rep holds c R_none bs (snd (run x cs)) xs st'" "ready_is (go_on c bs) st'" "wrote out (sock_of c (rl, w)) (sock_of c st')"
    by (auto simp: ready_is_def sock_of_def)
  then show ?thesis
    using Cons f(2) unfolding moved_def running_def by (intro exI [of _ st'] conjI exI [of _ out] exI [of _ bs] exI [of _ xs]) auto
qed

text \<open>Bytes that arrive are handed to the message stream.\<close>

lemma data_delivered:
  assumes at: "conn_at rep holds c R_pending [] x [] (rl, w)" and cs: "cs \<noteq> []" "length cs \<le> 4096"
    and r: "sk_reads (sock_of c (rl, w)) = Rd_data cs # rest"
  shows "\<exists>w'. tcp_try_read (tcp_rcall tc ops (echo_mr tc ops)) (c_tcp c) (rl, w) =
      tcp_read_callback ops (echo_mr tc ops) (c_msg c) 0 (rl, w') \<and> delivered c x cs (rl, w') \<and>
    sock_of c (rl, w') = received cs rest (sock_of c (rl, w))"
proof -
  from try_read_bytes [OF at cs r, of "tcp_rcall tc ops (echo_mr tc ops)"] obtain b iob w' where
    w': "tcp_try_read (tcp_rcall tc ops (echo_mr tc ops)) (c_tcp c) (rl, w) =
       tcp_rcall tc ops (echo_mr tc ops) Tcp_read_callback (Some (Msg_ref (c_msg c))) 0 (rl, w')"
    "linked c (rl, w')" "msgs w' = msgs w" "ms_input (msgs w ! c_msg c) = Some b" "b < length (bufs w')" "bufs w' ! b = Some iob"
    "iob_holds iob cs" "buffer_capacity iob = 4096" "rd_buffer (tcp_reader (tcps w' ! c_tcp c)) = None"
    "rd_cb (tcp_reader (tcps w' ! c_tcp c)) = None" "writes_as c [] (bufs w') (tcp_writer (tcps w' ! c_tcp c)) (msgs w' ! c_msg c)"
    "sock_of c (rl, w') = received cs rest (sock_of c (rl, w))" by blast
  moreover have "delivered c x cs (rl, w')"
    using at w'(2-11) cs(1) by (simp add: delivered_def conn_at_def reads_as_def)
  ultimately show ?thesis by (intro exI [of _ w']) (simp add: tcp_rcall_def)
qed

lemma data_arrives:
  assumes at: "conn_at rep holds c R_pending [] x [] st" and cs: "cs \<noteq> []" "length cs \<le> 4096"
    and r: "sk_reads (sock_of c st) = Rd_data cs # rest" and rdy: "ready_is [] st" and wr: "writable (sock_of c st)"
    and f: "fits x cs" "list_all answerable (fst (run x cs))"
  shows "\<exists>st'. tcp_try_read (tcp_rcall tc ops (echo_mr tc ops)) (c_tcp c) st = Inr st' \<and>
    moved c (received cs rest (sock_of c st)) (snd (run x cs)) [] (fst (run x cs)) st'"
proof -
  obtain rl w where st: "st = (rl, w)" by fastforce
  from data_delivered [OF at [unfolded st] cs r [unfolded st]] obtain w' where
    w': "tcp_try_read (tcp_rcall tc ops (echo_mr tc ops)) (c_tcp c) st = tcp_read_callback ops (echo_mr tc ops) (c_msg c) 0 (rl, w')"
    "delivered c x cs (rl, w')" "sock_of c (rl, w') = received cs rest (sock_of c st)" by (auto simp: st)
  with parse_bytes [OF w'(2) _ _ f] rdy wr show ?thesis by (simp add: st ready_is_def)
qed

end

section \<open>No data and the end of the data\<close>

text \<open>The kernel reports the connection when it is readable, and the loop then calls the TCP stream.\<close>

definition armed :: "conn \<Rightarrow> tcp_loop \<Rightarrow> bool" where
  "armed c rl \<longleftrightarrow>
     (\<exists>s kn. watching rl (c_ev c) (Stream_ev s) \<and> ks_mask s = 0 \<and> ks_read_cb s = Some Read_ready_callback \<and>
        ks_read_arg s = Some (Arg (Tcp_ref (c_tcp c))) \<and> knotes rl (Fd (c_fd c), EVFILT_READ) = Some kn \<and>
        kn_enabled kn \<and> \<not> kn_oneshot kn \<and> \<not> kn_dispatch kn \<and> kn_udata kn = Some (c_ev c))"

text \<open>The connection is over: everything it had is released and its descriptor is closed.\<close>

definition closed :: "conn \<Rightarrow> ('m, 'p) app_state \<Rightarrow> bool" where
  "closed c st \<longleftrightarrow>
     kq_ok (fst st) \<and> fl_room (kq_ready (fst st)) = 2047 \<and> ready_is [] st \<and>
     et_used (kq_table (fst st)) = c_used c - {c_ev c} \<and> kq_closed_fds (fst st) = c_closed c @ [c_fd c] \<and>
     (\<exists>s. stream_at (fst st) (c_ev c) = Inr s \<and> ks_mask s = 0) \<and>
     apps (snd st) ! c_app c = None \<and> List_ok (connection_list (server (snd st))) \<and>
     contents (connection_list (server (snd st))) = remove1 (c_app c) (c_conns c)"

lemma sys_read_other:
  assumes "sk_reads sk = r # rest" "\<forall>bs. r \<noteq> Rd_data bs"
  shows "sys_read sk n = (r, received [] rest sk)"
  using assms by (cases r) (simp_all add: sys_read_def received_def)

lemma try_read_again:
  assumes at: "conn_at rep holds c R_pending [] x [] st" and r: "sk_reads (sock_of c st) = Rd_error EAGAIN # rest"
    and rdy: "ready_is [] st"
  shows "\<exists>st'. tcp_try_read rcall (c_tcp c) st = Inr st' \<and> conn_at rep holds c R_pending [] x [] st' \<and> armed c (fst st') \<and>
    ready_is [] st' \<and> sock_of c st' = received [] rest (sock_of c st)"
proof -
  obtain rl w where st: "st = (rl, w)" by fastforce
  from at [unfolded st] show ?thesis
  proof (rule pending_parts)
    fix b iob s
    assume t: "c_tcp c < length (tcps w)" "stream_fd (tcps w ! c_tcp c) = c_fd c" "rlstream (tcps w ! c_tcp c) = c_ev c"
      "rd_buffer (tcp_reader (tcps w ! c_tcp c)) = Some b" "b < length (bufs w)" "bufs w ! b = Some iob"
      "rd_state (tcp_reader (tcps w ! c_tcp c)) \<noteq> RD_STATE_ERROR" "rd_state (tcp_reader (tcps w ! c_tcp c)) \<noteq> RD_STATE_STOPPED"
      "kq_stream_get_fd rl (c_ev c) = Inr (c_fd c)" "watching rl (c_ev c) (Stream_ev s)" "ks_fd s = c_fd c" "ks_mask s = 0"
    have "kq_ok rl" using at by (simp add: st conn_at_def linked_def)
    from arm_read_effect [OF this t(10), of Read_ready_callback "Arg (Tcp_ref (c_tcp c))"] obtain rl' where
      rl': "kq_stream_arm_read rl (c_ev c) (Some Read_ready_callback) (Some (Arg (Tcp_ref (c_tcp c)))) = Inr rl'"
      "kq_ok rl'" "kq_ready rl' = kq_ready rl" "et_used (kq_table rl') = et_used (kq_table rl)" "kq_closed_fds rl' = kq_closed_fds rl"
      "watching rl' (c_ev c) (Stream_ev (s\<lparr>ks_read_cb := Some Read_ready_callback, ks_read_arg := Some (Arg (Tcp_ref (c_tcp c)))\<rparr>))"
      and kn: "\<exists>kn. knotes rl' (Fd (ks_fd s), EVFILT_READ) = Some kn \<and> kn_enabled kn \<and> \<not> kn_oneshot kn \<and> \<not> kn_dispatch kn \<and>
        kn_udata kn = Some (c_ev c)" by blast
    let ?sk = "received [] rest (socks w (c_fd c))" and ?s = "tcps w ! c_tcp c"
    let ?w = "put_tcp (put_sock w (c_fd c) ?sk) (c_tcp c) (?s\<lparr>tcp_reader := (tcp_reader ?s)\<lparr>rd_state := RD_STATE_EAGAIN\<rparr>\<rparr>)"
    have "sys_read (socks w (c_fd c)) n = (Rd_error EAGAIN, ?sk)" for n
      using sys_read_other [of "socks w (c_fd c)"] r by (simp add: st sock_of_def)
    then have "tcp_try_read rcall (c_tcp c) st = Inr (rl', ?w)"
      using t rl'(1) by (simp add: st tcp_try_read_def tcp_at_def buf_at_def c_assert_def)
    moreover have "armed c rl'" using rl'(6) kn t(11,12) unfolding armed_def by fastforce
    moreover have "conn_at rep holds c R_pending [] x [] (rl', ?w)"
      using at rl'(2-6) t(11,12) unfolding st conn_at_def linked_def reads_as_def writes_as_def
      by (auto simp: world_simps intro!: exI [of _ "s\<lparr>ks_read_cb := Some Read_ready_callback, ks_read_arg := Some (Arg (Tcp_ref (c_tcp c)))\<rparr>"])
    ultimately show ?thesis
      using rdy rl'(3) by (intro exI [of _ "(rl', ?w)"]) (simp add: ready_is_def st sock_of_def world_simps)
  qed
qed

text \<open>The application is told the error, and the server releases the connection.\<close>

lemma app_done:
  assumes lk: "linked c (rl, w)" and rdy: "ready_is [] (rl, w)" and p: "ms_parser (msgs w ! c_msg c) \<noteq> None"
    and io: "ms_input (msgs w ! c_msg c) = Some b" "b < length (bufs w)" "bufs w ! b \<noteq> None" "ms_output (msgs w ! c_msg c) = None"
    and e: "e \<noteq> 0"
  shows "\<exists>st'. msg_read_callback tc ops (c_app c) None e (rl, w) = Inr st' \<and> closed c st' \<and> socks (snd st') = socks w"
proof -
  from lk obtain s where s: "watching rl (c_ev c) (Stream_ev s)" "ks_fd s = c_fd c" "ks_mask s = 0" "kq_ok rl"
    by (auto simp: linked_def)
  from stream_free_effect [OF s(4,1)] obtain rl' where
    rl': "kq_stream_free rl (c_ev c) = Inr rl'" "kq_ok rl'" "kq_ready rl' = kq_ready rl"
    "et_used (kq_table rl') = et_used (kq_table rl) - {c_ev c}" "stream_at rl' (c_ev c) = Inr s"
    "kq_closed_fds rl' = kq_closed_fds rl @ [ks_fd s]" by blast
  from lk find_remove [of "connection_list (server w)" "c_app c"] obtain q lst where
    q: "List_find (connection_list (server w)) (c_app c) = Inr (Some q)"
    "List_itr_remove (connection_list (server w)) (Some q) = Inr lst" "List_ok lst" "contents lst = remove1 (c_app c) (c_conns c)"
    by (auto simp: linked_def)
  from p obtain pp where pp: "ms_parser (msgs w ! c_msg c) = Some pp" by blast
  from io(3) obtain iob where iob: "bufs w ! b = Some iob" by blast
  show ?thesis
    using lk rdy e io(1,2,4) pp iob rl' q s(2,3)
    by (simp add: linked_def ready_is_def closed_def msg_read_callback_def invoke_done_callback_def app_instance_done_cb_def
        echo_app_free_def msg_stream_free_def tcp_stream_free_def free_buf_def world_simps c_assert_def Let_def)
qed

lemma try_read_eof:
  assumes at: "conn_at rep holds c R_pending [] x [] st" and r: "sk_reads (sock_of c st) = Rd_eof e # rest"
    and rdy: "ready_is [] st" and e: "e \<noteq> 0"
  shows "\<exists>st'. tcp_try_read (tcp_rcall tc ops (echo_mr tc ops)) (c_tcp c) st = Inr st' \<and> closed c st' \<and>
    sock_of c st' = received [] rest (sock_of c st)"
proof -
  obtain rl w where st: "st = (rl, w)" by fastforce
  from at [unfolded st] show ?thesis
  proof (rule pending_parts)
    fix b iob s
    assume t: "c_tcp c < length (tcps w)" "stream_fd (tcps w ! c_tcp c) = c_fd c" "rlstream (tcps w ! c_tcp c) = c_ev c"
      "c_msg c < length (msgs w)" "rd_buffer (tcp_reader (tcps w ! c_tcp c)) = Some b"
      "rd_cb (tcp_reader (tcps w ! c_tcp c)) = Some Tcp_read_callback" "rd_arg (tcp_reader (tcps w ! c_tcp c)) = Some (Msg_ref (c_msg c))"
      "ms_input (msgs w ! c_msg c) = Some b" "b < length (bufs w)" "bufs w ! b = Some iob"
      "rd_state (tcp_reader (tcps w ! c_tcp c)) \<noteq> RD_STATE_ERROR" "rd_state (tcp_reader (tcps w ! c_tcp c)) \<noteq> RD_STATE_STOPPED"
      "kq_stream_get_fd rl (c_ev c) = Inr (c_fd c)"
    let ?sk = "received [] rest (socks w (c_fd c))" and ?s = "tcps w ! c_tcp c" and ?m = "msgs w ! c_msg c"
    let ?w = "put_msg (put_tcp (put_sock w (c_fd c) ?sk) (c_tcp c) (?s\<lparr>tcp_reader := (tcp_reader ?s)\<lparr>rd_buffer := None,
      rd_cb := None, rd_arg := None\<rparr>\<rparr>)) (c_msg c) (?m\<lparr>ms_read_cb := None, ms_read_arg := None\<rparr>)"
    have sr: "sys_read (socks w (c_fd c)) n = (Rd_eof e, ?sk)" for n
      using sys_read_other [of "socks w (c_fd c)"] r by (simp add: st sock_of_def)
    have rcb: "ms_read_cb ?m = Some Msg_read_callback" "ms_read_arg ?m = Some (App_ref (c_app c))"
      using at by (simp_all add: st conn_at_def reads_as_def)
    have "tcp_try_read (tcp_rcall tc ops (echo_mr tc ops)) (c_tcp c) st = msg_read_callback tc ops (c_app c) None e (rl, ?w)"
      using t sr e rcb
      by (simp add: st tcp_try_read_def tcp_invoke_read_cb_def tcp_rcall_def tcp_read_callback_def msg_invoke_read_callback_def
          echo_mr_def world_simps c_assert_def)
    moreover have "\<exists>st'. msg_read_callback tc ops (c_app c) None e (rl, ?w) = Inr st' \<and> closed c st' \<and> socks (snd st') = socks ?w"
    proof (rule app_done [where b = b])
      show "linked c (rl, ?w)" "ms_parser (msgs ?w ! c_msg c) \<noteq> None" "ms_output (msgs ?w ! c_msg c) = None"
        using at by (auto simp: st conn_at_def linked_def queued_def writes_as_def world_simps)
    qed (use t rdy e in \<open>simp_all add: st ready_is_def world_simps\<close>)
    ultimately show ?thesis by (auto simp: sock_of_def st world_simps)
  qed
qed

section \<open>The two formats\<close>

lemma newline_set_law:
  assumes "iob_holds iob s" "iob_terminated iob" "nl_ok s"
  shows "\<exists>m out. op_new newline_ops = Inr m \<and>
    newline_msg_serialize (op_set_content newline_ops m (Some iob)) = Inr out \<and> iob_holds out (nl_encode s)"
proof -
  from newline_msg_new_holds obtain m where m: "newline_msg_new = Inr m" by blast
  have "IOBuffer_cstr iob = Inr s"
    using IOBuffer_cstr_holds [OF assms(1,2)] assms(3) by (auto simp: nl_ok_def no_nul_def)
  with newline_serialize_text [of "m\<lparr>nm_iob := Some iob\<rparr>", OF _ _ assms(3)] show ?thesis
    unfolding newline_ops_def by (simp add: newline_msg_set_content_def m)
qed

interpretation enl: echo_format nl_run "[]" nl_fits nl_encode nl_ok nl_rep nl_holds
  newline_msg_parser_consume newline_msg_serialize newline_ops
proof unfold_locales
  show "op_consume newline_ops = newline_msg_parser_consume" "op_serialize newline_ops = newline_msg_serialize"
    by (simp_all add: newline_ops_def)
  show "nl_ok s \<Longrightarrow> no_nul s \<and> length s < 5000" for s by (simp add: nl_ok_def no_nul_def)
  show "\<lbrakk> nl_holds m s; nl_ok s \<rbrakk> \<Longrightarrow> \<exists>iob. op_get_content newline_ops m = Some iob \<and> IOBuffer_cstr iob = Inr s" for m s
    using newline_content_text by (simp add: newline_ops_def newline_msg_get_content_def)
  show "\<exists>p. op_parser_new newline_ops = Inr p \<and> nl_rep p []"
    using newline_parser_new_rep by (simp add: newline_ops_def)
qed (fact newline_set_law)

lemma demo_set_law:
  assumes "iob_holds iob s" "iob_terminated iob" "dm_ok s"
  shows "\<exists>m out. op_new demo_ops = Inr m \<and>
    demo_msg_serialize (op_set_content demo_ops m (Some iob)) = Inr out \<and> iob_holds out (dm_encode s)"
proof -
  from demo_msg_new_holds obtain m where m: "demo_msg_new = Inr m" by blast
  have "IOBuffer_cstr iob = Inr s"
    using IOBuffer_cstr_holds [OF assms(1,2)] dm_ok_text [OF assms(3)] by (auto simp: no_nul_def)
  with demo_serialize_text [of "m\<lparr>dm_body := Some iob\<rparr>", OF _ _ _ assms(3)] iob_holds_remaining [OF assms(1)] show ?thesis
    unfolding demo_ops_def by (simp add: demo_msg_set_content_def m IOBuffer_data_len_def)
qed

interpretation edm: echo_format dm_run DIdle dm_fits dm_encode dm_ok dm_rep dm_holds
  demo_msg_parser_consume demo_msg_serialize demo_ops
proof unfold_locales
  show "op_consume demo_ops = demo_msg_parser_consume" "op_serialize demo_ops = demo_msg_serialize"
    by (simp_all add: demo_ops_def)
  show "dm_ok s \<Longrightarrow> no_nul s \<and> length s < 5000" for s using dm_ok_text [of s] by (simp add: no_nul_def)
  show "\<lbrakk> dm_holds m s; dm_ok s \<rbrakk> \<Longrightarrow> \<exists>iob. op_get_content demo_ops m = Some iob \<and> IOBuffer_cstr iob = Inr s" for m s
    using demo_content_text [of m s] by (auto simp: demo_ops_def demo_msg_get_content_def)
  show "\<exists>p. op_parser_new demo_ops = Inr p \<and> dm_rep p DIdle"
    by (simp add: demo_ops_def demo_msg_parser_new_def dm_rep_def)
qed (fact demo_set_law)

end
