(* ===== verification/Echo_Run.thy ===== *)
theory Echo_Run
  imports Echo_Correct
begin

text \<open>
  Whole runs of the sample server on one connection. A script is what the calls of \<open>read\<close> deliver until the
  end of the data. A connection at rest has either nothing to do before the next event, or it is closed; one
  that is busy gets there in finitely many functors, since each of them takes up input, answers a message or
  writes bytes.
\<close>

section \<open>What the socket delivers\<close>

fun script :: "rd_result list \<Rightarrow> bool" where
  "script [] \<longleftrightarrow> False"
| "script (Rd_data bs # rs) \<longleftrightarrow> bs \<noteq> [] \<and> length bs \<le> 4096 \<and> script rs"
| "script (Rd_error e # rs) \<longleftrightarrow> e = EAGAIN \<and> script rs"
| "script (Rd_eof e # rs) \<longleftrightarrow> e \<noteq> 0 \<and> rs = []"

fun arriving :: "rd_result list \<Rightarrow> char list" where
  "arriving [] = []"
| "arriving (Rd_data bs # rs) = bs @ arriving rs"
| "arriving (r # rs) = arriving rs"

fun pauses :: "rd_result list \<Rightarrow> nat" where
  "pauses [] = 0"
| "pauses (Rd_error e # rs) = Suc (pauses rs)"
| "pauses (r # rs) = pauses rs"

section \<open>Reading starts\<close>

lemma conn_at_loop [simp]:
  assumes "fl_room lst = 2047"
  shows "conn_at rep holds c r bs x xs (rl\<lparr>kq_ready := lst, kq_executing := b\<rparr>, w) \<longleftrightarrow>
    conn_at rep holds c r bs x xs (rl\<lparr>kq_ready := lst\<rparr>, w)"
  using assms by (simp add: conn_at_def linked_def)

lemma conn_at_executing [simp]:
  "conn_at rep holds c r bs x xs (rl\<lparr>kq_executing := b\<rparr>, w) = conn_at rep holds c r bs x xs (rl, w)"
  "ready_is q (rl\<lparr>kq_executing := b\<rparr>, w) = ready_is q (rl, w)" "armed c (rl\<lparr>kq_executing := b\<rparr>) = armed c rl"
  "sock_of c (rl\<lparr>kq_executing := b\<rparr>, w) = sock_of c (rl, w)"
  using kq_ok_same(3) [of "rl\<lparr>kq_executing := b\<rparr>" rl]
  by (simp_all add: conn_at_def linked_def ready_is_def armed_def sock_of_def)

lemma closed_executing [simp]: "closed c (rl\<lparr>kq_executing := b\<rparr>, w) = closed c (rl, w)"
  using kq_ok_same(3) [of "rl\<lparr>kq_executing := b\<rparr>" rl] by (simp add: closed_def)

lemma running_executing [simp]:
  "running rep holds c bs x xs (rl\<lparr>kq_executing := b\<rparr>, w) = running rep holds c bs x xs (rl, w)"
  by (simp add: running_def)

text \<open>A read that was asked for becomes a read of the TCP stream.\<close>

lemma asked_reads:
  assumes "conn_at rep holds c R_asked [] x [] (rl, w)"
  shows "\<exists>w'. tcp_read rcall (c_tcp c) (ms_input (msgs w ! c_msg c)) (Some Tcp_read_callback) (Some (Msg_ref (c_msg c))) (rl, w) =
      tcp_try_read rcall (c_tcp c) (rl, w') \<and> conn_at rep holds c R_pending [] x [] (rl, w') \<and> socks w' = socks w"
proof -
  from assms obtain b iob where
    b: "ms_input (msgs w ! c_msg c) = Some b" "b < length (bufs w)" "bufs w ! b = Some iob" "iob_holds iob []"
    "buffer_capacity iob = 4096" by (auto simp: conn_at_def reads_as_def input_ok_def)
  let ?s = "tcps w ! c_tcp c"
  let ?w = "put_tcp w (c_tcp c) (?s\<lparr>tcp_reader := (tcp_reader ?s)\<lparr>rd_buffer := Some b, rd_cb := Some Tcp_read_callback,
    rd_arg := Some (Msg_ref (c_msg c))\<rparr>\<rparr>)"
  have "IOBuffer_space_len iob \<noteq> 0" using iob_holds_space_len [OF b(4)] b(5) by simp
  then have "tcp_read rcall (c_tcp c) (Some b) (Some Tcp_read_callback) (Some (Msg_ref (c_msg c))) (rl, w) =
      tcp_try_read rcall (c_tcp c) (rl, ?w)"
    using assms b(2,3)
    by (simp add: conn_at_def linked_def reads_as_def tcp_read_def is_read_pending_def tcp_at_def buf_at_def c_assert_def Let_def)
  moreover have "conn_at rep holds c R_pending [] x [] (rl, ?w)"
    using assms b(1) by (simp add: conn_at_def linked_def reads_as_def writes_as_def world_simps)
  ultimately show ?thesis using b(1) by (intro exI [of _ ?w]) (simp add: world_simps)
qed

text \<open>The application asks for a message: the first one that is queued, or what the socket delivers next.\<close>

lemma input_buffer:
  assumes "conn_at rep holds c R_none [] x xs (rl, w)"
  obtains b w1 where
    "msg_input_buffer (msgs w ! c_msg c) w = Inr (b, w1)"
    "input_ok (bufs w1) (Some b)" "msgs w1 = msgs w" "tcps w1 = tcps w" "apps w1 = apps w" "server w1 = server w"
    "socks w1 = socks w"
proof (cases "ms_input (msgs w ! c_msg c)")
  case None
  from content_new [of 4096] obtain iob where iob: "IOBuffer_new = Inr iob" "iob_holds iob []" "buffer_capacity iob = 4096"
    by (auto simp: content_holds_def IOBuffer_new_def IOBUFFER_DEFAULT_CAPACITY_def INT_MAX_def)
  have "msg_input_buffer (msgs w ! c_msg c) w = Inr (length (bufs w), w\<lparr>bufs := bufs w @ [Some iob]\<rparr>)"
    unfolding msg_input_buffer_def iob(1) using None by (simp add: new_buf_def)
  then show thesis by (rule that) (use iob(2,3) in \<open>simp_all add: input_ok_def\<close>)
next
  case (Some b)
  then show thesis using assms by (intro that [of b w]) (simp_all add: conn_at_def msg_input_buffer_def)
qed

lemma app_read_empty:
  assumes at: "conn_at rep holds c R_none [] x [] (rl, w)"
  shows "\<exists>w'. app_postable_read tc ops (c_app c) (rl, w) = tcp_try_read (tcp_rcall tc ops (echo_mr tc ops)) (c_tcp c) (rl, w') \<and>
    conn_at rep holds c R_pending [] x [] (rl, w') \<and> socks w' = socks w"
proof -
  let ?s = "msgs w ! c_msg c"
  from input_buffer [OF at] obtain b w1 where
    b: "msg_input_buffer ?s w = Inr (b, w1)"
    "input_ok (bufs w1) (Some b)" "msgs w1 = msgs w" "tcps w1 = tcps w" "apps w1 = apps w" "server w1 = server w"
    "socks w1 = socks w" by blast
  let ?s1 = "?s\<lparr>ms_input := Some b, ms_read_cb := Some Msg_read_callback, ms_read_arg := Some (App_ref (c_app c))\<rparr>"
  have q: "List_ok (ms_list ?s)" "contents (ms_list ?s) = []" using at by (auto simp: conn_at_def queued_def)
  then have "List_size (ms_list ?s) = 0" using lq.size_law by fastforce
  then have "app_postable_read tc ops (c_app c) (rl, w) = tcp_read (tcp_rcall tc ops (echo_mr tc ops)) (c_tcp c) (Some b)
      (Some Tcp_read_callback) (Some (Msg_ref (c_msg c))) (rl, put_msg w1 (c_msg c) ?s1)"
    using at by (simp add: conn_at_def linked_def reads_as_def app_postable_read_def msg_stream_read_def app_at_def msg_at_def
        c_assert_def Let_def b(1))
  moreover have at1: "conn_at rep holds c R_asked [] x [] (rl, put_msg w1 (c_msg c) ?s1)"
    using at b(2-6) q(2) by (simp add: conn_at_def linked_def queued_def reads_as_def writes_as_def put_msg_def)
  ultimately show ?thesis
    using asked_reads [OF at1, of "tcp_rcall tc ops (echo_mr tc ops)"] b(3,7) at
    by (simp add: put_msg_def conn_at_def linked_def)
qed

section \<open>One functor\<close>

text \<open>Outside a block: a functor that the loop takes from the ready list leaves it empty.\<close>

lemma run_one:
  fixes w :: "('m, 'p) app_world"
  assumes lk: "linked c (rl, w)" and rdy: "ready_is [(f, y)] (rl, w)"
  obtains rl1 where "linked c (rl1, w)" "ready_is [] (rl1, w)" "knotes rl1 = knotes rl"
    "\<And>(rep :: 'p \<Rightarrow> 'x \<Rightarrow> bool) holds r bs x xs.
       conn_at rep holds c r bs x xs (rl1, w) = conn_at rep holds c r bs x xs (rl, w)"
    "\<And>call n. kq_run_ready (Suc n) call (rl, w) =
       rbind (call f (Some (Arg y)) (rl1, w)) (\<lambda>(rl2, w2). kq_run_ready n call (rl2\<lparr>kq_executing := False\<rparr>, w2))"
proof -
  have rep: "fl_rep (kq_ready rl) [\<lparr>fn = Some f, fn_arg = Some (Arg y)\<rparr>]" using rdy by (simp add: ready_is_def)
  from functor_list_remove_rep(2) [OF rep refl] lk obtain lst where
    lst: "functor_list_remove (kq_ready rl) = Inr (\<lparr>fn = Some f, fn_arg = Some (Arg y)\<rparr>, lst)" "fl_rep lst []" "fl_room lst = 2047"
    by (auto simp: linked_def)
  let ?rl = "rl\<lparr>kq_ready := lst, kq_executing := True\<rparr>"
  have lk': "linked c (?rl, w)" using lk lst(3) by (simp add: linked_def)
  show thesis
  proof (rule that [OF lk'])
    show "ready_is [] (?rl, w)" "knotes ?rl = knotes rl" using lst(2) by (simp_all add: ready_is_def)
    show "conn_at rep holds c r bs x xs (?rl, w) = conn_at rep holds c r bs x xs (rl, w)"
      for rep :: "'p \<Rightarrow> 'x \<Rightarrow> bool" and holds :: "'m \<Rightarrow> char list \<Rightarrow> bool" and r bs x xs
      using lk lk' by (simp add: conn_at_def)
    show "kq_run_ready (Suc n) call (rl, w) =
       rbind (call f (Some (Arg y)) (?rl, w)) (\<lambda>(rl2, w2). kq_run_ready n call (rl2\<lparr>kq_executing := False\<rparr>, w2))"
      for call :: "(fn_ptr, obj, ('m, 'p) app_world) kq_call" and n
      using fl_rep_len(2) [OF rep] lst(1) by (simp add: Functor_call_def)
  qed
qed

lemma run_none:
  assumes "ready_is [] st"
  shows "kq_run_ready (Suc n) call st = Inr st"
  using assms fl_rep_len(2) [of "kq_ready (fst st)" "[]"] by (simp add: ready_is_def)

context echo_format
begin

text \<open>
  What a connection still has to send: the bytes \<open>bs\<close>, the answers to the texts \<open>xs\<close> and to those that are
  still to arrive. Together with what was sent it is always \<open>whole\<close>.
\<close>

definition serves :: "char list \<Rightarrow> char list \<Rightarrow> 'a \<Rightarrow> char list list \<Rightarrow> socket \<Rightarrow> bool" where
  "serves whole bs x xs sk \<longleftrightarrow>
     writable sk \<and> script (sk_reads sk) \<and> fits x (arriving (sk_reads sk)) \<and> list_all answerable xs \<and>
     list_all answerable (fst (run x (arriving (sk_reads sk)))) \<and>
     whole = sk_sent sk @ bs @ answers xs @ answers (fst (run x (arriving (sk_reads sk))))"

definition busy :: "conn \<Rightarrow> char list \<Rightarrow> nat \<Rightarrow> (nat \<times> nat \<times> nat) \<Rightarrow> ('m, 'p) app_state \<Rightarrow> bool" where
  "busy c whole n m st \<longleftrightarrow>
     (\<exists>bs x xs. running rep holds c bs x xs st \<and> serves whole bs x xs (sock_of c st) \<and>
        pauses (sk_reads (sock_of c st)) = n \<and> m = (length (sk_reads (sock_of c st)), length xs, length bs))"

fun at_rest :: "conn \<Rightarrow> char list \<Rightarrow> nat \<Rightarrow> ('m, 'p) app_state \<Rightarrow> bool" where
  "at_rest c whole 0 st \<longleftrightarrow> closed c st \<and> sk_sent (sock_of c st) = whole"
| "at_rest c whole (Suc n) st \<longleftrightarrow>
     (\<exists>x. conn_at rep holds c R_pending [] x [] st \<and> armed c (fst st) \<and> ready_is [] st \<and>
        serves whole [] x [] (sock_of c st) \<and> pauses (sk_reads (sock_of c st)) = n)"

lemma serves_wrote:
  "\<lbrakk> serves whole (out @ bs) x xs sk; wrote out sk sk' \<rbrakk> \<Longrightarrow> serves whole bs x xs sk'"
  by (simp add: serves_def wrote_def)

lemma serves_answer:
  "\<lbrakk> serves whole [] x (s # xs) sk; answer s = out @ bs; wrote out sk sk' \<rbrakk> \<Longrightarrow> serves whole bs x xs sk'"
  by (simp add: serves_def wrote_def)

lemma serves_data:
  assumes "serves whole [] x [] sk" "sk_reads sk = Rd_data cs # rest"
  shows "cs \<noteq> []" "length cs \<le> 4096" "fits x cs" "list_all answerable (fst (run x cs))"
    "serves whole [] (snd (run x cs)) (fst (run x cs)) (received cs rest sk)"
  using assms run_append [of x cs "arriving rest"] by (auto simp: serves_def fits_append)

lemma serves_moved:
  assumes "moved c sk x [] texts st" "serves whole [] x texts sk"
  shows "\<exists>bs xs. running rep holds c bs x xs st \<and> serves whole bs x xs (sock_of c st) \<and>
    sk_reads (sock_of c st) = sk_reads sk"
proof -
  from assms(1) obtain out bs xs where "running rep holds c bs x xs st" "wrote out sk (sock_of c st)"
    "answers texts = out @ bs @ answers xs" "list_all answerable xs" by (auto simp: moved_def)
  with assms(2) show ?thesis by (intro exI [of _ bs] exI [of _ xs]) (simp add: serves_def wrote_def)
qed

text \<open>A read of the TCP stream.\<close>

lemma pending_step:
  assumes at: "conn_at rep holds c R_pending [] x [] st" and rdy: "ready_is [] st"
    and s: "serves whole [] x [] (sock_of c st)"
  shows "\<exists>st'. tcp_try_read (tcp_rcall tc ops (echo_mr tc ops)) (c_tcp c) st = Inr st' \<and>
    ((\<exists>m. busy c whole (pauses (sk_reads (sock_of c st))) m st' \<and> fst m < length (sk_reads (sock_of c st))) \<or>
     at_rest c whole (pauses (sk_reads (sock_of c st))) st')"
proof (cases "sk_reads (sock_of c st)")
  case (Cons r rest)
  show ?thesis
  proof (cases r)
    case (Rd_data cs)
    note d = serves_data [OF s Cons [unfolded Rd_data]]
    have "writable (sock_of c st)" using s by (simp add: serves_def)
    from data_arrives [OF at d(1,2) Cons [unfolded Rd_data] rdy this d(3,4)] obtain st' where
      st': "tcp_try_read (tcp_rcall tc ops (echo_mr tc ops)) (c_tcp c) st = Inr st'"
      "moved c (received cs rest (sock_of c st)) (snd (run x cs)) [] (fst (run x cs)) st'" by blast
    from serves_moved [OF st'(2) d(5)] st'(1) Cons Rd_data show ?thesis by (auto simp: busy_def)
  next
    case (Rd_eof e)
    with s Cons have e: "e \<noteq> 0" "rest = []" by (simp_all add: serves_def)
    from try_read_eof [OF at Cons [unfolded Rd_eof] rdy e(1), where ops = ops and tc = tc] s Cons Rd_eof e(2) show ?thesis
      by (auto simp: serves_def run_Nil)
  next
    case (Rd_error e)
    with s Cons have e: "e = EAGAIN" by (simp add: serves_def)
    have "serves whole [] x [] (received [] rest (sock_of c st))" using s Cons Rd_error by (simp add: serves_def)
    with try_read_again [OF at Cons [unfolded Rd_error e] rdy, of "tcp_rcall tc ops (echo_mr tc ops)"] Cons Rd_error show ?thesis
      by fastforce
  qed
qed (use s in \<open>simp add: serves_def\<close>)

end

section \<open>Running until the connection rests\<close>

context echo_format
begin

lemma rests_executing [simp]:
  "busy c whole n m (rl\<lparr>kq_executing := b\<rparr>, w) = busy c whole n m (rl, w)"
  "at_rest c whole n (rl\<lparr>kq_executing := b\<rparr>, w) = at_rest c whole n (rl, w)"
  by (simp add: busy_def) (cases n; simp)

definition nearer :: "((nat \<times> nat \<times> nat) \<times> (nat \<times> nat \<times> nat)) set" where
  "nearer = less_than <*lex*> less_than <*lex*> less_than"

lemma nearerI:
  "fst m < l \<Longrightarrow> (m, (l, k)) \<in> nearer" "i < j \<Longrightarrow> ((l, i, a), (l, j, b)) \<in> nearer" "a < b \<Longrightarrow> ((l, i, a), (l, i, b)) \<in> nearer"
  by (cases m; simp add: nearer_def)+

lemma wf_nearer: "wf nearer"
  unfolding nearer_def by (intro wf_lex_prod wf_less_than)

definition advanced :: "conn \<Rightarrow> char list \<Rightarrow> nat \<Rightarrow> (nat \<times> nat \<times> nat) \<Rightarrow> ('m, 'p) app_state \<Rightarrow> bool" where
  "advanced c whole n m st \<longleftrightarrow> (\<exists>m'. busy c whole n m' st \<and> (m', m) \<in> nearer) \<or> at_rest c whole n st"

lemma app_read_queued:
  assumes at: "conn_at rep holds c R_none [] x (s # xs) (rl, w)" and rdy: "ready_is [] (rl, w)"
    and wr: "writable (sock_of c (rl, w))" and s: "answerable s"
  shows "\<exists>st' out bs'. app_postable_read tc ops (c_app c) (rl, w) = Inr st' \<and> answer s = out @ bs' \<and>
    conn_at rep holds c R_none bs' x xs st' \<and> ready_is (go_on c bs') st' \<and> wrote out (sock_of c (rl, w)) (sock_of c st')"
proof -
  let ?s = "msgs w ! c_msg c"
  from input_buffer [OF at] obtain b w1 where
    b: "msg_input_buffer ?s w = Inr (b, w1)" "input_ok (bufs w1) (Some b)" "msgs w1 = msgs w" "tcps w1 = tcps w"
    "apps w1 = apps w" "server w1 = server w" "socks w1 = socks w" by blast
  from at obtain m ms where q: "List_ok (ms_list ?s)" "contents (ms_list ?s) = m # ms" "holds m s" "list_all2 holds ms xs"
    by (auto simp: conn_at_def queued_def list_all2_Cons2)
  from lq.remove_first_law [OF q(1)] q(2) obtain L where
    L: "List_remove_first (ms_list ?s) = Inr (Some m, L)" "List_ok L" "contents L = ms" by auto
  have sz: "List_size (ms_list ?s) \<noteq> 0" using lq.size_law [OF q(1)] q(2) by simp
  let ?w = "put_msg w1 (c_msg c) (?s\<lparr>ms_input := Some b, ms_list := L, ms_read_cb := None, ms_read_arg := None\<rparr>)"
  have i: "c_msg c < length (msgs w)" using at by (simp add: conn_at_def linked_def)
  have "app_postable_read tc ops (c_app c) (rl, w) = msg_read_callback tc ops (c_app c) (Some m) 0 (rl, ?w)"
    using at sz L(1) i
    by (simp add: conn_at_def linked_def reads_as_def app_postable_read_def msg_stream_read_def msg_invoke_read_callback_def
        echo_mr_def app_at_def msg_at_def put_msg_def c_assert_def Let_def b(1,3))
  moreover have "conn_at rep holds c R_none [] x xs (rl, ?w)"
    using at b(2-6) L(2,3) q(4) by (simp add: conn_at_def linked_def queued_def reads_as_def writes_as_def put_msg_def)
  moreover have "sock_of c (rl, ?w) = sock_of c (rl, w)" by (simp add: sock_of_def put_msg_def b(7))
  ultimately show ?thesis using respond [OF _ _ _ q(3) s, of c x xs "(rl, ?w)"] rdy wr by (simp add: ready_is_def)
qed

lemma pending_advances:
  assumes "conn_at rep holds c R_pending [] x [] st" "ready_is [] st" "serves whole [] x [] (sock_of c st)"
    "pauses (sk_reads (sock_of c st)) = n" "length (sk_reads (sock_of c st)) = l"
  shows "\<exists>st'. tcp_try_read (tcp_rcall tc ops (echo_mr tc ops)) (c_tcp c) st = Inr st' \<and> advanced c whole n (l, k) st'"
  using pending_step [OF assms(1-3)] assms(4,5) nearerI(1) unfolding advanced_def by blast

text \<open>What the loop calls for a busy connection: it reads, writes on, or answers the next text.\<close>

lemma asked_advances:
  assumes at: "conn_at rep holds c R_asked [] x [] (rl, w)" and rdy: "ready_is [] (rl, w)"
    and s: "serves whole [] x [] (sock_of c (rl, w))"
  shows "\<exists>st'. server_call tc ops blk Msg_postable_read (Some (Arg (Msg_ref (c_msg c)))) (rl, w) = Inr st' \<and>
    advanced c whole (pauses (sk_reads (sock_of c (rl, w)))) (length (sk_reads (sock_of c (rl, w))), 0, 0) st'"
proof -
  from asked_reads [OF at, of "tcp_rcall tc ops (echo_mr tc ops)"] obtain w' where
    w': "tcp_read (tcp_rcall tc ops (echo_mr tc ops)) (c_tcp c) (ms_input (msgs w ! c_msg c)) (Some Tcp_read_callback)
      (Some (Msg_ref (c_msg c))) (rl, w) = tcp_try_read (tcp_rcall tc ops (echo_mr tc ops)) (c_tcp c) (rl, w')"
    "conn_at rep holds c R_pending [] x [] (rl, w')" "socks w' = socks w" by auto
  have "server_call tc ops blk Msg_postable_read (Some (Arg (Msg_ref (c_msg c)))) (rl, w) =
      tcp_try_read (tcp_rcall tc ops (echo_mr tc ops)) (c_tcp c) (rl, w')"
    using w'(1) at by (simp add: server_call_def msg_postable_read_def msg_try_read_def msg_at_def conn_at_def linked_def)
  with pending_advances [OF w'(2)] rdy s w'(3) show ?thesis by (simp add: sock_of_def ready_is_def)
qed

lemma read_advances:
  assumes at: "conn_at rep holds c R_none [] x [] (rl, w)" and rdy: "ready_is [] (rl, w)"
    and s: "serves whole [] x [] (sock_of c (rl, w))"
  shows "\<exists>st'. server_call tc ops blk App_postable_read (Some (Arg (App_ref (c_app c)))) (rl, w) = Inr st' \<and>
    advanced c whole (pauses (sk_reads (sock_of c (rl, w)))) (length (sk_reads (sock_of c (rl, w))), 0, 0) st'"
proof -
  from app_read_empty [OF at, where ops = ops and tc = tc] obtain w' where
    w': "app_postable_read tc ops (c_app c) (rl, w) = tcp_try_read (tcp_rcall tc ops (echo_mr tc ops)) (c_tcp c) (rl, w')"
    "conn_at rep holds c R_pending [] x [] (rl, w')" "socks w' = socks w" by auto
  with pending_advances [OF w'(2)] rdy s show ?thesis by (simp add: sock_of_def ready_is_def server_call_def)
qed

lemma write_advances:
  assumes at: "conn_at rep holds c R_none bs x xs st" and bs: "bs \<noteq> []" and rdy: "ready_is [] st"
    and s: "serves whole bs x xs (sock_of c st)"
  shows "\<exists>st'. server_call tc ops blk Postable_try_write (Some (Arg (Tcp_ref (c_tcp c)))) st = Inr st' \<and>
    advanced c whole (pauses (sk_reads (sock_of c st))) (length (sk_reads (sock_of c st)), length xs, length bs) st'"
proof -
  from try_write_step [OF at bs rdy, where tc = tc] s obtain st' out bs' where
    st': "tcp_try_write (tcp_wcall tc (echo_mw tc)) (c_tcp c) st = Inr st'" "bs = out @ bs'" "out \<noteq> []"
    "conn_at rep holds c R_none bs' x xs st'" "ready_is (go_on c bs') st'" "wrote out (sock_of c st) (sock_of c st')"
    by (auto simp: serves_def)
  have "serves whole bs' x xs (sock_of c st')" using s st'(2,6) serves_wrote by blast
  then have "busy c whole (pauses (sk_reads (sock_of c st))) (length (sk_reads (sock_of c st)), length xs, length bs') st'"
    using st'(4-6) unfolding busy_def running_def wrote_def by auto
  moreover have "length bs' < length bs" using st'(2,3) by simp
  ultimately have "advanced c whole (pauses (sk_reads (sock_of c st))) (length (sk_reads (sock_of c st)), length xs, length bs) st'"
    unfolding advanced_def using nearerI(3) by blast
  with st'(1) show ?thesis by (simp add: server_call_def postable_try_write_def)
qed

lemma answer_advances:
  assumes at: "conn_at rep holds c R_none [] x (s # xs) (rl, w)" and rdy: "ready_is [] (rl, w)"
    and s: "serves whole [] x (s # xs) (sock_of c (rl, w))"
  shows "\<exists>st'. server_call tc ops blk App_postable_read (Some (Arg (App_ref (c_app c)))) (rl, w) = Inr st' \<and>
    advanced c whole (pauses (sk_reads (sock_of c (rl, w)))) (length (sk_reads (sock_of c (rl, w))), length (s # xs), 0) st'"
proof -
  from app_read_queued [OF at rdy, where tc = tc] s obtain st' out bs' where
    st': "app_postable_read tc ops (c_app c) (rl, w) = Inr st'" "answer s = out @ bs'"
    "conn_at rep holds c R_none bs' x xs st'" "ready_is (go_on c bs') st'" "wrote out (sock_of c (rl, w)) (sock_of c st')"
    by (auto simp: serves_def)
  have "serves whole bs' x xs (sock_of c st')" using s st'(2,5) serves_answer by blast
  then have "busy c whole (pauses (sk_reads (sock_of c (rl, w))))
      (length (sk_reads (sock_of c (rl, w))), length xs, length bs') st'"
    using st'(3-5) unfolding busy_def running_def wrote_def by auto
  moreover have "length xs < length (s # xs)" by simp
  ultimately have "advanced c whole (pauses (sk_reads (sock_of c (rl, w))))
      (length (sk_reads (sock_of c (rl, w))), length (s # xs), 0) st'"
    unfolding advanced_def using nearerI(2) by blast
  with st'(1) show ?thesis by (simp add: server_call_def)
qed

lemma run_call:
  assumes at: "conn_at rep holds c r bs x xs (rl, w)" and rdy: "ready_is [(f, y)] (rl, w)"
    and call: "\<And>rl1. \<lbrakk> conn_at rep holds c r bs x xs (rl1, w); ready_is [] (rl1, w) \<rbrakk> \<Longrightarrow>
      \<exists>st'. server_call tc ops blk f (Some (Arg y)) (rl1, w) = Inr st' \<and> advanced c whole n m st'"
  shows "\<exists>st'. (\<forall>k. kq_run_ready (Suc k) (server_call tc ops blk) (rl, w) = kq_run_ready k (server_call tc ops blk) st') \<and>
    advanced c whole n m st'"
proof -
  from run_one [OF conn_linked [OF at] rdy] obtain rl1 where
    rl1: "ready_is [] (rl1, w)" "conn_at rep holds c r bs x xs (rl1, w)"
    "\<And>k. kq_run_ready (Suc k) (server_call tc ops blk) (rl, w) =
       rbind (server_call tc ops blk f (Some (Arg y)) (rl1, w))
         (\<lambda>(rl2, w2). kq_run_ready k (server_call tc ops blk) (rl2\<lparr>kq_executing := False\<rparr>, w2))"
    using at by metis
  from call [OF rl1(2,1)] obtain rl2 w2 where
    st': "server_call tc ops blk f (Some (Arg y)) (rl1, w) = Inr (rl2, w2)" "advanced c whole n m (rl2, w2)" by auto
  then show ?thesis
    by (intro exI [of _ "(rl2\<lparr>kq_executing := False\<rparr>, w2)"]) (simp add: rl1(3) advanced_def del: kq_run_ready.simps)
qed

lemma busy_advances:
  assumes "busy c whole n m (rl, w)"
  shows "\<exists>st'. (\<forall>k. kq_run_ready (Suc k) (server_call tc ops blk) (rl, w) = kq_run_ready k (server_call tc ops blk) st') \<and>
    advanced c whole n m st'"
proof -
  from assms obtain bs x xs where r: "running rep holds c bs x xs (rl, w)" and s: "serves whole bs x xs (sock_of c (rl, w))"
    and m: "pauses (sk_reads (sock_of c (rl, w))) = n" "m = (length (sk_reads (sock_of c (rl, w))), length xs, length bs)"
    by (auto simp: busy_def)
  note sk = sock_of_def snd_conv
  show ?thesis
  proof (cases "conn_at rep holds c R_none bs x xs (rl, w) \<and> ready_is (go_on c bs) (rl, w)")
    case True
    show ?thesis
    proof (cases "bs = []")
      case False
      with True show ?thesis
      proof (intro run_call, (simp_all add: go_on_def)[2])
        fix rl1
        assume "conn_at rep holds c R_none bs x xs (rl1, w)" "ready_is [] (rl1, w)"
        from write_advances [OF this(1) False this(2)] s
        show "\<exists>st'. server_call tc ops blk Postable_try_write (Some (Arg (Tcp_ref (c_tcp c)))) (rl1, w) = Inr st' \<and>
          advanced c whole n m st'" by (simp add: sk m(2) m(1) [symmetric])
      qed
    next
      case bs: True
      with True have a: "conn_at rep holds c R_none [] x xs (rl, w)" "ready_is [(App_postable_read, App_ref (c_app c))] (rl, w)"
        by (simp_all add: go_on_def)
      show ?thesis
      proof (rule run_call [OF a])
        fix rl1
        assume "conn_at rep holds c R_none [] x xs (rl1, w)" "ready_is [] (rl1, w)"
        with answer_advances [of c x _ _ rl1 w] read_advances [of c x rl1 w] s
        show "\<exists>st'. server_call tc ops blk App_postable_read (Some (Arg (App_ref (c_app c)))) (rl1, w) = Inr st' \<and>
          advanced c whole n m st'" by (cases xs) (simp_all add: sk m(2) m(1) [symmetric] bs)
      qed
    qed
  next
    case False
    with r have a: "conn_at rep holds c R_asked [] x [] (rl, w)" "ready_is [(Msg_postable_read, Msg_ref (c_msg c))] (rl, w)"
      "bs = []" "xs = []" by (auto simp: running_def)
    show ?thesis
    proof (rule run_call [OF a(1,2)])
      fix rl1
      assume "conn_at rep holds c R_asked [] x [] (rl1, w)" "ready_is [] (rl1, w)"
      with asked_advances [of c x rl1 w] s
      show "\<exists>st'. server_call tc ops blk Msg_postable_read (Some (Arg (Msg_ref (c_msg c)))) (rl1, w) = Inr st' \<and>
        advanced c whole n m st'" by (simp add: sk m(2) m(1) [symmetric] a(3,4))
    qed
  qed
qed

end

context echo_format
begin

lemma rest_ready: "at_rest c whole n st \<Longrightarrow> ready_is [] st"
  by (cases n) (auto simp: closed_def)

lemma busy_rests:
  assumes "busy c whole n m st"
  shows "\<exists>N st'. (\<forall>k\<ge>N. kq_run_ready k (server_call tc ops blk) st = Inr st') \<and> at_rest c whole n st'"
  using wf_nearer assms
proof (induction m arbitrary: st rule: wf_induct_rule)
  case (less m)
  note IH = less.IH and b = less.prems
  obtain rl w where st: "st = (rl, w)" by fastforce
  from busy_advances [OF b [unfolded st], where tc = tc and blk = blk] obtain st1 where
    st1: "\<And>k. kq_run_ready (Suc k) (server_call tc ops blk) st = kq_run_ready k (server_call tc ops blk) st1" "advanced c whole n m st1"
    unfolding st by blast
  have "\<exists>N st'. (\<forall>k\<ge>N. kq_run_ready k (server_call tc ops blk) st1 = Inr st') \<and> at_rest c whole n st'"
  proof (cases "at_rest c whole n st1")
    case True
    have "kq_run_ready k (server_call tc ops blk) st1 = Inr st1" if "k \<ge> 1" for k
      using run_none [OF rest_ready [OF True]] that by (cases k) (simp_all del: kq_run_ready.simps)
    with True show ?thesis by blast
  next
    case False
    with st1(2) obtain m' where "busy c whole n m' st1" "(m', m) \<in> nearer" unfolding advanced_def by blast
    with IH show ?thesis by blast
  qed
  then obtain N st' where st': "\<And>k. k \<ge> N \<Longrightarrow> kq_run_ready k (server_call tc ops blk) st1 = Inr st'" "at_rest c whole n st'" by blast
  have "kq_run_ready k (server_call tc ops blk) st = Inr st'" if "k \<ge> Suc N" for k
    using that st1(1) st'(1) by (cases k) (simp_all del: kq_run_ready.simps)
  with st'(2) show ?case by blast
qed

end

section \<open>Events\<close>

abbreviation readable :: "conn \<Rightarrow> kq_wait" where
  "readable c \<equiv> KWait_events [(Fd (c_fd c), EVFILT_READ)]"

lemma armed_wait:
  assumes "armed c rl"
  shows "kevent_wait (knotes rl) [(Fd (c_fd c), EVFILT_READ)] = ([((Fd (c_fd c), EVFILT_READ), Some (c_ev c))], knotes rl)"
  using assms by (auto simp: armed_def kn_active_def)

lemma same_knotes: "rl\<lparr>events_count := j, knotes := knotes rl\<rparr> = rl\<lparr>events_count := j\<rparr>"
  by (cases rl) simp

lemma conn_at_count [simp]:
  "conn_at rep holds c r bs x xs (rl\<lparr>events_count := j\<rparr>, w) = conn_at rep holds c r bs x xs (rl, w)"
  "ready_is q (rl\<lparr>events_count := j\<rparr>, w) = ready_is q (rl, w)" "sock_of c (rl\<lparr>events_count := j\<rparr>, w) = sock_of c (rl, w)"
  by (simp_all add: conn_at_def linked_def ready_is_def sock_of_def)

text \<open>The kernel reports that the connection is readable, and the read that waits is tried again.\<close>

lemma read_ready_tries:
  assumes "conn_at rep holds c R_pending [] x [] (rl, w)"
  shows "\<exists>w'. read_ready_callback rcall (c_tcp c) (rl, w) = tcp_try_read rcall (c_tcp c) (rl, w') \<and>
    conn_at rep holds c R_pending [] x [] (rl, w') \<and> socks w' = socks w"
proof -
  let ?s = "tcps w ! c_tcp c"
  let ?w = "put_tcp w (c_tcp c) (?s\<lparr>tcp_reader := (tcp_reader ?s)\<lparr>rd_state := RD_STATE_READY\<rparr>\<rparr>)"
  have "read_ready_callback rcall (c_tcp c) (rl, w) = tcp_try_read rcall (c_tcp c) (rl, ?w)"
    using assms by (auto simp: conn_at_def linked_def read_ready_callback_def tcp_at_def split: rd_state.splits)
  moreover have "conn_at rep holds c R_pending [] x [] (rl, ?w)"
    using assms by (simp add: conn_at_def linked_def reads_as_def writes_as_def world_simps)
  ultimately show ?thesis by (intro exI [of _ ?w]) (simp add: world_simps)
qed

lemma dispatch_read:
  assumes "armed c rl" "server_call tc ops blk Read_ready_callback (Some (Arg (Tcp_ref (c_tcp c)))) (rl\<lparr>events_count := 0\<rparr>, w) = Inr st'"
    "\<exists>s. stream_at (fst st') (c_ev c) = Inr s \<and> ks_mask s = 0"
  shows "fold_res (kq_dispatch (server_call tc ops blk)) [((Fd (c_fd c), EVFILT_READ), Some (c_ev c))] (rl\<lparr>events_count := 0\<rparr>, w) = Inr st'"
proof -
  from assms(1) obtain s where
    s: "watching rl (c_ev c) (Stream_ev s)" "ks_read_cb s = Some Read_ready_callback" "ks_read_arg s = Some (Arg (Tcp_ref (c_tcp c)))"
    by (auto simp: armed_def)
  then have "stream_at (rl\<lparr>events_count := 0\<rparr>) (c_ev c) = Inr s"
    "\<exists>e. ev_at (rl\<lparr>events_count := 0\<rparr>) (c_ev c) = Inr e \<and> ev_handler e = Some Stream_handler"
    using kq_ok_same(3,4) [of "rl\<lparr>events_count := 0\<rparr>" rl] watching_at(1) [OF s(1)] by (auto simp: watching_def)
  with s(2,3) assms(2,3) show ?thesis
    by (auto simp: kq_dispatch_def kq_stream_handler_def split: option.splits)
qed

section \<open>The whole run\<close>

context echo_format
begin

lemma rest_stream:
  assumes "advanced c whole n m st"
  shows "\<exists>s. stream_at (fst st) (c_ev c) = Inr s \<and> ks_mask s = 0"
proof -
  have "\<exists>s. stream_at (fst st) (c_ev c) = Inr s \<and> ks_mask s = 0" if "linked c st"
    using that watching_at(1) by (fastforce simp: linked_def)
  with assms show ?thesis
    by (cases n) (auto simp: advanced_def busy_def running_def closed_def dest: conn_linked)
qed

lemma event_advances:
  assumes "at_rest c whole (Suc n) (rl, w)"
  shows "\<exists>st' m. fold_res (kq_dispatch (server_call tc ops blk)) [((Fd (c_fd c), EVFILT_READ), Some (c_ev c))]
      (rl\<lparr>events_count := 0\<rparr>, w) = Inr st' \<and> (busy c whole n m st' \<or> at_rest c whole n st')"
proof -
  let ?rl = "rl\<lparr>events_count := 0\<rparr>"
  from assms obtain x where x: "conn_at rep holds c R_pending [] x [] (?rl, w)" "armed c rl" "ready_is [] (?rl, w)"
    "serves whole [] x [] (sock_of c (?rl, w))" "pauses (sk_reads (sock_of c (?rl, w))) = n" by auto
  from read_ready_tries [OF x(1), of "tcp_rcall tc ops (echo_mr tc ops)"] obtain w' where
    w': "read_ready_callback (tcp_rcall tc ops (echo_mr tc ops)) (c_tcp c) (?rl, w) = tcp_try_read (tcp_rcall tc ops (echo_mr tc ops)) (c_tcp c) (?rl, w')"
    "conn_at rep holds c R_pending [] x [] (?rl, w')" "socks w' = socks w" by blast
  from pending_advances [OF w'(2), of whole n] x(3-5) w'(3) obtain st' m where
    st': "tcp_try_read (tcp_rcall tc ops (echo_mr tc ops)) (c_tcp c) (?rl, w') = Inr st'" "advanced c whole n m st'"
    by (fastforce simp: ready_is_def sock_of_def)
  then have "server_call tc ops blk Read_ready_callback (Some (Arg (Tcp_ref (c_tcp c)))) (?rl, w) = Inr st'"
    using w'(1) by (simp add: server_call_def)
  from dispatch_read [OF x(2) this rest_stream [OF st'(2)]] st'(2) show ?thesis unfolding advanced_def by blast
qed

text \<open>A run in which the loop has nothing else to watch returns 0, with everything sent.\<close>

definition finishes :: "c_error \<Rightarrow> TcpStream \<Rightarrow> conn \<Rightarrow> char list \<Rightarrow> nat \<Rightarrow> ('m, 'p) app_state \<Rightarrow> bool" where
  "finishes tc blk c whole n st \<longleftrightarrow>
     (\<exists>N st'. (\<forall>k\<ge>N. kq_runloop_run k (server_call tc ops blk) (replicate n (readable c)) st = Inr (0, st')) \<and>
        closed c st' \<and> sk_sent (sock_of c st') = whole)"

lemma finishesI:
  assumes "\<And>k. k \<ge> N \<Longrightarrow> kq_runloop_run (Suc k) (server_call tc ops blk) (replicate n (readable c)) st =
      kq_runloop_run k (server_call tc ops blk) (replicate n' (readable c)) st'" "finishes tc blk c whole n' st'"
  shows "finishes tc blk c whole n st"
proof -
  from assms(2) obtain M st'' where
    M: "\<And>k. k \<ge> M \<Longrightarrow> kq_runloop_run k (server_call tc ops blk) (replicate n' (readable c)) st' = Inr (0, st'')"
    "closed c st''" "sk_sent (sock_of c st'') = whole" unfolding finishes_def by blast
  have "kq_runloop_run k (server_call tc ops blk) (replicate n (readable c)) st = Inr (0, st'')" if "k \<ge> Suc (max N M)" for k
    using that assms(1) M(1) by (cases k) (simp_all del: kq_runloop_run.simps)
  with M(2,3) show ?thesis unfolding finishes_def by blast
qed

lemma busy_finishes:
  assumes b: "busy c whole n m (rl, w)" and rest: "\<And>st. at_rest c whole n st \<Longrightarrow> finishes tc blk c whole n st"
  shows "finishes tc blk c whole n (rl, w)"
proof -
  from busy_rests [OF b, where tc = tc and blk = blk] obtain N st' where
    st': "\<And>k. k \<ge> N \<Longrightarrow> kq_run_ready k (server_call tc ops blk) (rl, w) = Inr st'" "at_rest c whole n st'" by blast
  from b obtain q where "fl_rep (kq_ready rl) [q]" by (auto simp: busy_def running_def ready_is_def go_on_def)
  from fl_rep_len(2) [OF this] st'(1)
  have "kq_runloop_run (Suc k) (server_call tc ops blk) (replicate n (readable c)) (rl, w) =
      kq_runloop_run k (server_call tc ops blk) (replicate n (readable c)) st'" if "k \<ge> N" for k
    using that by simp
  from finishesI [OF this rest [OF st'(2)]] show ?thesis by blast
qed

lemma rest_finishes:
  assumes "at_rest c whole n st" "c_used c = {c_ev c}"
  shows "finishes tc blk c whole n st"
  using assms
proof (induction n arbitrary: st)
  case 0
  then have cl: "closed c st" and sent: "sk_sent (sock_of c st) = whole" by auto
  from cl 0(2) have "event_table_number_in_use (kq_table (fst st)) = 0"
    using number_in_use [OF kq_okD(1), of "fst st"] by (simp add: closed_def)
  moreover have "functor_list_size (kq_ready (fst st)) = Inr 0"
    using cl fl_rep_len(2) [of "kq_ready (fst st)" "[]"] by (simp add: closed_def ready_is_def)
  ultimately have "kq_runloop_run k (server_call tc ops blk) [] st = Inr (0, st)" if "k \<ge> 1" for k
    using that by (cases k) simp_all
  with cl sent show ?case unfolding finishes_def by (intro exI [of _ 1] exI [of _ st]) (simp del: kq_runloop_run.simps)
next
  case (Suc n)
  obtain rl w where st: "st = (rl, w)" by fastforce
  from Suc.prems(1) st obtain x where x: "conn_at rep holds c R_pending [] x [] (rl, w)" "armed c rl" "ready_is [] (rl, w)" by auto
  have u: "event_table_number_in_use (kq_table rl) \<noteq> 0"
    using conn_linked [OF x(1)] number_in_use [OF kq_okD(1), of rl] Suc.prems(2) by (simp add: linked_def)
  have z: "functor_list_size (kq_ready rl) = Inr 0"
    using x(3) fl_rep_len(2) [of "kq_ready rl" "[]"] by (simp add: ready_is_def)
  from event_advances [OF Suc.prems(1) [unfolded st], where tc = tc and blk = blk] obtain st' m where
    st': "fold_res (kq_dispatch (server_call tc ops blk)) [((Fd (c_fd c), EVFILT_READ), Some (c_ev c))]
      (rl\<lparr>events_count := 0\<rparr>, w) = Inr st'" "busy c whole n m st' \<or> at_rest c whole n st'" by blast
  have f: "finishes tc blk c whole n st'"
    using st'(2)
  proof
    assume "busy c whole n m st'"
    with busy_finishes [of c whole n m "fst st'" "snd st'"] Suc.IH [OF _ Suc.prems(2)] show ?thesis by simp
  qed (rule Suc.IH [OF _ Suc.prems(2)])
  have "kq_runloop_run (Suc k) (server_call tc ops blk) (replicate (Suc n) (readable c)) st =
      kq_runloop_run k (server_call tc ops blk) (replicate n (readable c)) st'" for k
    using u z st'(1) by (simp add: st armed_wait [OF x(2)] runloop_get_fresh_event_table_def same_knotes del: fold_res.simps kevent_wait.simps)
  from finishesI [OF this f] show ?case .
qed

end

section \<open>A new connection\<close>

text \<open>The memory of a new TCP stream, where its fields that are not set happen to be empty.\<close>

definition blank :: "TcpStream \<Rightarrow> bool" where
  "blank blk \<longleftrightarrow>
     rd_buffer (tcp_reader blk) = None \<and> rd_cb (tcp_reader blk) = None \<and>
     wr_buffer (tcp_writer blk) = None \<and> wr_cb (tcp_writer blk) = None"

text \<open>A loop without watchers or work, and a server whose list has only known connections.\<close>

definition idle :: "('m, 'p) app_state \<Rightarrow> bool" where
  "idle st \<longleftrightarrow>
     kq_ok (fst st) \<and> et_used (kq_table (fst st)) = {} \<and> ready_is [] st \<and> fl_room (kq_ready (fst st)) = 2047 \<and>
     List_ok (connection_list (server (snd st))) \<and>
     int (length (contents (connection_list (server (snd st))))) < INT_MAX \<and>
     list_all (\<lambda>a. a < length (apps (snd st))) (contents (connection_list (server (snd st))))"

definition serve_connection ::
  "c_error \<Rightarrow> ('m, 'p) msg_ops \<Rightarrow> TcpStream \<Rightarrow> int \<Rightarrow> nat \<Rightarrow> kq_wait list \<Rightarrow> ('m, 'p) app_state \<Rightarrow> (int \<times> ('m, 'p) app_state) res" where
  "serve_connection tc ops blk fd k waits st =
     rbind (echo_app_new ops blk fd st) (\<lambda>(a, st1).
     rbind (add_connection a st1) (kq_runloop_run k (server_call tc ops blk) waits))"

lemma stream_new_effect:
  assumes "kq_ok rl" "et_used (kq_table rl) = {}"
  shows "\<exists>p rl' s. kq_stream_new rl fd = Inr (p, rl') \<and> kq_ok rl' \<and> et_used (kq_table rl') = {p} \<and>
    watching rl' p (Stream_ev s) \<and> ks_fd s = fd \<and> ks_mask s = 0 \<and> kq_ready rl' = kq_ready rl \<and> kq_closed_fds rl' = kq_closed_fds rl \<and>
    knotes rl' = knotes rl"
proof -
  let ?s = "\<lparr>ks_fd = fd, ks_mask = 0, ks_read_cb = None, ks_read_arg = None, ks_write_cb = None, ks_write_arg = None\<rparr>"
  from new_ev_ok [OF assms(1), of "Stream_ev ?s"] assms(2) obtain p rl' where
    p: "kq_stream_new rl fd = Inr (p, rl')" "kq_ok rl'" "watching rl' p (Stream_ev ?s)" "et_used (kq_table rl') = {p}"
    "knotes rl' = knotes rl" by (auto simp: kq_stream_new_def kq_stream_init_def EVT_MAX_def)
  moreover have "kq_ready rl' = kq_ready rl" "kq_closed_fds rl' = kq_closed_fds rl"
    using p(1) by (auto simp: kq_stream_new_def new_ev_def rbind_eq_Inr put_ev_def)
  ultimately show ?thesis by (intro exI [of _ p] exI [of _ rl'] exI [of _ ?s]) simp
qed

context echo_format
begin

lemma connection_starts:
  assumes "idle (rl, w)" "blank blk"
  shows "\<exists>a st1 st2 c. echo_app_new ops blk fd (rl, w) = Inr (a, st1) \<and> add_connection a st1 = Inr st2 \<and>
    conn_at rep holds c R_none [] init [] st2 \<and> ready_is (go_on c []) st2 \<and> c_fd c = fd \<and> c_used c = {c_ev c} \<and> c_closed c = kq_closed_fds rl \<and>
    c_app c = length (apps w) \<and> c_conns c = contents (connection_list (server w)) @ [length (apps w)] \<and>
    sock_of c st2 = socks w fd \<and> knotes (fst st2) = knotes rl"
proof -
  from assms(1) stream_new_effect [of rl fd] obtain p rl1 s where
    p: "kq_stream_new rl fd = Inr (p, rl1)" "kq_ok rl1" "et_used (kq_table rl1) = {p}" "watching rl1 p (Stream_ev s)"
    "ks_fd s = fd" "ks_mask s = 0" "kq_ready rl1 = kq_ready rl" "kq_closed_fds rl1 = kq_closed_fds rl" "knotes rl1 = knotes rl"
    by (auto simp: idle_def)
  have g: "kq_stream_get_fd rl1 p = Inr fd" using watching_at(1) [OF p(4)] p(5) by (simp add: kq_stream_get_fd_def)
  from parser_law obtain q where q: "op_parser_new ops = Inr q" "rep q init" by blast
  let ?a = "length (apps w)"
  from lq.add_back_law [of "connection_list (server w)" ?a] assms(1) obtain L where
    L: "List_add_back (connection_list (server w)) ?a = Inr L" "List_ok L" "contents L = contents (connection_list (server w)) @ [?a]"
    by (auto simp: idle_def)
  from post_empty [of rl1 App_postable_read "Arg (App_ref ?a)"] assms(1) p(7) obtain lst where
    lst: "kq_runloop_post rl1 (Some App_postable_read) (Some (Arg (App_ref ?a))) = Inr (rl1\<lparr>kq_ready := lst\<rparr>)"
    "fl_rep lst [\<lparr>fn = Some App_postable_read, fn_arg = Some (Arg (App_ref ?a))\<rparr>]" "fl_room lst = 2047"
    by (auto simp: idle_def ready_is_def)
  let ?c = "\<lparr>c_ev = p, c_fd = fd, c_tcp = length (tcps w), c_msg = length (msgs w), c_app = ?a, c_used = {p},
    c_conns = contents (connection_list (server w)) @ [?a], c_closed = kq_closed_fds rl\<rparr>"
  let ?t = "blk\<lparr>rlstream := p, tcp_reader := (tcp_reader blk)\<lparr>rd_state := RD_STATE_INITIAL\<rparr>,
    tcp_writer := (tcp_writer blk)\<lparr>wr_state := WRT_STATE_INITIAL\<rparr>, stream_fd := fd\<rparr>"
  let ?m = "\<lparr>ms_tcp = length (tcps w), ms_parser = Some q, ms_read_cb = None, ms_read_arg = None, ms_input = None, ms_list = List_new,
    ms_output = None, ms_write_cb = None, ms_write_arg = None\<rparr>"
  let ?w1 = "w\<lparr>tcps := tcps w @ [?t], msgs := msgs w @ [?m], apps := apps w @ [Some \<lparr>app_stream = length (msgs w), done_cb = None, done_arg = None\<rparr>]\<rparr>"
  let ?w2 = "put_app (?w1\<lparr>server := (server w)\<lparr>connection_list := L\<rparr>\<rparr>) ?a
    (Some \<lparr>app_stream = length (msgs w), done_cb = Some App_instance_done_cb, done_arg = Some Server_ref\<rparr>)"
  have "echo_app_new ops blk fd (rl, w) = Inr (?a, rl1, ?w1)"
    by (simp add: echo_app_new_def echo_app_init_def msg_stream_new_def msg_stream_init_def tcp_stream_new_def tcp_stream_init_def p(1) g q(1))
  moreover have "add_connection ?a (rl1, ?w1) = Inr (rl1\<lparr>kq_ready := lst\<rparr>, ?w2)"
    using L(1) lst(1) by (simp add: add_connection_def echo_app_run_def app_at_def post_def nth_append Let_def put_app_def)
  moreover have "conn_at rep holds ?c R_none [] init [] (rl1\<lparr>kq_ready := lst\<rparr>, ?w2)"
    "ready_is (go_on ?c []) (rl1\<lparr>kq_ready := lst\<rparr>, ?w2)"
    using p(2-6,8) lst(2,3) L(2,3) q(2) assms(2) lq.new_law
    by (auto simp: conn_at_def linked_def queued_def input_ok_def reads_as_def writes_as_def put_app_def nth_append blank_def
        ready_is_def go_on_def)
  moreover have "sock_of ?c (rl1\<lparr>kq_ready := lst\<rparr>, ?w2) = socks w fd" by (simp add: sock_of_def put_app_def)
  ultimately show ?thesis by (intro exI [of _ ?a] exI [of _ "(rl1, ?w1)"] exI [of _ "(rl1\<lparr>kq_ready := lst\<rparr>, ?w2)"] exI [of _ ?c])
      (simp add: p(9))
qed

text \<open>The server answers every text that arrives, releases the connection and returns.\<close>

lemma connection_served:
  assumes idle: "idle (rl, w)" and blk: "blank blk" and wr: "writable (socks w fd)" and sc: "script (sk_reads (socks w fd))"
    and f: "fits init (arriving (sk_reads (socks w fd)))" "list_all answerable (fst (run init (arriving (sk_reads (socks w fd)))))"
  shows "\<exists>N st'. (\<forall>k\<ge>N. serve_connection tc ops blk fd k
        (replicate (pauses (sk_reads (socks w fd))) (KWait_events [(Fd fd, EVFILT_READ)])) (rl, w) = Inr (0, st')) \<and>
    sk_sent (socks (snd st') fd) = sk_sent (socks w fd) @ answers (fst (run init (arriving (sk_reads (socks w fd))))) \<and>
    et_used (kq_table (fst st')) = {} \<and> kq_closed_fds (fst st') = kq_closed_fds rl @ [fd] \<and>
    contents (connection_list (server (snd st'))) = contents (connection_list (server w))"
proof -
  from connection_starts [OF idle blk, of fd] obtain a rl2 w2 st1 c where
    c: "echo_app_new ops blk fd (rl, w) = Inr (a, st1)" "add_connection a st1 = Inr (rl2, w2)"
    "conn_at rep holds c R_none [] init [] (rl2, w2)" "c_fd c = fd" "c_used c = {c_ev c}" "c_closed c = kq_closed_fds rl"
    "c_app c = length (apps w)" "c_conns c = contents (connection_list (server w)) @ [length (apps w)]"
    "sock_of c (rl2, w2) = socks w fd" "ready_is (go_on c []) (rl2, w2)" by auto
  let ?n = "pauses (sk_reads (socks w fd))" and ?all = "sk_sent (socks w fd) @ answers (fst (run init (arriving (sk_reads (socks w fd)))))"
  have "serves ?all [] init [] (sock_of c (rl2, w2))" using wr sc f by (simp add: serves_def c(9))
  then have "busy c ?all ?n (length (sk_reads (socks w fd)), 0, 0) (rl2, w2)" using c(3,9,10) by (auto simp: busy_def running_def)
  from busy_finishes [OF this rest_finishes [OF _ c(5)], where tc = tc and blk = blk] obtain N st' where
    st': "\<And>k. k \<ge> N \<Longrightarrow> kq_runloop_run k (server_call tc ops blk) (replicate ?n (readable c)) (rl2, w2) = Inr (0, st')"
    "closed c st'" "sk_sent (sock_of c st') = ?all" by (auto simp: finishes_def)
  have fresh: "length (apps w) \<notin> set (contents (connection_list (server w)))" using idle by (auto simp: idle_def list_all_iff)
  have "serve_connection tc ops blk fd k (replicate ?n (KWait_events [(Fd fd, EVFILT_READ)])) (rl, w) = Inr (0, st')" if "k \<ge> N" for k
    using st'(1) [OF that] by (simp add: serve_connection_def c(1,2,4) del: kq_runloop_run.simps)
  moreover have "et_used (kq_table (fst st')) = {}" "kq_closed_fds (fst st') = kq_closed_fds rl @ [fd]"
    "contents (connection_list (server (snd st'))) = contents (connection_list (server w))"
    using st'(2) fresh by (simp_all add: closed_def c(4-8) remove1_append)
  ultimately show ?thesis using st'(3) by (intro exI [of _ N] exI [of _ st']) (simp add: sock_of_def c(4))
qed

end

section \<open>Properties\<close>

lemma nl_run_frames:
  assumes "list_all nl_ok ss" "CHR 0x0A \<notin> set part" "CHR 0x00 \<notin> set part" "length part \<le> 4096"
  shows "nl_run [] (concat (map nl_encode ss) @ part) = (ss, part) \<and> nl_fits [] (concat (map nl_encode ss) @ part)"
  using assms nlf.run_frames [OF assms(1)] nl_run_text [of part "[]"] by (auto simp: nl_run_append nl_fits_append)

text \<open>
  C1: The echo server on one connection, in a loop that has no other watcher and nothing to run. Whatever pieces
  the bytes of newline messages arrive in, and however often the socket has no data yet, a run of the loop ends
  with status 0 after every message was answered, once and in order, with the text of the message in the response.
  An unfinished line of at most 4096 bytes at the end is not answered. The answers are complete even if each
  \<open>write\<close> takes only a part. The connection is then closed and released.

  What is assumed: the memory that \<open>malloc\<close> returns for the TCP stream holds null pointers where its constructor
  sets nothing (\<open>blank\<close>), which \<open>malloc\<close> does not promise; \<open>errno\<close> is not 0 when \<open>read\<close> reports the end of the data
  (\<open>script\<close>); every \<open>write\<close> takes at least one byte (\<open>writable\<close>); no line is empty or has a zero byte, and no
  line and no response has 4095 bytes or more (\<open>nl_ok\<close>); the server has fewer than \<open>INT_MAX\<close> connections. The
  server fails without some of these: see the section on where it stops, and the findings about empty lines and
  the constructor of the stream.
\<close>

theorem newline_server_answers:
  assumes "idle (rl, w)" "blank blk" "writable (socks w fd)" "script (sk_reads (socks w fd))"
    "arriving (sk_reads (socks w fd)) = concat (map nl_encode ss) @ part"
    "list_all (\<lambda>s. nl_ok s \<and> nl_ok (server_response s)) ss"
    "CHR 0x0A \<notin> set part" "CHR 0x00 \<notin> set part" "length part \<le> 4096"
  shows "\<exists>N st'. (\<forall>k\<ge>N. serve_connection tc newline_ops blk fd k
        (replicate (pauses (sk_reads (socks w fd))) (KWait_events [(Fd fd, EVFILT_READ)])) (rl, w) = Inr (0, st')) \<and>
    sk_sent (socks (snd st') fd) = sk_sent (socks w fd) @ concat (map (nl_encode \<circ> server_response) ss) \<and>
    et_used (kq_table (fst st')) = {} \<and> kq_closed_fds (fst st') = kq_closed_fds rl @ [fd] \<and>
    contents (connection_list (server (snd st'))) = contents (connection_list (server w))"
proof -
  have "list_all nl_ok ss" "list_all enl.answerable ss" using assms(6) by (auto simp: list_all_iff enl.answerable_def)
  moreover have "enl.answers ss = concat (map (nl_encode \<circ> server_response) ss)"
    by (simp add: enl.answers_def enl.answer_def [abs_def] comp_def)
  ultimately show ?thesis
    using enl.connection_served [OF assms(1-4), where tc = tc] nl_run_frames [of ss part] assms(5,7-9) by simp
qed

definition demo_blk :: TcpStream where
  "demo_blk = \<lparr>rlstream = 0, stream_fd = 0,
     tcp_reader = \<lparr>rd_state = RD_STATE_INITIAL, rd_buffer = None, rd_cb = None, rd_arg = None\<rparr>,
     tcp_writer = \<lparr>wr_state = WRT_STATE_INITIAL, wr_cb = None, wr_arg = None, wr_buffer = None\<rparr>\<rparr>"

definition demo_world :: "rd_result list \<Rightarrow> wr_result list \<Rightarrow> ('m, 'p) app_world" where
  "demo_world rs ws =
     \<lparr>tcps = [], lsns = [], bufs = [], socks = (\<lambda>_. \<lparr>sk_reads = rs, sk_writes = ws, sk_received = [], sk_sent = []\<rparr>),
      accepts = (\<lambda>_. []), listen_status = (\<lambda>_. 0), msgs = [], apps = [],
      server = \<lparr>sv_listener = None, sv_state = L_STATE_INITIAL, connection_list = List_new\<rparr>\<rparr>"

lemma demo_start:
  "blank demo_blk"
  "\<exists>rl. kq_runloop_new 3 = Inr rl \<and> idle (rl, demo_world rs ws :: ('m, 'p) app_world)"
  using kq_runloop_new_ok [of 3, where 'a = fn_ptr and 'b = obj]
  by (auto simp: blank_def demo_blk_def idle_def demo_world_def ready_is_def lq.new_law INT_MAX_def)

theorem newline_server_answers_witness:
  "\<exists>rl k st'. kq_runloop_new 3 = Inr rl \<and>
     serve_connection Assert_fail newline_ops demo_blk 7 k [KWait_events [(Fd 7, EVFILT_READ)]]
       (rl, demo_world [Rd_data ''h'', Rd_error 35, Rd_data (''i'' @ [CHR 0x0A] @ ''yo''), Rd_data ([CHR 0x0A] @ ''z''), Rd_eof 54]
          [Wr_bytes 4]) = Inr (0, st') \<and>
     sk_sent (socks (snd st') 7) = ''ServerResponse:[hi]'' @ [CHR 0x0A] @ ''ServerResponse:[yo]'' @ [CHR 0x0A]"
proof -
  let ?rs = "[Rd_data ''h'', Rd_error 35, Rd_data (''i'' @ [CHR 0x0A] @ ''yo''), Rd_data ([CHR 0x0A] @ ''z''), Rd_eof 54]"
  let ?w = "demo_world ?rs [Wr_bytes 4] :: (NewLineMsg, NewLineMsgParser) app_world"
  from demo_start(2) obtain rl where rl: "kq_runloop_new 3 = Inr rl" "idle (rl, ?w)" by blast
  have sk: "sk_reads (socks ?w 7) = ?rs" "sk_sent (socks ?w 7) = []" "writable (socks ?w 7)"
    by (simp_all add: demo_world_def writable_def)
  have a: "script ?rs" "arriving ?rs = concat (map nl_encode [''hi'', ''yo'']) @ ''z''" "pauses ?rs = 1"
    by (simp_all add: EAGAIN_def nl_encode_def)
  have ss: "list_all (\<lambda>s. nl_ok s \<and> nl_ok (server_response s)) [''hi'', ''yo'']" "CHR 0x0A \<notin> set ''z''" "CHR 0x00 \<notin> set ''z''"
    "length ''z'' \<le> 4096" by (simp_all add: nl_ok_def server_response_def)
  from newline_server_answers [OF rl(2) demo_start(1) sk(3), unfolded sk(1,2), OF a(1,2) ss, where tc = Assert_fail] rl(1) a(3)
  show ?thesis by (auto simp: nl_encode_def server_response_def)
qed

text \<open>
  C20: The demo server, which uses messages between control characters, answers in the same way: every message is
  answered once and in order, the run ends with status 0, and the connection is closed and released.

  What is assumed: every text is non-empty and printable and its response, which is 17 bytes longer, has at most
  1024 bytes (\<open>dm_ok\<close>); the stream of bytes consists of whole frames; the memory of the TCP stream holds null
  pointers where its constructor sets nothing (\<open>blank\<close>); \<open>errno\<close> is not 0 when \<open>read\<close> reports the end of the data
  (\<open>script\<close>); every \<open>write\<close> takes at least one byte (\<open>writable\<close>); the loop has no other watcher, and the server
  fewer than \<open>INT_MAX\<close> connections.
\<close>

theorem demo_server_answers:
  assumes "idle (rl, w)" "blank blk" "writable (socks w fd)" "script (sk_reads (socks w fd))"
    "arriving (sk_reads (socks w fd)) = concat (map dm_encode ss)"
    "list_all (\<lambda>s. dm_ok s \<and> dm_ok (server_response s)) ss"
  shows "\<exists>N st'. (\<forall>k\<ge>N. serve_connection tc demo_ops blk fd k
        (replicate (pauses (sk_reads (socks w fd))) (KWait_events [(Fd fd, EVFILT_READ)])) (rl, w) = Inr (0, st')) \<and>
    sk_sent (socks (snd st') fd) = sk_sent (socks w fd) @ concat (map (dm_encode \<circ> server_response) ss) \<and>
    et_used (kq_table (fst st')) = {} \<and> kq_closed_fds (fst st') = kq_closed_fds rl @ [fd] \<and>
    contents (connection_list (server (snd st'))) = contents (connection_list (server w))"
proof -
  have "list_all dm_ok ss" "list_all edm.answerable ss" using assms(6) by (auto simp: list_all_iff edm.answerable_def)
  moreover have "edm.answers ss = concat (map (dm_encode \<circ> server_response) ss)"
    by (simp add: edm.answers_def edm.answer_def [abs_def] comp_def)
  ultimately show ?thesis
    using edm.connection_served [OF assms(1-4), where tc = tc] dmf.run_frames [of ss] assms(5) by simp
qed

theorem demo_server_answers_witness:
  "\<exists>rl k st'. kq_runloop_new 3 = Inr rl \<and>
     serve_connection Assert_fail demo_ops demo_blk 7 k [KWait_events [(Fd 7, EVFILT_READ)]]
       (rl, demo_world [Rd_data [CHR 0x02], Rd_error 35, Rd_data (''hi'' @ [CHR 0x03]), Rd_eof 54] [Wr_bytes 4]) = Inr (0, st') \<and>
     sk_sent (socks (snd st') 7) = [CHR 0x02] @ ''ServerResponse:[hi]'' @ [CHR 0x03]"
proof -
  let ?rs = "[Rd_data [CHR 0x02], Rd_error 35, Rd_data (''hi'' @ [CHR 0x03]), Rd_eof 54]"
  let ?w = "demo_world ?rs [Wr_bytes 4] :: (DemoMsg, DemoMsgParser) app_world"
  from demo_start(2) obtain rl where rl: "kq_runloop_new 3 = Inr rl" "idle (rl, ?w)" by blast
  have sk: "sk_reads (socks ?w 7) = ?rs" "sk_sent (socks ?w 7) = []" "writable (socks ?w 7)"
    by (simp_all add: demo_world_def writable_def)
  have a: "script ?rs" "arriving ?rs = concat (map dm_encode [''hi''])" "pauses ?rs = 1"
    by (simp_all add: EAGAIN_def dm_encode_def CH_STX_def CH_ETX_def)
  have ss: "list_all (\<lambda>s. dm_ok s \<and> dm_ok (server_response s)) [''hi'']"
    by (simp add: dm_ok_def server_response_def isprint_def)
  from demo_server_answers [OF rl(2) demo_start(1) sk(3), unfolded sk(1,2), OF a(1,2) ss, where tc = Assert_fail] rl(1) a(3)
  show ?thesis by (auto simp: dm_encode_def server_response_def CH_STX_def CH_ETX_def)
qed

section \<open>Where the server stops\<close>

lemma blocked_write:
  assumes at: "conn_at rep holds c R_none bs x xs (rl, w)" and bs: "bs \<noteq> []"
    and wr: "sk_writes (sock_of c (rl, w)) = Wr_error EAGAIN # ws"
  shows "\<exists>w'. tcp_try_write wcall (c_tcp c) (rl, w) = Inr (rl, w') \<and> sk_sent (sock_of c (rl, w')) = sk_sent (sock_of c (rl, w))"
proof -
  let ?s = "tcps w ! c_tcp c"
  from at bs obtain b iob where
    b: "wr_buffer (tcp_writer ?s) = Some b" "b < length (bufs w)" "bufs w ! b = Some iob" "iob_ok iob" "iob_data iob = map Some bs"
    and t: "c_tcp c < length (tcps w)" "stream_fd ?s = c_fd c" by (auto simp: conn_at_def linked_def writes_as_def)
  with wr mem_read_data [OF b(4,5)] show ?thesis
    by (auto simp: tcp_try_write_def tcp_at_def buf_at_def sys_write_def sock_of_def put_sock_def put_tcp_def)
qed

lemma quiet_eof:
  assumes at: "conn_at rep holds c R_pending [] x [] (rl, w)" and r: "sk_reads (sock_of c (rl, w)) = Rd_eof 0 # rest"
  shows "tcp_try_read (tcp_rcall tc ops mr) (c_tcp c) (rl, w) = Inl Assert_fail"
  using at
proof (rule pending_parts)
  fix b iob s
  assume t: "c_tcp c < length (tcps w)" "stream_fd (tcps w ! c_tcp c) = c_fd c" "rlstream (tcps w ! c_tcp c) = c_ev c"
    "c_msg c < length (msgs w)" "rd_buffer (tcp_reader (tcps w ! c_tcp c)) = Some b"
    "rd_cb (tcp_reader (tcps w ! c_tcp c)) = Some Tcp_read_callback" "rd_arg (tcp_reader (tcps w ! c_tcp c)) = Some (Msg_ref (c_msg c))"
    "ms_input (msgs w ! c_msg c) = Some b" "b < length (bufs w)" "bufs w ! b = Some iob" "iob_holds iob []"
    "rd_state (tcp_reader (tcps w ! c_tcp c)) \<noteq> RD_STATE_ERROR" "rd_state (tcp_reader (tcps w ! c_tcp c)) \<noteq> RD_STATE_STOPPED"
    "kq_stream_get_fd rl (c_ev c) = Inr (c_fd c)"
  have "sys_read (socks w (c_fd c)) n = (Rd_eof 0, received [] rest (socks w (c_fd c)))" for n
    using sys_read_other [of "socks w (c_fd c)"] r by (simp add: sock_of_def)
  then show ?thesis
    using t iob_holds_remaining [OF t(11)]
    by (simp add: tcp_try_read_def tcp_invoke_read_cb_def tcp_rcall_def tcp_read_callback_def IOBuffer_data_len_def
        world_simps c_assert_def)
qed

context echo_format
begin

lemma first_answer_blocked:
  assumes at: "conn_at rep holds c R_none [] x [] (rl, w)"
    and r: "sk_reads (sock_of c (rl, w)) = Rd_data cs # rest" "cs \<noteq> []" "length cs \<le> 4096" "fits x cs"
    and s: "fst (run x cs) = s # xs" "answerable s" and wr: "sk_writes (sock_of c (rl, w)) = Wr_error EAGAIN # ws"
  shows "\<exists>w'. app_postable_read tc ops (c_app c) (rl, w) = Inr (rl, w') \<and> sk_sent (sock_of c (rl, w')) = sk_sent (sock_of c (rl, w))"
proof -
  from app_read_empty [OF at, where ops = ops and tc = tc] obtain w1 where
    w1: "app_postable_read tc ops (c_app c) (rl, w) = tcp_try_read (tcp_rcall tc ops (echo_mr tc ops)) (c_tcp c) (rl, w1)"
    "conn_at rep holds c R_pending [] x [] (rl, w1)" "sock_of c (rl, w1) = sock_of c (rl, w)" by (auto simp: sock_of_def)
  from data_delivered [OF w1(2) r(2,3)] r(1) w1(3) obtain w2 where
    w2: "tcp_try_read (tcp_rcall tc ops (echo_mr tc ops)) (c_tcp c) (rl, w1) = tcp_read_callback ops (echo_mr tc ops) (c_msg c) 0 (rl, w2)"
    "delivered c x cs (rl, w2)" "sock_of c (rl, w2) = received cs rest (sock_of c (rl, w))" by auto
  from first_message [OF w2(2) r(4) s(1), where tc = tc] obtain w3 m where
    w3: "tcp_read_callback ops (echo_mr tc ops) (c_msg c) 0 (rl, w2) = msg_read_callback tc ops (c_app c) (Some m) 0 (rl, w3)"
    "conn_at rep holds c R_none [] (snd (run x cs)) xs (rl, w3)" "holds m s" "sock_of c (rl, w3) = sock_of c (rl, w2)"
    by (auto simp: sock_of_def)
  from respond_starts [OF w3(2,3) s(2), where tc = tc] obtain w4 where
    w4: "msg_read_callback tc ops (c_app c) (Some m) 0 (rl, w3) = tcp_try_write (tcp_wcall tc (echo_mw tc)) (c_tcp c) (rl, w4)"
    "conn_at rep holds c R_none (answer s) (snd (run x cs)) xs (rl, w4)" "sock_of c (rl, w4) = sock_of c (rl, w3)"
    by (auto simp: sock_of_def)
  have "answer s \<noteq> []" using encode_not_Nil s(2) by (simp add: answer_def answerable_def)
  from blocked_write [OF w4(2) this, of ws "tcp_wcall tc (echo_mw tc)"] w1(1) w2(1,3) w3(1,4) w4(1,3) wr show ?thesis
    by (simp add: received_def)
qed

lemma serve_first:
  assumes idle: "idle (rl, w)" and blk: "blank blk"
  obtains c rl1 rl2 w2 where "conn_at rep holds c R_none [] init [] (rl1, w2)" "c_fd c = fd" "sock_of c (rl1, w2) = socks w fd"
    "event_table_number_in_use (kq_table rl1) = 1" "functor_list_size (kq_ready rl1) = Inr 0" "knotes rl1 = knotes rl"
    "\<forall>k waits. serve_connection tc ops blk fd k waits (rl, w) = kq_runloop_run k (server_call tc ops blk) waits (rl2, w2)"
    "\<forall>k waits. kq_runloop_run (Suc (Suc k)) (server_call tc ops blk) waits (rl2, w2) =
       rbind (rbind (app_postable_read tc ops (c_app c) (rl1, w2)) (\<lambda>(rl3, w3).
         kq_run_ready k (server_call tc ops blk) (rl3\<lparr>kq_executing := False\<rparr>, w3))) (kq_runloop_run (Suc k) (server_call tc ops blk) waits)"
proof -
  from connection_starts [OF idle blk, of fd] obtain a rl2 w2 st1 c where
    c: "echo_app_new ops blk fd (rl, w) = Inr (a, st1)" "add_connection a st1 = Inr (rl2, w2)"
    "conn_at rep holds c R_none [] init [] (rl2, w2)" "ready_is (go_on c []) (rl2, w2)" "c_fd c = fd" "c_used c = {c_ev c}"
    "sock_of c (rl2, w2) = socks w fd" "knotes rl2 = knotes rl" by auto
  have rdy: "ready_is [(App_postable_read, App_ref (c_app c))] (rl2, w2)" using c(4) by (simp add: go_on_def)
  from run_one [OF conn_linked [OF c(3)] rdy] obtain rl1 where
    rl1: "linked c (rl1, w2)" "ready_is [] (rl1, w2)" "knotes rl1 = knotes rl2" "conn_at rep holds c R_none [] init [] (rl1, w2)"
    "\<And>k. kq_run_ready (Suc k) (server_call tc ops blk) (rl2, w2) =
       rbind (server_call tc ops blk App_postable_read (Some (Arg (App_ref (c_app c)))) (rl1, w2))
         (\<lambda>(rl2, w2). kq_run_ready k (server_call tc ops blk) (rl2\<lparr>kq_executing := False\<rparr>, w2))"
    using c(3) by metis
  have sz: "functor_list_size (kq_ready rl2) = Inr 1" "functor_list_size (kq_ready rl1) = Inr 0"
    using rdy rl1(2) fl_rep_len(2) unfolding ready_is_def by fastforce+
  show thesis
  proof (rule that [OF rl1(4) c(5) _ _ sz(2)])
    show "sock_of c (rl1, w2) = socks w fd" using c(7) by (simp add: sock_of_def)
    show "event_table_number_in_use (kq_table rl1) = 1"
      using rl1(1) c(6) number_in_use [OF kq_okD(1), of rl1] by (simp add: linked_def)
    show "\<forall>k waits. serve_connection tc ops blk fd k waits (rl, w) = kq_runloop_run k (server_call tc ops blk) waits (rl2, w2)"
      by (simp add: serve_connection_def c(1,2))
    show "\<forall>k waits. kq_runloop_run (Suc (Suc k)) (server_call tc ops blk) waits (rl2, w2) =
       rbind (rbind (app_postable_read tc ops (c_app c) (rl1, w2)) (\<lambda>(rl3, w3).
         kq_run_ready k (server_call tc ops blk) (rl3\<lparr>kq_executing := False\<rparr>, w3))) (kq_runloop_run (Suc k) (server_call tc ops blk) waits)"
    proof (intro allI)
      fix k waits
      show "kq_runloop_run (Suc (Suc k)) (server_call tc ops blk) waits (rl2, w2) =
         rbind (rbind (app_postable_read tc ops (c_app c) (rl1, w2)) (\<lambda>(rl3, w3).
           kq_run_ready k (server_call tc ops blk) (rl3\<lparr>kq_executing := False\<rparr>, w3))) (kq_runloop_run (Suc k) (server_call tc ops blk) waits)"
        using rl1(5) [of k] unfolding kq_runloop_run.simps(2) [of "Suc k"] by (simp add: sz(1) server_call_def del: kq_run_ready.simps)
    qed
  qed (simp add: rl1(3) c(8))
qed

lemma answer_stalls:
  assumes idle: "idle (rl, w)" and blk: "blank blk" and kn: "knotes rl = Map.empty"
    and r: "sk_reads (socks w fd) = Rd_data cs # rest" "cs \<noteq> []" "length cs \<le> 4096" "fits init cs"
    and s: "fst (run init cs) = s # xs" "answerable s" and wr: "sk_writes (socks w fd) = Wr_error EAGAIN # ws"
  shows "\<exists>w'. (\<forall>k\<ge>4. serve_connection tc ops blk fd k [] (rl, w) = Inl Would_block \<and>
      (\<forall>keys waits. \<exists>rl'. serve_connection tc ops blk fd k (KWait_events keys # waits) (rl, w) = Inr (0, rl', w'))) \<and>
    sk_sent (socks w' fd) = sk_sent (socks w fd)"
proof -
  obtain c rl1 rl2 w2 where
    c: "conn_at rep holds c R_none [] init [] (rl1, w2)" "c_fd c = fd" "sock_of c (rl1, w2) = socks w fd"
    "event_table_number_in_use (kq_table rl1) = 1" "functor_list_size (kq_ready rl1) = Inr 0" "knotes rl1 = knotes rl"
    and serve: "\<forall>k waits. serve_connection tc ops blk fd k waits (rl, w) = kq_runloop_run k (server_call tc ops blk) waits (rl2, w2)"
    and run: "\<forall>k waits. kq_runloop_run (Suc (Suc k)) (server_call tc ops blk) waits (rl2, w2) =
       rbind (rbind (app_postable_read tc ops (c_app c) (rl1, w2)) (\<lambda>(rl3, w3).
         kq_run_ready k (server_call tc ops blk) (rl3\<lparr>kq_executing := False\<rparr>, w3))) (kq_runloop_run (Suc k) (server_call tc ops blk) waits)"
    by (rule serve_first [OF idle blk, where fd = fd and tc = tc])
  from first_answer_blocked [OF c(1), of cs rest s xs ws tc] r s wr c(3) obtain w' where
    w': "app_postable_read tc ops (c_app c) (rl1, w2) = Inr (rl1, w')" "sk_sent (sock_of c (rl1, w')) = sk_sent (socks w fd)" by auto
  let ?st = "(rl1\<lparr>kq_executing := False\<rparr>, w')"
  have none: "kevent_wait (knotes rl1) keys = ([], knotes rl1)" for keys
    by (induction keys) (simp_all add: c(6) kn)
  have eq: "serve_connection tc ops blk fd (Suc (Suc (Suc j))) waits (rl, w) = kq_runloop_run (Suc (Suc j)) (server_call tc ops blk) waits ?st"
    for j waits
    using c(5) by (simp add: serve [rule_format] run [rule_format] w'(1) del: kq_runloop_run.simps)
  show ?thesis
  proof (intro exI [of _ w'] conjI allI impI)
    fix k :: nat
    assume "k \<ge> 4"
    then have k: "k = Suc (Suc (Suc (k - 3)))" by linarith
    show "serve_connection tc ops blk fd k [] (rl, w) = Inl Would_block" using c(4,5) by (subst k) (simp add: eq)
    show "\<exists>rl'. serve_connection tc ops blk fd k (KWait_events keys # waits) (rl, w) = Inr (0, rl', w')" for keys waits
      using c(4,5) by (subst k) (simp add: eq none)
  next
    show "sk_sent (socks w' fd) = sk_sent (socks w fd)" using w'(2) by (simp add: sock_of_def c(2))
  qed
qed

end

section \<open>Properties of the failures\<close>

text \<open>
  C38: A client that does not read, and whose socket takes no byte of the first answer. If the first read of the
  connection delivers a whole line, before any read had to wait, and the \<open>write\<close> of its answer fails with \<open>EAGAIN\<close>,
  the server stops working on the connection: no functor is ready and the kernel is not asked for any event, so
  that the loop waits with nothing that could wake it. Whatever the wait returned, no byte of the answer would be
  sent. (After a read that had to wait, the filter for reading would still be registered.)
\<close>

theorem blocked_answer_stalls:
  assumes "idle (rl, w)" "blank blk" "knotes rl = Map.empty"
    "sk_reads (socks w fd) = Rd_data cs # rest" "cs \<noteq> []" "length cs \<le> 4096" "nl_fits [] cs"
    "fst (nl_run [] cs) = s # xs" "nl_ok s" "nl_ok (server_response s)" "sk_writes (socks w fd) = Wr_error EAGAIN # ws"
  shows "\<exists>w'. (\<forall>k\<ge>4. serve_connection tc newline_ops blk fd k [] (rl, w) = Inl Would_block \<and>
      (\<forall>keys waits. \<exists>rl'. serve_connection tc newline_ops blk fd k (KWait_events keys # waits) (rl, w) = Inr (0, rl', w'))) \<and>
    sk_sent (socks w' fd) = sk_sent (socks w fd)"
  using assms by (intro enl.answer_stalls) (simp_all add: enl.answerable_def)

theorem blocked_answer_stalls_witness:
  "\<exists>rl. kq_runloop_new 3 = Inr rl \<and>
     serve_connection Assert_fail newline_ops demo_blk 7 5 []
       (rl, demo_world [Rd_data (''hi'' @ [CHR 0x0A]), Rd_eof 54] [Wr_error 35]) = Inl Would_block"
proof -
  let ?cs = "''hi'' @ [CHR 0x0A]"
  let ?w = "demo_world [Rd_data ?cs, Rd_eof 54] [Wr_error 35] :: (NewLineMsg, NewLineMsgParser) app_world"
  from demo_start(2) obtain rl where rl: "kq_runloop_new 3 = Inr rl" "idle (rl, ?w)" by blast
  have kn: "knotes rl = Map.empty" using rl(1) kq_runloop_new_ok [of 3, where 'a = fn_ptr and 'b = obj] by auto
  from blocked_answer_stalls [OF rl(2) demo_start(1) kn, of 7 ?cs "[Rd_eof 54]" "''hi''" "[]" "[]" Assert_fail] rl(1) show ?thesis
    by (auto simp: demo_world_def EAGAIN_def nl_ok_def server_response_def)
qed

text \<open>
  C39: A client that closes its connection before it sends anything stops the whole server when \<open>errno\<close> happens to
  be 0: the end of the data is taken for data, and an assertion about the empty buffer fails.
\<close>

theorem quiet_close_aborts:
  assumes "idle (rl, w)" "blank blk" "sk_reads (socks w fd) = Rd_eof 0 # rest" "k \<ge> 2"
  shows "serve_connection tc newline_ops blk fd k waits (rl, w) = Inl Assert_fail"
proof -
  obtain c rl1 rl2 w2 where
    c: "conn_at nl_rep nl_holds c R_none [] [] [] (rl1, w2)" "c_fd c = fd" "sock_of c (rl1, w2) = socks w fd"
    "event_table_number_in_use (kq_table rl1) = 1" "functor_list_size (kq_ready rl1) = Inr 0" "knotes rl1 = knotes rl"
    and serve: "\<forall>k waits. serve_connection tc newline_ops blk fd k waits (rl, w) = kq_runloop_run k (server_call tc newline_ops blk) waits (rl2, w2)"
    and run: "\<forall>k waits. kq_runloop_run (Suc (Suc k)) (server_call tc newline_ops blk) waits (rl2, w2) =
       rbind (rbind (app_postable_read tc newline_ops (c_app c) (rl1, w2)) (\<lambda>(rl3, w3).
         kq_run_ready k (server_call tc newline_ops blk) (rl3\<lparr>kq_executing := False\<rparr>, w3)))
       (kq_runloop_run (Suc k) (server_call tc newline_ops blk) waits)"
    by (rule enl.serve_first [OF assms(1,2), where fd = fd and tc = tc])
  from app_read_empty [OF c(1), where ops = newline_ops and tc = tc] obtain w' where
    w': "app_postable_read tc newline_ops (c_app c) (rl1, w2) = tcp_try_read (tcp_rcall tc newline_ops (echo_mr tc newline_ops)) (c_tcp c) (rl1, w')"
    "conn_at nl_rep nl_holds c R_pending [] [] [] (rl1, w')" "sock_of c (rl1, w') = socks w fd" using c(3) by (auto simp: sock_of_def)
  from quiet_eof [OF w'(2)] w'(1,3) assms(3) have "app_postable_read tc newline_ops (c_app c) (rl1, w2) = Inl Assert_fail" by simp
  moreover have "k = Suc (Suc (k - 2))" using assms(4) by linarith
  ultimately show ?thesis by (metis rbind_Inl run serve)
qed

theorem quiet_close_aborts_witness:
  "\<exists>rl. kq_runloop_new 3 = Inr rl \<and>
     serve_connection Assert_fail newline_ops demo_blk 7 2 [] (rl, demo_world [Rd_eof 0] []) = Inl Assert_fail"
  using demo_start(2) [of "[Rd_eof 0]" "[]"] quiet_close_aborts [OF _ demo_start(1), where w = "demo_world [Rd_eof 0] []" and fd = 7 and rest = "[]" and k = 2 and waits = "[]"]
  by (auto simp: demo_world_def)

text \<open>
  C40: A failed \<open>accept\<close> stops the server. When the listener of the server is ready and \<open>accept\<close> reports any error
  other than \<open>EAGAIN\<close> (the peer has given up, or there is no free descriptor), the callback of the server is told
  the socket 0 and fails its assertion. It is stated for a listener whose fields are set as a running server has
  them; \<open>tcp_listener_new\<close> itself writes behind the block it allocates.
\<close>

theorem accept_error_aborts:
  assumes "l < length (lsns w)" "accept_cb (lsns w ! l) = Some Handle_new_socket" "accept_arg (lsns w ! l) = Some Server_ref"
    "l_state (lsns w ! l) = L_STATE_EAGAIN \<or> l_state (lsns w ! l) = L_STATE_READY"
    "watching rl (rl_listener (lsns w ! l)) (Listener_ev s)" "accepts w (kl_fd s) = Ac_error e # rest" "e \<noteq> EAGAIN"
  shows "server_call tc ops blk On_accept_ready (Some (Arg (Listener_ref l))) (rl, w) = Inl Assert_fail"
proof -
  have "kq_listener_get_fd rl (rl_listener (lsns w ! l)) = Inr (kl_fd s)"
    using watching_at(2) [OF assms(5)] by (simp add: kq_listener_get_fd_def)
  with assms show ?thesis
    by (auto simp: server_call_def on_accept_ready_def tcp_try_accept_def invoke_accept_callback_def server_acall_def
        handle_new_socket_def lsn_at_def put_lsn_def c_assert_def Let_def)
qed

definition demo_listening :: "ac_result list \<Rightarrow> nat \<Rightarrow> (NewLineMsg, NewLineMsgParser) app_world" where
  "demo_listening as p =
     (demo_world [] [])\<lparr>lsns := [\<lparr>rl_listener = p, accept_cb = Some Handle_new_socket, accept_arg = Some Server_ref,
        l_state = L_STATE_EAGAIN\<rparr>], accepts := (\<lambda>_. as)\<rparr>"

theorem accept_error_aborts_witness:
  "\<exists>rl p rl1. kq_runloop_new 3 = Inr rl \<and> kq_listener_new rl 5 = Inr (p, rl1) \<and>
     server_call Assert_fail newline_ops demo_blk On_accept_ready (Some (Arg (Listener_ref 0))) (rl1, demo_listening [Ac_error 53] p) =
       Inl Assert_fail"
proof -
  let ?l = "\<lparr>kl_fd = 5, kl_postable = None, kl_arg = None\<rparr>"
  from kq_runloop_new_ok [of 3, where 'a = fn_ptr and 'b = obj] obtain rl :: tcp_loop where
    rl: "kq_runloop_new 3 = Inr rl" "kq_ok rl" "et_used (kq_table rl) = {}" by auto
  from new_ev_ok [OF rl(2), of "Listener_ev ?l"] rl(3) obtain p rl1 where
    p: "kq_listener_new rl 5 = Inr (p, rl1)" "watching rl1 p (Listener_ev ?l)"
    by (auto simp: kq_listener_new_def kq_listener_init_def EVT_MAX_def)
  have "server_call Assert_fail newline_ops demo_blk On_accept_ready (Some (Arg (Listener_ref 0))) (rl1, demo_listening [Ac_error 53] p) = Inl Assert_fail"
    using p(2) by (intro accept_error_aborts [where s = ?l and e = 53]) (simp_all add: demo_listening_def EAGAIN_def)
  with rl(1) p(1) show ?thesis by blast
qed

end
