(* ===== verification/Echo_Types.thy ===== *)
theory Echo_Types
  imports Echo_Run
begin

text \<open>
  The types behind the \<open>void*\<close> pointers of the server. A callback is stored with an argument that has no type, and
  casts it back when it is called; with the tags of \<^verbatim>\<open>rbl/check_tag.h\<close> switched on it first asserts that the
  object has its tag. Here every function has a signature, the state is well typed when every stored callback has
  the role of the field it is stored in and an argument with the tag it expects, and every function of the server
  keeps the state well typed. Hence no cast goes wrong: what the server does is the same whether the tags are
  checked or not.
\<close>

section \<open>Signatures\<close>

datatype role = Posted | Tcp_reads | Tcp_writes | Reads_message | Writes_message | Accepts | Ends

datatype tag = TcpStream_tag | TcpListener_tag | MsgStream_tag | EchoApp_tag | ServerCtx_tag

primrec tag_of :: "obj \<Rightarrow> tag" where
  "tag_of (Tcp_ref t) = TcpStream_tag"
| "tag_of (Listener_ref l) = TcpListener_tag"
| "tag_of (Msg_ref i) = MsgStream_tag"
| "tag_of (App_ref a) = EchoApp_tag"
| "tag_of Server_ref = ServerCtx_tag"

primrec signature :: "fn_ptr \<Rightarrow> role \<times> tag" where
  "signature Read_ready_callback = (Posted, TcpStream_tag)"
| "signature Postable_reader = (Posted, TcpStream_tag)"
| "signature Postable_try_write = (Posted, TcpStream_tag)"
| "signature Wrtr_cb = (Posted, TcpStream_tag)"
| "signature Postable_try_accept = (Posted, TcpListener_tag)"
| "signature On_accept_ready = (Posted, TcpListener_tag)"
| "signature Tcp_read_callback = (Tcp_reads, MsgStream_tag)"
| "signature Tcp_write_callback = (Tcp_writes, MsgStream_tag)"
| "signature Msg_postable_read = (Posted, MsgStream_tag)"
| "signature Msg_read_callback = (Reads_message, EchoApp_tag)"
| "signature Msg_write_callback = (Writes_message, EchoApp_tag)"
| "signature App_postable_read = (Posted, EchoApp_tag)"
| "signature App_instance_done_cb = (Ends, ServerCtx_tag)"
| "signature Handle_new_socket = (Accepts, ServerCtx_tag)"
| "signature Postable_start = (Posted, ServerCtx_tag)"

text \<open>A callback and its argument in a field for callbacks of the role \<open>r\<close>.\<close>

definition typed :: "role \<Rightarrow> fn_ptr option \<Rightarrow> obj option \<Rightarrow> bool" where
  "typed r cb arg =
     (case cb of
        None \<Rightarrow> True
      | Some f \<Rightarrow> (case arg of None \<Rightarrow> False | Some x \<Rightarrow> signature f = (r, tag_of x)))"

definition typed_post :: "fn_ptr option \<Rightarrow> obj post_arg option \<Rightarrow> bool" where
  "typed_post cb arg =
     (case cb of
        None \<Rightarrow> True
      | Some f \<Rightarrow> (case arg of Some (Arg x) \<Rightarrow> signature f = (Posted, tag_of x) | _ \<Rightarrow> False))"

lemma typed_simps [simp]:
  "typed r None arg"
  "typed r (Some f) None = False"
  "typed r (Some f) (Some x) \<longleftrightarrow> signature f = (r, tag_of x)"
  "typed_post None parg"
  "typed_post (Some f) None = False"
  "typed_post (Some f) (Some (Arg x)) \<longleftrightarrow> signature f = (Posted, tag_of x)"
  "typed_post (Some f) (Some (Event p)) = False"
  by (simp_all add: typed_def typed_post_def)

section \<open>Well typed states\<close>

definition functor_typed :: "(fn_ptr, obj post_arg) Functor \<Rightarrow> bool" where
  "functor_typed f = typed_post (fn f) (fn_arg f)"

text \<open>
  The event loop gives a user event itself to its callback; the server has no such function, and arms no user event.
\<close>

primrec variant_typed :: "(fn_ptr, obj) kvariant \<Rightarrow> bool" where
  "variant_typed (Timer_ev t) = typed_post (kt_postable t) (kt_arg t)"
| "variant_typed (Listener_ev l) = typed_post (kl_postable l) (kl_arg l)"
| "variant_typed (Stream_ev s) = (typed_post (ks_read_cb s) (ks_read_arg s) \<and> typed_post (ks_write_cb s) (ks_write_arg s))"
| "variant_typed (Uevent_ev u) = (ku_postable u = None \<or> ku_postable u = Some None)"

definition loop_typed :: "tcp_loop \<Rightarrow> bool" where
  "loop_typed rl \<longleftrightarrow>
     list_all (pred_option functor_typed) (fl_cells (kq_ready rl)) \<and>
     list_all (\<lambda>m. pred_option (\<lambda>e. variant_typed (ev_variant e)) (slab_event m)) (et_memory (kq_table rl))"

definition stream_typed :: "TcpStream \<Rightarrow> bool" where
  "stream_typed s \<longleftrightarrow>
     typed Tcp_reads (rd_cb (tcp_reader s)) (rd_arg (tcp_reader s)) \<and>
     typed Tcp_writes (wr_cb (tcp_writer s)) (wr_arg (tcp_writer s))"

definition listener_typed :: "TcpListener \<Rightarrow> bool" where
  "listener_typed l \<longleftrightarrow> typed Accepts (accept_cb l) (accept_arg l)"

definition msg_stream_typed :: "('m, 'p) MsgStream \<Rightarrow> bool" where
  "msg_stream_typed s \<longleftrightarrow>
     typed Reads_message (ms_read_cb s) (ms_read_arg s) \<and> typed Writes_message (ms_write_cb s) (ms_write_arg s)"

definition app_typed :: "EchoApp \<Rightarrow> bool" where
  "app_typed app \<longleftrightarrow> typed Ends (done_cb app) (done_arg app)"

definition world_typed :: "('m, 'p) app_world \<Rightarrow> bool" where
  "world_typed w \<longleftrightarrow>
     list_all stream_typed (tcps w) \<and> list_all listener_typed (lsns w) \<and> list_all msg_stream_typed (msgs w) \<and>
     list_all (pred_option app_typed) (apps w)"

definition well_typed :: "('m, 'p) app_state \<Rightarrow> bool" where
  "well_typed st \<longleftrightarrow> loop_typed (fst st) \<and> world_typed (snd st)"

section \<open>The loop keeps its callbacks typed\<close>

lemma list_all_update: "list_all P xs \<Longrightarrow> P x \<Longrightarrow> list_all P (xs[i := x])"
  by (auto simp: list_all_iff dest: set_update_subset_insert [THEN subsetD])

lemma list_all_at: "list_all P xs \<Longrightarrow> i < length xs \<Longrightarrow> P (xs ! i)"
  by (simp add: list_all_length)

text \<open>Only the ready list and the slabs matter.\<close>

lemma loop_typed_simps [simp]:
  "loop_typed (rl\<lparr>kq_executing := b\<rparr>) = loop_typed rl"
  "loop_typed (rl\<lparr>kq_closed := b\<rparr>) = loop_typed rl"
  "loop_typed (rl\<lparr>knotes := k\<rparr>) = loop_typed rl"
  "loop_typed (kq_close_fd rl fd) = loop_typed rl"
  "loop_typed (kq_kevent rl cs) = loop_typed rl"
  "loop_typed (runloop_get_fresh_event_table rl) = loop_typed rl"
  by (simp_all add: loop_typed_def kq_close_fd_def kq_kevent_def runloop_get_fresh_event_table_def)

lemma ev_at_typed: "loop_typed rl \<Longrightarrow> ev_at rl p = Inr e \<Longrightarrow> variant_typed (ev_variant e)"
  by (auto simp: loop_typed_def ev_at_def event_at_def dest: list_all_at split: if_splits option.splits)

lemma variant_is:
  "(case v of Stream_ev t \<Rightarrow> Inr t | _ \<Rightarrow> Inl Bad_pointer) = Inr s \<longleftrightarrow> v = Stream_ev s"
  "(case v of Listener_ev t \<Rightarrow> Inr t | _ \<Rightarrow> Inl Bad_pointer) = Inr l \<longleftrightarrow> v = Listener_ev l"
  "(case v of Timer_ev t \<Rightarrow> Inr t | _ \<Rightarrow> Inl Bad_pointer) = Inr t \<longleftrightarrow> v = Timer_ev t"
  "(case v of Uevent_ev t \<Rightarrow> Inr t | _ \<Rightarrow> Inl Bad_pointer) = Inr u \<longleftrightarrow> v = Uevent_ev u"
  by (cases v, simp_all)+

lemma variant_at_typed:
  assumes "loop_typed rl"
  shows "stream_at rl p = Inr s \<Longrightarrow> variant_typed (Stream_ev s)" "listener_at rl p = Inr l \<Longrightarrow> variant_typed (Listener_ev l)"
    "timer_at rl p = Inr t \<Longrightarrow> variant_typed (Timer_ev t)" "uevent_at rl p = Inr u \<Longrightarrow> variant_typed (Uevent_ev u)"
  unfolding stream_at_def listener_at_def timer_at_def uevent_at_def rbind_eq_Inr variant_is
  using ev_at_typed [OF assms] by metis+

lemma put_ev_typed: "put_ev rl p e = Inr rl1 \<Longrightarrow> loop_typed rl \<Longrightarrow> variant_typed (ev_variant e) \<Longrightarrow> loop_typed rl1"
  by (auto simp: loop_typed_def put_ev_def set_event_def rbind_eq_Inr list_all_update split: if_splits)

lemma put_variant_typed: "put_variant rl p v = Inr rl1 \<Longrightarrow> loop_typed rl \<Longrightarrow> variant_typed v \<Longrightarrow> loop_typed rl1"
  by (auto simp: put_variant_def rbind_eq_Inr elim!: put_ev_typed)

lemma new_ev_typed: "new_ev rl e = Inr (p, rl1) \<Longrightarrow> loop_typed rl \<Longrightarrow> variant_typed (ev_variant e) \<Longrightarrow> loop_typed rl1"
  by (auto simp: new_ev_def rbind_eq_Inr event_table_get_entry_def elim!: put_ev_typed split: if_splits)
    (auto simp: loop_typed_def intro!: list_all_update dest: list_all_at)

lemma release_ev_typed: "loop_typed rl \<Longrightarrow> release_ev rl p = Inr rl1 \<Longrightarrow> loop_typed rl1"
  by (auto simp: release_ev_def rbind_eq_Inr event_table_release_entry_def loop_typed_def split: if_splits option.splits)

lemma kq_post_typed:
  "loop_typed rl \<Longrightarrow> typed_post cb a \<Longrightarrow> kq_runloop_post rl cb a = Inr rl1 \<Longrightarrow> loop_typed rl1"
  by (auto simp: kq_runloop_post_def functor_list_add_def set_functor_entry_def rbind_eq_Inr c_assert_def loop_typed_def
      functor_typed_def list_all_update split: if_splits)

lemma kq_stream_new_typed: "loop_typed rl \<Longrightarrow> kq_stream_new rl fd = Inr (p, rl1) \<Longrightarrow> loop_typed rl1"
  by (auto simp: kq_stream_new_def kq_stream_init_def elim!: new_ev_typed)

lemma kq_stream_free_typed: "loop_typed rl \<Longrightarrow> kq_stream_free rl p = Inr rl1 \<Longrightarrow> loop_typed rl1"
  by (auto simp: kq_stream_free_def kq_stream_deregister_def kqh_readerwriter_cancel_def Let_def rbind_eq_Inr
      elim!: release_ev_typed [rotated])

lemma kq_stream_arm_read_typed:
  "loop_typed rl \<Longrightarrow> typed_post (Some f) (Some x) \<Longrightarrow> kq_stream_arm_read rl p (Some f) (Some x) = Inr rl1 \<Longrightarrow> loop_typed rl1"
  using variant_at_typed(1) [of rl p]
  by (auto simp: kq_stream_arm_read_def kqh_reader_register_def set_given_def Let_def rbind_eq_Inr elim!: put_variant_typed)

lemma kq_listener_arm_typed:
  "loop_typed rl \<Longrightarrow> typed_post (Some f) (Some x) \<Longrightarrow> kq_listener_arm rl p (Some f) (Some x) = Inr rl1 \<Longrightarrow> loop_typed rl1"
  by (auto simp: kq_listener_arm_def kqh_listener_register_def set_given_def Let_def rbind_eq_Inr elim!: put_variant_typed)

lemma kq_listener_register_typed:
  "loop_typed rl \<Longrightarrow> typed_post (Some f) (Some x) \<Longrightarrow> kq_listener_register rl p (Some f) (Some x) = Inr rl1 \<Longrightarrow> loop_typed rl1"
  by (auto simp: kq_listener_register_def kqh_listener_register_def set_given_def Let_def rbind_eq_Inr elim!: put_ev_typed)

section \<open>The objects keep their callbacks typed\<close>

lemma at_typed:
  assumes "world_typed w"
  shows "tcp_at w t = Inr s \<Longrightarrow> stream_typed s" "lsn_at w l = Inr ls \<Longrightarrow> listener_typed ls"
    "msg_at w i = Inr ms \<Longrightarrow> msg_stream_typed ms" "app_at w a = Inr app \<Longrightarrow> app_typed app"
  using assms
  by (auto simp: world_typed_def tcp_at_def lsn_at_def msg_at_def app_at_def dest: list_all_at split: if_splits option.splits)

lemma put_typed:
  assumes "world_typed w"
  shows "stream_typed s \<Longrightarrow> world_typed (put_tcp w t s)" "listener_typed ls \<Longrightarrow> world_typed (put_lsn w l ls)"
    "msg_stream_typed ms \<Longrightarrow> world_typed (put_msg w i ms)" "pred_option app_typed app \<Longrightarrow> world_typed (put_app w a app)"
  using assms by (simp_all add: world_typed_def put_tcp_def put_lsn_def put_msg_def put_app_def list_all_update)

lemma other_typed [simp]:
  "world_typed (put_buf w b iob) = world_typed w"
  "world_typed (put_sock w fd sk) = world_typed w"
  "world_typed (w\<lparr>bufs := bs\<rparr>) = world_typed w"
  "world_typed (w\<lparr>accepts := as\<rparr>) = world_typed w"
  "world_typed (w\<lparr>server := sv\<rparr>) = world_typed w"
  by (simp_all add: world_typed_def put_buf_def put_sock_def)

lemma stream_typed_simps [simp]:
  "stream_typed (s\<lparr>tcp_reader := r\<rparr>) \<longleftrightarrow>
     typed Tcp_reads (rd_cb r) (rd_arg r) \<and> typed Tcp_writes (wr_cb (tcp_writer s)) (wr_arg (tcp_writer s))"
  "stream_typed (s\<lparr>tcp_writer := wr\<rparr>) \<longleftrightarrow>
     typed Tcp_reads (rd_cb (tcp_reader s)) (rd_arg (tcp_reader s)) \<and> typed Tcp_writes (wr_cb wr) (wr_arg wr)"
  by (simp_all add: stream_typed_def)

section \<open>Agreeing results\<close>

text \<open>
  Two versions of a function agree when they do the same, and leave the state well typed. The versions differ in
  what a cast to a wrong type would do.
\<close>

definition agree :: "('m, 'p) app_state res \<Rightarrow> ('m, 'p) app_state res \<Rightarrow> bool" where
  "agree r1 r2 \<longleftrightarrow> r1 = r2 \<and> (\<forall>st. r1 = Inr st \<longrightarrow> well_typed st)"

named_theorems agrees

lemma agree_Inl [agrees]: "agree (Inl e) (Inl e)"
  by (simp add: agree_def)

lemma agree_Inr [agrees]: "loop_typed rl \<Longrightarrow> world_typed w \<Longrightarrow> agree (Inr (rl, w)) (Inr (rl, w))"
  by (simp add: agree_def well_typed_def)

lemma agree_get [agrees]: "(\<And>x. m = Inr x \<Longrightarrow> agree (f x) (g x)) \<Longrightarrow> agree (rbind m f) (rbind m g)"
  by (cases m) (simp_all add: agree_def)

lemma agree_seq [agrees]:
  "agree r1 r2 \<Longrightarrow> (\<And>rl w. loop_typed rl \<Longrightarrow> world_typed w \<Longrightarrow> agree (f (rl, w)) (g (rl, w))) \<Longrightarrow> agree (rbind r1 f) (rbind r2 g)"
  by (cases r1) (auto simp: agree_def well_typed_def)

lemma agree_if [agrees]:
  "(b \<Longrightarrow> agree r1 r2) \<Longrightarrow> (\<not> b \<Longrightarrow> agree s1 s2) \<Longrightarrow> agree (if b then r1 else s1) (if b then r2 else s2)"
  by simp

lemma agree_option [agrees]:
  "(x = None \<Longrightarrow> agree r1 r2) \<Longrightarrow> (\<And>y. x = Some y \<Longrightarrow> agree (f y) (g y)) \<Longrightarrow>
   agree (case x of None \<Rightarrow> r1 | Some y \<Rightarrow> f y) (case x of None \<Rightarrow> r2 | Some y \<Rightarrow> g y)"
  by (cases x) simp_all

lemma agree_pair [agrees]: "(\<And>a b. x = (a, b) \<Longrightarrow> agree (f a b) (g a b)) \<Longrightarrow> agree (case x of (a, b) \<Rightarrow> f a b) (case x of (a, b) \<Rightarrow> g a b)"
  by (cases x) simp

text \<open>Two versions of what a stored callback does.\<close>

definition agreeing :: "role \<Rightarrow> (fn_ptr \<Rightarrow> obj option \<Rightarrow> ('m, 'p) app_state \<Rightarrow> ('m, 'p) app_state res) \<Rightarrow>
    (fn_ptr \<Rightarrow> obj option \<Rightarrow> ('m, 'p) app_state \<Rightarrow> ('m, 'p) app_state res) \<Rightarrow> bool" where
  "agreeing r c1 c2 \<longleftrightarrow>
     (\<forall>f arg rl w. typed r (Some f) arg \<longrightarrow> loop_typed rl \<longrightarrow> world_typed w \<longrightarrow> agree (c1 f arg (rl, w)) (c2 f arg (rl, w)))"

lemma agreeingD:
  "agreeing r c1 c2 \<Longrightarrow> typed r (Some f) arg \<Longrightarrow> loop_typed rl \<Longrightarrow> world_typed w \<Longrightarrow>
   agree (c1 f arg (rl, w)) (c2 f arg (rl, w))"
  by (simp add: agreeing_def)

section \<open>Reading and writing\<close>

lemma agree_read [agrees]:
  "(\<And>bs. agree (f1 bs) (f2 bs)) \<Longrightarrow> (\<And>e. agree (g1 e) (g2 e)) \<Longrightarrow> (\<And>e. agree (h1 e) (h2 e)) \<Longrightarrow>
   agree (case r of Rd_data bs \<Rightarrow> f1 bs | Rd_eof e \<Rightarrow> g1 e | Rd_error e \<Rightarrow> h1 e)
     (case r of Rd_data bs \<Rightarrow> f2 bs | Rd_eof e \<Rightarrow> g2 e | Rd_error e \<Rightarrow> h2 e)"
  by (cases r) simp_all

lemma agree_write [agrees]:
  "(\<And>n. agree (f1 n) (f2 n)) \<Longrightarrow> (\<And>e. agree (g1 e) (g2 e)) \<Longrightarrow> (\<And>e. agree (h1 e) (h2 e)) \<Longrightarrow>
   agree (case r of Wr_bytes n \<Rightarrow> f1 n | Wr_zero e \<Rightarrow> g1 e | Wr_error e \<Rightarrow> h1 e)
     (case r of Wr_bytes n \<Rightarrow> f2 n | Wr_zero e \<Rightarrow> g2 e | Wr_error e \<Rightarrow> h2 e)"
  by (cases r) simp_all

lemma invoke_read_agrees [agrees]:
  assumes c: "\<And>e. agreeing Tcp_reads (\<lambda>f x. c1 f x e) (\<lambda>f x. c2 f x e)" and t: "loop_typed rl" "world_typed w"
  shows "agree (tcp_invoke_read_cb c1 t e (rl, w)) (tcp_invoke_read_cb c2 t e (rl, w))"
  unfolding tcp_invoke_read_cb_def using t
  by (auto simp: stream_typed_def intro!: agrees agreeingD [OF c] put_typed dest!: at_typed(1) [OF t(2)])

lemma try_read_agrees [agrees]:
  assumes c: "\<And>e. agreeing Tcp_reads (\<lambda>f x. c1 f x e) (\<lambda>f x. c2 f x e)" and t: "loop_typed rl" "world_typed w"
  shows "agree (tcp_try_read c1 t (rl, w)) (tcp_try_read c2 t (rl, w))"
  unfolding tcp_try_read_def Let_def fst_conv snd_conv using t
  by (auto simp: stream_typed_def intro!: agrees c put_typed dest!: at_typed(1) [OF t(2)]
      elim!: kq_stream_arm_read_typed [rotated -1])

lemma read_agrees [agrees]:
  assumes c: "\<And>e. agreeing Tcp_reads (\<lambda>f x. c1 f x e) (\<lambda>f x. c2 f x e)" and t: "loop_typed rl" "world_typed w"
    and cb: "typed Tcp_reads cb arg"
  shows "agree (tcp_read c1 t b cb arg (rl, w)) (tcp_read c2 t b cb arg (rl, w))"
  unfolding tcp_read_def fst_conv snd_conv using t cb
  by (auto simp: stream_typed_def intro!: agrees c put_typed dest!: at_typed(1) [OF t(2)])

lemma read_ready_agrees [agrees]:
  assumes c: "\<And>e. agreeing Tcp_reads (\<lambda>f x. c1 f x e) (\<lambda>f x. c2 f x e)" and t: "loop_typed rl" "world_typed w"
  shows "agree (read_ready_callback c1 t (rl, w)) (read_ready_callback c2 t (rl, w))"
  unfolding read_ready_callback_def fst_conv snd_conv using t
  by (auto simp: stream_typed_def intro!: agrees c put_typed dest!: at_typed(1) [OF t(2)] split: rd_state.split)

lemma invoke_write_agrees [agrees]:
  assumes c: "\<And>e. agreeing Tcp_writes (\<lambda>f x. c1 f x e) (\<lambda>f x. c2 f x e)" and t: "loop_typed rl" "world_typed w"
  shows "agree (tcp_invoke_write_callback c1 t e (rl, w)) (tcp_invoke_write_callback c2 t e (rl, w))"
  unfolding tcp_invoke_write_callback_def using t
  by (auto simp: stream_typed_def intro!: agrees agreeingD [OF c] put_typed dest!: at_typed(1) [OF t(2)])

lemma try_write_agrees [agrees]:
  assumes c: "\<And>e. agreeing Tcp_writes (\<lambda>f x. c1 f x e) (\<lambda>f x. c2 f x e)" and t: "loop_typed rl" "world_typed w"
  shows "agree (tcp_try_write c1 t (rl, w)) (tcp_try_write c2 t (rl, w))"
  unfolding tcp_try_write_def Let_def fst_conv snd_conv using t
  by (auto simp: stream_typed_def intro!: agrees c put_typed dest!: at_typed(1) [OF t(2)]
      elim!: kq_post_typed [rotated -1])

lemma write_agrees [agrees]:
  assumes c: "\<And>e. agreeing Tcp_writes (\<lambda>f x. c1 f x e) (\<lambda>f x. c2 f x e)" and t: "loop_typed rl" "world_typed w"
    and cb: "typed Tcp_writes cb arg"
  shows "agree (tcp_write c1 t b cb arg (rl, w)) (tcp_write c2 t b cb arg (rl, w))"
  unfolding tcp_write_def fst_conv snd_conv using t cb
  by (auto simp: stream_typed_def intro!: agrees c put_typed dest!: at_typed(1) [OF t(2)])

lemma wrtr_agrees [agrees]:
  assumes c: "\<And>e. agreeing Tcp_writes (\<lambda>f x. c1 f x e) (\<lambda>f x. c2 f x e)" and t: "loop_typed rl" "world_typed w"
  shows "agree (wrtr_cb c1 t (rl, w)) (wrtr_cb c2 t (rl, w))"
  unfolding wrtr_cb_def fst_conv snd_conv using t
  by (auto simp: stream_typed_def intro!: agrees c put_typed dest!: at_typed(1) [OF t(2)] split: wrt_state.split)

section \<open>Accepting\<close>

lemma invoke_accept_agrees [agrees]:
  assumes c: "\<And>n e. agreeing Accepts (\<lambda>f x. c1 f x n e) (\<lambda>f x. c2 f x n e)" and t: "loop_typed rl" "world_typed w"
  shows "agree (invoke_accept_callback c1 l n e (rl, w)) (invoke_accept_callback c2 l n e (rl, w))"
  unfolding invoke_accept_callback_def using t
  by (auto simp: listener_typed_def intro!: agrees agreeingD [OF c] put_typed dest!: at_typed(2) [OF t(2)])

lemma try_accept_agrees [agrees]:
  assumes c: "\<And>n e. agreeing Accepts (\<lambda>f x. c1 f x n e) (\<lambda>f x. c2 f x n e)" and t: "loop_typed rl" "world_typed w"
  shows "agree (tcp_try_accept c1 l (rl, w)) (tcp_try_accept c2 l (rl, w))"
  unfolding tcp_try_accept_def Let_def fst_conv snd_conv using t
  by (auto simp: listener_typed_def intro!: agrees c put_typed dest!: at_typed(2) [OF t(2)]
      elim!: kq_listener_arm_typed [rotated -1] split: list.split ac_result.split)

lemma postable_accept_agrees [agrees]:
  assumes c: "\<And>n e. agreeing Accepts (\<lambda>f x. c1 f x n e) (\<lambda>f x. c2 f x n e)" and t: "loop_typed rl" "world_typed w"
  shows "agree (postable_try_accept c1 l (rl, w)) (postable_try_accept c2 l (rl, w))"
  unfolding postable_try_accept_def fst_conv snd_conv using t
  by (auto simp: listener_typed_def intro!: agrees c put_typed dest!: at_typed(2) [OF t(2)]
      elim!: kq_listener_register_typed [rotated -1] split: l_state.split)

lemma accept_ready_agrees [agrees]:
  assumes c: "\<And>n e. agreeing Accepts (\<lambda>f x. c1 f x n e) (\<lambda>f x. c2 f x n e)" and t: "loop_typed rl" "world_typed w"
  shows "agree (on_accept_ready c1 l (rl, w)) (on_accept_ready c2 l (rl, w))"
  unfolding on_accept_ready_def Let_def fst_conv snd_conv using t
  by (auto simp: listener_typed_def intro!: agrees c put_typed dest!: at_typed(2) [OF t(2)] split: l_state.split)

lemma accept_agrees [agrees]:
  assumes c: "\<And>n e. agreeing Accepts (\<lambda>f x. c1 f x n e) (\<lambda>f x. c2 f x n e)" and t: "loop_typed rl" "world_typed w"
    and cb: "typed Accepts cb arg"
  shows "agree (tcp_accept c1 l cb arg (rl, w)) (tcp_accept c2 l cb arg (rl, w))"
  unfolding tcp_accept_def Let_def fst_conv snd_conv using t cb
  by (auto simp: listener_typed_def intro!: agrees c put_typed dest!: at_typed(2) [OF t(2)]
      elim!: kq_post_typed [rotated -1])

section \<open>Messages\<close>

lemma post_agrees [agrees]:
  "loop_typed rl \<Longrightarrow> world_typed w \<Longrightarrow> signature f = (Posted, tag_of x) \<Longrightarrow> agree (post f x (rl, w)) (post f x (rl, w))"
  unfolding post_def fst_conv snd_conv by (auto intro!: agrees elim!: kq_post_typed [rotated -1])

lemma invoke_message_agrees [agrees]:
  assumes c: "\<And>m e. agreeing Reads_message (\<lambda>f x. c1 f x m e) (\<lambda>f x. c2 f x m e)" and t: "loop_typed rl" "world_typed w"
  shows "agree (msg_invoke_read_callback c1 i m e (rl, w)) (msg_invoke_read_callback c2 i m e (rl, w))"
  unfolding msg_invoke_read_callback_def using t
  by (auto simp: msg_stream_typed_def intro!: agrees agreeingD [OF c] put_typed dest!: at_typed(3) [OF t(2)])

lemma invoke_written_agrees [agrees]:
  assumes c: "\<And>e. agreeing Writes_message (\<lambda>f x. c1 f x e) (\<lambda>f x. c2 f x e)" and t: "loop_typed rl" "world_typed w"
  shows "agree (msg_invoke_write_callback c1 i e (rl, w)) (msg_invoke_write_callback c2 i e (rl, w))"
  unfolding msg_invoke_write_callback_def using t
  by (auto simp: msg_stream_typed_def intro!: agrees agreeingD [OF c] put_typed dest!: at_typed(3) [OF t(2)])

lemma tcp_written_agrees [agrees]:
  assumes c: "\<And>e. agreeing Writes_message (\<lambda>f x. c1 f x e) (\<lambda>f x. c2 f x e)" and t: "loop_typed rl" "world_typed w"
  shows "agree (tcp_write_callback c1 i e (rl, w)) (tcp_write_callback c2 i e (rl, w))"
  unfolding tcp_write_callback_def fst_conv snd_conv using t
  by (auto simp: msg_stream_typed_def intro!: agrees c put_typed dest!: at_typed(3) [OF t(2)])

lemma wcall_agrees [agrees]:
  assumes c: "\<And>e. agreeing Writes_message (\<lambda>f x. c1 f x e) (\<lambda>f x. c2 f x e)"
  shows "agreeing Tcp_writes (\<lambda>f x. tcp_wcall tc1 c1 f x e) (\<lambda>f x. tcp_wcall tc2 c2 f x e)"
  unfolding agreeing_def tcp_wcall_def by (auto intro!: agrees c split: fn_ptr.split obj.split option.split)

lemma tcp_arrived_agrees [agrees]:
  assumes c: "\<And>m e. agreeing Reads_message (\<lambda>f x. c1 f x m e) (\<lambda>f x. c2 f x m e)" and t: "loop_typed rl" "world_typed w"
  shows "agree (tcp_read_callback ops c1 i e (rl, w)) (tcp_read_callback ops c2 i e (rl, w))"
  unfolding tcp_read_callback_def Let_def fst_conv snd_conv using t
  by (auto simp: msg_stream_typed_def intro!: agrees c put_typed dest!: at_typed(3) [OF t(2)])

lemma rcall_agrees [agrees]:
  assumes c: "\<And>m e. agreeing Reads_message (\<lambda>f x. c1 f x m e) (\<lambda>f x. c2 f x m e)"
  shows "agreeing Tcp_reads (\<lambda>f x. tcp_rcall tc1 ops c1 f x e) (\<lambda>f x. tcp_rcall tc2 ops c2 f x e)"
  unfolding agreeing_def tcp_rcall_def by (auto intro!: agrees c split: fn_ptr.split obj.split option.split)

lemma message_write_agrees [agrees]:
  assumes c: "\<And>e. agreeing Writes_message (\<lambda>f x. c1 f x e) (\<lambda>f x. c2 f x e)" and t: "loop_typed rl" "world_typed w"
    and cb: "typed Writes_message cb arg"
  shows "agree (msg_stream_write tc1 ops c1 i m cb arg (rl, w)) (msg_stream_write tc2 ops c2 i m cb arg (rl, w))"
  unfolding msg_stream_write_def new_buf_def fst_conv snd_conv prod.case using t cb
  by (auto simp: msg_stream_typed_def intro!: agrees c put_typed dest!: at_typed(3) [OF t(2)])

lemma message_try_agrees [agrees]:
  assumes c: "\<And>m e. agreeing Reads_message (\<lambda>f x. c1 f x m e) (\<lambda>f x. c2 f x m e)" and t: "loop_typed rl" "world_typed w"
  shows "agree (msg_postable_read tc1 ops c1 i (rl, w)) (msg_postable_read tc2 ops c2 i (rl, w))"
  unfolding msg_postable_read_def msg_try_read_def fst_conv snd_conv using t by (auto intro!: agrees c)

lemma input_buffer_typed: "msg_input_buffer s w = Inr (b, w1) \<Longrightarrow> world_typed w1 = world_typed w"
  by (auto simp: msg_input_buffer_def new_buf_def rbind_eq_Inr split: option.splits)

lemma message_read_agrees [agrees]:
  assumes c: "\<And>m e. agreeing Reads_message (\<lambda>f x. c1 f x m e) (\<lambda>f x. c2 f x m e)" and t: "loop_typed rl" "world_typed w"
    and cb: "typed Reads_message cb arg"
  shows "agree (msg_stream_read tc1 ops c1 i cb arg (rl, w)) (msg_stream_read tc2 ops c2 i cb arg (rl, w))"
  unfolding msg_stream_read_def Let_def fst_conv snd_conv using t cb
  by (auto simp: msg_stream_typed_def input_buffer_typed intro!: agrees c put_typed dest!: at_typed(3) [OF t(2)])

section \<open>The application and the server\<close>

lemma free_buf_typed: "free_buf w r = Inr w1 \<Longrightarrow> world_typed w1 = world_typed w"
  by (auto simp: free_buf_def rbind_eq_Inr split: option.splits)

lemma message_free_agrees [agrees]:
  assumes t: "loop_typed rl" "world_typed w"
  shows "agree (msg_stream_free i (rl, w)) (msg_stream_free i (rl, w))"
  unfolding msg_stream_free_def tcp_stream_free_def fst_conv snd_conv rbind_assoc using t
  by (auto simp: msg_stream_typed_def free_buf_typed rbind_assoc intro!: agrees put_typed dest!: at_typed(3) [OF t(2)]
      elim!: kq_stream_free_typed [rotated -1])

lemma app_free_agrees [agrees]:
  assumes t: "loop_typed rl" "world_typed w"
  shows "agree (echo_app_free a (rl, w)) (echo_app_free a (rl, w))"
  unfolding echo_app_free_def fst_conv snd_conv
  by (rule agree_get, rule agree_seq [OF message_free_agrees [OF t]]) (auto intro!: agree_Inr put_typed)

lemma done_agrees [agrees]:
  assumes t: "loop_typed rl" "world_typed w"
  shows "agree (app_instance_done_cb a e (rl, w)) (app_instance_done_cb a e (rl, w))"
  unfolding app_instance_done_cb_def Let_def fst_conv snd_conv using t by (auto intro!: agrees)

lemma invoke_done_agrees [agrees]:
  assumes t: "loop_typed rl" "world_typed w"
  shows "agree (invoke_done_callback tc1 a e (rl, w)) (invoke_done_callback tc2 a e (rl, w))"
  unfolding invoke_done_callback_def Let_def fst_conv snd_conv using t
  by (auto simp: app_typed_def intro!: agrees put_typed dest!: at_typed(4) [OF t(2)] split: fn_ptr.split obj.split option.split)

lemma mw_agrees [agrees]: "agreeing Writes_message (\<lambda>f x. echo_mw tc1 f x e) (\<lambda>f x. echo_mw tc2 f x e)"
  unfolding agreeing_def echo_mw_def msg_write_callback_def
  by (auto intro!: agrees split: fn_ptr.split obj.split option.split)

lemma message_arrived_agrees [agrees]:
  assumes t: "loop_typed rl" "world_typed w"
  shows "agree (msg_read_callback tc1 ops a m e (rl, w)) (msg_read_callback tc2 ops a m e (rl, w))"
  unfolding msg_read_callback_def fst_conv snd_conv using t by (auto intro!: agrees)

lemma mr_agrees [agrees]: "agreeing Reads_message (\<lambda>f x. echo_mr tc1 ops f x m e) (\<lambda>f x. echo_mr tc2 ops f x m e)"
  unfolding agreeing_def echo_mr_def by (auto intro!: agrees split: fn_ptr.split obj.split option.split)

lemma app_read_agrees [agrees]:
  assumes t: "loop_typed rl" "world_typed w"
  shows "agree (app_postable_read tc1 ops a (rl, w)) (app_postable_read tc2 ops a (rl, w))"
  unfolding app_postable_read_def fst_conv snd_conv using t by (auto intro!: agrees)

lemma app_new_typed:
  assumes "echo_app_new ops blk fd (rl, w) = Inr (a, rl1, w1)" "loop_typed rl" "world_typed w" "stream_typed blk"
  shows "loop_typed rl1" "world_typed w1"
  using assms
  by (auto simp: echo_app_new_def echo_app_init_def msg_stream_new_def msg_stream_init_def tcp_stream_new_def tcp_stream_init_def
      rbind_eq_Inr world_typed_def stream_typed_def msg_stream_typed_def app_typed_def elim: kq_stream_new_typed [rotated])

lemma add_connection_agrees:
  assumes t: "loop_typed rl" "world_typed w"
  shows "agree (add_connection a (rl, w)) (add_connection a (rl, w))"
  unfolding add_connection_def echo_app_run_def Let_def fst_conv snd_conv using t
  by (auto simp: app_typed_def intro!: agrees put_typed)

lemma new_socket_agrees [agrees]:
  assumes t: "loop_typed rl" "world_typed w" and blk: "stream_typed blk"
  shows "agree (handle_new_socket ops blk n e (rl, w)) (handle_new_socket ops blk n e (rl, w))"
  unfolding handle_new_socket_def
proof (rule agree_get, rule agree_get)
  fix y :: "nat \<times> ('a, 'b) app_state"
  assume y: "echo_app_new ops blk n (rl, w) = Inr y"
  obtain a rl1 w1 where "y = (a, rl1, w1)" by (cases y)
  with app_new_typed [OF y [unfolded this] t blk]
  show "agree (case y of (a, st1) \<Rightarrow> rbind (if e = 0 then add_connection a st1 else Inr st1) (post Postable_start Server_ref))
      (case y of (a, st1) \<Rightarrow> rbind (if e = 0 then add_connection a st1 else Inr st1) (post Postable_start Server_ref))"
    by (auto intro!: agree_seq agree_if add_connection_agrees agree_Inr post_agrees)
qed

lemma acall_agrees [agrees]:
  "stream_typed blk \<Longrightarrow> agreeing Accepts (\<lambda>f x. server_acall tc1 ops blk f x n e) (\<lambda>f x. server_acall tc2 ops blk f x n e)"
  unfolding agreeing_def server_acall_def by (auto intro!: agrees split: fn_ptr.split obj.split option.split)

lemma start_agrees [agrees]:
  assumes t: "loop_typed rl" "world_typed w" and blk: "stream_typed blk"
  shows "agree (postable_start tc1 ops blk (rl, w)) (postable_start tc2 ops blk (rl, w))"
  unfolding postable_start_def fst_conv snd_conv using t blk by (auto intro!: agrees)

lemma server_agrees:
  assumes t: "loop_typed rl" "world_typed w" "stream_typed blk" and f: "typed_post (Some f) arg"
  shows "agree (server_call tc1 ops blk f arg (rl, w)) (server_call tc2 ops blk f arg (rl, w))"
proof -
  obtain x where x: "arg = Some (Arg x)" "signature f = (Posted, tag_of x)" using f
    by (auto simp: typed_post_def split: option.splits post_arg.splits)
  with t show ?thesis unfolding server_call_def tcp_postable_reader_def postable_try_write_def
    by (cases f; cases x) (auto intro!: agrees)
qed

section \<open>The loop\<close>

lemma get_entry_typed: "loop_typed rl \<Longrightarrow> functor_list_remove (kq_ready rl) = Inr (f, lst) \<Longrightarrow>
    functor_typed f \<and> loop_typed (rl\<lparr>kq_ready := lst\<rparr>)"
  by (auto simp: functor_list_remove_def get_functor_entry_def rbind_eq_Inr loop_typed_def dest: list_all_at
      split: if_splits option.splits)

definition posts_agree :: "(fn_ptr, obj, ('m, 'p) app_world) kq_call \<Rightarrow> (fn_ptr, obj, ('m, 'p) app_world) kq_call \<Rightarrow> bool" where
  "posts_agree c1 c2 \<longleftrightarrow>
     (\<forall>f arg rl w. typed_post (Some f) arg \<longrightarrow> loop_typed rl \<longrightarrow> world_typed w \<longrightarrow> agree (c1 f arg (rl, w)) (c2 f arg (rl, w)))"

lemma posts_agreeD:
  "posts_agree c1 c2 \<Longrightarrow> typed_post cb arg \<Longrightarrow> cb = Some f \<Longrightarrow> loop_typed rl \<Longrightarrow> world_typed w \<Longrightarrow>
   agree (c1 f arg (rl, w)) (c2 f arg (rl, w))"
  by (simp add: posts_agree_def)

lemma stored_agrees:
  assumes "posts_agree c1 c2" "typed_post cb arg" "loop_typed rl" "world_typed w"
  shows "agree (case cb of None \<Rightarrow> Inr (rl, w) | Some f \<Rightarrow> c1 f arg (rl, w)) (case cb of None \<Rightarrow> Inr (rl, w) | Some f \<Rightarrow> c2 f arg (rl, w))"
    "agree (case cb of None \<Rightarrow> Inr (rl, w) | Some f \<Rightarrow> if b then c1 f arg (rl, w) else Inr (rl, w))
       (case cb of None \<Rightarrow> Inr (rl, w) | Some f \<Rightarrow> if b then c2 f arg (rl, w) else Inr (rl, w))"
  using assms by (auto intro!: agree_option agree_if agree_Inr elim: posts_agreeD)

lemma stream_handler_agrees:
  assumes c: "posts_agree c1 c2" and t: "loop_typed rl" "world_typed w"
  shows "agree (kq_stream_handler c1 p f (rl, w)) (kq_stream_handler c2 p f (rl, w))"
  unfolding kq_stream_handler_def fst_conv using t
  by (auto intro!: agree_get agree_seq agree_Inl stored_agrees [OF c] dest!: variant_at_typed(1) [rotated] split: kfilter.split)

lemma dispatch_agrees:
  assumes c: "posts_agree c1 c2" and t: "loop_typed rl" "world_typed w"
  shows "agree (kq_dispatch c1 ev (rl, w)) (kq_dispatch c2 ev (rl, w))"
  unfolding kq_dispatch_def kq_listener_handler_def kq_timer_handler_def kq_uevent_handler_def Let_def fst_conv snd_conv
    kq_timer_deregister_def kqh_timer_cancel_def
  using t variant_at_typed(2-4) [OF t(1)]
  by (force intro!: agree_option agree_get agree_Inl agree_Inr stream_handler_agrees [OF c] posts_agreeD [OF c] split: khandler.split)

lemma fold_agrees:
  assumes "\<And>x rl w. loop_typed rl \<Longrightarrow> world_typed w \<Longrightarrow> agree (f x (rl, w)) (g x (rl, w))" "loop_typed rl" "world_typed w"
  shows "agree (fold_res f xs (rl, w)) (fold_res g xs (rl, w))"
  using assms(2,3)
  by (induction xs arbitrary: rl w) (auto intro!: agree_Inr agree_seq assms(1))

lemma run_ready_agrees:
  assumes c: "posts_agree c1 c2" and t: "loop_typed rl" "world_typed w"
  shows "agree (kq_run_ready k c1 (rl, w)) (kq_run_ready k c2 (rl, w))"
  using t
proof (induction k arbitrary: rl w)
  case (Suc k)
  have call: "agree (Functor_call c1 f (rl\<lparr>kq_ready := lst, kq_executing := True\<rparr>, w))
      (Functor_call c2 f (rl\<lparr>kq_ready := lst, kq_executing := True\<rparr>, w))"
    if "functor_list_remove (kq_ready rl) = Inr (f, lst)" for f lst
    using get_entry_typed [OF Suc.prems(1) that] Suc.prems(2) unfolding Functor_call_def functor_typed_def
    by (auto intro!: agree_option agree_Inl posts_agreeD [OF c])
  show ?case unfolding kq_run_ready.simps fst_conv snd_conv using Suc.prems
    by (auto intro!: agree_get agree_if agree_Inr agree_seq call Suc.IH)
qed (simp add: agree_Inl)

lemma server_posts_agree: "stream_typed blk \<Longrightarrow> posts_agree (server_call tc1 ops blk) (server_call tc2 ops blk)"
  unfolding posts_agree_def using server_agrees by blast

text \<open>The same for the result of a run, which comes with a number.\<close>

definition run_agree :: "(int \<times> ('m, 'p) app_state) res \<Rightarrow> (int \<times> ('m, 'p) app_state) res \<Rightarrow> bool" where
  "run_agree r1 r2 \<longleftrightarrow> r1 = r2 \<and> (\<forall>n st. r1 = Inr (n, st) \<longrightarrow> well_typed st)"

lemma run_agree_Inl: "run_agree (Inl e) (Inl e)"
  by (simp add: run_agree_def)

lemma run_agree_Inr: "loop_typed rl \<Longrightarrow> world_typed w \<Longrightarrow> run_agree (Inr (n, rl, w)) (Inr (n, rl, w))"
  by (simp add: run_agree_def well_typed_def)

lemma run_agree_get: "(\<And>x. m = Inr x \<Longrightarrow> run_agree (f x) (g x)) \<Longrightarrow> run_agree (rbind m f) (rbind m g)"
  by (cases m) (simp_all add: run_agree_def)

lemma run_agree_seq:
  "agree r1 r2 \<Longrightarrow> (\<And>rl w. loop_typed rl \<Longrightarrow> world_typed w \<Longrightarrow> run_agree (f (rl, w)) (g (rl, w))) \<Longrightarrow>
   run_agree (rbind r1 f) (rbind r2 g)"
  by (cases r1) (auto simp: agree_def run_agree_def well_typed_def)

lemma loop_agrees:
  assumes c: "posts_agree c1 c2" and t: "loop_typed rl" "world_typed w"
  shows "run_agree (kq_runloop_run k c1 waits (rl, w)) (kq_runloop_run k c2 waits (rl, w))"
  using t
proof (induction k arbitrary: waits rl w)
  case (Suc k)
  have ready: "run_agree (rbind (kq_run_ready k c1 (rl, w)) (kq_runloop_run k c1 ws))
      (rbind (kq_run_ready k c2 (rl, w)) (kq_runloop_run k c2 ws))" for ws
    by (rule run_agree_seq [OF run_ready_agrees [OF c Suc.prems]]) (rule Suc.IH)
  have events: "run_agree (rbind (fold_res (kq_dispatch c1) evs (rl1, w)) (kq_runloop_run k c1 ws))
      (rbind (fold_res (kq_dispatch c2) evs (rl1, w)) (kq_runloop_run k c2 ws))" if "loop_typed rl1" for rl1 evs ws
    by (rule run_agree_seq [OF fold_agrees [OF _ that Suc.prems(2)]]) (rule dispatch_agrees [OF c], assumption+, rule Suc.IH)
  show ?case unfolding kq_runloop_run.simps Let_def fst_conv snd_conv using Suc.prems
    by (auto intro!: run_agree_get run_agree_Inl run_agree_Inr ready events split: list.split kq_wait.split prod.split)
qed (simp add: run_agree_Inl)

text \<open>
  C2: No callback of the server is ever called with an argument of another type than the one it casts its
  \<open>void*\<close> to. From a well typed state, for either message format, with any sequence of events and results of the
  system calls, the run of the server is the same whatever a wrong cast would do (an assertion that fails when the
  tags are checked, an access through a wrong pointer when they are not), and the state at its end is well typed.
  The callbacks that \<open>malloc\<close> happens to leave in the memory of a new TCP stream are assumed to be null or well
  typed (\<open>stream_typed\<close>). The claim is about types: that a pointer of the right type still points to an object that
  has not been freed is not part of it.
\<close>

theorem casts_never_fail:
  assumes "well_typed st" "stream_typed blk"
  shows "kq_runloop_run k (server_call tc1 ops blk) waits st = kq_runloop_run k (server_call tc2 ops blk) waits st \<and>
    (\<forall>n st'. kq_runloop_run k (server_call tc1 ops blk) waits st = Inr (n, st') \<longrightarrow> well_typed st')"
  using loop_agrees [OF server_posts_agree [OF assms(2)], of "fst st" "snd st"] assms(1)
  unfolding run_agree_def well_typed_def prod.collapse by blast

lemma new_loop_typed: "kq_runloop_new fd = Inr rl \<Longrightarrow> loop_typed rl"
  by (auto simp: kq_runloop_new_def kq_runloop_init_def event_table_new_def event_table_init_def functor_list_new_def
      rbind_eq_Inr loop_typed_def list_all_iff)

text \<open>A server with one listener, on which one connection waits.\<close>

definition demo_server :: "ac_result list \<Rightarrow> nat \<Rightarrow> (NewLineMsg, NewLineMsgParser) app_world" where
  "demo_server as p =
     (demo_listening as p)\<lparr>
       lsns := [\<lparr>rl_listener = p, accept_cb = None, accept_arg = None, l_state = L_STATE_INITIAL\<rparr>],
       server := \<lparr>sv_listener = Some 0, sv_state = L_STATE_INITIAL, connection_list = List_new\<rparr>\<rparr>"

theorem casts_never_fail_witness:
  "\<exists>rl p rl1 st. kq_runloop_new 3 = Inr rl \<and> kq_listener_new rl 5 = Inr (p, rl1) \<and>
     server_ctx_run (rl1, demo_server [Ac_socket 7 \<lparr>sk_reads = [Rd_eof 54], sk_writes = [], sk_received = [], sk_sent = []\<rparr>] p) = Inr st \<and>
     kq_runloop_run 20 (server_call Assert_fail newline_ops demo_blk) [] st =
     kq_runloop_run 20 (server_call Bad_pointer newline_ops demo_blk) [] st"
proof -
  let ?w = "demo_server [Ac_socket 7 \<lparr>sk_reads = [Rd_eof 54], sk_writes = [], sk_received = [], sk_sent = []\<rparr>]"
  from kq_runloop_new_ok [of 3, where 'a = fn_ptr and 'b = obj] obtain rl :: tcp_loop where
    rl: "kq_runloop_new 3 = Inr rl" "kq_ok rl" "et_used (kq_table rl) = {}" "fl_rep (kq_ready rl) []" "fl_room (kq_ready rl) = 2047" by auto
  from new_ev_ok [OF rl(2), of "Listener_ev \<lparr>kl_fd = 5, kl_postable = None, kl_arg = None\<rparr>"] rl(3) obtain p rl1 where
    p: "kq_listener_new rl 5 = Inr (p, rl1)" by (auto simp: kq_listener_new_def kq_listener_init_def EVT_MAX_def)
  then have kr: "kq_ready rl1 = kq_ready rl" by (auto simp: kq_listener_new_def new_ev_def put_ev_def rbind_eq_Inr)
  from p have t1: "loop_typed rl1" unfolding kq_listener_new_def
    by (rule new_ev_typed) (simp_all add: new_loop_typed [OF rl(1)] kq_listener_init_def)
  from post_empty [of rl1 Postable_start "Arg Server_ref"] rl(4,5) kr obtain rl2 where
    rl2: "kq_runloop_post rl1 (Some Postable_start) (Some (Arg Server_ref)) = Inr rl2" by auto
  have "loop_typed rl2" by (rule kq_post_typed [OF t1 _ rl2]) simp
  then have "well_typed (rl2, ?w p)" "stream_typed demo_blk"
    by (simp_all add: well_typed_def world_typed_def demo_server_def demo_listening_def demo_world_def listener_typed_def
        stream_typed_def demo_blk_def)
  with casts_never_fail [of "(rl2, ?w p)" demo_blk 20 Assert_fail newline_ops "[]" Bad_pointer] rl(1) p rl2 show ?thesis
    by (auto simp: server_ctx_run_def post_def simp del: kq_runloop_run.simps)
qed

end
