(* ===== verification/Spec2Isabelle.thy ===== *)
theory Spec2Isabelle
  imports C_Queue Url Http_Sync_Socket Http_Connection Echo_Types
begin

text \<open>
  \<^bold>\<open>A verification of network_c_http.\<close>

  The repository is a small HTTP server and client library in C. Sockets are watched by a run
  loop, bytes are read asynchronously into I/O buffers, a message parser driven by \<^verbatim>\<open>llhttp\<close> turns them
  into messages, and messages are serialised into buffers that are written back. This development
  is a shallow embedding of those parts: one theory per component, in the order the code builds on
  itself, each with the state as a record, one definition per C function with the name of that
  function, and the theorems about it. Paths below are under \<^verbatim>\<open>src/\<close>.

  \<^bold>\<open>The model of C.\<close> \<^verbatim>\<open>C_Prelude\<close>: every function that can fail returns \<open>'a res\<close>, an error or a value.
  The errors are a failed \<open>assert\<close>, a NULL or bad pointer, an access outside a block, a read of an
  uninitialised byte, an overflow of \<open>int\<close>, a division by zero, a blocking call that does not
  return, and spent fuel. Memory blocks are lists of optional bytes, so uninitialised memory is
  visible. Integers are mathematical where the code checks them and words where it wraps.
  Allocation does not fail.

  \<^bold>\<open>Theories and sources.\<close>
  \<^item> \<^verbatim>\<open>C_Ring\<close>, \<^verbatim>\<open>C_Queue\<close> (\<^verbatim>\<open>src/common/queue.c\<close>): the locale \<open>bounded_fifo\<close> and the blocking queue
    between threads. Threads are steps of an interleaving; order, absence of lost wake-ups and
    absence of a global jam are shown for all interleavings.
  \<^item> \<^verbatim>\<open>C_List\<close> (\<^verbatim>\<open>src/common/list.c\<close>): the doubly linked list over an explicit heap of nodes; it
    refines sequences (locale \<open>c_deque\<close>), up to the overflow of its counter, an \<open>int\<close>. Lists of more than
    \<open>INT_MAX\<close> items are therefore excluded wherever a list is filled.
  \<^item> \<^verbatim>\<open>C_Buffer\<close>, \<^verbatim>\<open>Io_Buffer\<close>, \<^verbatim>\<open>Buffer_Chain\<close> (\<^verbatim>\<open>src/common/cbuffer.c\<close>, \<^verbatim>\<open>iobuffer.c\<close>, \<^verbatim>\<open>buffer_chain.c\<close>):
    the exact outcome of appending and formatting, out of bounds writes included; the locale
    \<open>byte_sink\<close> collects what appending promises.
  \<^item> \<^verbatim>\<open>Url_Parser\<close>, \<^verbatim>\<open>Url\<close> (\<^verbatim>\<open>src/common/url_parser.c\<close>, \<^verbatim>\<open>url.c\<close>): both state machines; safety for every
    input below 64 KB, where the 16-bit offsets do not wrap, and a round trip of printed URLs.
  \<^item> \<^verbatim>\<open>Kv_Headers\<close>, \<^verbatim>\<open>Http_Message\<close> (\<^verbatim>\<open>src/http/\<close>, \<^verbatim>\<open>src/http_protocol/http_message.c\<close>): header lists
    (locale \<open>header_store\<close>) and the serialised text of messages.
  \<^item> \<^verbatim>\<open>Http_Parser\<close>, \<^verbatim>\<open>Http_Parser_Spec\<close> (\<^verbatim>\<open>src/http_protocol/http_message_parser.c\<close>): the callbacks, and
    a simulation by an abstract parser on strings.
  \<^item> \<^verbatim>\<open>Http_Sync_Socket\<close> (\<^verbatim>\<open>src/http_protocol/http_sync_socket.c\<close>): reading and writing whole messages.
  \<^item> \<^verbatim>\<open>Functor_List\<close>, \<^verbatim>\<open>Ready_Loop\<close>, \<^verbatim>\<open>Fd_Table\<close>, \<^verbatim>\<open>Runloop\<close> (\<^verbatim>\<open>src/runloop/epoll_runloop/\<close> \<^verbatim>\<open>functor.c\<close>, \<^verbatim>\<open>functor_list.c\<close>,
    \<^verbatim>\<open>fdtable.c\<close>, \<^verbatim>\<open>fd_map.c\<close>, \<^verbatim>\<open>runloop.c\<close>): the ready list is a \<open>bounded_fifo\<close>, the table an
    \<open>fd_registry\<close>; the table agrees with the kernel, and posted work runs in order and ends. The
    inner loop that runs posted work is a locale, \<open>ready_loop\<close>, which the kqueue loop shares.
  \<^item> \<^verbatim>\<open>Eventfd\<close> (\<^verbatim>\<open>w_eventfd.c\<close>, \<^verbatim>\<open>w_eventfd_queue.c\<close>, \<^verbatim>\<open>w_queue_watcher.c\<close>, \<^verbatim>\<open>w_interthread_queue.c\<close>):
    wake-ups across threads, as an interleaving of adding threads and the loop.
  \<^item> \<^verbatim>\<open>Watchers\<close> (\<^verbatim>\<open>w_stream.c\<close>, \<^verbatim>\<open>w_listener.c\<close>, \<^verbatim>\<open>w_timerfd.c\<close>): armed events agree with the kernel's
    interest; the outcome of accepting; the delay of timers.
  \<^item> \<^verbatim>\<open>Asio_Stream\<close> (\<^verbatim>\<open>asio_stream.c\<close>): asynchronous reads and writes, with callbacks that can start
    further operations.
  \<^item> \<^verbatim>\<open>Http_Connection\<close> (\<^verbatim>\<open>src/http_protocol/http_connection.c\<close>): requests and responses of one
    connection, on the stream, the run loop, the parser and the list.
  \<^item> \<^verbatim>\<open>Event_Table\<close>, \<^verbatim>\<open>Kqueue\<close>, \<^verbatim>\<open>Kqueue_Watchers\<close> (\<^verbatim>\<open>src/runloop/kqueue_runloop/\<close> \<^verbatim>\<open>event_table.c\<close>,
    \<^verbatim>\<open>kqueue_helpers.c\<close>, \<^verbatim>\<open>runloop.c\<close>, \<^verbatim>\<open>stream.c\<close>, \<^verbatim>\<open>timer.c\<close>, \<^verbatim>\<open>listener.c\<close>, \<^verbatim>\<open>user_event.c\<close>): the run loop for
    systems with kqueue. Watchers are slabs of a table (locale \<open>slot_pool\<close>); the kernel's events are
    part of the state. Functions that have the name of one of the epoll loop carry the prefix \<open>kq_\<close>.
  \<^item> \<^verbatim>\<open>Kqueue_Safety\<close>: reachable states of that loop as an inductive predicate, and the invariant that
    reported events carry live watchers. \<^verbatim>\<open>Kqueue_Behaviour\<close>: streams refine a record of what is
    enabled; user events and timers; both run loops agree on posted work.
  \<^item> \<^verbatim>\<open>App_Messages\<close> (\<^verbatim>\<open>apps/msg/\<close>, \<^verbatim>\<open>apps/mstream/mstream.c\<close>): the two message formats of the sample
    applications, each an instance of the locale \<open>msg_format\<close>, and the synchronous stream, which is
    proved once in that locale; the demo parser is a reference automaton up to
    the first text that is too long, which aborts.
  \<^item> \<^verbatim>\<open>Tcp_Stream\<close> (\<^verbatim>\<open>apps/tcp/\<close>), \<^verbatim>\<open>Echo_Server\<close> (\<^verbatim>\<open>apps/async_msg_stream/\<close>, \<^verbatim>\<open>apps/server_apps/echo_app.c\<close>,
    \<^verbatim>\<open>apps/server_process/server_ctx.c\<close>): the sample server, on the kqueue loop, for either message format.
    Its objects are lists in one state; \<open>void*\<close> pointers are references to them, function pointers are names, and
    \<open>server_call\<close> says what the loop does when it calls one.
  \<^item> \<^verbatim>\<open>Echo_Correct\<close>, \<^verbatim>\<open>Echo_Run\<close>: the locale \<open>echo_format\<close> extends \<open>msg_format\<close> by what the server needs of a format.
    The steps of a connection are proved in it, then that a whole run answers every message once and in order and
    ends; the failures of the server follow. \<^verbatim>\<open>Echo_Types\<close>: the server is well typed behind its \<open>void*\<close> pointers.
  \<^item> This theory: what comes out when parsed messages are serialised again.

  \<^bold>\<open>Parameters.\<close> The generated state machine \<^verbatim>\<open>llhttp\<close> is a record of functions: what callbacks it
  makes on a buffer, the error and the next state. What the parser needs of it is a hypothesis on
  the sequence of callbacks, never on the buffers' contents. The kernel is part of the state where
  it has one (the interest set of epoll, the events of kqueue, counters of eventfds, settings of
  timers, the sockets of the sample server) and an argument where it decides (results of \<open>read\<close>, \<open>write\<close>, \<open>accept\<close>, \<open>epoll_wait\<close>, the active events of \<open>kevent\<close>). Callbacks of clients are
  functions on the whole state. Formats are replaced by the text they produce.

  \<^bold>\<open>Fuel.\<close> The loops of \<open>runloop_run\<close> carry fuel because posted functions may post for ever;
  the theorem on posted work shows the fuel that suffices. The loop of \<open>runloop_close\<close> has one unit
  per table entry and one more, which the theorem on closing shows to be enough; the loop of the newline
  parser has one per byte and one more. The runs of the sample server have enough fuel from some number
  on, by the theorems on whole runs. All other loops
  are structural recursions or have termination proofs.

  \<^bold>\<open>Conditions.\<close> A theorem that says what the code achieves names what it needs for that in its text:
  limits of sizes, \<open>llhttp\<close> reporting a reason phrase in one piece, memory of \<open>malloc\<close> that happens to be null,
  \<open>errno\<close> not being 0 at the end of the data. Most of these conditions are there because the code fails
  without them.

  \<^bold>\<open>Defects.\<close> Where the code does not do what it means to, the theorem states what it does: the
  theorems named after outcomes, aborts, stalls, losses and overflows characterise these cases
  exactly and say which calls are affected.

  \<^bold>\<open>Not modelled.\<close> The generated \<^verbatim>\<open>llhttp\<close> and its interface; the files of the kqueue loop that its
  build leaves out (its asynchronous stream and listener, queues and signals); opening, binding and connecting of sockets and the
  creation of identifiers, which are sequences of system calls; logging, tags and the unit test
  macros, which do not change the state the theorems are about (what a failed check of a tag does is an argument of
  the sample server); the command line programs, the tests and the superseded copies under \<^verbatim>\<open>junk/\<close>.
\<close>

section \<open>From the wire to the wire\<close>

text \<open>
  A relay: the handler of the parser serialises each message it gets. The text that leaves is
  the text of the message that came in, with the header names in upper case, whatever pieces the
  message arrived in.
\<close>

definition relay ::
  "(int \<Rightarrow> char list) \<Rightarrow> HttpMessage \<Rightarrow> IOBuffer list \<Rightarrow> IOBuffer list res" where
  "relay method_name m out =
     rbind (http_message_serialize method_name m) (\<lambda>iob. Inr (out @ [iob]))"

fun start_text :: "(int \<Rightarrow> char list) \<Rightarrow> int \<Rightarrow> start_line \<Rightarrow> char list" where
  "start_text nm mi (Req meth us) = nm meth @ '' '' @ concat us @ '' HTTP/1.'' @ c_dec mi"
| "start_text nm mi (Resp code r) = ''HTTP/1.'' @ c_dec mi @ ''  '' @ c_dec code @ '' '' @ r"

definition wire_text :: "(int \<Rightarrow> char list) \<Rightarrow> wire \<Rightarrow> char list" where
  "wire_text nm w =
     start_text nm (w_minor w) (w_start w) @ crlf @ header_text (map header_pair (w_headers w)) @ crlf @
     concat (w_body w)"

fun start_relayed :: "(int \<Rightarrow> char list) \<Rightarrow> start_line \<Rightarrow> bool" where
  "start_relayed nm (Req meth us) \<longleftrightarrow> no_nul (nm meth)"
| "start_relayed nm (Resp code r) \<longleftrightarrow> r \<noteq> []"

definition relayed :: "(int \<Rightarrow> char list) \<Rightarrow> wire \<Rightarrow> bool" where
  "relayed nm w \<longleftrightarrow>
     wire_ok w \<and> start_relayed nm (w_start w) \<and> length (wire_text nm w) \<le> 2147483000"

lemma c_dec_1: "c_dec 1 = ''1''"
  by (simp add: c_dec_def dec_nat.simps digit_char_def char_eval)

lemma str_rep_text: "str_rep x s \<Longrightarrow> s \<noteq> [] \<Longrightarrow> no_nul s \<Longrightarrow> text_cbuf x s"
  by (auto simp: str_rep_def text_cbuf_def)

lemma wire_first_line:
  assumes rep: "msg_rep m (wire_msg w)" and ok: "relayed nm w"
  shows "first_line nm m = Inr (start_text nm (w_minor w) (w_start w) @ crlf)"
    and "no_nul (start_text nm (w_minor w) (w_start w) @ crlf)"
proof -
  have v: "version_text m = ''HTTP/1.'' @ c_dec (w_minor w)"
    using rep by (cases "w_start w") (simp_all add: version_text_def msg_rep_def wire_msg_def c_dec_1)
  have "first_line nm m = Inr (start_text nm (w_minor w) (w_start w) @ crlf) \<and>
        no_nul (start_text nm (w_minor w) (w_start w) @ crlf)"
  proof (cases "w_start w")
    case (Req meth us)
    with rep ok have "is_request m = Some True" "hm_method m = Some meth" "text_cbuf (target m) (concat us)"
      by (auto simp: msg_rep_def wire_msg_def relayed_def wire_ok_def intro!: str_rep_text)
    from first_line_request [OF this, of nm] Req ok v show ?thesis
      by (auto simp: relayed_def wire_ok_def)
  next
    case (Resp code r)
    with rep ok have "is_request m = Some False" "status_code m = Some code" "text_cbuf (reason m) r"
      by (auto simp: msg_rep_def wire_msg_def relayed_def wire_ok_def intro!: str_rep_text)
    from first_line_response [OF this, of nm] Resp ok v show ?thesis
      by (auto simp: relayed_def wire_ok_def)
  qed
  then show "first_line nm m = Inr (start_text nm (w_minor w) (w_start w) @ crlf)"
    and "no_nul (start_text nm (w_minor w) (w_start w) @ crlf)" by simp_all
qed

lemma relay_message:
  assumes "msg_rep m (wire_msg w)" "relayed nm w"
  shows "\<exists>iob. http_message_serialize nm m = Inr iob \<and> iob_holds iob (wire_text nm w)"
proof -
  let ?line = "start_text nm (w_minor w) (w_start w) @ crlf"
  let ?kvs = "map header_pair (w_headers w)"
  have parts: "hdr_holds (hm_headers m) ?kvs" "body_holds (hm_body m) (concat (w_body w))"
    using assms(1)
    by (simp add: msg_rep_def wire_msg_def)
       (use assms(1) in \<open>cases "hm_body m"; auto simp: msg_rep_def wire_msg_def body_holds_def split: if_splits\<close>)
  have "length ?line + length (header_text ?kvs) + length (concat (w_body w)) + 2 \<le> 2147483000"
    using assms(2) by (simp add: relayed_def wire_text_def)
  moreover have "?line \<noteq> []" by simp
  ultimately have "\<exists>iob. http_message_serialize nm m = Inr iob \<and>
      iob_holds iob (?line @ header_text ?kvs @ crlf @ concat (w_body w))"
    using http_message_serialize_holds [OF wire_first_line [OF assms] _ parts] by blast
  then show ?thesis by (simp only: wire_text_def append_assoc)
qed

lemma relay_messages:
  assumes "list_all2 msg_rep ms (map wire_msg ws)" "list_all (relayed nm) ws"
  shows "\<exists>iobs. fold_res (relay nm) ms out = Inr (out @ iobs) \<and> list_all2 iob_holds iobs (map (wire_text nm) ws)"
  using assms
proof (induction ws arbitrary: ms out)
  case (Cons w ws)
  then obtain m ms' where ms: "ms = m # ms'" "msg_rep m (wire_msg w)" "list_all2 msg_rep ms' (map wire_msg ws)"
    by (auto simp: list_all2_Cons2)
  from relay_message [OF ms(2)] Cons.prems(2) obtain iob where
    iob: "http_message_serialize nm m = Inr iob" "iob_holds iob (wire_text nm w)" by auto
  from Cons.IH [OF ms(3), of "out @ [iob]"] Cons.prems(2) obtain iobs where
    "fold_res (relay nm) ms' (out @ [iob]) = Inr (out @ iob # iobs)"
    "list_all2 iob_holds iobs (map (wire_text nm) ws)" by auto
  moreover have "relay nm m out = Inr (out @ [iob])" by (simp add: relay_def iob(1))
  ultimately show ?case using ms(1) iob(2) by (intro exI [of _ "iob # iobs"]) simp
qed simp

text \<open>
  C10: Messages fed to a new parser and serialised by its message handler come out as the text of the
  same messages: start line, headers in order with upper case names, body. The messages are those of
  \<open>wire_ok\<close>, as for the parser alone: \<open>llhttp\<close> may cut targets, headers and bodies into pieces and
  reports a reason phrase in one, targets and reason phrases have fewer than 512 bytes, and headers
  and bodies fit their buffers. \<open>relayed\<close> adds what the serialiser needs: the reason
  phrase of a response is not empty, the name of a method has no zero byte, and the text of the message
  has at most 2147483000 bytes.
\<close>

theorem relay_preserves_messages:
  assumes "list_all (relayed nm) ws"
    and "filter (Not \<circ> quiet) (ll_trace ll (ll_init ll) cs) = concat (map wire_events ws)"
  shows "\<exists>p0 p1 iobs. http_message_parser_new ll = Inr p0 \<and>
           fold_res (feed ll (relay nm)) cs (p0, []) = Inr (p1, iobs) \<and>
           list_all2 iob_holds iobs (map (wire_text nm) ws)"
proof -
  have "list_all wire_ok ws" using assms(1) by (auto simp: list_all_iff relayed_def)
  from parsed_messages [OF this assms(2), where 's = "IOBuffer list"] obtain p0 p1 ms where
    p: "http_message_parser_new ll = Inr p0" "list_all2 msg_rep ms (map wire_msg ws)"
    "\<And>(h :: HttpMessage \<Rightarrow> IOBuffer list \<Rightarrow> IOBuffer list res) s.
       fold_res (feed ll h) cs (p0, s) = rbind (fold_res h ms s) (\<lambda>s1. Inr (p1, s1))"
    by (elim exE conjE) simp
  from relay_messages [OF p(2) assms(1), of "[]"] obtain iobs where
    "fold_res (relay nm) ms [] = Inr iobs" "list_all2 iob_holds iobs (map (wire_text nm) ws)" by auto
  with p(1,3) show ?thesis by auto
qed

theorem relay_preserves_messages_witness:
  "\<exists>p0 p1 iobs. http_message_parser_new demo_ll = Inr p0 \<and>
     fold_res (feed demo_ll (relay (\<lambda>_. ''GET''))) [''x'', ''y''] (p0, []) = Inr (p1, iobs) \<and>
     list_all2 iob_holds iobs [''GET /ab HTTP/1.1'' @ crlf @ ''HOST: h'' @ crlf @ crlf @ ''xyz'']"
  using relay_preserves_messages [of "\<lambda>_. ''GET''" "[demo_wire]" demo_ll "[''x'', ''y'']"]
  by (simp add: demo_ll_def demo_wire_def relayed_def wire_ok_def INT_MAX_def header_ok_def bc_takes_def cbuf_takes_def
      wire_events_def header_events_def wire_text_def header_pair_def c_dec_1 char_eval
      del: fold_res.simps)

end
